(* ===== verification/Prelude.thy ===== *)
theory Prelude
  imports Main "HOL-Library.Word"
begin

text \<open>
  Shared ground of the development: the machine types of the LP64 targets the library is
  built for, the C++ exceptions as values, results that keep the state an operation has
  already changed when it throws, and list facts the components share.

  Undefined behaviour of C++ (a read outside an object, a call through a null pointer) is
  the exception value \<open>Undef\<close>: it ends the operation like an exception does, but no
  \<open>catch\<close> clause of the code catches it.
\<close>

named_theorems bt_simps "facts about buffered transports"
named_theorems store_simps "facts about the store of buffers"

section \<open>Bytes and C integers\<close>

type_synonym byte = "8 word"
type_synonym bytes = "byte list"

text \<open>
  \<open>to_int32\<close> is the conversion of an integer value to \<open>int\<close> (32 bit, two's
  complement), \<open>to_size\<close> the conversion to \<open>size_t\<close> (64 bit, unsigned).
\<close>

definition to_int32 :: "int \<Rightarrow> int" where
  "to_int32 x = (x + 2147483648) mod 4294967296 - 2147483648"

definition to_size :: "int \<Rightarrow> nat" where
  "to_size x = nat (x mod 18446744073709551616)"

lemma to_int32_id [simp]: "-2147483648 \<le> x \<Longrightarrow> x < 2147483648 \<Longrightarrow> to_int32 x = x"
  by (simp add: to_int32_def)

lemma to_int32_range: "-2147483648 \<le> to_int32 x" "to_int32 x < 2147483648"
  by (simp_all add: to_int32_def)

lemma to_size_id [simp]: "0 \<le> x \<Longrightarrow> x < 18446744073709551616 \<Longrightarrow> to_size x = nat x"
  by (simp add: to_size_def)

lemma to_size_range: "to_size x < 18446744073709551616"
  by (simp add: to_size_def nat_less_iff)

lemma to_int32_to_size: "to_int32 (int (to_size x)) = to_int32 x"
proof -
  have "(x mod 18446744073709551616 + 2147483648) mod 4294967296
      = (x mod 18446744073709551616 mod 4294967296 + 2147483648) mod (4294967296::int)"
    by presburger
  also have "x mod 18446744073709551616 mod 4294967296 = x mod (4294967296::int)"
    by (rule mod_mod_cancel) simp
  finally show ?thesis by (simp add: to_int32_def to_size_def mod_add_left_eq)
qed

section \<open>Exceptions and results\<close>

text \<open>
  The exception classes of \<^verbatim>\<open>src/Exception.h\<close>, what the standard library throws, the
  \<open>MPFD::Exception\<close> of the form parser, the end of the process when an exception leaves a
  \<open>throw()\<close> function, and undefined behaviour. \<open>GenericException\<close> is the base class
  \<open>Exception\<close>, which the \<open>catch\<close> clauses for its subclasses do not catch.
\<close>

datatype exn =
    GenericException string
  | ThreadException string
  | SocketException string
  | RedisException int string
  | IllegalStateException string
  | IllegalArgumentException
  | NoSuchElementException
  | ProtocolException string
  | StdOutOfRange
  | StdInvalidArgument
  | Terminated string
  | MpfdException string
  | Undef string

type_synonym ('a, 's) res = "(exn + 'a) \<times> 's"

fun bindR :: "('a, 's) res \<Rightarrow> ('a \<Rightarrow> 's \<Rightarrow> ('b, 's) res) \<Rightarrow> ('b, 's) res" where
  "bindR (Inl e, s) f = (Inl e, s)"
| "bindR (Inr a, s) f = f a s"

lemma bindR_assoc: "bindR (bindR m f) g = bindR m (\<lambda>a s. bindR (f a s) g)"
  by (cases "(m, f)" rule: bindR.cases) simp_all

lemma bindR_cong [fundef_cong]:
  "m = m' \<Longrightarrow> (\<And>a s. m' = (Inr a, s) \<Longrightarrow> f a s = f' a s) \<Longrightarrow> bindR m f = bindR m' f'"
  by (cases "(m, f)" rule: bindR.cases) auto

lemma bindR_Inr_iff:
  "bindR m f = (Inr b, t) \<longleftrightarrow> (\<exists>a s. m = (Inr a, s) \<and> f a s = (Inr b, t))"
  by (cases "(m, f)" rule: bindR.cases) auto

text \<open>What \<open>catch(ProtocolException \&) ... catch(SocketException \&)\<close> catches.\<close>

fun caught_read :: "exn \<Rightarrow> bool" where
  "caught_read (ProtocolException _) = True"
| "caught_read (SocketException _) = True"
| "caught_read _ = False"

text \<open>To go through a cascade of conditions.\<close>

lemma if_case: "(b \<Longrightarrow> P x) \<Longrightarrow> (\<not> b \<Longrightarrow> P y) \<Longrightarrow> P (if b then x else y)"
  by simp

section \<open>Lists\<close>

text \<open>
  A \<open>std::set\<close> of pointers and the keys of a \<open>std::map\<close>: strictly sorted lists.
  Insertion of a member, and removal of a non-member, change nothing.
\<close>

definition set_insert :: "'a::linorder \<Rightarrow> 'a list \<Rightarrow> 'a list" where
  "set_insert x xs = (if x \<in> set xs then xs else insort x xs)"

definition set_erase :: "'a::linorder \<Rightarrow> 'a list \<Rightarrow> 'a list" where
  "set_erase x xs = filter (\<lambda>y. y \<noteq> x) xs"

lemma set_set_insert [simp]: "set (set_insert x xs) = insert x (set xs)"
  by (auto simp: set_insert_def set_insort_key)

lemma set_set_erase [simp]: "set (set_erase x xs) = set xs - {x}"
  by (auto simp: set_erase_def)

lemma sorted_distinct_set_insert [simp]:
  "sorted xs \<and> distinct xs \<Longrightarrow> sorted (set_insert x xs) \<and> distinct (set_insert x xs)"
  by (auto simp: set_insert_def sorted_insort distinct_insort)

lemma sorted_distinct_set_erase [simp]:
  "sorted xs \<and> distinct xs \<Longrightarrow> sorted (set_erase x xs) \<and> distinct (set_erase x xs)"
  by (auto simp: set_erase_def sorted_filter[of "\<lambda>x. x", simplified])

lemma set_erase_insert: "x \<notin> set xs \<Longrightarrow> set_erase x (set_insert x xs) = xs"
proof -
  assume a: "x \<notin> set xs"
  have f: "filter (\<lambda>y. y \<noteq> x) (insort x ys) = filter (\<lambda>y. y \<noteq> x) ys" for ys
    by (induction ys) auto
  show ?thesis using a by (simp add: set_insert_def set_erase_def f) (auto intro: filter_True)
qed

end
