(* ===== verification/Endian.thy ===== *)
theory Endian
  imports Prelude
begin

text \<open>
  Byte order. The integers the transports write go through \<open>htonl\<close> / \<open>htons\<close> (or
  not, when \<open>_setLittleEndian_on\<close> is set) and are then copied as the host lays them out in
  memory; the targets are little endian. \<open>le16\<close>, \<open>le32\<close> and \<open>le64\<close> are the
  memory images, \<open>of_le16\<close> and so on read them back (the \<open>union bytes\<close> of the
  readers), \<open>htonl\<close>, \<open>htons\<close> swap bytes and are their own inverses.
\<close>

unbundle bit_operations_syntax

fun le_bytes :: "nat \<Rightarrow> 'a::len word \<Rightarrow> bytes" where
  "le_bytes 0 w = []"
| "le_bytes (Suc n) w = ucast w # le_bytes n (drop_bit 8 w)"

fun of_le :: "bytes \<Rightarrow> 'a::len word" where
  "of_le [] = 0"
| "of_le (b # bs) = ucast b OR push_bit 8 (of_le bs)"

definition le16 :: "16 word \<Rightarrow> bytes" where
  "le16 w = le_bytes 2 w"

definition le32 :: "32 word \<Rightarrow> bytes" where
  "le32 w = le_bytes 4 w"

definition le64 :: "64 word \<Rightarrow> bytes" where
  "le64 w = le_bytes 8 w"

text \<open>The byte order functions of the C library on a little endian host.\<close>

definition htons :: "16 word \<Rightarrow> 16 word" where
  "htons w = of_le (rev (le16 w))"

definition htonl :: "32 word \<Rightarrow> 32 word" where
  "htonl w = of_le (rev (le32 w))"

text \<open>
  The 64 bit swap \<open>BufferedTransport::writeInt64\<close> and \<open>readInt64\<close> build from two
  32 bit swaps: the argument of \<open>htonl\<close> is truncated to 32 bits.
\<close>

definition hton64 :: "64 word \<Rightarrow> 64 word" where
  "hton64 v = push_bit 32 (ucast (htonl (ucast v))) OR ucast (htonl (ucast (drop_bit 32 v)))"

definition ntoh64 :: "64 word \<Rightarrow> 64 word" where
  "ntoh64 n = ucast (htonl (ucast (drop_bit 32 n))) OR push_bit 32 (ucast (htonl (ucast n)))"

lemma length_le_bytes [simp]: "length (le_bytes n w) = n"
  by (induction n arbitrary: w) auto

lemma length_le [simp]: "length (le16 a) = 2" "length (le32 b) = 4" "length (le64 c) = 8"
  by (simp_all add: le16_def le32_def le64_def)

lemma of_le_le_bytes: "of_le (le_bytes n w) = take_bit (8 * n) w"
proof (induction n arbitrary: w)
  case 0
  then show ?case by simp
next
  case (Suc n)
  show ?case by (rule bit_word_eqI) (auto simp: Suc bit_simps not_less)
qed

lemma bit_of_le: "bit (of_le bs :: 'a::len word) n \<Longrightarrow> n < 8 * length bs"
proof (induction bs arbitrary: n)
  case Nil
  then show ?case by simp
next
  case (Cons b bs)
  have byte: "bit b n \<Longrightarrow> n < 8" by (auto dest: bit_imp_le_length)
  show ?case
    using Cons.prems Cons.IH [of "n - 8"] byte by (fastforce simp: bit_simps)
qed

lemma le_bytes_of_le:
  "8 * length bs \<le> LENGTH('a) \<Longrightarrow> le_bytes (length bs) (of_le bs :: 'a::len word) = bs"
proof (induction bs)
  case Nil
  then show ?case by simp
next
  case (Cons b bs)
  have hd: "(ucast (of_le (b # bs) :: 'a word) :: byte) = b"
    using Cons.prems by (intro bit_word_eqI) (auto simp: bit_simps)
  have tl: "drop_bit 8 (of_le (b # bs) :: 'a word) = of_le bs"
    using Cons.prems
    by (intro bit_word_eqI) (fastforce simp: bit_simps dest: bit_imp_le_length bit_of_le)
  show ?case using hd tl Cons by simp
qed

lemma of_le_le16 [simp]: "of_le (le16 w) = w"
  and of_le_le32 [simp]: "of_le (le32 v) = v"
  and of_le_le64 [simp]: "of_le (le64 u) = u"
  by (simp_all add: le16_def le32_def le64_def of_le_le_bytes take_bit_word_eq_self)

lemma le_of_le:
  "length bs = 2 \<Longrightarrow> le16 (of_le bs) = bs" "length bs = 4 \<Longrightarrow> le32 (of_le bs) = bs"
  using le_bytes_of_le [of bs, where 'a = 16] le_bytes_of_le [of bs, where 'a = 32]
  by (auto simp: le16_def le32_def)

text \<open>Network order is big endian: the most significant byte comes first.\<close>

lemma le32_htonl: "le32 (htonl w) = rev (le32 w)"
  by (simp add: htonl_def le_of_le)

lemma le16_htons: "le16 (htons w) = rev (le16 w)"
  by (simp add: htons_def le_of_le)

lemma htonl_htonl [simp]: "htonl (htonl w) = w"
  unfolding htonl_def [of "htonl w"] by (simp add: le32_htonl)

lemma htons_htons [simp]: "htons (htons w) = w"
  unfolding htons_def [of "htons w"] by (simp add: le16_htons)

lemma ntoh64_hton64: "ntoh64 (hton64 v) = v"
proof -
  have len: "bit (w::32 word) n \<Longrightarrow> n < 32" for w n
    by (auto dest: bit_imp_le_length)
  have a: "(ucast (drop_bit 32 (hton64 v)) :: 32 word) = htonl (ucast v)"
    by (rule bit_word_eqI) (auto simp: hton64_def bit_simps dest: len)
  have b: "(ucast (hton64 v) :: 32 word) = htonl (ucast (drop_bit 32 v))"
    by (rule bit_word_eqI) (auto simp: hton64_def bit_simps)
  show ?thesis unfolding ntoh64_def a b htonl_htonl
    by (rule bit_word_eqI) (auto simp: bit_simps not_less)
qed

end
