(* ===== verification/Transport.thy ===== *)
theory Transport
  imports Endian
begin

text \<open>
  \<^verbatim>\<open>src/BufferedTransport.h\<close> and \<^verbatim>\<open>src/BufferedTransport.cpp\<close>: the byte buffer with a
  read position that every protocol reads from and writes to.

  The record is the object: \<open>bt_buf\<close> is the \<open>std::string\<close> \<open>buffer_\<close>,
  \<open>bt_pos\<close> the \<open>int\<close> \<open>readPos_\<close> (Isabelle names do not end in an underscore).
  A pointer into the buffer is its offset from \<open>basePtr()\<close>; \<open>bt_mem\<close> is a read through
  such a pointer and is \<open>Undef\<close> outside the string. Sizes are the values of \<open>size_t\<close>;
  where the code assigns a \<open>size_t\<close> expression to \<open>int\<close> the conversion is written
  out. The flag \<open>le\<close> is the global \<open>_setLittleEndian_on\<close>. The lock of the object is
  held around each operation and leaves no trace here.
\<close>

section \<open>The buffer\<close>

record buffered_transport =
  bt_buf :: bytes
  bt_pos :: int

definition newBufferedTransport :: buffered_transport where
  "newBufferedTransport = \<lparr>bt_buf = [], bt_pos = 0\<rparr>"

definition bt_totalSize :: "buffered_transport \<Rightarrow> nat" where
  "bt_totalSize t = length (bt_buf t)"

definition bt_remainingSize :: "buffered_transport \<Rightarrow> nat" where
  "bt_remainingSize t = to_size (int (length (bt_buf t)) - bt_pos t)"

definition bt_readPos :: "buffered_transport \<Rightarrow> nat" where
  "bt_readPos t = to_size (bt_pos t)"

definition bt_basePtr :: "buffered_transport \<Rightarrow> int" where
  "bt_basePtr t = 0"

definition bt_currentPtr :: "buffered_transport \<Rightarrow> int" where
  "bt_currentPtr t = bt_pos t"

definition bt_mem :: "buffered_transport \<Rightarrow> int \<Rightarrow> nat \<Rightarrow> exn + bytes" where
  "bt_mem t off n =
     (if n = 0 then Inr []
      else if 0 \<le> off \<and> nat off + n \<le> length (bt_buf t)
      then Inr (take n (drop (nat off) (bt_buf t)))
      else Inl (Undef ''read outside the buffer''))"

definition bt_write :: "bytes \<Rightarrow> buffered_transport \<Rightarrow> (int, buffered_transport) res" where
  "bt_write bs t = (Inr (to_int32 (int (length bs))), t\<lparr>bt_buf := bt_buf t @ bs\<rparr>)"

definition bt_erase :: "nat \<Rightarrow> nat \<Rightarrow> buffered_transport \<Rightarrow> (int, buffered_transport) res" where
  "bt_erase pos sz t =
     (if length (bt_buf t) < to_size (int pos + int sz)
      then (Inl (ProtocolException ''erase size greater than buffer size''), t)
      else if length (bt_buf t) < pos then (Inl StdOutOfRange, t)
      else (Inr (to_int32 (int sz)),
            t\<lparr>bt_buf := take pos (bt_buf t) @ drop (pos + sz) (bt_buf t)\<rparr>))"

definition bt_insertInt8 :: "nat \<Rightarrow> byte \<Rightarrow> buffered_transport \<Rightarrow> (int, buffered_transport) res" where
  "bt_insertInt8 pos v t =
     (if length (bt_buf t) < pos then (Inl StdOutOfRange, t)
      else (Inr 1, t\<lparr>bt_buf := take pos (bt_buf t) @ v # drop pos (bt_buf t)\<rparr>))"

definition bt_fastforward :: "nat \<Rightarrow> buffered_transport \<Rightarrow> (unit, buffered_transport) res" where
  "bt_fastforward sz t =
     (let temp = to_int32 (bt_pos t + int sz) in
      if to_int32 (int (length (bt_buf t))) < temp
      then (Inl (GenericException ''readpos exceed buffer size by fastforward''), t)
      else (Inr (), t\<lparr>bt_pos := temp\<rparr>))"

definition bt_rewind :: "nat \<Rightarrow> buffered_transport \<Rightarrow> (unit, buffered_transport) res" where
  "bt_rewind sz t =
     (let temp = to_int32 (bt_pos t - int sz) in
      if temp < 0 then (Inl (ProtocolException ''readpos less than 0 by rewind''), t)
      else (Inr (), t\<lparr>bt_pos := temp\<rparr>))"

definition bt_setReadPos :: "nat \<Rightarrow> buffered_transport \<Rightarrow> (unit, buffered_transport) res" where
  "bt_setReadPos pos t =
     (if bt_totalSize t \<le> pos
      then (Inl (ProtocolException ''readpos less than 0 by rewind''), t)
      else (Inr (), t\<lparr>bt_pos := to_int32 (int pos)\<rparr>))"

definition bt_clear :: "buffered_transport \<Rightarrow> buffered_transport" where
  "bt_clear t = t\<lparr>bt_buf := [], bt_pos := 0\<rparr>"

text \<open>
  \<open>read(void *, size)\<close>: the request is cut to what remains, the bytes are copied, the
  read position moves. The result is the bytes copied and the \<open>int\<close> returned.
\<close>

definition bt_read :: "nat \<Rightarrow> buffered_transport \<Rightarrow> (bytes \<times> int, buffered_transport) res" where
  "bt_read sz t =
     (let sz = (if bt_remainingSize t < sz then bt_remainingSize t else sz) in
      case bt_mem t (bt_currentPtr t) sz of
        Inl e \<Rightarrow> (Inl e, t)
      | Inr bs \<Rightarrow> bindR (bt_fastforward sz t) (\<lambda>_ t. (Inr (bs, to_int32 (int sz)), t)))"

text \<open>\<open>read(std::string \&, size)\<close>: the same, into a string.\<close>

definition bt_read_string :: "nat \<Rightarrow> buffered_transport \<Rightarrow> (bytes \<times> int, buffered_transport) res" where
  "bt_read_string sz t =
     (let sz = (if bt_remainingSize t < sz then bt_remainingSize t else sz) in
      case bt_mem t (bt_currentPtr t) sz of
        Inl e \<Rightarrow> (Inl e, t)
      | Inr data \<Rightarrow> bindR (bt_fastforward sz t) (\<lambda>_ t. (Inr (data, to_int32 (int sz)), t)))"

definition bt_peek :: "nat \<Rightarrow> buffered_transport \<Rightarrow> (bytes \<times> int, buffered_transport) res" where
  "bt_peek sz t =
     (let sz = (if bt_remainingSize t < sz then bt_remainingSize t else sz) in
      case bt_mem t (bt_currentPtr t) sz of
        Inl e \<Rightarrow> (Inl e, t)
      | Inr bs \<Rightarrow> (Inr (bs, to_int32 (int sz)), t))"

text \<open>\<open>peek(size_t \&size)\<close> returns a pointer and the cut size.\<close>

definition bt_peekPtr :: "nat \<Rightarrow> buffered_transport \<Rightarrow> int \<times> nat" where
  "bt_peekPtr sz t =
     (bt_currentPtr t, if bt_remainingSize t < sz then bt_remainingSize t else sz)"

definition bt_throwAway :: "nat \<Rightarrow> buffered_transport \<Rightarrow> (unit, buffered_transport) res" where
  "bt_throwAway sz t = bt_fastforward sz t"

definition bt_readString :: "nat \<Rightarrow> buffered_transport \<Rightarrow> (bytes, buffered_transport) res" where
  "bt_readString sz t =
     (let sz = (if bt_remainingSize t < sz then bt_remainingSize t else sz) in
      case bt_mem t (bt_currentPtr t) sz of
        Inl e \<Rightarrow> (Inl e, t)
      | Inr str \<Rightarrow> bindR (bt_fastforward sz t) (\<lambda>_ t. (Inr str, t)))"

definition bt_toStringFromCurrentPtr :: "buffered_transport \<Rightarrow> exn + bytes" where
  "bt_toStringFromCurrentPtr t = bt_mem t (bt_currentPtr t) (bt_remainingSize t)"

definition bt_toStringFromBasePtr :: "buffered_transport \<Rightarrow> exn + bytes" where
  "bt_toStringFromBasePtr t = bt_mem t (bt_basePtr t) (bt_totalSize t)"

section \<open>Well-formed buffers\<close>

text \<open>
  In a well-formed buffer the read position lies in the buffer and the buffer is small
  enough for \<open>int\<close>. \<open>bt_rest\<close> is its abstraction: the bytes not yet read.
\<close>

definition bt_ok :: "buffered_transport \<Rightarrow> bool" where
  "bt_ok t \<longleftrightarrow> 0 \<le> bt_pos t \<and> bt_pos t \<le> int (length (bt_buf t))
             \<and> length (bt_buf t) < 2147483648"

definition bt_rest :: "buffered_transport \<Rightarrow> bytes" where
  "bt_rest t = drop (nat (bt_pos t)) (bt_buf t)"

lemma bt_okD:
  assumes "bt_ok t"
  shows "0 \<le> bt_pos t" "nat (bt_pos t) \<le> length (bt_buf t)"
    "bt_pos t < 2147483648" "length (bt_buf t) < 2147483648"
  using assms by (auto simp: bt_ok_def)

lemma bt_ok_new [simp]: "bt_ok newBufferedTransport" "bt_rest newBufferedTransport = []"
  by (simp_all add: bt_ok_def bt_rest_def newBufferedTransport_def)

lemma bt_remainingSize_ok [bt_simps]: "bt_ok t \<Longrightarrow> bt_remainingSize t = length (bt_rest t)"
  by (auto simp: bt_ok_def bt_remainingSize_def bt_rest_def nat_diff_distrib)

lemma bt_readPos_ok [bt_simps]: "bt_ok t \<Longrightarrow> int (bt_readPos t) = bt_pos t"
  by (auto simp: bt_ok_def bt_readPos_def)

lemma bt_totalSize_ok [bt_simps]:
  "bt_ok t \<Longrightarrow> bt_totalSize t = bt_readPos t + length (bt_rest t)"
  by (auto simp: bt_ok_def bt_totalSize_def bt_readPos_def bt_rest_def)

lemma bt_mem_current [bt_simps]:
  "bt_ok t \<Longrightarrow> n \<le> length (bt_rest t) \<Longrightarrow> bt_mem t (bt_currentPtr t) n = Inr (take n (bt_rest t))"
  by (auto simp: bt_ok_def bt_mem_def bt_currentPtr_def bt_rest_def)

definition bt_advance :: "nat \<Rightarrow> buffered_transport \<Rightarrow> buffered_transport" where
  "bt_advance n t = t\<lparr>bt_pos := bt_pos t + int n\<rparr>"

lemma bt_advance_ok [bt_simps]:
  "bt_ok t \<Longrightarrow> n \<le> length (bt_rest t) \<Longrightarrow> bt_ok (bt_advance n t)"
  "bt_ok t \<Longrightarrow> bt_rest (bt_advance n t) = drop n (bt_rest t)"
  "bt_buf (bt_advance n t) = bt_buf t"
  "bt_pos (bt_advance n t) = bt_pos t + int n"
  by (auto simp: bt_ok_def bt_advance_def bt_rest_def nat_add_distrib add.commute)

lemma bt_advance_0 [simp]: "bt_advance 0 t = t"
  by (simp add: bt_advance_def)

lemma bt_advance_add [simp]: "bt_advance m (bt_advance n t) = bt_advance (n + m) t"
  by (simp add: bt_advance_def)

lemma bt_fastforward_ok [bt_simps]:
  assumes "bt_ok t" "n \<le> length (bt_rest t)"
  shows "bt_fastforward n t = (Inr (), bt_advance n t)"
proof -
  have "bt_pos t + int n \<le> int (length (bt_buf t))"
    using assms by (auto simp: bt_ok_def bt_rest_def)
  with bt_okD [OF assms(1)] show ?thesis
    by (simp add: bt_fastforward_def bt_advance_def Let_def)
qed

lemma bt_fastforward_too_far:
  assumes "bt_ok t" "length (bt_rest t) < n" "n < 2147483648 - length (bt_buf t)"
  shows "bt_fastforward n t = (Inl (GenericException ''readpos exceed buffer size by fastforward''), t)"
proof -
  have "int (length (bt_buf t)) < bt_pos t + int n" "bt_pos t + int n < 2147483648"
    using assms by (auto simp: bt_ok_def bt_rest_def)
  with bt_okD [OF assms(1)] show ?thesis
    by (simp add: bt_fastforward_def)
qed

lemma bt_read_ok [bt_simps]:
  assumes "bt_ok t"
  shows "bt_read n t = (Inr (take n (bt_rest t), int (min n (length (bt_rest t)))),
                        bt_advance (min n (length (bt_rest t))) t)"
proof -
  have "int (length (bt_rest t)) < 2147483648"
    using bt_okD(4) [OF assms] by (simp add: bt_rest_def)
  moreover have "take (min n (length (bt_rest t))) (bt_rest t) = take n (bt_rest t)"
    by (simp add: min_def)
  ultimately show ?thesis
    using assms by (auto simp: bt_read_def bt_simps Let_def min_def)
qed

lemma bt_read_string_eq: "bt_read_string n t = bt_read n t"
  by (simp add: bt_read_string_def bt_read_def)

lemma bt_readString_ok [bt_simps]:
  assumes "bt_ok t"
  shows "bt_readString n t
       = (Inr (take n (bt_rest t)), bt_advance (min n (length (bt_rest t))) t)"
  using assms by (auto simp: bt_readString_def bt_simps Let_def min_def)

lemma bt_write_ok [bt_simps]:
  assumes "bt_ok t" "length (bt_buf t) + length bs < 2147483648"
  shows "bt_write bs t = (Inr (int (length bs)), t\<lparr>bt_buf := bt_buf t @ bs\<rparr>)"
    "bt_ok (snd (bt_write bs t))" "bt_rest (snd (bt_write bs t)) = bt_rest t @ bs"
  using assms by (auto simp: bt_write_def bt_ok_def bt_rest_def)

lemma bt_ok_append [bt_simps]:
  assumes "bt_ok t" "length (bt_buf t) + length bs < 2147483648"
  shows "bt_ok (t\<lparr>bt_buf := bt_buf t @ bs\<rparr>)" "bt_rest (t\<lparr>bt_buf := bt_buf t @ bs\<rparr>) = bt_rest t @ bs"
  using assms by (auto simp: bt_ok_def bt_rest_def)

lemma bt_clear_ok [simp]: "bt_ok (bt_clear t)" "bt_rest (bt_clear t) = []"
  "bt_buf (bt_clear t) = []" "bt_pos (bt_clear t) = 0"
  by (simp_all add: bt_clear_def bt_ok_def bt_rest_def)

end
