(* ===== verification/TransportHelper.thy ===== *)
theory TransportHelper
  imports Transport
begin

text \<open>
  \<^verbatim>\<open>src/VirtualTransportHelper.h\<close>: the codec for integers, strings and string lists over
  any \<open>BaseVirtualTransport\<close> (\<^verbatim>\<open>src/BaseVirtualTransport.h\<close>). The virtual \<open>read\<close>
  (both overloads) and \<open>write\<close> are the arguments \<open>rd\<close>, \<open>rds\<close> and \<open>wr\<close>; a
  reader that returns a value through a reference returns the pair of that value and the count.

  The interfaces \<open>byte_source\<close> and \<open>byte_sink\<close> are what the codec relies on. The laws
  of the codec are proved once inside them and hold for \<open>BufferedTransport\<close> by
  interpretation.
\<close>

type_synonym 't reader = "nat \<Rightarrow> 't \<Rightarrow> (bytes \<times> int, 't) res"
type_synonym 't writer = "bytes \<Rightarrow> 't \<Rightarrow> (int, 't) res"

section \<open>Writing\<close>

definition vth_writeInt32 :: "'t writer \<Rightarrow> bool \<Rightarrow> 32 word \<Rightarrow> 't \<Rightarrow> (32 word, 't) res" where
  "vth_writeInt32 wr le value t =
     (let net = (if le then value else htonl value) in
      bindR (wr (le32 net) t) (\<lambda>_ t. (Inr 4, t)))"

definition vth_writeInt16 :: "'t writer \<Rightarrow> bool \<Rightarrow> 16 word \<Rightarrow> 't \<Rightarrow> (16 word, 't) res" where
  "vth_writeInt16 wr le value t =
     (let net = (if le then value else htons value) in
      bindR (wr (le16 net) t) (\<lambda>_ t. (Inr 2, t)))"

definition vth_writeInt8 :: "'t writer \<Rightarrow> 8 word \<Rightarrow> 't \<Rightarrow> (8 word, 't) res" where
  "vth_writeInt8 wr value t = bindR (wr [value] t) (\<lambda>_ t. (Inr 1, t))"

definition vth_writeBinary :: "'t writer \<Rightarrow> bytes \<Rightarrow> 't \<Rightarrow> (32 word, 't) res" where
  "vth_writeBinary wr data t = bindR (wr data t) (\<lambda>n t. (Inr (0 + word_of_int n), t))"

definition vth_writeString8 :: "'t writer \<Rightarrow> bytes \<Rightarrow> 't \<Rightarrow> (32 word, 't) res" where
  "vth_writeString8 wr value t =
     bindR (vth_writeInt8 wr (word_of_nat (length value)) t) (\<lambda>k t.
     let pos = 0 + k in
     bindR (wr value t) (\<lambda>n t.
     let pos = pos + word_of_int n in (Inr (ucast (pos :: 8 word)), t)))"

definition vth_writeString16 :: "'t writer \<Rightarrow> bool \<Rightarrow> bytes \<Rightarrow> 't \<Rightarrow> (32 word, 't) res" where
  "vth_writeString16 wr le value t =
     bindR (vth_writeInt16 wr le (word_of_nat (length value)) t) (\<lambda>k t.
     let pos = 0 + k in
     bindR (wr value t) (\<lambda>n t.
     let pos = pos + word_of_int n in (Inr (ucast (pos :: 16 word)), t)))"

definition vth_writeString32 :: "'t writer \<Rightarrow> bool \<Rightarrow> bytes \<Rightarrow> 't \<Rightarrow> (32 word, 't) res" where
  "vth_writeString32 wr le value t =
     bindR (vth_writeInt32 wr le (word_of_nat (length value)) t) (\<lambda>k t.
     let pos = 0 + k in
     bindR (wr value t) (\<lambda>n t. (Inr (pos + word_of_int n), t)))"

fun vth_writeStrings :: "'t writer \<Rightarrow> bool \<Rightarrow> bytes list \<Rightarrow> 32 word \<Rightarrow> 't \<Rightarrow> (32 word, 't) res" where
  "vth_writeStrings wr le [] pos t = (Inr pos, t)"
| "vth_writeStrings wr le (s # ss) pos t =
     bindR (vth_writeString32 wr le s t) (\<lambda>k t. vth_writeStrings wr le ss (pos + k) t)"

definition vth_writeString32List :: "'t writer \<Rightarrow> bool \<Rightarrow> bytes list \<Rightarrow> 't \<Rightarrow> (32 word, 't) res" where
  "vth_writeString32List wr le list t =
     bindR (vth_writeInt32 wr le (word_of_nat (length list)) t) (\<lambda>k t.
     vth_writeStrings wr le list (0 + k) t)"

section \<open>Reading\<close>

definition vth_readInt32 :: "'t reader \<Rightarrow> bool \<Rightarrow> 't \<Rightarrow> (32 word \<times> 32 word, 't) res" where
  "vth_readInt32 rd le t =
     bindR (rd 4 t) (\<lambda>(b, n) t.
     if n \<noteq> 4 then (Inl (ProtocolException ''readInt32 failed..''), t)
     else (Inr (if le then of_le b else htonl (of_le b), 4), t))"

definition vth_readInt16 :: "'t reader \<Rightarrow> bool \<Rightarrow> 't \<Rightarrow> (16 word \<times> 16 word, 't) res" where
  "vth_readInt16 rd le t =
     bindR (rd 2 t) (\<lambda>(b, n) t.
     if n \<noteq> 2 then (Inl (ProtocolException ''readInt16 failed..''), t)
     else (Inr (if le then of_le b else htons (of_le b), 2), t))"

definition vth_readInt8 :: "'t reader \<Rightarrow> 't \<Rightarrow> (8 word \<times> 8 word, 't) res" where
  "vth_readInt8 rd t =
     bindR (rd 1 t) (\<lambda>(b, n) t.
     if n \<noteq> 1 then (Inl (ProtocolException ''readInt8 failed..''), t)
     else (Inr (of_le b, 1), t))"

definition vth_readString8 :: "'t reader \<Rightarrow> 't reader \<Rightarrow> 't \<Rightarrow> (bytes \<times> 32 word, 't) res" where
  "vth_readString8 rd rds t =
     bindR (vth_readInt8 rd t) (\<lambda>(len, k) t.
     let pos = (0 :: 8 word) + k in
     bindR (rds (unat len) t) (\<lambda>(value, nread) t.
     if nread \<noteq> uint len then (Inl (ProtocolException ''readString8 failed..''), t)
     else (Inr (value, word_of_int (uint pos + uint len)), t)))"

definition vth_readString16 :: "'t reader \<Rightarrow> 't reader \<Rightarrow> bool \<Rightarrow> 't \<Rightarrow> (bytes \<times> 32 word, 't) res" where
  "vth_readString16 rd rds le t =
     bindR (vth_readInt16 rd le t) (\<lambda>(len, k) t.
     let pos = (0 :: 8 word) + ucast k in
     bindR (rds (unat len) t) (\<lambda>(value, nread) t.
     if nread \<noteq> uint len then (Inl (ProtocolException ''readString16 failed..''), t)
     else (Inr (value, word_of_int (uint pos + uint len)), t)))"

definition vth_readString32 :: "'t reader \<Rightarrow> 't reader \<Rightarrow> bool \<Rightarrow> 't \<Rightarrow> (bytes \<times> 32 word, 't) res" where
  "vth_readString32 rd rds le t =
     bindR (vth_readInt32 rd le t) (\<lambda>(len, k) t.
     let pos = 0 + k in
     bindR (rds (unat len) t) (\<lambda>(value, nread) t.
     if nread \<noteq> to_int32 (uint len) then (Inl (ProtocolException ''readString32 failed..''), t)
     else (Inr (value, pos + len), t)))"

section \<open>The wire format\<close>

definition enc16 :: "bool \<Rightarrow> 16 word \<Rightarrow> bytes" where
  "enc16 le v = le16 (if le then v else htons v)"

definition enc32 :: "bool \<Rightarrow> 32 word \<Rightarrow> bytes" where
  "enc32 le v = le32 (if le then v else htonl v)"

definition dec32 :: "bool \<Rightarrow> bytes \<Rightarrow> 32 word" where
  "dec32 le b = (if le then of_le b else htonl (of_le b))"

definition enc_string8 :: "bytes \<Rightarrow> bytes" where
  "enc_string8 s = word_of_nat (length s) # s"

definition enc_string16 :: "bool \<Rightarrow> bytes \<Rightarrow> bytes" where
  "enc_string16 le s = enc16 le (word_of_nat (length s)) @ s"

definition enc_string32 :: "bool \<Rightarrow> bytes \<Rightarrow> bytes" where
  "enc_string32 le s = enc32 le (word_of_nat (length s)) @ s"

definition enc_strings :: "bool \<Rightarrow> bytes list \<Rightarrow> bytes" where
  "enc_strings le ss = enc32 le (word_of_nat (length ss)) @ concat (map (enc_string32 le) ss)"

lemma length_enc [simp]: "length (enc16 le v) = 2" "length (enc32 le w) = 4"
  by (simp_all add: enc16_def enc32_def)

lemma dec32_enc32 [simp]: "dec32 le (enc32 le v) = v"
  by (simp add: dec32_def enc32_def)

lemma dec16_enc16 [simp]: "(if le then of_le (enc16 le v) else htons (of_le (enc16 le v))) = v"
  by (simp add: enc16_def)

lemma enc32_big_endian: "enc32 False v = rev (le32 v)"
  by (simp add: enc32_def le32_htonl)

lemma unat_of_length: "n < 4294967296 \<Longrightarrow> unat (word_of_nat n :: 32 word) = n"
  by (simp add: unsigned_of_nat take_bit_nat_eq_self)

section \<open>The interface of a byte source\<close>

text \<open>
  \<open>rest t\<close> is what is left to read. A read returns what there is, up to the size asked
  for, and moves on by as much.
\<close>

locale byte_source =
  fixes rd :: "'t reader" and rds :: "'t reader"
    and rest :: "'t \<Rightarrow> bytes" and adv :: "nat \<Rightarrow> 't \<Rightarrow> 't" and ok :: "'t \<Rightarrow> bool"
  assumes rd_ok: "ok t \<Longrightarrow> rd n t = (Inr (take n (rest t), int (min n (length (rest t)))),
                                     adv (min n (length (rest t))) t)"
    and rds_ok: "ok t \<Longrightarrow> rds n t = rd n t"
    and adv_ok: "ok t \<Longrightarrow> n \<le> length (rest t) \<Longrightarrow> ok (adv n t)"
    and adv_rest: "ok t \<Longrightarrow> n \<le> length (rest t) \<Longrightarrow> rest (adv n t) = drop n (rest t)"
    and adv_add: "adv m (adv n t) = adv (n + m) t"
begin

lemma readInt32_ok:
  assumes "ok t" "4 \<le> length (rest t)"
  shows "vth_readInt32 rd le t = (Inr (dec32 le (take 4 (rest t)), 4), adv 4 t)"
  using assms by (simp add: vth_readInt32_def rd_ok dec32_def)

text \<open>A short read has consumed what there was when the exception is thrown.\<close>

lemma readInt32_short:
  assumes "ok t" "length (rest t) < 4"
  shows "vth_readInt32 rd le t
       = (Inl (ProtocolException ''readInt32 failed..''), adv (length (rest t)) t)"
  using assms by (simp add: vth_readInt32_def rd_ok)

lemma readInt32_enc:
  assumes "ok t" "rest t = enc32 le v @ r"
  shows "vth_readInt32 rd le t = (Inr (v, 4), adv 4 t)"
  using assms by (simp add: readInt32_ok)

lemma readInt32_error:
  assumes "ok t" "vth_readInt32 rd le t = (Inl e, t')"
  shows "e = ProtocolException ''readInt32 failed..''" "length (rest t) < 4"
    "t' = adv (length (rest t)) t"
  using assms readInt32_ok [of t le] readInt32_short [of t le] by (force simp: not_less)+

lemma readString32_enc:
  assumes "ok t" "rest t = enc_string32 le s @ r" "length s < 2147483648"
  shows "vth_readString32 rd rds le t = (Inr (s, word_of_nat (4 + length s)), adv (4 + length s) t)"
proof -
  let ?len = "word_of_nat (length s) :: 32 word"
  have rest: "rest t = enc32 le ?len @ s @ r" using assms(2) by (simp add: enc_string32_def)
  have un: "unat ?len = length s" "to_int32 (uint ?len) = int (length s)"
    using assms(3) unat_of_length [of "length s"] uint_nat [of ?len] by simp_all
  have t1: "ok (adv 4 t)" "rest (adv 4 t) = s @ r"
    using adv_ok [of t 4] adv_rest [of t 4] assms(1) rest by simp_all
  show ?thesis
    using t1 assms(1) by (simp add: vth_readString32_def readInt32_enc [OF _ rest] un rds_ok rd_ok adv_add)
qed

lemma readString32_short:
  assumes "ok t" "rest t = enc32 le len @ s" "length s < unat len" "unat len < 2147483648"
  shows "vth_readString32 rd rds le t
       = (Inl (ProtocolException ''readString32 failed..''), adv (4 + length s) t)"
proof -
  have t1: "ok (adv 4 t)" "rest (adv 4 t) = s"
    using adv_ok [of t 4] adv_rest [of t 4] assms by simp_all
  have u: "uint len = int (unat len)" by (rule uint_nat)
  with assms(4) have "uint len < 2147483648" by linarith
  then have "to_int32 (uint len) = uint len" using uint_ge_0 [of len] by (intro to_int32_id) linarith+
  moreover have "uint len \<noteq> int (length s)" using u assms(3) by linarith
  ultimately show ?thesis
    using t1 assms(1,3)
    by (simp add: vth_readString32_def readInt32_enc [OF _ assms(2)] rds_ok rd_ok adv_add)
qed

lemma readString8_enc:
  assumes "ok t" "rest t = enc_string8 s @ r" "length s < 256"
  shows "vth_readString8 rd rds t = (Inr (s, word_of_nat (1 + length s)), adv (1 + length s) t)"
proof -
  let ?len = "word_of_nat (length s) :: 8 word"
  have un: "unat ?len = length s" "uint ?len = int (length s)"
    using assms(3) uint_nat [of ?len] by (simp_all add: unsigned_of_nat take_bit_nat_eq_self)
  have t1: "ok (adv 1 t)" "rest (adv 1 t) = s @ r"
    using adv_ok [of t 1] adv_rest [of t 1] assms by (simp_all add: enc_string8_def)
  have "take 1 (rest t) = [?len]" "min (Suc 0) (length (rest t)) = Suc 0" using assms(2) by (simp_all add: enc_string8_def)
  then show ?thesis
    using t1 assms(1)
    by (simp add: vth_readString8_def vth_readInt8_def rds_ok rd_ok adv_add un)
qed

end

section \<open>The interface of a byte sink\<close>

locale byte_sink =
  fixes wr :: "'t writer" and put :: "bytes \<Rightarrow> 't \<Rightarrow> 't" and room :: "nat \<Rightarrow> 't \<Rightarrow> bool"
  assumes wr_ok: "room (length bs) t \<Longrightarrow> wr bs t = (Inr (int (length bs)), put bs t)"
    and put_put: "put cs (put bs t) = put (bs @ cs) t"
    and put_Nil: "put [] t = t"
    and room_put: "room (length bs + n) t \<Longrightarrow> room n (put bs t)"
    and room_mono: "room n t \<Longrightarrow> m \<le> n \<Longrightarrow> room m t"
    and room_bound: "room n t \<Longrightarrow> n < 2147483648"
begin

lemma wr_room: "room n t \<Longrightarrow> length bs \<le> n \<Longrightarrow> wr bs t = (Inr (int (length bs)), put bs t)"
  using room_mono wr_ok by blast

lemma writeInt32_ok:
  "room 4 t \<Longrightarrow> vth_writeInt32 wr le v t = (Inr 4, put (enc32 le v) t)"
  using wr_ok [of "enc32 le v" t] by (simp add: vth_writeInt32_def enc32_def)

lemma writeString32_ok:
  assumes "room (4 + length s) t"
  shows "vth_writeString32 wr le s t = (Inr (word_of_nat (4 + length s)), put (enc_string32 le s) t)"
proof -
  have "room 4 t" "room (length s) (put (enc32 le (word_of_nat (length s))) t)"
    using assms room_mono room_put [of "enc32 le (word_of_nat (length s))"] by auto
  then show ?thesis
    by (simp add: vth_writeString32_def writeInt32_ok wr_ok put_put enc_string32_def)
qed

lemma writeString8_ok:
  assumes "room (1 + length s) t"
  shows "vth_writeString8 wr s t
       = (Inr (ucast (word_of_nat (1 + length s) :: 8 word)), put (enc_string8 s) t)"
proof -
  have "room (length [word_of_nat (length s) :: byte]) t"
    and "room (length s) (put [word_of_nat (length s)] t)"
    using assms room_mono room_put [of "[word_of_nat (length s)]"] by auto
  then show ?thesis
    by (simp add: vth_writeString8_def vth_writeInt8_def wr_ok put_put enc_string8_def)
qed

lemma writeStrings_ok:
  "room (length (concat (map (enc_string32 le) ss))) t \<Longrightarrow>
   snd (vth_writeStrings wr le ss pos t) = put (concat (map (enc_string32 le) ss)) t
   \<and> (\<exists>k. fst (vth_writeStrings wr le ss pos t) = Inr k)"
proof (induction ss arbitrary: pos t)
  case Nil
  then show ?case by (simp add: put_Nil)
next
  case (Cons s ss)
  have len: "length (enc_string32 le s) = 4 + length s" by (simp add: enc_string32_def)
  then have s: "room (4 + length s) t"
    using Cons.prems by (auto intro: room_mono)
  have "room (length (concat (map (enc_string32 le) ss))) (put (enc_string32 le s) t)"
    using Cons.prems by (intro room_put) simp
  from Cons.IH [OF this] show ?case
    by (simp add: writeString32_ok [OF s] put_put)
qed

lemma writeString32List_ok:
  assumes "room (length (enc_strings le ss)) t"
  shows "snd (vth_writeString32List wr le ss t) = put (enc_strings le ss) t"
proof -
  have "room 4 t" using assms by (auto simp: enc_strings_def intro: room_mono)
  moreover have "room (length (concat (map (enc_string32 le) ss)))
                  (put (enc32 le (word_of_nat (length ss))) t)"
    using assms by (intro room_put) (simp add: enc_strings_def)
  ultimately show ?thesis
    using writeStrings_ok by (simp add: vth_writeString32List_def writeInt32_ok put_put enc_strings_def)
qed

end

section \<open>Buffered transports are byte sources and byte sinks\<close>

definition bt_put :: "bytes \<Rightarrow> buffered_transport \<Rightarrow> buffered_transport" where
  "bt_put bs t = t\<lparr>bt_buf := bt_buf t @ bs\<rparr>"

definition bt_room :: "nat \<Rightarrow> buffered_transport \<Rightarrow> bool" where
  "bt_room n t \<longleftrightarrow> length (bt_buf t) + n < 2147483648"

interpretation bt_source: byte_source bt_read bt_read_string bt_rest bt_advance bt_ok
  by unfold_locales (simp_all add: bt_simps bt_read_string_eq)

interpretation bt_sink: byte_sink bt_write bt_put bt_room
  by unfold_locales (auto simp: bt_put_def bt_room_def bt_write_def)

lemma bt_room_new [simp]: "bt_room n newBufferedTransport \<longleftrightarrow> n < 2147483648"
  by (simp add: bt_room_def newBufferedTransport_def)

lemma bt_put_ok [bt_simps]:
  assumes "bt_ok t" "bt_room (length bs) t"
  shows "bt_ok (bt_put bs t)" "bt_rest (bt_put bs t) = bt_rest t @ bs"
  using assms by (auto simp: bt_put_def bt_room_def bt_simps)

end
