(* ===== verification/BufferCodec.thy ===== *)
theory BufferCodec
  imports TransportHelper
begin

text \<open>
  The writing and reading helpers of \<^verbatim>\<open>src/BufferedTransport.h\<close>: the object's own copy of
  the codec, over its own \<open>write\<close> and \<open>read\<close>. Readers with a reference argument return
  the pair of the value and the count; the overloads without one (suffix \<open>V\<close>) return the
  value. The theorems relate this copy to the one of \<open>VirtualTransportHelper\<close> and show
  the round trips and where a length field is too narrow for them.
\<close>

unbundle bit_operations_syntax

section \<open>Writing helpers\<close>

definition bt_writeInt64 :: "bool \<Rightarrow> 64 word \<Rightarrow> buffered_transport \<Rightarrow> (32 word, buffered_transport) res" where
  "bt_writeInt64 le value t =
     (let net = (if le then value else hton64 value) in
      bindR (bt_write (le64 net) t) (\<lambda>_ t. (Inr 8, t)))"

definition bt_writeInt32 :: "bool \<Rightarrow> 32 word \<Rightarrow> buffered_transport \<Rightarrow> (32 word, buffered_transport) res" where
  "bt_writeInt32 le value t =
     (let net = (if le then value else htonl value) in
      bindR (bt_write (le32 net) t) (\<lambda>_ t. (Inr 4, t)))"

definition bt_writeInt16 :: "bool \<Rightarrow> 16 word \<Rightarrow> buffered_transport \<Rightarrow> (32 word, buffered_transport) res" where
  "bt_writeInt16 le value t =
     (let net = (if le then value else htons value) in
      bindR (bt_write (le16 net) t) (\<lambda>_ t. (Inr 2, t)))"

definition bt_writeInt8 :: "8 word \<Rightarrow> buffered_transport \<Rightarrow> (32 word, buffered_transport) res" where
  "bt_writeInt8 value t = bindR (bt_write [value] t) (\<lambda>_ t. (Inr 1, t))"

definition bt_writeBinary :: "bytes \<Rightarrow> buffered_transport \<Rightarrow> (32 word, buffered_transport) res" where
  "bt_writeBinary data t = bindR (bt_write data t) (\<lambda>n t. (Inr (0 + word_of_int n), t))"

definition bt_writeString8 :: "bytes \<Rightarrow> buffered_transport \<Rightarrow> (32 word, buffered_transport) res" where
  "bt_writeString8 value t =
     bindR (bt_writeInt8 (word_of_nat (length value)) t) (\<lambda>k t.
     let pos = 0 + ucast k in
     bindR (bt_write value t) (\<lambda>n t.
     let pos = pos + word_of_int n in (Inr (ucast (pos :: 8 word)), t)))"

definition bt_writeString16 :: "bool \<Rightarrow> bytes \<Rightarrow> buffered_transport \<Rightarrow> (32 word, buffered_transport) res" where
  "bt_writeString16 le value t =
     bindR (bt_writeInt16 le (word_of_nat (length value)) t) (\<lambda>k t.
     let pos = 0 + ucast k in
     bindR (bt_write value t) (\<lambda>n t.
     let pos = pos + word_of_int n in (Inr (ucast (pos :: 16 word)), t)))"

definition bt_writeString32 :: "bool \<Rightarrow> bytes \<Rightarrow> buffered_transport \<Rightarrow> (32 word, buffered_transport) res" where
  "bt_writeString32 le value t =
     bindR (bt_writeInt32 le (word_of_nat (length value)) t) (\<lambda>k t.
     let pos = 0 + k in
     bindR (bt_write value t) (\<lambda>n t. (Inr (pos + word_of_int n), t)))"

fun bt_writeStrings :: "bool \<Rightarrow> bytes list \<Rightarrow> 32 word \<Rightarrow> buffered_transport \<Rightarrow> (32 word, buffered_transport) res" where
  "bt_writeStrings le [] pos t = (Inr pos, t)"
| "bt_writeStrings le (s # ss) pos t =
     bindR (bt_writeString32 le s t) (\<lambda>k t. bt_writeStrings le ss (pos + k) t)"

definition bt_writeString32List :: "bool \<Rightarrow> bytes list \<Rightarrow> buffered_transport \<Rightarrow> (32 word, buffered_transport) res" where
  "bt_writeString32List le list t =
     bindR (bt_writeInt32 le (word_of_nat (length list)) t) (\<lambda>k t.
     bt_writeStrings le list (0 + k) t)"

section \<open>Reading helpers\<close>

definition bt_readInt32 :: "bool \<Rightarrow> buffered_transport \<Rightarrow> (32 word \<times> 32 word, buffered_transport) res" where
  "bt_readInt32 le t =
     bindR (bt_read 4 t) (\<lambda>(b, n) t.
     if n \<noteq> 4 then (Inl (ProtocolException ''readInt32 failed..''), t)
     else (Inr (if le then of_le b else htonl (of_le b), 4), t))"

definition bt_readInt64 :: "bool \<Rightarrow> buffered_transport \<Rightarrow> (64 word, buffered_transport) res" where
  "bt_readInt64 le t =
     bindR (bt_read 8 t) (\<lambda>(b, n) t.
     if n \<noteq> 8 then (Inl (ProtocolException ''readInt64 failed..''), t)
     else (Inr (if le then of_le b else ntoh64 (of_le b)), t))"

definition bt_readInt32V :: "bool \<Rightarrow> buffered_transport \<Rightarrow> (32 word, buffered_transport) res" where
  "bt_readInt32V le t =
     bindR (bt_read 4 t) (\<lambda>(b, n) t.
     if n \<noteq> 4 then (Inl (ProtocolException ''readInt32 failed..''), t)
     else (Inr (if le then of_le b else htonl (of_le b)), t))"

definition bt_readInt16 :: "bool \<Rightarrow> buffered_transport \<Rightarrow> (16 word \<times> 16 word, buffered_transport) res" where
  "bt_readInt16 le t =
     bindR (bt_read 2 t) (\<lambda>(b, n) t.
     if n \<noteq> 2 then (Inl (ProtocolException ''readInt16 failed..''), t)
     else (Inr (if le then of_le b else htons (of_le b), 2), t))"

definition bt_readInt16V :: "bool \<Rightarrow> buffered_transport \<Rightarrow> (16 word, buffered_transport) res" where
  "bt_readInt16V le t =
     bindR (bt_read 2 t) (\<lambda>(b, n) t.
     if n \<noteq> 2 then (Inl (ProtocolException ''readInt16 failed..''), t)
     else (Inr (if le then of_le b else htons (of_le b)), t))"

definition bt_readInt8 :: "buffered_transport \<Rightarrow> (8 word \<times> 8 word, buffered_transport) res" where
  "bt_readInt8 t =
     bindR (bt_read 1 t) (\<lambda>(b, n) t.
     if n \<noteq> 1 then (Inl (ProtocolException ''readInt8 failed..''), t)
     else (Inr (of_le b, 1), t))"

definition bt_readInt8V :: "buffered_transport \<Rightarrow> (8 word, buffered_transport) res" where
  "bt_readInt8V t =
     bindR (bt_read 1 t) (\<lambda>(b, n) t.
     if n \<noteq> 1 then (Inl (ProtocolException ''readInt8 failed..''), t)
     else (Inr (of_le b), t))"

definition bt_readString32 :: "bool \<Rightarrow> buffered_transport \<Rightarrow> (bytes \<times> 32 word, buffered_transport) res" where
  "bt_readString32 le t =
     bindR (bt_readInt32 le t) (\<lambda>(len, k) t.
     let pos = (0 :: 8 word) + ucast k in
     bindR (bt_read_string (unat len) t) (\<lambda>(value, nread) t.
     if nread \<noteq> to_int32 (uint len) then (Inl (ProtocolException ''readString32 failed..''), t)
     else (Inr (value, ucast pos + len), t)))"

definition bt_readString32V :: "bool \<Rightarrow> buffered_transport \<Rightarrow> (bytes, buffered_transport) res" where
  "bt_readString32V le t =
     bindR (bt_readInt32V le t) (\<lambda>len t.
     bindR (bt_read_string (unat len) t) (\<lambda>(str, nread) t.
     if nread \<noteq> to_int32 (uint len) then (Inl (ProtocolException ''readString32 failed..''), t)
     else (Inr str, t)))"

definition bt_readString16 :: "bool \<Rightarrow> buffered_transport \<Rightarrow> (bytes \<times> 32 word, buffered_transport) res" where
  "bt_readString16 le t =
     bindR (bt_readInt16 le t) (\<lambda>(len, k) t.
     let pos = 0 + k in
     bindR (bt_read_string (unat len) t) (\<lambda>(value, nread) t.
     if nread \<noteq> uint len then (Inl (ProtocolException ''readString16 failed..''), t)
     else (Inr (value, word_of_int (uint pos + uint len)), t)))"

definition bt_readString16V :: "bool \<Rightarrow> buffered_transport \<Rightarrow> (bytes, buffered_transport) res" where
  "bt_readString16V le t =
     bindR (bt_readInt16V le t) (\<lambda>len t.
     bindR (bt_read_string (unat len) t) (\<lambda>(str, nread) t.
     if nread \<noteq> to_int32 (uint len) then (Inl (ProtocolException ''readString16 failed..''), t)
     else (Inr str, t)))"

definition bt_readString8 :: "buffered_transport \<Rightarrow> (bytes \<times> 32 word, buffered_transport) res" where
  "bt_readString8 t =
     bindR (bt_readInt8 t) (\<lambda>(len, k) t.
     let pos = (0 :: 32 word) + ucast k in
     bindR (bt_read_string (unat len) t) (\<lambda>(value, nread) t.
     if nread \<noteq> uint len then (Inl (ProtocolException ''readString8 failed..''), t)
     else (Inr (value, pos + ucast len), t)))"

definition bt_readString8V :: "buffered_transport \<Rightarrow> (bytes, buffered_transport) res" where
  "bt_readString8V t =
     bindR (bt_readInt8V t) (\<lambda>len t.
     bindR (bt_read_string (unat len) t) (\<lambda>(str, nread) t.
     if nread \<noteq> to_int32 (uint len) then (Inl (ProtocolException ''readString8 failed..''), t)
     else (Inr str, t)))"

section \<open>The two copies of the codec agree\<close>

lemma bt_write_codec_eq:
  "bt_writeInt32 le = vth_writeInt32 bt_write le"
  "bt_writeBinary = vth_writeBinary bt_write"
  "bt_writeString32 le = vth_writeString32 bt_write le"
  by (simp_all add: fun_eq_iff bt_writeInt32_def vth_writeInt32_def bt_writeBinary_def
      vth_writeBinary_def bt_writeString32_def vth_writeString32_def)

lemma bt_writeString8_eq: "bt_writeString8 s t = vth_writeString8 bt_write s t"
  by (simp add: bt_writeString8_def vth_writeString8_def bt_writeInt8_def vth_writeInt8_def
      bindR_assoc bt_write_def)

lemma bt_writeStrings_eq: "bt_writeStrings le ss pos t = vth_writeStrings bt_write le ss pos t"
proof (induction ss arbitrary: pos t)
  case (Cons s ss)
  have "bt_writeStrings le ss = vth_writeStrings bt_write le ss"
    using Cons.IH by (simp add: fun_eq_iff)
  then show ?case by (simp add: bt_write_codec_eq)
qed simp

lemma bt_writeString32List_eq: "bt_writeString32List le = vth_writeString32List bt_write le"
  by (simp add: fun_eq_iff bt_writeString32List_def vth_writeString32List_def bt_write_codec_eq
      bt_writeStrings_eq)

lemma bt_readInt32_eq: "bt_readInt32 le = vth_readInt32 bt_read le"
  by (simp add: fun_eq_iff bt_readInt32_def vth_readInt32_def)

lemma bt_readInt8_eq: "bt_readInt8 = vth_readInt8 bt_read"
  by (simp add: fun_eq_iff bt_readInt8_def vth_readInt8_def)

lemma vth_readInt32_count: "vth_readInt32 rd le t = (Inr (v, k), t') \<Longrightarrow> k = 4"
  by (auto simp: vth_readInt32_def bindR_Inr_iff split: if_splits)

lemma bt_readString32_eq: "bt_readString32 le t = vth_readString32 bt_read bt_read_string le t"
proof -
  have four: "(ucast (ucast (4 :: 32 word) :: 8 word) :: 32 word) = 4" by code_simp
  show ?thesis
    unfolding bt_readString32_def vth_readString32_def bt_readInt32_eq
    by (rule bindR_cong [OF refl]) (clarsimp dest!: vth_readInt32_count, simp only: four)
qed

section \<open>Round trips\<close>

lemma bt_readInt64_write:
  assumes "bt_ok t" "bt_rest t = []" "bt_room 8 t"
  shows "fst (bt_readInt64 le (snd (bt_writeInt64 le v t))) = Inr v"
proof -
  let ?net = "if le then v else hton64 v"
  have w: "bt_write (le64 ?net) t = (Inr 8, bt_put (le64 ?net) t)"
    using bt_sink.wr_ok [of "le64 ?net" t] assms(3) by simp
  have "bt_ok (bt_put (le64 ?net) t)" "bt_rest (bt_put (le64 ?net) t) = le64 ?net"
    using assms by (simp_all add: bt_simps)
  then show ?thesis
    by (simp add: bt_readInt64_def bt_writeInt64_def w bt_simps ntoh64_hton64)
qed

text \<open>
  What \<open>writeString32\<close> appends to a buffer, \<open>readString32\<close> gives back: it returns the
  string and the number of bytes consumed, in network order and with the little endian switch,
  and leaves exactly the bytes that were not part of the string.
\<close>

theorem writeString32_readString32:
  assumes "bt_ok t" "bt_rest t = []" "bt_room (4 + length s + length tail) t"
  shows "\<exists>u. snd (bt_writeBinary tail (snd (bt_writeString32 le s t))) = u
         \<and> bt_readString32 le u = (Inr (s, word_of_nat (4 + length s)), bt_advance (4 + length s) u)
         \<and> bt_rest (bt_advance (4 + length s) u) = tail"
proof -
  let ?e = "enc_string32 le s"
  have len: "length ?e = 4 + length s" by (simp add: enc_string32_def)
  have room: "bt_room (4 + length s) t" "bt_room (length tail) (bt_put ?e t)"
    using assms(3) bt_sink.room_put [of ?e "length tail" t] len
    by (auto simp: bt_room_def)
  let ?u = "bt_put (?e @ tail) t"
  have u: "snd (bt_writeBinary tail (snd (bt_writeString32 le s t))) = ?u"
    using room by (simp add: bt_write_codec_eq bt_sink.writeString32_ok vth_writeBinary_def
        bt_sink.wr_ok bt_sink.put_put)
  have ok: "bt_ok ?u" "bt_rest ?u = ?e @ tail"
    using assms len by (simp_all add: bt_simps)
  have small: "length s < 2147483648" using assms(3) by (simp add: bt_room_def)
  show ?thesis
    using u ok len bt_source.readString32_enc [OF ok small]
    by (simp add: bt_readString32_eq bt_simps)
qed

lemma writeString32_readString32_witness:
  "\<exists>u. snd (bt_writeBinary [9] (snd (bt_writeString32 False [1, 2] newBufferedTransport))) = u
     \<and> bt_readString32 False u = (Inr ([1, 2], word_of_nat (4 + length [1::8 word, 2])),
                                  bt_advance (4 + length [1::8 word, 2]) u)
     \<and> bt_rest (bt_advance (4 + length [1::8 word, 2]) u) = [9]"
  by (rule writeString32_readString32) simp_all

text \<open>
  \<open>writeString8\<close> writes the length modulo 256 and then the whole string. For a string of
  256 bytes or more \<open>readString8\<close> returns only the first \<open>length s mod 256\<close> bytes and the
  rest of the string stays in the buffer, to be read as if it were the next field.
\<close>

theorem writeString8_long_desync:
  assumes "bt_ok t" "bt_rest t = []" "bt_room (1 + length s) t" "256 \<le> length s"
  shows "fst (bt_readString8V (snd (bt_writeString8 s t))) = Inr (take (length s mod 256) s)
       \<and> bt_rest (snd (bt_readString8V (snd (bt_writeString8 s t)))) = drop (length s mod 256) s
       \<and> drop (length s mod 256) s \<noteq> []"
proof -
  let ?b = "word_of_nat (length s) :: 8 word"
  let ?m = "length s mod 256"
  have un: "unat ?b = ?m" "uint ?b = int ?m"
    using uint_nat [of ?b] by (simp_all add: unsigned_of_nat take_bit_nat_def)
  let ?u = "bt_put (?b # s) t"
  have u: "snd (bt_writeString8 s t) = ?u"
    using bt_sink.writeString8_ok [OF assms(3)] by (simp add: bt_writeString8_eq enc_string8_def)
  have room: "bt_room (length (?b # s)) t" using assms(3) by simp
  have ok: "bt_ok ?u" "bt_rest ?u = ?b # s"
    using bt_put_ok [OF assms(1) room] assms(2) by simp_all
  have ok1: "bt_ok (bt_advance 1 ?u)" "bt_rest (bt_advance 1 ?u) = s"
    using ok by (simp_all add: bt_simps)
  have one: "bt_readInt8V ?u = (Inr ?b, bt_advance 1 ?u)"
    using ok by (simp add: bt_readInt8V_def bt_simps min_def)
  have m: "?m < length s" using assms(4) by (meson le_less_trans mod_less_divisor not_le zero_less_numeral)
  have i: "to_int32 (int ?m) = int ?m"
    by (rule to_int32_id) (simp_all add: order_less_trans [OF mod_less_divisor])
  have r: "bt_readString8V ?u = (Inr (take ?m s), bt_advance ?m (bt_advance 1 ?u))"
    using ok1 m i by (simp add: bt_readString8V_def one bt_read_string_eq bt_read_ok un min_def)
  have rest: "bt_rest (bt_advance ?m (bt_advance 1 ?u)) = drop ?m s"
    using ok1 bt_advance_ok(2) [OF ok1(1), of ?m] by simp
  show ?thesis using r u rest m by simp
qed

lemma writeString8_long_desync_witness:
  "fst (bt_readString8V (snd (bt_writeString8 (replicate 257 7) newBufferedTransport)))
     = Inr (take (257 mod 256) (replicate 257 7))"
  using writeString8_long_desync [of newBufferedTransport "replicate 257 7"]
  by simp

end
