(* ===== verification/Store.thy ===== *)
theory Store
  imports BufferCodec
begin

text \<open>
  The store of \<open>BufferedTransport\<close> objects. Protocols own buffers through shared pointers,
  and \<open>BaseProtocol::processReadFromReadingBuffer\<close> hands a protocol its own reading buffer
  as the transport to parse from; the claims on parsing depend on that sharing. A shared
  pointer to a buffer is its index in the store; \<open>makeSharedPtr\<close> allocates the next one.
  \<open>ref_read i\<close> is the virtual call \<open>buffer->read\<close> through pointer \<open>i\<close>; through it the
  store is a byte source and a byte sink, so the laws of the codec apply.
\<close>

record store =
  bufs :: "nat \<Rightarrow> buffered_transport"
  nextBuf :: nat

definition emptyStore :: store where
  "emptyStore = \<lparr>bufs = (\<lambda>_. newBufferedTransport), nextBuf = 0\<rparr>"

definition makeBuffer :: "store \<Rightarrow> nat \<times> store" where
  "makeBuffer st = (nextBuf st, st\<lparr>bufs := (bufs st)(nextBuf st := newBufferedTransport),
                                   nextBuf := Suc (nextBuf st)\<rparr>)"

definition upd_buf :: "nat \<Rightarrow> (buffered_transport \<Rightarrow> buffered_transport) \<Rightarrow> store \<Rightarrow> store" where
  "upd_buf i f st = st\<lparr>bufs := (bufs st)(i := f (bufs st i))\<rparr>"

definition on_buf :: "nat \<Rightarrow> (buffered_transport \<Rightarrow> ('a, buffered_transport) res) \<Rightarrow> store \<Rightarrow> ('a, store) res" where
  "on_buf i f st = (let (r, t) = f (bufs st i) in (r, st\<lparr>bufs := (bufs st)(i := t)\<rparr>))"

definition ref_read :: "nat \<Rightarrow> store reader" where
  "ref_read i n st = on_buf i (bt_read n) st"

definition ref_read_string :: "nat \<Rightarrow> store reader" where
  "ref_read_string i n st = on_buf i (bt_read_string n) st"

definition ref_write :: "nat \<Rightarrow> store writer" where
  "ref_write i bs st = on_buf i (bt_write bs) st"

definition ref_rest :: "nat \<Rightarrow> store \<Rightarrow> bytes" where
  "ref_rest i st = bt_rest (bufs st i)"

definition ref_adv :: "nat \<Rightarrow> nat \<Rightarrow> store \<Rightarrow> store" where
  "ref_adv i n st = upd_buf i (bt_advance n) st"

definition ref_ok :: "nat \<Rightarrow> store \<Rightarrow> bool" where
  "ref_ok i st \<longleftrightarrow> bt_ok (bufs st i)"

definition ref_put :: "nat \<Rightarrow> bytes \<Rightarrow> store \<Rightarrow> store" where
  "ref_put i bs st = upd_buf i (bt_put bs) st"

definition ref_room :: "nat \<Rightarrow> nat \<Rightarrow> store \<Rightarrow> bool" where
  "ref_room i n st \<longleftrightarrow> bt_room n (bufs st i)"

lemma upd_buf_simps [simp]:
  "bufs (upd_buf i f st) j = (if j = i then f (bufs st i) else bufs st j)"
  "nextBuf (upd_buf i f st) = nextBuf st"
  by (simp_all add: upd_buf_def)

lemma upd_buf_upd_buf [simp]: "upd_buf i f (upd_buf i g st) = upd_buf i (\<lambda>t. f (g t)) st"
  by (simp add: upd_buf_def)

lemma upd_buf_id: "f (bufs st i) = bufs st i \<Longrightarrow> upd_buf i f st = st"
  by (simp add: upd_buf_def)

lemma on_buf_Inr [store_simps]: "f (bufs st i) = (r, t) \<Longrightarrow> on_buf i f st = (r, upd_buf i (\<lambda>_. t) st)"
  by (simp add: on_buf_def upd_buf_def)

lemma ref_adv_add: "ref_adv i m (ref_adv i n st) = ref_adv i (n + m) st"
  by (simp add: ref_adv_def)

lemma ref_adv_0 [simp]: "ref_adv i 0 st = st"
  by (simp add: ref_adv_def upd_buf_id)

lemma on_buf_upd: "f (bufs st i) = (r, g (bufs st i)) \<Longrightarrow> on_buf i f st = (r, upd_buf i g st)"
  by (simp add: on_buf_def upd_buf_def)

lemma ref_read_ok:
  assumes "ref_ok i st"
  shows "ref_read i n st = (Inr (take n (ref_rest i st), int (min n (length (ref_rest i st)))),
                            ref_adv i (min n (length (ref_rest i st))) st)"
  unfolding ref_read_def ref_adv_def
  using assms by (intro on_buf_upd) (simp add: ref_ok_def ref_rest_def bt_read_ok)

interpretation ref_source: byte_source "ref_read i" "ref_read_string i" "ref_rest i" "ref_adv i" "ref_ok i"
  for i
proof unfold_locales
  show "ref_ok i st \<Longrightarrow> ref_read i n st = (Inr (take n (ref_rest i st), int (min n (length (ref_rest i st)))),
                            ref_adv i (min n (length (ref_rest i st))) st)" for n st
    by (rule ref_read_ok)
  show "ref_ok i st \<Longrightarrow> ref_read_string i n st = ref_read i n st" for n st
    by (simp add: ref_read_string_def ref_read_def on_buf_def bt_read_string_eq)
  show "ref_ok i st \<Longrightarrow> n \<le> length (ref_rest i st) \<Longrightarrow> ref_ok i (ref_adv i n st)" for n st
    by (simp add: ref_ok_def ref_adv_def ref_rest_def bt_simps)
  show "ref_ok i st \<Longrightarrow> n \<le> length (ref_rest i st) \<Longrightarrow>
        ref_rest i (ref_adv i n st) = drop n (ref_rest i st)" for n st
    by (simp add: ref_ok_def ref_adv_def ref_rest_def bt_simps)
  show "ref_adv i m (ref_adv i n st) = ref_adv i (n + m) st" for m n st
    by (rule ref_adv_add)
qed

interpretation ref_sink: byte_sink "ref_write i" "ref_put i" "ref_room i" for i
proof unfold_locales
  show "ref_room i (length bs) st \<Longrightarrow> ref_write i bs st = (Inr (int (length bs)), ref_put i bs st)" for bs st
    unfolding ref_write_def ref_put_def
    by (rule on_buf_upd) (simp add: ref_room_def bt_sink.wr_ok)
  show "ref_put i cs (ref_put i bs st) = ref_put i (bs @ cs) st" for bs cs st
    by (simp add: ref_put_def bt_sink.put_put)
  show "ref_put i [] st = st" for st
    by (simp add: ref_put_def upd_buf_id bt_put_def)
qed (auto simp: ref_room_def ref_put_def bt_put_def bt_room_def)

lemma ref_other [store_simps]:
  "i \<noteq> j \<Longrightarrow> ref_rest i (ref_adv j n st) = ref_rest i st"
  "i \<noteq> j \<Longrightarrow> ref_ok i (ref_adv j n st) = ref_ok i st"
  "i \<noteq> j \<Longrightarrow> ref_rest i (ref_put j bs st) = ref_rest i st"
  "i \<noteq> j \<Longrightarrow> ref_ok i (ref_put j bs st) = ref_ok i st"
  by (simp_all add: ref_rest_def ref_ok_def ref_adv_def ref_put_def)

lemma ref_put_ok [store_simps]:
  assumes "ref_ok i st" "ref_room i (length bs) st"
  shows "ref_ok i (ref_put i bs st)" "ref_rest i (ref_put i bs st) = ref_rest i st @ bs"
  using assms by (simp_all add: ref_ok_def ref_room_def ref_rest_def ref_put_def bt_put_ok)

lemma ref_adv_ok [store_simps]:
  assumes "ref_ok i st" "n \<le> length (ref_rest i st)"
  shows "ref_ok i (ref_adv i n st)" "ref_rest i (ref_adv i n st) = drop n (ref_rest i st)"
  using assms ref_source.adv_ok ref_source.adv_rest by auto

end
