(* ===== verification/Protocol.thy ===== *)
theory Protocol
  imports Store
begin

text \<open>
  The protocol objects: \<^verbatim>\<open>src/BaseProtocol.h\<close>, \<^verbatim>\<open>src/BaseProtocol.cpp\<close>,
  \<^verbatim>\<open>src/FrameProtocol.h\<close>, \<^verbatim>\<open>src/FrameProtocol.cpp\<close>, \<^verbatim>\<open>src/LineProtocol.h\<close>,
  \<^verbatim>\<open>src/LineProtocol.cpp\<close>, \<^verbatim>\<open>src/StringListProtocol.h\<close>,
  \<^verbatim>\<open>src/StringListProtocol.cpp\<close> and \<^verbatim>\<open>src/FileDescriptorProtocol.h\<close>.

  A protocol is a value of \<open>protocol\<close>, one constructor per class, so a virtual call is a
  case distinction. Its buffers live in the store. The last argument of a decorator is its
  parent (\<open>parent_protocol_\<close> or \<open>parent_protocol_shared_ptr_\<close>: the code treats the two
  alike and at most one is set), that of a frame its payload protocol (\<open>payload_protocol_\<close>
  or \<open>payload_protocol_shared_ptr_\<close>; a frame has no parent). A link holds the object it
  points to; an operation that changes the linked object returns it changed.

  An operation works on the pair of the protocol and the store, which it returns also when
  it throws. Reading goes through \<open>transport\<close>, the store index of a \<open>BufferedTransport\<close>
  (\<open>PROTOCOL_READ_FROM_SOCKET\<close> is not defined in this build).
\<close>

section \<open>The objects\<close>

record base_protocol =
  readBuffer :: nat
  writeBuffer :: nat
  turnOnWrite :: bool
  ownerKey :: int

record frame_header =
  hdr_length :: "32 word"
  hdr_checksum :: "32 word"
  hdr_cmd :: "32 word"
  hdr_trid :: "32 word"

datatype frame_state = Init | Command | TransationID | Checksum | Length | Payload | Complete

record frame =
  fr_header :: frame_header
  fr_initHeader :: frame_header
  fr_state :: frame_state
  fr_payload :: bytes
  fr_payload_pos :: nat

record line =
  ln_line :: bytes
  ln_readComplete :: bool
  ln_remainReadBufferSize :: int

datatype strlist_state = SInit | SBegin | SContents | SEnd

record strlist =
  sl_list :: "bytes list"
  sl_state :: strlist_state
  sl_payload_pos :: int
  sl_listSize :: "32 word"

record fdesc =
  fd_fd :: int
  fd_readComplete :: bool

datatype protocol =
    FrameProtocol base_protocol frame "protocol option"
  | LineProtocol base_protocol line "protocol option"
  | StringListProtocol base_protocol strlist "protocol option"
  | FileDescriptorProtocol base_protocol fdesc "protocol option"

definition newBaseProtocol :: "store \<Rightarrow> base_protocol \<times> store" where
  "newBaseProtocol st =
     (let (rb, st) = makeBuffer st; (wb, st) = makeBuffer st
      in (\<lparr>readBuffer = rb, writeBuffer = wb, turnOnWrite = True, ownerKey = 0\<rparr>, st))"

definition newFrameHeader :: "32 word \<Rightarrow> 32 word \<Rightarrow> frame_header" where
  "newFrameHeader command transactionId =
     \<lparr>hdr_length = 0, hdr_checksum = 0, hdr_cmd = command, hdr_trid = transactionId\<rparr>"

definition newFrame :: frame where
  "newFrame = \<lparr>fr_header = newFrameHeader 0 0, fr_initHeader = newFrameHeader 0 0,
               fr_state = Init, fr_payload = [], fr_payload_pos = 0\<rparr>"

definition newFrameProtocol :: "store \<Rightarrow> protocol \<times> store" where
  "newFrameProtocol st = (let (b, st) = newBaseProtocol st in (FrameProtocol b newFrame None, st))"

definition newLine :: line where
  "newLine = \<lparr>ln_line = [], ln_readComplete = False, ln_remainReadBufferSize = 0\<rparr>"

definition newLineProtocol :: "protocol option \<Rightarrow> store \<Rightarrow> protocol \<times> store" where
  "newLineProtocol parent st = (let (b, st) = newBaseProtocol st in (LineProtocol b newLine parent, st))"

definition newStringList :: strlist where
  "newStringList = \<lparr>sl_list = [], sl_state = SInit, sl_payload_pos = 0, sl_listSize = 0\<rparr>"

definition newStringListProtocol :: "protocol option \<Rightarrow> store \<Rightarrow> protocol \<times> store" where
  "newStringListProtocol parent st =
     (let (b, st) = newBaseProtocol st in (StringListProtocol b newStringList parent, st))"

definition newFileDescriptorProtocol :: "store \<Rightarrow> protocol \<times> store" where
  "newFileDescriptorProtocol st =
     (let (b, st) = newBaseProtocol st
      in (FileDescriptorProtocol b \<lparr>fd_fd = 0, fd_readComplete = False\<rparr> None, st))"

fun p_base :: "protocol \<Rightarrow> base_protocol" where
  "p_base (FrameProtocol b _ _) = b"
| "p_base (LineProtocol b _ _) = b"
| "p_base (StringListProtocol b _ _) = b"
| "p_base (FileDescriptorProtocol b _ _) = b"

fun p_parent :: "protocol \<Rightarrow> protocol option" where
  "p_parent (FrameProtocol _ _ _) = None"
| "p_parent (LineProtocol _ _ q) = q"
| "p_parent (StringListProtocol _ _ q) = q"
| "p_parent (FileDescriptorProtocol _ _ q) = q"

fun className :: "protocol \<Rightarrow> string" where
  "className (FrameProtocol _ _ _) = ''FrameProtocol''"
| "className (LineProtocol _ _ _) = ''LineProtocol''"
| "className (StringListProtocol _ _ _) = ''StringListProtocol''"
| "className (FileDescriptorProtocol _ _ _) = ''FileDescriptorProtocol''"

fun isReadComplete :: "protocol \<Rightarrow> bool" where
  "isReadComplete (FrameProtocol _ f _) = (fr_state f = Complete)"
| "isReadComplete (LineProtocol _ l _) = ln_readComplete l"
| "isReadComplete (StringListProtocol _ s _) = (sl_state s = SEnd)"
| "isReadComplete (FileDescriptorProtocol _ d _) = fd_readComplete d"

definition isInvalidPacketReceived :: "protocol \<Rightarrow> bool" where
  "isInvalidPacketReceived p = False"

fun enableWriteBuffer :: "bool \<Rightarrow> protocol \<Rightarrow> protocol" where
  "enableWriteBuffer e (FrameProtocol b f q) = FrameProtocol (b\<lparr>turnOnWrite := e\<rparr>) f q"
| "enableWriteBuffer e (LineProtocol b l q) = LineProtocol (b\<lparr>turnOnWrite := e\<rparr>) l q"
| "enableWriteBuffer e (StringListProtocol b s q) = StringListProtocol (b\<lparr>turnOnWrite := e\<rparr>) s q"
| "enableWriteBuffer e (FileDescriptorProtocol b d q) =
     FileDescriptorProtocol (b\<lparr>turnOnWrite := e\<rparr>) d q"

definition isEnabledWriteBuffer :: "protocol \<Rightarrow> bool" where
  "isEnabledWriteBuffer p = turnOnWrite (p_base p)"

definition addToReadingBuffer :: "bytes \<Rightarrow> protocol \<Rightarrow> store \<Rightarrow> store" where
  "addToReadingBuffer data p st = snd (ref_write (readBuffer (p_base p)) data st)"

definition resetWritingBuffer :: "base_protocol \<Rightarrow> store \<Rightarrow> store" where
  "resetWritingBuffer b st = upd_buf (writeBuffer b) bt_clear st"

definition resetBuffer :: "base_protocol \<Rightarrow> store \<Rightarrow> store" where
  "resetBuffer b st = resetWritingBuffer b (upd_buf (readBuffer b) bt_clear st)"

text \<open>\<open>payloadBuffer\<close>: the reading buffer of the outermost parent.\<close>

fun payloadBuffer :: "protocol \<Rightarrow> nat" where
  "payloadBuffer (FrameProtocol b _ _) = readBuffer b"
| "payloadBuffer (LineProtocol b _ q) = (case q of None \<Rightarrow> readBuffer b | Some p \<Rightarrow> payloadBuffer p)"
| "payloadBuffer (StringListProtocol b _ q) =
     (case q of None \<Rightarrow> readBuffer b | Some p \<Rightarrow> payloadBuffer p)"
| "payloadBuffer (FileDescriptorProtocol b _ q) =
     (case q of None \<Rightarrow> readBuffer b | Some p \<Rightarrow> payloadBuffer p)"

section \<open>Parsing a frame\<close>

text \<open>
  \<open>with_obj f r\<close> runs a call on the store while the object \<open>f\<close> keeps its fields. The
  functions \<open>frame_at_*\<close> are the labels of the \<open>switch\<close> of \<open>FrameProtocol::processRead\<close>;
  each falls through to the next.
\<close>

definition with_obj :: "'o \<Rightarrow> ('a, store) res \<Rightarrow> ('a, 'o \<times> store) res" where
  "with_obj f r = (fst r, (f, snd r))"

definition frame_at_payload :: "base_protocol \<Rightarrow> frame \<Rightarrow> store \<Rightarrow> (bool, frame \<times> store) res" where
  "frame_at_payload b f st =
     (let remain = to_int32 (uint (hdr_length (fr_header f))
                             - int (bt_totalSize (bufs st (readBuffer b)))) in
      if 0 < remain then (Inr False, (f, st))
      else (Inr True, (f\<lparr>fr_initHeader := fr_header f,
                         fr_payload_pos := bt_readPos (bufs st (readBuffer b)),
                         fr_state := Complete\<rparr>, st)))"

definition frame_at_length :: "bool \<Rightarrow> nat \<Rightarrow> base_protocol \<Rightarrow> frame \<Rightarrow> store \<Rightarrow> (bool, frame \<times> store) res" where
  "frame_at_length le transport b f st =
     bindR (with_obj f (vth_readInt32 (ref_read transport) le st)) (\<lambda>(v, k) (f, st).
     frame_at_payload b (f\<lparr>fr_payload_pos := to_size (int (fr_payload_pos f) + uint k),
                           fr_header := (fr_header f)\<lparr>hdr_length := v\<rparr>, fr_state := Payload\<rparr>) st)"

definition frame_at_checksum :: "bool \<Rightarrow> nat \<Rightarrow> base_protocol \<Rightarrow> frame \<Rightarrow> store \<Rightarrow> (bool, frame \<times> store) res" where
  "frame_at_checksum le transport b f st =
     bindR (with_obj f (vth_readInt32 (ref_read transport) le st)) (\<lambda>(v, k) (f, st).
     frame_at_length le transport b
       (f\<lparr>fr_payload_pos := to_size (int (fr_payload_pos f) + uint k),
          fr_header := (fr_header f)\<lparr>hdr_checksum := v\<rparr>, fr_state := Length\<rparr>) st)"

definition frame_at_trid :: "bool \<Rightarrow> nat \<Rightarrow> base_protocol \<Rightarrow> frame \<Rightarrow> store \<Rightarrow> (bool, frame \<times> store) res" where
  "frame_at_trid le transport b f st =
     bindR (with_obj f (vth_readInt32 (ref_read transport) le st)) (\<lambda>(v, k) (f, st).
     frame_at_checksum le transport b
       (f\<lparr>fr_payload_pos := to_size (int (fr_payload_pos f) + uint k),
          fr_header := (fr_header f)\<lparr>hdr_trid := v\<rparr>, fr_state := Checksum\<rparr>) st)"

definition frame_at_command :: "bool \<Rightarrow> nat \<Rightarrow> base_protocol \<Rightarrow> frame \<Rightarrow> store \<Rightarrow> (bool, frame \<times> store) res" where
  "frame_at_command le transport b f st =
     bindR (with_obj f (vth_readInt32 (ref_read transport) le st)) (\<lambda>(v, k) (f, st).
     frame_at_trid le transport b
       (f\<lparr>fr_payload_pos := to_size (int (fr_payload_pos f) + uint k),
          fr_header := (fr_header f)\<lparr>hdr_cmd := v\<rparr>, fr_state := TransationID\<rparr>) st)"

definition frame_switch :: "bool \<Rightarrow> nat \<Rightarrow> base_protocol \<Rightarrow> frame \<Rightarrow> store \<Rightarrow> (bool, frame \<times> store) res" where
  "frame_switch le transport b f st =
     (case fr_state f of
        Init \<Rightarrow> frame_at_command le transport b f st
      | Command \<Rightarrow> frame_at_command le transport b f st
      | TransationID \<Rightarrow> frame_at_trid le transport b f st
      | Checksum \<Rightarrow> frame_at_checksum le transport b f st
      | Length \<Rightarrow> frame_at_length le transport b f st
      | Payload \<Rightarrow> frame_at_payload b f st
      | Complete \<Rightarrow> (Inr True, (f, st)))"

text \<open>The \<open>try\<close> block: protocol and socket exceptions are swallowed.\<close>

definition catch_read :: "'a \<Rightarrow> ('a, 's) res \<Rightarrow> ('a, 's) res" where
  "catch_read dflt r =
     (case r of (Inl e, s) \<Rightarrow> if caught_read e then (Inr dflt, s) else (Inl e, s)
              | (Inr a, s) \<Rightarrow> (Inr a, s))"

definition frame_processRead :: "bool \<Rightarrow> nat \<Rightarrow> base_protocol \<Rightarrow> frame \<Rightarrow> store \<Rightarrow> (bool, frame \<times> store) res" where
  "frame_processRead le transport b f st = catch_read False (frame_switch le transport b f st)"

section \<open>Parsing a line\<close>

fun find_lf :: "bytes \<Rightarrow> nat option" where
  "find_lf [] = None"
| "find_lf (c # cs) = (if c = 10 then Some 0 else map_option Suc (find_lf cs))"

text \<open>
  The bytes \<open>buffer\<close> are the \<open>nread\<close> bytes read. At the first line feed, at index \<open>i\<close>,
  the code looks at \<open>buffer[i-1]\<close> (before the array when \<open>i = 0\<close>) and, if that is not a
  carriage return, at \<open>buffer[i+1]\<close>.
\<close>

definition line_at_lf :: "bytes \<Rightarrow> nat \<Rightarrow> line \<Rightarrow> exn + line" where
  "line_at_lf buffer i l =
     (if i = 0 then Inl (Undef ''buffer[-1]'')
      else
        let nread = length buffer;
            (addition, delimSize) =
              (if buffer ! (i - 1) \<noteq> 13
               then if i < nread - 1 \<and> buffer ! (i + 1) = 13 then (1, 2) else (0, 1)
               else (0, 2 :: nat))
        in Inr (l\<lparr>ln_remainReadBufferSize := int nread - int i - (1 + addition),
                  ln_line := ln_line l @ take (i - (delimSize - 1)) buffer,
                  ln_readComplete := True\<rparr>))"

definition line_scan :: "bytes \<Rightarrow> line \<Rightarrow> (bool, line) res" where
  "line_scan buffer l =
     (case find_lf buffer of
        Some i \<Rightarrow> (case line_at_lf buffer i l of Inl e \<Rightarrow> (Inl e, l) | Inr l \<Rightarrow> (Inr True, l))
      | None \<Rightarrow> (Inr False, l\<lparr>ln_line := ln_line l @ buffer\<rparr>))"

definition line_processRead :: "nat \<Rightarrow> line \<Rightarrow> store \<Rightarrow> (bool, line \<times> store) res" where
  "line_processRead transport l st =
     catch_read False
       (bindR (with_obj l (ref_read transport 4096 st)) (\<lambda>(buffer, nread) (l, st).
        let (r, l) = line_scan buffer l in (r, (l, st))))"

section \<open>Parsing a string list\<close>

function strlist_contents :: "bool \<Rightarrow> nat \<Rightarrow> strlist \<Rightarrow> store \<Rightarrow> (bool, strlist \<times> store) res" where
  "strlist_contents le transport s st =
     (if length (sl_list s) < unat (sl_listSize s) then
        (case vth_readString32 (ref_read transport) (ref_read_string transport) le st of
           (Inl e, st) \<Rightarrow> (Inl e, (s, st))
         | (Inr (str, k), st) \<Rightarrow>
             let s = s\<lparr>sl_payload_pos := to_int32 (sl_payload_pos s + uint k),
                       sl_list := sl_list s @ [str]\<rparr> in
             if unat (sl_listSize s) = length (sl_list s)
             then (Inr True, (s\<lparr>sl_state := SEnd\<rparr>, st))
             else strlist_contents le transport s st)
      else (Inr True, (s\<lparr>sl_state := SEnd\<rparr>, st)))"
  by pat_completeness auto
termination
  by (relation "measure (\<lambda>(le, i, s, st). unat (sl_listSize s) - length (sl_list s))") auto

declare strlist_contents.simps [simp del]

definition strlist_switch :: "bool \<Rightarrow> nat \<Rightarrow> strlist \<Rightarrow> store \<Rightarrow> (bool, strlist \<times> store) res" where
  "strlist_switch le transport s st =
     (if sl_state s = SInit \<or> sl_state s = SBegin then
        bindR (with_obj s (vth_readInt32 (ref_read transport) le st)) (\<lambda>(v, k) (s, st).
        strlist_contents le transport
          (s\<lparr>sl_listSize := v, sl_payload_pos := to_int32 (sl_payload_pos s + uint k),
             sl_state := SContents\<rparr>) st)
      else if sl_state s = SContents then strlist_contents le transport s st
      else (Inr True, (s, st)))"

text \<open>After a caught exception the function falls out of the \<open>try\<close> block to \<open>return true\<close>.\<close>

definition strlist_processRead :: "bool \<Rightarrow> nat \<Rightarrow> strlist \<Rightarrow> store \<Rightarrow> (bool, strlist \<times> store) res" where
  "strlist_processRead le transport s st = catch_read True (strlist_switch le transport s st)"

section \<open>The virtual \<open>processRead\<close>\<close>

text \<open>
  A decorator first lets its parent parse from the same transport, unless the parent is
  complete (\<open>callParentProcessRead\<close>), and gives up while the parent needs more. A file
  descriptor protocol reads from sockets only.
\<close>

fun processRead :: "bool \<Rightarrow> nat \<Rightarrow> protocol \<Rightarrow> store \<Rightarrow> (bool, protocol \<times> store) res"
  and callParentProcessRead :: "bool \<Rightarrow> nat \<Rightarrow> protocol option \<Rightarrow> store \<Rightarrow> (bool, protocol option \<times> store) res"
where
  "processRead le transport (FrameProtocol b f q) st =
     (case frame_processRead le transport b f st of (r, (f, st)) \<Rightarrow> (r, (FrameProtocol b f q, st)))"
| "processRead le transport (LineProtocol b l q) st =
     (case callParentProcessRead le transport q st of
        (Inl e, (q, st)) \<Rightarrow> (Inl e, (LineProtocol b l q, st))
      | (Inr False, (q, st)) \<Rightarrow> (Inr False, (LineProtocol b l q, st))
      | (Inr True, (q, st)) \<Rightarrow>
          (case line_processRead transport l st of (r, (l, st)) \<Rightarrow> (r, (LineProtocol b l q, st))))"
| "processRead le transport (StringListProtocol b s q) st =
     (case callParentProcessRead le transport q st of
        (Inl e, (q, st)) \<Rightarrow> (Inl e, (StringListProtocol b s q, st))
      | (Inr False, (q, st)) \<Rightarrow> (Inr False, (StringListProtocol b s q, st))
      | (Inr True, (q, st)) \<Rightarrow>
          (case strlist_processRead le transport s st of
             (r, (s, st)) \<Rightarrow> (r, (StringListProtocol b s q, st))))"
| "processRead le transport (FileDescriptorProtocol b d q) st =
     (Inl (ProtocolException ''Invalid class name of transport''), (FileDescriptorProtocol b d q, st))"
| "callParentProcessRead le transport None st = (Inr True, (None, st))"
| "callParentProcessRead le transport (Some p) st =
     (if isReadComplete p then (Inr True, (Some p, st))
      else case processRead le transport p st of (r, (p, st)) \<Rightarrow> (r, (Some p, st)))"

definition processReadFromReadingBuffer :: "bool \<Rightarrow> protocol \<Rightarrow> store \<Rightarrow> (bool, protocol \<times> store) res" where
  "processReadFromReadingBuffer le p st = processRead le (readBuffer (p_base p)) p st"

definition processReadFromPayloadBuffer :: "bool \<Rightarrow> protocol \<Rightarrow> store \<Rightarrow> (bool, protocol \<times> store) res" where
  "processReadFromPayloadBuffer le p st = processRead le (payloadBuffer p) p st"

end
