(* ===== verification/ProtocolWrite.thy ===== *)
theory ProtocolWrite
  imports Protocol
begin

text \<open>
  The other half of the protocol objects: what of the reading buffer a complete protocol
  leaves over, access to the payload, serialisation and writing.

  Pointers into a buffer are pairs of the store index and the offset from \<open>basePtr()\<close>.
  The code adds and subtracts \<open>size_t\<close> values to pointers; the offset is the signed 64 bit
  value of the sum (\<open>to_ptrdiff\<close>). Writing goes to a transport of type \<open>'t\<close>: \<open>wr\<close> is
  its virtual \<open>write\<close>, and \<open>sendfd\<close> is the \<open>sendmsg\<close> of a descriptor, present only when
  the transport is a socket (\<open>className()\<close> is \<open>"BaseSocket"\<close>).
\<close>

definition to_ptrdiff :: "int \<Rightarrow> int" where
  "to_ptrdiff x = (x + 9223372036854775808) mod 18446744073709551616 - 9223372036854775808"

lemma to_ptrdiff_id [simp]:
  "-9223372036854775808 \<le> x \<Longrightarrow> x < 9223372036854775808 \<Longrightarrow> to_ptrdiff x = x"
  by (simp add: to_ptrdiff_def)

lemma to_ptrdiff_to_size: "to_ptrdiff (a + int (to_size b)) = to_ptrdiff (a + b)"
proof -
  have "int (to_size b) = b mod 18446744073709551616" by (simp add: to_size_def)
  moreover have "(a + b mod M + c) mod M = (a + b + c) mod M" for c M :: int
    by (metis add.commute add.left_commute mod_add_right_eq)
  ultimately show ?thesis by (simp only: to_ptrdiff_def)
qed

section \<open>What a protocol leaves in the buffer\<close>

definition base_remainingBufferPtr :: "base_protocol \<Rightarrow> store \<Rightarrow> nat \<times> int" where
  "base_remainingBufferPtr b st = (readBuffer b, bt_currentPtr (bufs st (readBuffer b)))"

definition base_remainingBufferSize :: "base_protocol \<Rightarrow> store \<Rightarrow> nat" where
  "base_remainingBufferSize b st = bt_remainingSize (bufs st (readBuffer b))"

definition readPayloadSize :: "base_protocol \<Rightarrow> frame \<Rightarrow> store \<Rightarrow> nat" where
  "readPayloadSize b f st = to_size (int (bt_readPos (bufs st (readBuffer b))) - int (fr_payload_pos f))"

text \<open>The bytes of the payload that have not been read: a \<open>size_t\<close> expression.\<close>

definition unreadPayload :: "base_protocol \<Rightarrow> frame \<Rightarrow> store \<Rightarrow> nat" where
  "unreadPayload b f st =
     to_size (uint (hdr_length (fr_initHeader f)) - int (fr_payload_pos f)
              - int (readPayloadSize b f st))"

fun remainingBufferPtr :: "protocol \<Rightarrow> store \<Rightarrow> nat \<times> int" where
  "remainingBufferPtr (FrameProtocol b f q) st =
     (if fr_state f = Complete
      then (readBuffer b,
            to_ptrdiff (bt_currentPtr (bufs st (readBuffer b)) + int (unreadPayload b f st)))
      else base_remainingBufferPtr b st)"
| "remainingBufferPtr (LineProtocol b l q) st =
     (if ln_readComplete l
      then let i = payloadBuffer (LineProtocol b l q) in
           (i, to_ptrdiff (bt_currentPtr (bufs st i) - ln_remainReadBufferSize l))
      else base_remainingBufferPtr b st)"
| "remainingBufferPtr (StringListProtocol b s q) st = base_remainingBufferPtr b st"
| "remainingBufferPtr (FileDescriptorProtocol b d q) st = base_remainingBufferPtr b st"

fun remainingBufferSize :: "protocol \<Rightarrow> store \<Rightarrow> nat" where
  "remainingBufferSize (FrameProtocol b f q) st =
     (if fr_state f = Complete
      then to_size (int (bt_remainingSize (bufs st (readBuffer b))) - int (unreadPayload b f st))
      else base_remainingBufferSize b st)"
| "remainingBufferSize (LineProtocol b l q) st =
     (if ln_readComplete l then to_size (ln_remainReadBufferSize l)
      else base_remainingBufferSize b st)"
| "remainingBufferSize (StringListProtocol b s q) st = base_remainingBufferSize b st"
| "remainingBufferSize (FileDescriptorProtocol b d q) st = base_remainingBufferSize b st"

definition remainingBytes :: "protocol \<Rightarrow> store \<Rightarrow> exn + bytes" where
  "remainingBytes p st =
     (case remainingBufferPtr p st of (i, off) \<Rightarrow> bt_mem (bufs st i) off (remainingBufferSize p st))"

definition resetReadingBufferToRemainingBuffer :: "protocol \<Rightarrow> store \<Rightarrow> (unit, store) res" where
  "resetReadingBufferToRemainingBuffer p st =
     (case remainingBytes p st of
        Inl e \<Rightarrow> (Inl e, st)
      | Inr rest \<Rightarrow> (Inr (), addToReadingBuffer rest p (resetBuffer (p_base p) st)))"

section \<open>The payload of a frame\<close>

text \<open>\<open>payloadPtr\<close>: NULL, the string \<open>payload_\<close>, or a position in the payload buffer.\<close>

datatype payload_ptr = PayloadNull | PayloadString bytes | PayloadAt nat int

definition payloadPtr :: "base_protocol \<Rightarrow> frame \<Rightarrow> store \<Rightarrow> payload_ptr" where
  "payloadPtr b f st =
     (if 0 < length (fr_payload f) then PayloadString (fr_payload f)
      else if fr_state f = Complete \<and> fr_payload_pos f < bt_totalSize (bufs st (readBuffer b))
      then PayloadAt (readBuffer b) (bt_basePtr (bufs st (readBuffer b)) + int (fr_payload_pos f))
      else PayloadNull)"

definition payloadSize :: "base_protocol \<Rightarrow> frame \<Rightarrow> store \<Rightarrow> nat" where
  "payloadSize b f st =
     (if 0 < length (fr_payload f) then length (fr_payload f)
      else if fr_state f = Complete
      then let expacted = to_int32 (uint (hdr_length (fr_initHeader f)) - int (fr_payload_pos f)) in
           if expacted \<le> to_int32 (int (bt_totalSize (bufs st (readBuffer b))))
           then to_size expacted else 0
      else 0)"

definition setFrameProtocol :: "frame_header \<Rightarrow> protocol \<Rightarrow> protocol \<Rightarrow> protocol" where
  "setFrameProtocol header payload p =
     (case p of FrameProtocol b f q \<Rightarrow>
        FrameProtocol b (f\<lparr>fr_header := header, fr_state := Complete\<rparr>) (Some payload)
      | _ \<Rightarrow> p)"

definition setFramePayload :: "frame_header \<Rightarrow> bytes \<Rightarrow> protocol \<Rightarrow> protocol" where
  "setFramePayload header payload p =
     (case p of FrameProtocol b f q \<Rightarrow>
        FrameProtocol b (f\<lparr>fr_header := header, fr_payload := payload, fr_state := Complete\<rparr>) q
      | _ \<Rightarrow> p)"

section \<open>Serialising\<close>

text \<open>
  \<open>FrameHeader::serialize\<close>: the length field counts what is already in the buffer, so it
  is the header and the payload; it is computed as a \<open>size_t\<close> and stored in 32 bits.
\<close>

definition header_serialize :: "bool \<Rightarrow> nat \<Rightarrow> nat \<Rightarrow> frame_header \<Rightarrow> store \<Rightarrow> (unit, frame_header \<times> store) res" where
  "header_serialize le i plen h st =
     bindR (with_obj h (vth_writeInt32 (ref_write i) le (hdr_cmd h) st)) (\<lambda>_ (h, st).
     bindR (with_obj h (vth_writeInt32 (ref_write i) le (hdr_trid h) st)) (\<lambda>_ (h, st).
     bindR (with_obj h (vth_writeInt32 (ref_write i) le (hdr_checksum h) st)) (\<lambda>_ (h, st).
     let h = h\<lparr>hdr_length := word_of_nat (bt_totalSize (bufs st i) + plen + 4)\<rparr> in
     bindR (with_obj h (vth_writeInt32 (ref_write i) le (hdr_length h) st)) (\<lambda>_ (h, st).
     (Inr (), (h, st))))))"

definition makeChecksum :: "frame_header \<Rightarrow> frame_header" where
  "makeChecksum h = h\<lparr>hdr_checksum := 1\<rparr>"

text \<open>\<open>writingBufferSize\<close>: the protocol's own buffer and, if it writes, the parent's.\<close>

fun writingBufferSize :: "protocol \<Rightarrow> store \<Rightarrow> nat"
  and parentWritingSize :: "protocol option \<Rightarrow> store \<Rightarrow> nat"
where
  "writingBufferSize (FrameProtocol b _ _) st = bt_totalSize (bufs st (writeBuffer b))"
| "writingBufferSize (LineProtocol b _ q) st =
     bt_totalSize (bufs st (writeBuffer b)) + parentWritingSize q st"
| "writingBufferSize (StringListProtocol b _ q) st =
     bt_totalSize (bufs st (writeBuffer b)) + parentWritingSize q st"
| "writingBufferSize (FileDescriptorProtocol b _ q) st =
     bt_totalSize (bufs st (writeBuffer b)) + parentWritingSize q st"
| "parentWritingSize None st = 0"
| "parentWritingSize (Some p) st =
     (if isEnabledWriteBuffer p then writingBufferSize p st else 0)"

definition frame_serialize_header :: "bool \<Rightarrow> base_protocol \<Rightarrow> frame \<Rightarrow> nat \<Rightarrow> store \<Rightarrow> (unit, frame \<times> store) res" where
  "frame_serialize_header le b f n st =
     (case header_serialize le (writeBuffer b) n (fr_header f) st of
        (r, (h, st)) \<Rightarrow> (r, (f\<lparr>fr_header := h\<rparr>, st)))"

text \<open>
  The virtual \<open>processSerialize\<close>. A decorator serialises itself and then asks its parent to,
  with the bytes that will follow the parent's; a frame with a payload protocol serialises
  that first.
\<close>

fun processSerialize :: "bool \<Rightarrow> nat \<Rightarrow> protocol \<Rightarrow> store \<Rightarrow> (bool, protocol \<times> store) res"
  and callProcessSerialize :: "bool \<Rightarrow> nat \<Rightarrow> protocol option \<Rightarrow> store \<Rightarrow> (bool, protocol option \<times> store) res"
where
  "processSerialize le bufferSize (FrameProtocol b f q) st =
     (let st = resetWritingBuffer b st;
          f = f\<lparr>fr_header := makeChecksum (fr_header f)\<rparr>
      in if 0 < length (fr_payload f) then
           (case frame_serialize_header le b f (bufferSize + length (fr_payload f)) st of
              (Inl e, (f, st)) \<Rightarrow> (Inl e, (FrameProtocol b f q, st))
            | (Inr _, (f, st)) \<Rightarrow>
                (case ref_write (writeBuffer b) (fr_payload f) st of
                   (Inl e, st) \<Rightarrow> (Inl e, (FrameProtocol b f q, st))
                 | (Inr _, st) \<Rightarrow> (Inr True, (FrameProtocol b f q, st))))
         else
           (case callProcessSerialize le 0 q st of
              (Inl e, (q, st)) \<Rightarrow> (Inl e, (FrameProtocol b f q, st))
            | (Inr _, (q, st)) \<Rightarrow>
                (case frame_serialize_header le b f
                        (bufferSize + (case q of None \<Rightarrow> 0 | Some p \<Rightarrow> writingBufferSize p st)) st of
                   (Inl e, (f, st)) \<Rightarrow> (Inl e, (FrameProtocol b f q, st))
                 | (Inr _, (f, st)) \<Rightarrow> (Inr True, (FrameProtocol b f q, st)))))"
| "processSerialize le bufferSize (LineProtocol b l q) st =
     (let st = resetWritingBuffer b st in
      case vth_writeBinary (ref_write (writeBuffer b)) (ln_line l) st of
        (Inl e, st) \<Rightarrow> (Inl e, (LineProtocol b l q, st))
      | (Inr _, st) \<Rightarrow>
          (case vth_writeBinary (ref_write (writeBuffer b)) [13, 10] st of
             (Inl e, st) \<Rightarrow> (Inl e, (LineProtocol b l q, st))
           | (Inr _, st) \<Rightarrow>
               (case callProcessSerialize le
                       (bufferSize + bt_totalSize (bufs st (writeBuffer b))) q st of
                  (r, (q, st)) \<Rightarrow> (r, (LineProtocol b l q, st)))))"
| "processSerialize le bufferSize (StringListProtocol b s q) st =
     (let st = resetWritingBuffer b st in
      case vth_writeString32List (ref_write (writeBuffer b)) le (sl_list s) st of
        (Inl e, st) \<Rightarrow> (Inl e, (StringListProtocol b s q, st))
      | (Inr _, st) \<Rightarrow>
          (case callProcessSerialize le
                  (bt_totalSize (bufs st (writeBuffer b)) + bufferSize) q st of
             (r, (q, st)) \<Rightarrow> (r, (StringListProtocol b s q, st))))"
| "processSerialize le bufferSize (FileDescriptorProtocol b d q) st =
     (Inr True, (FileDescriptorProtocol b d q, resetBuffer b st))"
| "callProcessSerialize le bufferSize None st = (Inr True, (None, st))"
| "callProcessSerialize le bufferSize (Some p) st =
     (case processSerialize le bufferSize p st of (r, (p, st)) \<Rightarrow> (r, (Some p, st)))"

section \<open>Writing\<close>

text \<open>
  What \<open>BaseProtocol::processWrite\<close> and \<open>processWriteFromReadBuffer\<close> do with the buffer
  \<open>i\<close> of the protocol: hand the unread bytes to the transport, which must take them all, and
  move the read position behind them.
\<close>

definition write_buffer :: "'t writer \<Rightarrow> bool \<Rightarrow> nat \<Rightarrow> store \<Rightarrow> 't \<Rightarrow> (bool, store \<times> 't) res" where
  "write_buffer wr on i st t =
     (if on \<and> 0 < bt_remainingSize (bufs st i) then
        (case bt_mem (bufs st i) (bt_currentPtr (bufs st i)) (bt_remainingSize (bufs st i)) of
           Inl e \<Rightarrow> (Inl e, (st, t))
         | Inr bs \<Rightarrow>
             (case wr bs t of
                (Inl e, t) \<Rightarrow> (Inl e, (st, t))
              | (Inr n, t) \<Rightarrow>
                  let pos = word_of_int n :: 32 word in
                  if unat pos \<noteq> bt_remainingSize (bufs st i)
                  then (Inl (ProtocolException ''processWrite not write all buffer to transport''), (st, t))
                  else (case on_buf i (bt_fastforward (unat pos)) st of
                          (Inl e, st) \<Rightarrow> (Inl e, (st, t))
                        | (Inr _, st) \<Rightarrow> (Inr True, (st, t)))))
      else (Inr True, (st, t)))"

text \<open>
  The virtual \<open>processWrite\<close>: the parent first, then the protocol's own buffer. A frame has
  no parent and lets its payload protocol write after it.
\<close>

fun processWrite :: "'t writer \<Rightarrow> (int \<Rightarrow> 't \<Rightarrow> 't) option \<Rightarrow> protocol \<Rightarrow> store \<Rightarrow> 't \<Rightarrow> (bool, store \<times> 't) res"
  and callProcessWrite :: "'t writer \<Rightarrow> (int \<Rightarrow> 't \<Rightarrow> 't) option \<Rightarrow> protocol option \<Rightarrow> store \<Rightarrow> 't \<Rightarrow> (bool, store \<times> 't) res"
where
  "processWrite wr sendfd (FrameProtocol b f q) st t =
     (case write_buffer wr (turnOnWrite b) (writeBuffer b) st t of
        (Inl e, s) \<Rightarrow> (Inl e, s)
      | (Inr _, (st, t)) \<Rightarrow>
          (case callProcessWrite wr sendfd q st t of
             (Inl e, s) \<Rightarrow> (Inl e, s)
           | (Inr _, s) \<Rightarrow> (Inr True, s)))"
| "processWrite wr sendfd (LineProtocol b l q) st t =
     (case callProcessWrite wr sendfd q st t of
        (Inl e, s) \<Rightarrow> (Inl e, s)
      | (Inr False, s) \<Rightarrow> (Inr False, s)
      | (Inr True, (st, t)) \<Rightarrow> write_buffer wr (turnOnWrite b) (writeBuffer b) st t)"
| "processWrite wr sendfd (StringListProtocol b s q) st t =
     (case callProcessWrite wr sendfd q st t of
        (Inl e, s) \<Rightarrow> (Inl e, s)
      | (Inr False, s) \<Rightarrow> (Inr False, s)
      | (Inr True, (st, t)) \<Rightarrow> write_buffer wr (turnOnWrite b) (writeBuffer b) st t)"
| "processWrite wr sendfd (FileDescriptorProtocol b d q) st t =
     (case sendfd of
        None \<Rightarrow> (Inl (ProtocolException ''Invalid class name of transport''), (st, t))
      | Some send \<Rightarrow> (Inr True, (st, send (fd_fd d) t)))"
| "callProcessWrite wr sendfd None st t = (Inr True, (st, t))"
| "callProcessWrite wr sendfd (Some p) st t = processWrite wr sendfd p st t"

fun processWriteFromReadBuffer :: "'t writer \<Rightarrow> protocol \<Rightarrow> store \<Rightarrow> 't \<Rightarrow> (bool, store \<times> 't) res"
  and callParentWriteFromReadBuffer :: "'t writer \<Rightarrow> protocol option \<Rightarrow> store \<Rightarrow> 't \<Rightarrow> (bool, store \<times> 't) res"
where
  "processWriteFromReadBuffer wr (FrameProtocol b f q) st t =
     write_buffer wr (turnOnWrite b) (readBuffer b) st t"
| "processWriteFromReadBuffer wr (LineProtocol b l q) st t =
     (case callParentWriteFromReadBuffer wr q st t of
        (Inr True, (st, t)) \<Rightarrow> write_buffer wr (turnOnWrite b) (readBuffer b) st t
      | r \<Rightarrow> r)"
| "processWriteFromReadBuffer wr (StringListProtocol b s q) st t =
     (case callParentWriteFromReadBuffer wr q st t of
        (Inr True, (st, t)) \<Rightarrow> write_buffer wr (turnOnWrite b) (readBuffer b) st t
      | r \<Rightarrow> r)"
| "processWriteFromReadBuffer wr (FileDescriptorProtocol b d q) st t =
     (case callParentWriteFromReadBuffer wr q st t of
        (Inr True, (st, t)) \<Rightarrow> write_buffer wr (turnOnWrite b) (readBuffer b) st t
      | r \<Rightarrow> r)"
| "callParentWriteFromReadBuffer wr None st t = (Inr True, (st, t))"
| "callParentWriteFromReadBuffer wr (Some p) st t = processWriteFromReadBuffer wr p st t"

end
