(* ===== verification/FrameProofs.thy ===== *)
theory FrameProofs
  imports ProtocolWrite
begin

text \<open>
  Correctness of \<open>FrameProtocol\<close>: the wire format a frame is serialised to, what parsing it
  back yields, how parsing behaves when only part of a frame has arrived, and what it makes
  of length fields no sender writes.
\<close>

section \<open>Total sizes and cleared buffers\<close>

lemma bt_totalSize_put [store_simps]:
  "bt_totalSize (bufs (ref_put i bs st) i) = bt_totalSize (bufs st i) + length bs"
  by (simp add: ref_put_def bt_totalSize_def bt_put_def)

lemma bt_totalSize_adv [store_simps]:
  "bt_totalSize (bufs (ref_adv i n st) j) = bt_totalSize (bufs st j)"
  by (simp add: ref_adv_def bt_totalSize_def bt_simps)

lemma bt_readPos_adv [store_simps]:
  "ref_ok i st \<Longrightarrow> n \<le> length (ref_rest i st) \<Longrightarrow>
   bt_readPos (bufs (ref_adv i n st) i) = bt_readPos (bufs st i) + n"
proof -
  assume a: "ref_ok i st" "n \<le> length (ref_rest i st)"
  then have ok: "bt_ok (bufs st i)" "bt_ok (bt_advance n (bufs st i))"
    by (simp_all add: ref_ok_def ref_rest_def bt_simps)
  have "int (bt_readPos (bt_advance n (bufs st i))) = int (bt_readPos (bufs st i)) + int n"
    using ok by (simp add: bt_readPos_ok bt_advance_ok(4))
  then show ?thesis by (simp add: ref_adv_def)
qed

text \<open>A cleared buffer holds exactly what is put into it.\<close>

definition buf_cleared :: "nat \<Rightarrow> store \<Rightarrow> bool" where
  "buf_cleared i st \<longleftrightarrow> bt_buf (bufs st i) = [] \<and> bt_pos (bufs st i) = 0"

lemma buf_clearedD:
  assumes "buf_cleared i st"
  shows "ref_ok i st" "ref_rest i st = []" "bt_totalSize (bufs st i) = 0"
    "bt_readPos (bufs st i) = 0" "ref_room i n st \<longleftrightarrow> n < 2147483648"
  using assms by (auto simp: buf_cleared_def ref_ok_def bt_ok_def ref_rest_def bt_rest_def
      bt_totalSize_def bt_readPos_def ref_room_def bt_room_def)

lemma buf_cleared_put:
  assumes "buf_cleared i st" "length bs < 2147483648"
  shows "ref_ok i (ref_put i bs st)" "ref_rest i (ref_put i bs st) = bs"
    "bt_totalSize (bufs (ref_put i bs st) i) = length bs"
    "bt_readPos (bufs (ref_put i bs st) i) = 0"
  using buf_clearedD [OF assms(1)] assms(2) ref_put_ok [of i st bs]
  by (simp_all add: store_simps) (simp add: ref_put_def bt_put_def bt_readPos_def buf_cleared_def)

lemma resetWritingBuffer_cleared [simp]: "buf_cleared (writeBuffer b) (resetWritingBuffer b st)"
  by (simp add: buf_cleared_def resetWritingBuffer_def)

lemma newBaseProtocol_simps:
  "newBaseProtocol st = (b, st') \<Longrightarrow>
   readBuffer b = nextBuf st \<and> writeBuffer b = Suc (nextBuf st) \<and> turnOnWrite b
   \<and> buf_cleared (readBuffer b) st' \<and> buf_cleared (writeBuffer b) st'
   \<and> nextBuf st' = Suc (Suc (nextBuf st))
   \<and> (\<forall>i. i < nextBuf st \<longrightarrow> bufs st' i = bufs st i)"
  by (auto simp: newBaseProtocol_def makeBuffer_def buf_cleared_def newBufferedTransport_def)

section \<open>The frame format\<close>

definition header_bytes :: "bool \<Rightarrow> frame_header \<Rightarrow> nat \<Rightarrow> bytes" where
  "header_bytes le h plen =
     enc32 le (hdr_cmd h) @ enc32 le (hdr_trid h) @ enc32 le (hdr_checksum h)
     @ enc32 le (word_of_nat (16 + plen))"

definition frame_bytes :: "bool \<Rightarrow> frame_header \<Rightarrow> bytes \<Rightarrow> bytes" where
  "frame_bytes le h p = header_bytes le (makeChecksum h) (length p) @ p"

lemma length_header_bytes [simp]: "length (header_bytes le h n) = 16"
  by (simp add: header_bytes_def)

lemma length_frame_bytes [simp]: "length (frame_bytes le h p) = 16 + length p"
  by (simp add: frame_bytes_def)

lemma frame_bytes_not_Nil [simp]: "frame_bytes le h p \<noteq> []"
  by (simp add: frame_bytes_def flip: length_0_conv)

lemma header_serialize_ok:
  assumes "buf_cleared i st"
  shows "header_serialize le i plen h st =
     (Inr (), (h\<lparr>hdr_length := word_of_nat (16 + plen)\<rparr>, ref_put i (header_bytes le h plen) st))"
proof -
  have room: "ref_room i 4 (ref_put i bs st)" if "length bs \<le> 12" for bs
    using that buf_clearedD(5) [OF assms, where n = "length bs + 4"] by (intro ref_sink.room_put) simp
  have room0: "ref_room i 4 st" using buf_clearedD(5) [OF assms] by simp
  have tot: "bt_totalSize (bufs st i) = 0" using assms by (rule buf_clearedD)
  show ?thesis
    by (simp add: header_serialize_def with_obj_def ref_sink.writeInt32_ok room0 room
        ref_sink.put_put store_simps tot header_bytes_def Let_def)
qed

lemma frame_serialize_payload:
  assumes "p \<noteq> []" "16 + length p < 2147483648" "fr_payload f = p"
  shows "processSerialize le 0 (FrameProtocol b f q) st =
     (Inr True, (FrameProtocol b (f\<lparr>fr_header := (makeChecksum (fr_header f))
                     \<lparr>hdr_length := word_of_nat (16 + length p)\<rparr>\<rparr>) q,
                 ref_put (writeBuffer b) (frame_bytes le (fr_header f) p) (resetWritingBuffer b st)))"
proof -
  let ?st = "resetWritingBuffer b st" and ?w = "writeBuffer b"
  let ?hb = "header_bytes le (makeChecksum (fr_header f)) (length p)"
  have "ref_room ?w (length p) (ref_put ?w ?hb ?st)"
    using buf_clearedD(5) [OF resetWritingBuffer_cleared [of b st], where n = "16 + length p"] assms(2)
    by (intro ref_sink.room_put) simp
  then have "ref_write ?w p (ref_put ?w ?hb ?st)
      = (Inr (int (length p)), ref_put ?w (?hb @ p) ?st)"
    using ref_sink.wr_ok by (simp add: ref_sink.put_put)
  then show ?thesis
    using assms by (simp add: frame_serialize_header_def header_serialize_ok frame_bytes_def Let_def)
qed

section \<open>Parsing\<close>

lemma header_all_fields:
  "h\<lparr>hdr_cmd := c, hdr_trid := t, hdr_checksum := k, hdr_length := n\<rparr>
   = \<lparr>hdr_length = n, hdr_checksum = k, hdr_cmd = c, hdr_trid = t\<rparr>"
  by (cases h) simp

text \<open>A complete header moves the parser to the payload label.\<close>

lemma frame_parse_header:
  assumes "ref_ok i st" "fr_payload_pos f = 0" "fr_state f = Init \<or> fr_state f = Command"
    and "ref_rest i st = enc32 le c @ enc32 le t @ enc32 le k @ enc32 le n @ r"
  shows "frame_switch le i b f st = frame_at_payload b
     (f\<lparr>fr_payload_pos := 16,
        fr_header := \<lparr>hdr_length = n, hdr_checksum = k, hdr_cmd = c, hdr_trid = t\<rparr>,
        fr_state := Payload\<rparr>)
     (ref_adv i 16 st)"
proof -
  let ?rest = "enc32 le c @ enc32 le t @ enc32 le k @ enc32 le n @ r"
  have ok: "ref_ok i (ref_adv i m st)" "ref_rest i (ref_adv i m st) = drop m ?rest"
    if "m \<le> 16" for m
    using that assms(1,4) by (simp_all add: ref_adv_ok)
  have r0: "vth_readInt32 (ref_read i) le st = (Inr (c, 4), ref_adv i 4 st)"
    using assms by (intro ref_source.readInt32_enc) auto
  have r1: "vth_readInt32 (ref_read i) le (ref_adv i 4 st) = (Inr (t, 4), ref_adv i 8 st)"
    using ref_source.readInt32_enc [of i "ref_adv i 4 st" le t] ok [of 4] by (simp add: ref_adv_add)
  have r2: "vth_readInt32 (ref_read i) le (ref_adv i 8 st) = (Inr (k, 4), ref_adv i 12 st)"
    using ref_source.readInt32_enc [of i "ref_adv i 8 st" le k] ok [of 8] by (simp add: ref_adv_add)
  have r3: "vth_readInt32 (ref_read i) le (ref_adv i 12 st) = (Inr (n, 4), ref_adv i 16 st)"
    using ref_source.readInt32_enc [of i "ref_adv i 12 st" le n] ok [of 12] by (simp add: ref_adv_add)
  show ?thesis
    using assms(2,3)
    by (auto simp: frame_switch_def frame_at_command_def frame_at_trid_def frame_at_checksum_def
        frame_at_length_def with_obj_def r0 r1 r2 r3 header_all_fields)
qed

text \<open>A header cut short inside its first field: the bytes are consumed and the state stays.\<close>

lemma frame_parse_short:
  assumes "ref_ok i st" "fr_state f = Init \<or> fr_state f = Command" "length (ref_rest i st) < 4"
  shows "frame_processRead le i b f st = (Inr False, (f, ref_adv i (length (ref_rest i st)) st))"
  using assms
  by (auto simp: frame_processRead_def frame_switch_def frame_at_command_def with_obj_def
      ref_source.readInt32_short catch_read_def)

section \<open>Reading in several goes\<close>

lemma bt_mem_rest:
  assumes "ref_ok i st" "a + n \<le> length (bt_buf (bufs st i))"
  shows "bt_mem (bufs st i) (int a) n = Inr (take n (drop a (bt_buf (bufs st i))))"
  using assms by (simp add: bt_mem_def)

lemma bt_put_advance: "bt_put bs (bt_advance n t) = bt_advance n (bt_put bs t)"
  by (cases t) (simp add: bt_put_def bt_advance_def)

lemma ref_put_adv: "ref_put i bs (ref_adv i n st) = ref_adv i n (ref_put i bs st)"
  by (simp add: ref_put_def ref_adv_def bt_put_advance)

lemma addToReadingBuffer_put:
  "ref_room (readBuffer (p_base p)) (length bs) st \<Longrightarrow>
   addToReadingBuffer bs p st = ref_put (readBuffer (p_base p)) bs st"
  by (simp add: addToReadingBuffer_def ref_sink.wr_ok)

text \<open>One label of the switch: a complete field, and no byte of it.\<close>

lemma frame_label_ok:
  assumes "ref_ok i st" "4 \<le> length (ref_rest i st)"
  shows "frame_at_command le i b f st = frame_at_trid le i b
           (f\<lparr>fr_payload_pos := to_size (int (fr_payload_pos f) + 4),
              fr_header := (fr_header f)\<lparr>hdr_cmd := dec32 le (take 4 (ref_rest i st))\<rparr>,
              fr_state := TransationID\<rparr>) (ref_adv i 4 st)"
    "frame_at_trid le i b f st = frame_at_checksum le i b
           (f\<lparr>fr_payload_pos := to_size (int (fr_payload_pos f) + 4),
              fr_header := (fr_header f)\<lparr>hdr_trid := dec32 le (take 4 (ref_rest i st))\<rparr>,
              fr_state := Checksum\<rparr>) (ref_adv i 4 st)"
    "frame_at_checksum le i b f st = frame_at_length le i b
           (f\<lparr>fr_payload_pos := to_size (int (fr_payload_pos f) + 4),
              fr_header := (fr_header f)\<lparr>hdr_checksum := dec32 le (take 4 (ref_rest i st))\<rparr>,
              fr_state := Length\<rparr>) (ref_adv i 4 st)"
    "frame_at_length le i b f st = frame_at_payload b
           (f\<lparr>fr_payload_pos := to_size (int (fr_payload_pos f) + 4),
              fr_header := (fr_header f)\<lparr>hdr_length := dec32 le (take 4 (ref_rest i st))\<rparr>,
              fr_state := Payload\<rparr>) (ref_adv i 4 st)"
  using ref_source.readInt32_ok [OF assms, of le]
  by (simp_all add: frame_at_command_def frame_at_trid_def frame_at_checksum_def
      frame_at_length_def with_obj_def)

lemma frame_label_short:
  assumes "ref_ok i st" "length (ref_rest i st) < 4"
  defines "res \<equiv> \<lambda>f. (Inl (ProtocolException ''readInt32 failed..''),
                        (f, ref_adv i (length (ref_rest i st)) st))"
  shows "frame_at_command le i b f st = res f" "frame_at_trid le i b f st = res f"
    "frame_at_checksum le i b f st = res f" "frame_at_length le i b f st = res f"
  using ref_source.readInt32_short [OF assms(1,2), of le] unfolding res_def
  by (simp_all add: frame_at_command_def frame_at_trid_def frame_at_checksum_def
      frame_at_length_def with_obj_def)

text \<open>
  The labels by number, to follow the parser over several fields: after \<open>j\<close> whole fields
  it is at the label \<open>j\<close> further, with the same object whatever follows them.
\<close>

definition frame_label :: "nat \<Rightarrow> frame_state" where
  "frame_label k = [Init, TransationID, Checksum, Length, Payload] ! k"

definition frame_at :: "nat \<Rightarrow> bool \<Rightarrow> nat \<Rightarrow> base_protocol \<Rightarrow> frame \<Rightarrow> store \<Rightarrow> (bool, frame \<times> store) res" where
  "frame_at k le i b f st =
     ([frame_at_command le i, frame_at_trid le i, frame_at_checksum le i, frame_at_length le i,
       frame_at_payload] ! k) b f st"

definition frame_field :: "nat \<Rightarrow> 32 word \<Rightarrow> frame \<Rightarrow> frame" where
  "frame_field k v f = f\<lparr>fr_payload_pos := to_size (int (fr_payload_pos f) + 4),
     fr_header := ([hdr_cmd_update (\<lambda>_. v), hdr_trid_update (\<lambda>_. v), hdr_checksum_update (\<lambda>_. v),
                    hdr_length_update (\<lambda>_. v)] ! k) (fr_header f),
     fr_state := frame_label (Suc k)\<rparr>"

lemma less_4_cases: "(k::nat) < 4 \<Longrightarrow> k = 0 \<or> k = 1 \<or> k = 2 \<or> k = 3" by arith

lemma less_5_cases: "(k::nat) \<le> 4 \<Longrightarrow> k = 0 \<or> k = 1 \<or> k = 2 \<or> k = 3 \<or> k = 4" by arith

lemma frame_at_ok:
  assumes "k < 4" "ref_ok i st" "4 \<le> length (ref_rest i st)"
  shows "frame_at k le i b f st
       = frame_at (Suc k) le i b (frame_field k (dec32 le (take 4 (ref_rest i st))) f) (ref_adv i 4 st)"
  using less_4_cases [OF assms(1)] frame_label_ok [OF assms(2,3), of le b f]
  by (elim disjE) (simp_all add: frame_at_def frame_field_def frame_label_def)

lemma frame_at_short:
  assumes "k < 4" "ref_ok i st" "length (ref_rest i st) < 4"
  shows "frame_at k le i b f st
       = (Inl (ProtocolException ''readInt32 failed..''), (f, ref_adv i (length (ref_rest i st)) st))"
  using less_4_cases [OF assms(1)] frame_label_short [OF assms(2,3), of le b f]
  by (elim disjE) (simp_all add: frame_at_def)

lemma frame_switch_at:
  "k \<le> 4 \<Longrightarrow> fr_state f = frame_label k \<Longrightarrow> frame_switch le i b f st = frame_at k le i b f st"
  by (drule less_5_cases) (elim disjE, simp_all add: frame_switch_def frame_at_def frame_label_def)

lemma frame_field_state [simp]: "fr_state (frame_field k v f) = frame_label (Suc k)"
  by (simp add: frame_field_def)

lemma frame_at_chain:
  assumes "k + j \<le> 4" "fr_state f = frame_label k"
    and "ref_ok i s" "ref_rest i s = take n bs" "ref_ok i t" "ref_rest i t = bs"
    and "4 * j \<le> n" "n \<le> length bs"
  shows "\<exists>F. fr_state F = frame_label (k + j)
    \<and> frame_at k le i b f s = frame_at (k + j) le i b F (ref_adv i (4 * j) s)
    \<and> frame_at k le i b f t = frame_at (k + j) le i b F (ref_adv i (4 * j) t)"
  using assms
proof (induction j arbitrary: k f s t n bs)
  case 0
  then show ?case by auto
next
  case (Suc j)
  let ?f = "frame_field k (dec32 le (take 4 bs)) f"
  have n: "4 \<le> n" using Suc.prems(7) by simp
  have s: "ref_ok i (ref_adv i 4 s)" "ref_rest i (ref_adv i 4 s) = take (n - 4) (drop 4 bs)"
    and t: "ref_ok i (ref_adv i 4 t)" "ref_rest i (ref_adv i 4 t) = drop 4 bs"
    using Suc.prems n by (simp_all add: store_simps drop_take)
  have "\<exists>F. fr_state F = frame_label (Suc k + j)
    \<and> frame_at (Suc k) le i b ?f (ref_adv i 4 s)
      = frame_at (Suc k + j) le i b F (ref_adv i (4 * j) (ref_adv i 4 s))
    \<and> frame_at (Suc k) le i b ?f (ref_adv i 4 t)
      = frame_at (Suc k + j) le i b F (ref_adv i (4 * j) (ref_adv i 4 t))"
    using Suc.prems n by (intro Suc.IH [OF _ _ s t]) auto
  moreover have "frame_at k le i b f s = frame_at (Suc k) le i b ?f (ref_adv i 4 s)"
    and "frame_at k le i b f t = frame_at (Suc k) le i b ?f (ref_adv i 4 t)"
    using Suc.prems n frame_at_ok [of k i s le b f] frame_at_ok [of k i t le b f]
    by (simp_all add: min_absorb1)
  ultimately show ?case by (simp add: ref_adv_add)
qed

text \<open>
  What a first read leaves is what a read of the whole input is at after the same number of
  bytes, when the cut is between two fields or behind the header.
\<close>

lemma frame_switch_split:
  assumes st: "ref_ok i s" "ref_rest i s = take n bs" "ref_ok i t" "ref_rest i t = bs"
    and n: "n = 4 * j \<and> j < 4 \<or> 16 \<le> n" "n \<le> length bs"
    and f: "fr_state f = Init"
    and r: "frame_processRead le i b f s = (Inr False, (f1, s1))"
  shows "\<exists>k. s1 = ref_adv i k s \<and> frame_switch le i b f1 (ref_adv i k t) = frame_switch le i b f t"
proof (cases "16 \<le> n")
  case True
  then obtain F where "fr_state F = frame_label 4"
    "frame_at 0 le i b f s = frame_at 4 le i b F (ref_adv i 16 s)"
    "frame_at 0 le i b f t = frame_at 4 le i b F (ref_adv i 16 t)"
    using frame_at_chain [OF _ _ st, of 0 4 f le b] f n(2) by (auto simp: frame_label_def)
  then show ?thesis
    using f r by (auto simp: frame_processRead_def frame_switch_at [of 0] frame_switch_at [of 4]
        frame_label_def frame_at_def frame_at_payload_def catch_read_def Let_def split: if_splits)
next
  case False
  with n have j: "n = 4 * j" "j < 4" by auto
  then obtain F where F: "fr_state F = frame_label j"
    "frame_at 0 le i b f s = frame_at j le i b F (ref_adv i n s)"
    "frame_at 0 le i b f t = frame_at j le i b F (ref_adv i n t)"
    using frame_at_chain [OF _ _ st, of 0 j f le b] f n(2) by (auto simp: frame_label_def)
  have "ref_ok i (ref_adv i n s)" "ref_rest i (ref_adv i n s) = []"
    using st n(2) by (simp_all add: store_simps)
  with frame_at_short [OF j(2) this(1), of le b F] F j f r show ?thesis
    by (auto simp: frame_processRead_def frame_switch_at [of 0] frame_switch_at [of j]
        frame_label_def [of 0] catch_read_def)
qed

end
