(* ===== verification/FrameSpec.thy ===== *)
theory FrameSpec
  imports FrameProofs
begin

text \<open>
  What frames promise across the wire: a sent frame is received as it was, also when it
  arrives in pieces cut between header fields or in the payload; and where the promise ends:
  a header cut inside a field, and length fields below 16 or above \<open>INT_MAX\<close>.
\<close>

section \<open>Sending\<close>

text \<open>A transport that accepts everything written and remembers it.\<close>

definition collect :: "bytes writer" where
  "collect bs out = (Inr (to_int32 (int (length bs))), out @ bs)"

lemma write_buffer_ok:
  assumes "ref_ok i st" "ref_rest i st = bs" "bs \<noteq> []" "length bs < 2147483648"
  shows "write_buffer collect True i st out = (Inr True, (ref_adv i (length bs) st, out @ bs))"
proof -
  have ok: "bt_ok (bufs st i)" "bt_rest (bufs st i) = bs"
    using assms(1,2) by (simp_all add: ref_ok_def ref_rest_def)
  have "unat (word_of_int (int (length bs)) :: 32 word) = length bs"
    using assms(4) unat_of_length [of "length bs"] by simp
  moreover have "on_buf i (bt_fastforward (length bs)) st = (Inr (), ref_adv i (length bs) st)"
    using ok by (intro on_buf_upd [where g = "bt_advance (length bs)", folded ref_adv_def])
      (simp add: bt_fastforward_ok)
  ultimately show ?thesis
    using ok assms(3,4)
    by (simp add: write_buffer_def bt_remainingSize_ok bt_mem_current collect_def)
qed

section \<open>Receiving\<close>

definition parsed_header :: "32 word \<Rightarrow> 32 word \<Rightarrow> 32 word \<Rightarrow> 32 word \<Rightarrow> frame \<Rightarrow> frame" where
  "parsed_header c t k n f = f\<lparr>fr_payload_pos := 16,
     fr_header := \<lparr>hdr_length = n, hdr_checksum = k, hdr_cmd = c, hdr_trid = t\<rparr>,
     fr_state := Payload\<rparr>"

definition received :: "32 word \<Rightarrow> 32 word \<Rightarrow> 32 word \<Rightarrow> 32 word \<Rightarrow> frame \<Rightarrow> frame" where
  "received c t k n f = f\<lparr>fr_payload_pos := 16,
     fr_header := \<lparr>hdr_length = n, hdr_checksum = k, hdr_cmd = c, hdr_trid = t\<rparr>,
     fr_initHeader := \<lparr>hdr_length = n, hdr_checksum = k, hdr_cmd = c, hdr_trid = t\<rparr>,
     fr_state := Complete\<rparr>"

lemmas received_simps = received_def parsed_header_def

lemma frame_read_header:
  assumes "buf_cleared (readBuffer b) st" "fr_state f = Init" "fr_payload_pos f = 0"
    and "bs = enc32 le c @ enc32 le t @ enc32 le k @ enc32 le n @ r" "length bs < 2147483648"
  shows "processReadFromReadingBuffer le (FrameProtocol b f q)
           (addToReadingBuffer bs (FrameProtocol b f q) st)
       = (let s = ref_adv (readBuffer b) 16 (ref_put (readBuffer b) bs st) in
          if 0 < to_int32 (uint n - int (length bs))
          then (Inr False, (FrameProtocol b (parsed_header c t k n f) q, s))
          else (Inr True, (FrameProtocol b (received c t k n f) q, s)))"
proof -
  let ?i = "readBuffer b" and ?p = "FrameProtocol b f q"
  let ?s = "ref_put ?i bs st"
  have room: "ref_room ?i (length bs) st" using assms by (simp add: buf_clearedD)
  have s: "ref_ok ?i ?s" "ref_rest ?i ?s = bs" "bt_totalSize (bufs ?s ?i) = length bs"
    "bt_readPos (bufs ?s ?i) = 0"
    using buf_cleared_put [OF assms(1,5)] by auto
  have pos: "bt_readPos (bufs (ref_adv ?i 16 ?s) ?i) = 16"
    using s assms(4) by (simp add: bt_readPos_adv)
  have "frame_switch le ?i b f ?s = frame_at_payload b (parsed_header c t k n f) (ref_adv ?i 16 ?s)"
    using s(1,2) assms(2-4) frame_parse_header [of ?i ?s f le c t k n r b]
    by (simp add: parsed_header_def)
  then show ?thesis
    using pos s(3) room
    by (simp add: processReadFromReadingBuffer_def addToReadingBuffer_put frame_processRead_def
        frame_at_payload_def catch_read_def store_simps received_simps Let_def)
qed

text \<open>What a received frame hands out: its payload and the bytes behind it.\<close>

lemma received_payload:
  assumes "buf_cleared (readBuffer b) st" "length h = 16" "fr_payload f = []"
    and "unat n = 16 + length p" "length (h @ p @ r) < 2147483648"
  defines "s \<equiv> ref_adv (readBuffer b) 16 (ref_put (readBuffer b) (h @ p @ r) st)"
  shows "payloadSize b (received c t k n f) s = length p"
    "remainingBytes (FrameProtocol b (received c t k n f) q) s = Inr r"
    "p @ r \<noteq> [] \<Longrightarrow> payloadPtr b (received c t k n f) s = PayloadAt (readBuffer b) 16"
    "bt_mem (bufs s (readBuffer b)) 16 (length p) = Inr p"
proof -
  let ?i = "readBuffer b" and ?bs = "h @ p @ r"
  let ?t = "ref_put ?i ?bs st"
  have t: "ref_ok ?i ?t" "ref_rest ?i ?t = ?bs" "bt_totalSize (bufs ?t ?i) = length ?bs"
    "bt_readPos (bufs ?t ?i) = 0"
    using buf_cleared_put [OF assms(1,5)] by auto
  have s: "bt_ok (bufs s ?i)" "bt_rest (bufs s ?i) = p @ r" "bt_totalSize (bufs s ?i) = length ?bs"
    "bt_readPos (bufs s ?i) = 16" "bt_pos (bufs s ?i) = 16" "bt_buf (bufs s ?i) = ?bs"
    using t assms(1,2) unfolding s_def
    by (simp_all add: store_simps bt_readPos_adv flip: ref_ok_def ref_rest_def)
      (simp_all add: ref_adv_def ref_put_def bt_put_def bt_simps buf_cleared_def)
  have un: "uint n = 16 + int (length p)" using assms(4) uint_nat [of n] by simp
  have lens: "16 + length p + length r < 2147483648" using assms(2,5) by simp
  show "payloadSize b (received c t k n f) s = length p"
    using s un lens assms(3) by (simp add: payloadSize_def received_def Let_def assms(2))
  have up: "unreadPayload b (received c t k n f) s = length p"
    using s un lens by (simp add: unreadPayload_def readPayloadSize_def received_def)
  show "remainingBytes (FrameProtocol b (received c t k n f) q) s = Inr r"
    using s lens assms(2) unfolding remainingBytes_def
    by (simp add: up bt_currentPtr_def bt_remainingSize_ok bt_mem_def nat_add_distrib)
      (simp add: received_def up bt_currentPtr_def bt_remainingSize_ok bt_mem_def nat_add_distrib)
  show "payloadPtr b (received c t k n f) s = PayloadAt ?i 16" if "p @ r \<noteq> []"
    using s that assms(2,3) by (auto simp: payloadPtr_def received_def bt_basePtr_def)
  show "bt_mem (bufs s ?i) 16 (length p) = Inr p"
    using s lens assms(2) by (auto simp: bt_mem_def)
qed

lemma newFrame_simps [simp]:
  "fr_state newFrame = Init" "fr_payload_pos newFrame = 0" "fr_payload newFrame = []"
  by (simp_all add: newFrame_def)

lemma length_receivedI:
  assumes "16 + length p < 2147483648"
  shows "unat (word_of_nat (16 + length p) :: 32 word) = 16 + length p"
    "uint (word_of_nat (16 + length p) :: 32 word) = 16 + int (length p)"
  using assms unat_of_length [of "16 + length p"] uint_nat [of "word_of_nat (16 + length p) :: 32 word"]
  by simp_all

lemma frame_read_frame_bytes:
  assumes "buf_cleared (readBuffer b) st" "16 + length p + length r < 2147483648"
  defines "n \<equiv> word_of_nat (16 + length p) :: 32 word"
  shows "processReadFromReadingBuffer le (FrameProtocol b newFrame q)
           (addToReadingBuffer (frame_bytes le h p @ r) (FrameProtocol b newFrame q) st)
       = (Inr True, (FrameProtocol b (received (hdr_cmd h) (hdr_trid h) 1 n newFrame) q,
            ref_adv (readBuffer b) 16 (ref_put (readBuffer b) (frame_bytes le h p @ r) st)))"
proof -
  have "to_int32 (int (length p) + 16 - (16 + int (length p) + int (length r))) = - int (length r)"
    using assms(2) by simp
  then show ?thesis
    using assms length_receivedI [of p]
      frame_read_header [OF assms(1), of newFrame "frame_bytes le h p @ r" le "hdr_cmd h" "hdr_trid h" 1 n
        "p @ r" q]
    by (simp add: newFrame_def frame_bytes_def header_bytes_def makeChecksum_def algebra_simps)
qed

lemma enc32_dec32: "length c = 4 \<Longrightarrow> enc32 le (dec32 le c) = c"
  by (simp add: enc32_def dec32_def le_of_le)

lemma four_fields:
  assumes "16 \<le> length xs"
  shows "xs = enc32 le (dec32 le (take 4 xs)) @ enc32 le (dec32 le (take 4 (drop 4 xs)))
    @ enc32 le (dec32 le (take 4 (drop 8 xs))) @ enc32 le (dec32 le (take 4 (drop 12 xs))) @ drop 16 xs"
proof -
  have tl: "take 4 (drop k xs) @ drop (k + 4) xs = drop k xs" for k
    by (metis append_take_drop_id drop_drop add.commute)
  show ?thesis using tl [of 0] tl [of 4] tl [of 8] tl [of 12] assms by (simp add: enc32_dec32)
qed

lemma to_size_minus: "to_size (a - int (to_size b)) = to_size (a - b)"
  by (simp add: to_size_def mod_diff_right_eq)

lemma to_int32_wrap:
  assumes "2147483648 \<le> x" "x < 4294967296"
  shows "to_int32 x = x - 4294967296"
proof -
  have "(x + 2147483648) mod 4294967296 = (x + 2147483648 - 4294967296) mod 4294967296"
    by (metis minus_mod_self2)
  with assms show ?thesis by (simp add: to_int32_def)
qed

lemma to_size_neg:
  assumes "x < 0" "- 18446744073709551616 \<le> x"
  shows "to_size x = nat (x + 18446744073709551616)"
proof -
  have "x mod 18446744073709551616 = (x + 18446744073709551616) mod 18446744073709551616"
    by (metis mod_add_self2)
  also have "\<dots> = x + 18446744073709551616" using assms by (intro mod_pos_pos_trivial) simp_all
  finally show ?thesis by (simp only: to_size_def)
qed

lemma frame_read_prefix_fact:
  assumes "buf_cleared (readBuffer b) st" "16 + length p + length r < 2147483648"
    and "n \<le> length (frame_bytes le h p @ r)"
  shows "fst (processReadFromReadingBuffer le (FrameProtocol b newFrame q)
           (addToReadingBuffer (take n (frame_bytes le h p @ r)) (FrameProtocol b newFrame q) st))
       = Inr (16 + length p \<le> n)"
proof (cases "16 \<le> n")
  case True
  define N where "N = (word_of_nat (16 + length p) :: 32 word)"
  define bs where "bs = take n (frame_bytes le h p @ r)"
  have u: "uint N = 16 + int (length p)" using assms(2) length_receivedI(2) [of p] by (simp add: N_def)
  have n: "length bs = n" "n < 2147483648" using assms(2,3) by (auto simp: bs_def)
  have "bs = enc32 le (hdr_cmd h) @ enc32 le (hdr_trid h) @ enc32 le 1 @ enc32 le N
              @ take (n - 16) (p @ r)"
    using True by (simp add: frame_bytes_def header_bytes_def makeChecksum_def bs_def N_def)
  note rd = frame_read_header [OF assms(1) _ _ this, of newFrame q]
  have "0 < to_int32 (uint N - int n) \<longleftrightarrow> n < 16 + length p"
    using u n(2) assms(2) by (subst to_int32_id) auto
  with rd n show ?thesis unfolding bs_def [symmetric] by (simp add: Let_def not_less)
next
  case False
  let ?i = "readBuffer b" and ?bs = "take n (frame_bytes le h p @ r)"
  let ?s = "ref_put ?i ?bs st" and ?j = "n div 4"
  have len: "length ?bs = n" using assms(3) by simp
  have s: "ref_ok ?i ?s" "ref_rest ?i ?s = take n ?bs" "ref_rest ?i ?s = ?bs"
    using buf_cleared_put [OF assms(1), of ?bs] False len by auto
  have "?j < 4" "4 * ?j \<le> n" "n - 4 * ?j < 4" using False by auto
  with frame_at_chain [OF _ _ s(1,2) s(1,3), of 0 ?j newFrame le b] len obtain F where
    "frame_at 0 le ?i b newFrame ?s = frame_at ?j le ?i b F (ref_adv ?i (4 * ?j) ?s)"
    by (auto simp: frame_label_def)
  moreover have "ref_ok ?i (ref_adv ?i (4 * ?j) ?s)" "length (ref_rest ?i (ref_adv ?i (4 * ?j) ?s)) < 4"
    using s len by (simp_all add: store_simps minus_mult_div_eq_mod del: length_take)
  moreover have "addToReadingBuffer ?bs (FrameProtocol b newFrame q) st = ?s"
    using assms False by (simp add: addToReadingBuffer_put buf_clearedD)
  ultimately show ?thesis
    using False \<open>?j < 4\<close> frame_at_short
    by (simp add: processReadFromReadingBuffer_def frame_processRead_def
        frame_switch_at [of 0] frame_label_def catch_read_def)
qed

lemma frame_read_resumes_fact:
  assumes "buf_cleared (readBuffer b) st" "length bs < 2147483648" "fr_state f = Init"
    and "n \<le> length bs" "n \<in> {0, 4, 8, 12} \<union> {16..}"
    and "processReadFromReadingBuffer le (FrameProtocol b f q)
           (addToReadingBuffer (take n bs) (FrameProtocol b f q) st) = (Inr False, (p1, st1))"
  shows "processReadFromReadingBuffer le p1 (addToReadingBuffer (drop n bs) p1 st1)
       = processReadFromReadingBuffer le (FrameProtocol b f q)
           (addToReadingBuffer bs (FrameProtocol b f q) st)"
proof -
  let ?i = "readBuffer b"
  let ?s = "ref_put ?i (take n bs) st" and ?t = "ref_put ?i bs st"
  have s: "ref_ok ?i ?s" "ref_rest ?i ?s = take n bs"
    and t: "ref_ok ?i ?t" "ref_rest ?i ?t = bs"
    using buf_cleared_put [OF assms(1), of "take n bs"] buf_cleared_put [OF assms(1,2)] assms(2,4)
    by auto
  have add: "addToReadingBuffer (take n bs) (FrameProtocol b f q) st = ?s"
    "addToReadingBuffer bs (FrameProtocol b f q) st = ?t"
    using assms by (simp_all add: addToReadingBuffer_put buf_clearedD)
  obtain f1 where f1: "frame_processRead le ?i b f ?s = (Inr False, (f1, st1))"
    "p1 = FrameProtocol b f1 q"
    using assms(6) add by (auto simp: processReadFromReadingBuffer_def split: prod.splits)
  have n: "n = 4 * (n div 4) \<and> n div 4 < 4 \<or> 16 \<le> n" using assms(5) by auto
  obtain k where k: "st1 = ref_adv ?i k ?s"
    "frame_switch le ?i b f1 (ref_adv ?i k ?t) = frame_switch le ?i b f ?t"
    using frame_switch_split [OF s t n assms(4,3) f1(1)] by blast
  have "ref_room ?i (length (take n bs) + length (drop n bs)) st"
    using assms(1,2,4) by (simp add: buf_clearedD)
  then have "ref_room ?i (length (drop n bs)) ?s" by (rule ref_sink.room_put)
  then have "ref_room ?i (length (drop n bs)) st1"
    by (simp add: k ref_room_def ref_adv_def bt_room_def bt_simps)
  then have "addToReadingBuffer (drop n bs) p1 st1 = ref_adv ?i k ?t"
    by (simp add: f1 k addToReadingBuffer_put ref_put_adv ref_sink.put_put)
  then show ?thesis
    using k add by (simp add: f1 processReadFromReadingBuffer_def frame_processRead_def)
qed

lemma frame_zero_length_fact:
  assumes "buf_cleared (readBuffer b) st" "length bs < 2147483648" "fr_state f = Init" "fr_payload_pos f = 0"
    and "bs = enc32 le c @ enc32 le t @ enc32 le k @ enc32 le 0 @ r"
    and "processReadFromReadingBuffer le (FrameProtocol b f q)
           (addToReadingBuffer bs (FrameProtocol b f q) st) = (res, (p1, st1))"
  shows "res = Inr True \<and> remainingBytes p1 st1 = Inr bs \<and> remainingBufferSize p1 st1 = length bs"
proof -
  let ?i = "readBuffer b"
  let ?s = "ref_adv ?i 16 (ref_put ?i bs st)"
  have len: "length bs = 16 + length r" using assms(5) by simp
  have r: "res = Inr True" "p1 = FrameProtocol b (received c t k 0 f) q" "st1 = ?s"
    using frame_read_header [OF assms(1,3,4,5,2)] assms(2,6) by auto
  have t: "ref_ok ?i (ref_put ?i bs st)" "ref_rest ?i (ref_put ?i bs st) = bs"
    "bt_readPos (bufs (ref_put ?i bs st) ?i) = 0"
    using buf_cleared_put [OF assms(1,2)] by auto
  have s: "bt_ok (bufs ?s ?i)" "bt_rest (bufs ?s ?i) = r" "bt_readPos (bufs ?s ?i) = 16"
    "bt_pos (bufs ?s ?i) = 16" "bt_buf (bufs ?s ?i) = bs"
    using t assms(1,5) len
    by (simp_all add: store_simps bt_readPos_adv flip: ref_ok_def ref_rest_def)
      (simp_all add: ref_adv_def ref_put_def bt_put_def bt_simps buf_cleared_def)
  have "unreadPayload b (received c t k 0 f) ?s = to_size (- 16)"
    using s by (simp add: unreadPayload_def readPayloadSize_def received_def)
  moreover have natr: "nat (int (length r) + 16) = 16 + length r" by linarith
  ultimately show ?thesis
    using r s len assms(2)
    by (simp add: natr received_def remainingBytes_def bt_currentPtr_def bt_remainingSize_ok bt_mem_def
        to_ptrdiff_to_size to_size_minus)
qed

section \<open>Properties\<close>

text \<open>
  C20: A frame with a payload, of less than 2 GB with what follows it, that is serialised and
  written to a transport is received as it was sent: a new \<open>FrameProtocol\<close> fed with the written
  bytes, followed by any others, reports completion, has the command, the transaction id and the
  checksum of the sender, and a length field that counts the header and the payload; it hands
  out exactly the payload and leaves exactly the bytes behind the frame.
\<close>

theorem frame_roundtrip:
  assumes "turnOnWrite b" "p \<noteq> []" "16 + length p + length r < 2147483648"
    and "buf_cleared (readBuffer b') st'"
    and "processSerialize le 0 (setFramePayload h p (FrameProtocol b f None)) st = (r1, (s, st1))"
    and "processWrite collect None s st1 [] = (r2, (st2, wire))"
    and "processReadFromReadingBuffer le (FrameProtocol b' newFrame None)
           (addToReadingBuffer (wire @ r) (FrameProtocol b' newFrame None) st') = (r3, (s', st3))"
  shows "r1 = Inr True \<and> r2 = Inr True \<and> r3 = Inr True \<and> (\<exists>f2. s' = FrameProtocol b' f2 None
    \<and> hdr_cmd (fr_header f2) = hdr_cmd h \<and> hdr_trid (fr_header f2) = hdr_trid h
    \<and> hdr_checksum (fr_header f2) = 1 \<and> unat (hdr_length (fr_header f2)) = 16 + length p
    \<and> payloadSize b' f2 st3 = length p
    \<and> payloadPtr b' f2 st3 = PayloadAt (readBuffer b') 16
    \<and> bt_mem (bufs st3 (readBuffer b')) 16 (length p) = Inr p
    \<and> remainingBytes s' st3 = Inr r)"
proof -
  let ?fb = "frame_bytes le h p" and ?n = "word_of_nat (16 + length p) :: 32 word"
  have "16 + length p < 2147483648" using assms(3) by simp
  note ser = frame_serialize_payload [OF assms(2) this, of "f\<lparr>fr_header := h, fr_payload := p,
      fr_state := Complete\<rparr>" le b None st]
  have st1: "r1 = Inr True" "st1 = ref_put (writeBuffer b) ?fb (resetWritingBuffer b st)"
    "\<exists>f1. s = FrameProtocol b f1 None"
    using ser assms(5) by (auto simp: setFramePayload_def)
  have "length ?fb = 16 + length p" by simp
  then have fb: "?fb \<noteq> []" "length ?fb < 2147483648" using assms(3) by auto
  have wr: "r2 = Inr True" "wire = ?fb"
    using st1 assms(1,6) write_buffer_ok [OF buf_cleared_put(1,2) [OF resetWritingBuffer_cleared fb(2)] fb] by auto
  note rd = frame_read_frame_bytes [OF assms(4,3), of le None h]
  note pay = received_payload [OF assms(4) length_header_bytes, of newFrame ?n p le
      "makeChecksum h" "length p" r, folded append_assoc, folded frame_bytes_def]
  show ?thesis
    using rd pay st1 wr assms(2,3,7) length_receivedI(1) [of p]
    by (auto simp: newFrame_def received_def)
qed

definition base01 :: base_protocol where
  "base01 = \<lparr>readBuffer = 0, writeBuffer = 1, turnOnWrite = True, ownerKey = 0\<rparr>"

lemma base01_simps [simp]:
  "readBuffer base01 = 0" "writeBuffer base01 = 1" "turnOnWrite base01"
  by (simp_all add: base01_def)

lemma buf_cleared_empty [simp]: "buf_cleared i emptyStore"
  by (simp add: buf_cleared_def emptyStore_def newBufferedTransport_def)

theorem frame_roundtrip_witness:
  "case processSerialize False 0 (setFramePayload (newFrameHeader 7 9) [1, 2, 3]
          (FrameProtocol base01 newFrame None)) emptyStore of (r1, (s, st1)) \<Rightarrow>
   case processWrite collect None s st1 [] of (r2, (st2, wire)) \<Rightarrow>
   case processReadFromReadingBuffer False (FrameProtocol base01 newFrame None)
          (addToReadingBuffer (wire @ [4]) (FrameProtocol base01 newFrame None) emptyStore)
   of (r3, (s', st3)) \<Rightarrow> r3 = Inr True \<and> bt_mem (bufs st3 0) 16 3 = Inr [1, 2, 3]
      \<and> remainingBytes s' st3 = Inr [4]"
  apply (intro case_prodI2, hypsubst)
  subgoal premises prems using frame_roundtrip [OF _ _ _ _ prems] by (auto simp: numeral_3_eq_3)
  done

text \<open>
  C25: However much of the input has arrived, a new \<open>FrameProtocol\<close> fed with it in one read
  reports completion exactly when the header and the whole payload are there.
\<close>

theorem frame_read_prefix:
  assumes "buf_cleared (readBuffer b) st" "16 + length p + length r < 2147483648"
    and "n \<le> length (frame_bytes le h p @ r)"
  shows "fst (processReadFromReadingBuffer le (FrameProtocol b newFrame q)
           (addToReadingBuffer (take n (frame_bytes le h p @ r)) (FrameProtocol b newFrame q) st))
       = Inr (16 + length p \<le> n)"
  using assms by (rule frame_read_prefix_fact)

theorem frame_read_prefix_witness:
  "fst (processReadFromReadingBuffer True (FrameProtocol base01 newFrame None)
      (addToReadingBuffer (take 20 (frame_bytes True (newFrameHeader 7 9) [1, 2, 3, 4, 5] @ []))
         (FrameProtocol base01 newFrame None) emptyStore)) = Inr False
   \<and> fst (processReadFromReadingBuffer True (FrameProtocol base01 newFrame None)
      (addToReadingBuffer (take 21 (frame_bytes True (newFrameHeader 7 9) [1, 2, 3, 4, 5] @ []))
         (FrameProtocol base01 newFrame None) emptyStore)) = Inr True"
  using frame_read_prefix [of base01 emptyStore "[1, 2, 3, 4, 5]" "[]" 20 True "newFrameHeader 7 9" None]
    frame_read_prefix [of base01 emptyStore "[1, 2, 3, 4, 5]" "[]" 21 True "newFrameHeader 7 9" None]
  by simp

text \<open>
  C24: Input that arrives in two pieces, cut between two fields of the header or anywhere
  behind it, is parsed as if it had arrived at once: when the first read asks for more, the
  second one ends with the same result, the same protocol object and the same buffers.
\<close>

theorem frame_read_resumes:
  assumes "buf_cleared (readBuffer b) st" "length bs < 2147483648" "fr_state f = Init"
    and "n \<le> length bs" "n \<in> {0, 4, 8, 12} \<union> {16..}"
    and "processReadFromReadingBuffer le (FrameProtocol b f q)
           (addToReadingBuffer (take n bs) (FrameProtocol b f q) st) = (Inr False, (p1, st1))"
  shows "processReadFromReadingBuffer le p1 (addToReadingBuffer (drop n bs) p1 st1)
       = processReadFromReadingBuffer le (FrameProtocol b f q)
           (addToReadingBuffer bs (FrameProtocol b f q) st)"
  using assms by (rule frame_read_resumes_fact)

theorem frame_read_resumes_witness:
  "case processReadFromReadingBuffer True (FrameProtocol base01 newFrame None)
     (addToReadingBuffer (take 18 (frame_bytes True (newFrameHeader 7 9) [1, 2, 3]))
        (FrameProtocol base01 newFrame None) emptyStore) of
     (r, (p1, st1)) \<Rightarrow> r = Inr False
      \<and> fst (processReadFromReadingBuffer True p1
              (addToReadingBuffer (drop 18 (frame_bytes True (newFrameHeader 7 9) [1, 2, 3])) p1 st1))
        = Inr True"
proof -
  let ?p = "FrameProtocol base01 newFrame None" and ?bs = "frame_bytes True (newFrameHeader 7 9) [1, 2, 3]"
  have all: "fst (processReadFromReadingBuffer True ?p (addToReadingBuffer (take 18 ?bs) ?p emptyStore))
      = Inr False" "fst (processReadFromReadingBuffer True ?p (addToReadingBuffer ?bs ?p emptyStore)) = Inr True"
    by code_simp+
  then show ?thesis
    using frame_read_resumes [of base01 emptyStore ?bs newFrame 18 True None]
    by (auto split: prod.splits)
qed

text \<open>
  C38: When the first one to three bytes of a frame arrive alone, they are lost: the read
  consumes them, reports an incomplete frame and leaves the parser where it was, so the bytes
  that follow are taken for the command field from the wrong offset on.
\<close>

theorem frame_header_split_loses_bytes:
  assumes "buf_cleared (readBuffer b) st" "fr_state f = Init" "fr_payload_pos f = 0"
    and "0 < n" "n < 4" "20 \<le> length bs" "length bs < 2147483648"
    and "processReadFromReadingBuffer le (FrameProtocol b f q)
           (addToReadingBuffer (take n bs) (FrameProtocol b f q) st) = (r1, (p1, st1))"
    and "processReadFromReadingBuffer le p1 (addToReadingBuffer (drop n bs) p1 st1) = (r2, (p2, st2))"
  shows "r1 = Inr False \<and> p1 = FrameProtocol b f q
       \<and> (\<exists>f2. p2 = FrameProtocol b f2 q \<and> hdr_cmd (fr_header f2) = dec32 le (take 4 (drop n bs)))"
proof -
  let ?i = "readBuffer b"
  let ?s = "ref_put ?i (take n bs) st"
  have s: "ref_ok ?i ?s" "ref_rest ?i ?s = take n bs"
    using buf_cleared_put [OF assms(1), of "take n bs"] assms(5) by auto
  have add: "addToReadingBuffer (take n bs) (FrameProtocol b f q) st = ?s"
    using assms by (simp add: addToReadingBuffer_put buf_clearedD)
  have len: "length (take n bs) = n" using assms by simp
  have r1: "r1 = Inr False" "p1 = FrameProtocol b f q" "st1 = ref_adv ?i n ?s"
    using assms(8) frame_parse_short [OF s(1), of f le b] s(2) len add assms(2,5)
    by (auto simp: processReadFromReadingBuffer_def)
  have "ref_room ?i (length (take n bs) + length (drop n bs)) st"
    using assms(1,7) by (simp add: buf_clearedD)
  then have "ref_room ?i (length (drop n bs)) ?s" by (rule ref_sink.room_put)
  then have room: "ref_room ?i (length (drop n bs)) st1"
    by (simp add: r1 ref_room_def ref_adv_def bt_room_def bt_simps)
  let ?t = "ref_put ?i (drop n bs) st1"
  have st1: "ref_ok ?i st1" "ref_rest ?i st1 = []" using s len by (simp_all add: r1 store_simps)
  have t: "ref_ok ?i ?t" "ref_rest ?i ?t = drop n bs"
    using ref_put_ok [OF st1(1) room] st1 by simp_all
  have t16: "16 \<le> length (drop n bs)" using assms(5,6) by simp
  have "fst (snd (frame_processRead le ?i b f ?t)) = f1 \<Longrightarrow>
      hdr_cmd (fr_header f1) = dec32 le (take 4 (drop n bs))" for f1
    using frame_parse_header [OF t(1) assms(3) _ trans [OF t(2) four_fields [OF t16, of le]], of b]
      assms(2)
    by (auto simp: frame_processRead_def frame_at_payload_def catch_read_def Let_def)
  then show ?thesis
    using r1 assms(9) t room
    by (auto simp: processReadFromReadingBuffer_def addToReadingBuffer_put split: prod.splits)
qed

theorem frame_header_split_loses_bytes_witness:
  "case processReadFromReadingBuffer True (FrameProtocol base01 newFrame None)
     (addToReadingBuffer (take 2 (frame_bytes True (newFrameHeader 7 9) [1, 2, 3, 4]))
        (FrameProtocol base01 newFrame None) emptyStore) of (r1, p1, st1) \<Rightarrow>
   case processReadFromReadingBuffer True p1
     (addToReadingBuffer (drop 2 (frame_bytes True (newFrameHeader 7 9) [1, 2, 3, 4])) p1 st1) of
     (r2, FrameProtocol b f2 q, st2) \<Rightarrow> hdr_cmd (fr_header f2) = 0x00090000
   | _ \<Rightarrow> False"
proof -
  let ?bs = "frame_bytes True (newFrameHeader 7 9) [1, 2, 3, 4]" and ?p = "FrameProtocol base01 newFrame None"
  have "dec32 True (take 4 (drop 2 ?bs)) = 0x00090000" by code_simp
  then show ?thesis
    using frame_header_split_loses_bytes [of base01 emptyStore newFrame 2 ?bs True None]
    by (fastforce split: prod.split protocol.split)
qed

text \<open>
  A frame whose length field says 0 is reported complete, and what the protocol then
  declares to be left over is the whole input, the frame's own header included.
\<close>

theorem frame_zero_length_leaves_itself:
  assumes "buf_cleared (readBuffer b) st" "length bs < 2147483648" "fr_state f = Init" "fr_payload_pos f = 0"
    and "bs = enc32 le c @ enc32 le t @ enc32 le k @ enc32 le 0 @ r"
    and "processReadFromReadingBuffer le (FrameProtocol b f q)
           (addToReadingBuffer bs (FrameProtocol b f q) st) = (res, (p1, st1))"
  shows "res = Inr True \<and> remainingBytes p1 st1 = Inr bs"
  using frame_zero_length_fact [OF assms] by simp

theorem frame_zero_length_leaves_itself_witness:
  "case processReadFromReadingBuffer False (FrameProtocol base01 newFrame None)
     (addToReadingBuffer [0,0,0,1, 0,0,0,2, 0,0,0,3, 0,0,0,0, 5] (FrameProtocol base01 newFrame None)
        emptyStore) of
     (res, (p1, st1)) \<Rightarrow> res = Inr True
        \<and> remainingBytes p1 st1 = Inr [0,0,0,1, 0,0,0,2, 0,0,0,3, 0,0,0,0, 5]"
proof -
  let ?bs = "[0,0,0,1, 0,0,0,2, 0,0,0,3, 0,0,0,0, 5] :: bytes"
  have "?bs = enc32 False 1 @ enc32 False 2 @ enc32 False 3 @ enc32 False 0 @ [5]" by code_simp
  then show ?thesis
    using frame_zero_length_leaves_itself [of base01 emptyStore ?bs newFrame False 1 2 3 "[5]" None]
    by (auto split: prod.splits)
qed

text \<open>
  A length field of \<open>2\<^sup>3\<^sup>1\<close> or more beyond what has arrived makes the 32 bit difference
  negative: the frame is reported complete although almost none of its payload is there, and
  \<open>payloadSize\<close> returns a number near \<open>2\<^sup>6\<^sup>4\<close>.
\<close>

theorem frame_huge_length_accepted:
  assumes "buf_cleared (readBuffer b) st" "length bs < 2147483648" "fr_state f = Init"
    and "fr_payload_pos f = 0" "fr_payload f = []"
    and "bs = enc32 le c @ enc32 le t @ enc32 le k @ enc32 le n @ r"
    and "2147483648 + length bs \<le> unat n"
    and "processReadFromReadingBuffer le (FrameProtocol b f q)
           (addToReadingBuffer bs (FrameProtocol b f q) st) = (res, (p1, st1))"
  shows "res = Inr True \<and> (\<exists>f1. p1 = FrameProtocol b f1 q
       \<and> payloadSize b f1 st1 = 18446744069414584304 + unat n)"
proof -
  let ?i = "readBuffer b"
  let ?s = "ref_adv ?i 16 (ref_put ?i bs st)"
  have len: "length bs = 16 + length r" using assms(6) by simp
  define u where "u = unat n"
  have n: "uint n = int u" "u < 4294967296" "2147483664 + length r \<le> u"
    using uint_nat [of n] unsigned_less [of n] assms(7) len by (simp_all add: u_def)
  have neg: "\<not> 0 < to_int32 (uint n - int (length bs))"
    using n len to_int32_wrap [of "uint n - int (length bs)"] by simp
  have r: "res = Inr True" "p1 = FrameProtocol b (received c t k n f) q" "st1 = ?s"
    using frame_read_header [OF assms(1,3,4,6,2), of q] assms(8) neg by (simp_all add: Let_def)
  have tot: "bt_totalSize (bufs ?s ?i) = length bs"
    using buf_cleared_put [OF assms(1,2)] by (simp add: store_simps)
  have e: "to_int32 (uint n - 16) = int u - 4294967312"
    using n to_int32_wrap [of "uint n - 16"] by simp
  have ts: "to_size (int u - 4294967312) = 18446744069414584304 + u"
    using n to_size_neg [of "int u - 4294967312"] by (simp add: nat_add_distrib)
  show ?thesis
    using r tot e ts n len assms(2,5) unfolding u_def [symmetric]
    by (simp add: received_def payloadSize_def Let_def)
qed

theorem frame_huge_length_accepted_witness:
  "case processReadFromReadingBuffer False (FrameProtocol base01 newFrame None)
     (addToReadingBuffer [0,0,0,1, 0,0,0,2, 0,0,0,3, 255,255,255,255, 5] (FrameProtocol base01 newFrame None)
        emptyStore) of
     (res, (p1, st1)) \<Rightarrow> res = Inr True
        \<and> (\<exists>f1. p1 = FrameProtocol base01 f1 None \<and> payloadSize base01 f1 st1 = 18446744073709551599)"
proof -
  let ?bs = "[0,0,0,1, 0,0,0,2, 0,0,0,3, 255,255,255,255, 5] :: bytes"
  have "?bs = enc32 False 1 @ enc32 False 2 @ enc32 False 3 @ enc32 False 0xFFFFFFFF @ [5]" by code_simp
  moreover have "unat (0xFFFFFFFF :: 32 word) = 4294967295" by simp
  ultimately show ?thesis
    using frame_huge_length_accepted [of base01 emptyStore ?bs newFrame False 1 2 3 "0xFFFFFFFF" "[5]" None]
    by (auto split: prod.splits)
qed

end
