(* ===== verification/DecoratorSpec.thy ===== *)
theory DecoratorSpec
  imports FrameSpec
begin

text \<open>
  \<open>StringListProtocol\<close> and \<open>LineProtocol\<close>: the round trip of a string list inside a frame,
  what becomes of a list that is cut short, which inputs a line parser takes apart correctly
  and which it does not.
\<close>

section \<open>String lists\<close>

lemma strlist_contents_ok:
  assumes "ref_ok i st" "ref_rest i st = concat (map (enc_string32 le) ss) @ r"
    and "length (sl_list s) + length ss = unat (sl_listSize s)"
    and "\<forall>x \<in> set ss. length x < 2147483648"
  shows "\<exists>s'. strlist_contents le i s st
         = (Inr True, (s', ref_adv i (length (concat (map (enc_string32 le) ss))) st))
       \<and> sl_list s' = sl_list s @ ss \<and> sl_state s' = SEnd"
  using assms
proof (induction ss arbitrary: s st)
  case Nil
  then show ?case by (simp add: strlist_contents.simps)
next
  case (Cons x ss)
  let ?n = "4 + length x"
  let ?s = "s\<lparr>sl_payload_pos := to_int32 (sl_payload_pos s + uint (word_of_nat ?n :: 32 word)),
              sl_list := sl_list s @ [x]\<rparr>"
  have rd: "vth_readString32 (ref_read i) (ref_read_string i) le st
      = (Inr (x, word_of_nat ?n), ref_adv i ?n st)"
    using Cons.prems by (intro ref_source.readString32_enc) auto
  have len: "length (enc_string32 le x) = ?n" by (simp add: enc_string32_def)
  have st: "ref_ok i (ref_adv i ?n st)" "ref_rest i (ref_adv i ?n st) = concat (map (enc_string32 le) ss) @ r"
    using Cons.prems len by (simp_all add: store_simps)
  have lt: "length (sl_list s) < unat (sl_listSize s)" using Cons.prems(3) by simp
  have IH: "\<exists>s'. strlist_contents le i ?s (ref_adv i ?n st)
         = (Inr True, (s', ref_adv i (length (concat (map (enc_string32 le) ss))) (ref_adv i ?n st)))
       \<and> sl_list s' = sl_list ?s @ ss \<and> sl_state s' = SEnd"
    using Cons.prems by (intro Cons.IH [OF st]) auto
  show ?case
  proof (cases "ss = []")
    case True
    with rd lt len Cons.prems(3) show ?thesis by (simp add: strlist_contents.simps [of le i s st] Let_def)
  next
    case False
    then have "unat (sl_listSize s) \<noteq> length (sl_list ?s)" using Cons.prems(3) by auto
    with rd lt len IH show ?thesis
      by (simp add: strlist_contents.simps [of le i s st] Let_def ref_adv_add)
  qed
qed

lemma strlist_processRead_ok:
  assumes "ref_ok i st" "ref_rest i st = enc_strings le ss @ r" "sl_list s = []" "sl_state s = SInit"
    and "length ss < 4294967296" "\<forall>x \<in> set ss. length x < 2147483648"
  shows "\<exists>s'. strlist_processRead le i s st = (Inr True, (s', ref_adv i (length (enc_strings le ss)) st))
       \<and> sl_list s' = ss \<and> sl_state s' = SEnd"
proof -
  let ?v = "word_of_nat (length ss) :: 32 word"
  let ?s = "s\<lparr>sl_listSize := ?v, sl_payload_pos := to_int32 (sl_payload_pos s + 4), sl_state := SContents\<rparr>"
  let ?c = "concat (map (enc_string32 le) ss)"
  have rd: "vth_readInt32 (ref_read i) le st = (Inr (?v, 4), ref_adv i 4 st)"
    using assms by (intro ref_source.readInt32_enc) (auto simp: enc_strings_def)
  have st: "ref_ok i (ref_adv i 4 st)" "ref_rest i (ref_adv i 4 st) = ?c @ r"
    using assms by (simp_all add: store_simps enc_strings_def)
  have "\<exists>s'. strlist_contents le i ?s (ref_adv i 4 st)
         = (Inr True, (s', ref_adv i (length ?c) (ref_adv i 4 st)))
       \<and> sl_list s' = sl_list ?s @ ss \<and> sl_state s' = SEnd"
    using assms unat_of_length by (intro strlist_contents_ok [OF st]) auto
  then show ?thesis
    using rd assms(3,4)
    by (auto simp: strlist_processRead_def strlist_switch_def with_obj_def catch_read_def
        ref_adv_add enc_strings_def)
qed

text \<open>A string list writes itself into its own buffer and its length into the frame header.\<close>

lemma length_enc_string32_le: "x \<in> set ss \<Longrightarrow> length x < length (enc_strings le ss)"
proof -
  assume "x \<in> set ss"
  then obtain ys zs where "ss = ys @ x # zs" by (auto simp: in_set_conv_decomp)
  then show ?thesis by (simp add: enc_strings_def enc_string32_def)
qed

lemma length_enc_strings_ge: "4 * length ss < length (enc_strings le ss)"
  by (induction ss) (auto simp: enc_strings_def enc_string32_def)

lemma ref_put_commute: "i \<noteq> j \<Longrightarrow> ref_put i xs (ref_put j ys st) = ref_put j ys (ref_put i xs st)"
  by (simp add: ref_put_def upd_buf_def fun_upd_twist)

lemma buf_cleared_other [simp]:
  "i \<noteq> j \<Longrightarrow> buf_cleared i (ref_put j bs st) = buf_cleared i st"
  "i \<noteq> j \<Longrightarrow> buf_cleared i (ref_adv j n st) = buf_cleared i st"
  by (simp_all add: buf_cleared_def ref_put_def ref_adv_def)

lemma resetWritingBuffer_other:
  "writeBuffer b \<noteq> i \<Longrightarrow> bufs (resetWritingBuffer b st) i = bufs st i"
  by (simp add: resetWritingBuffer_def)

lemma buf_cleared_cong: "bufs s i = bufs t i \<Longrightarrow> buf_cleared i s = buf_cleared i t"
  by (simp add: buf_cleared_def)

lemma writeString32List_cleared:
  assumes "buf_cleared i st" "length (enc_strings le ss) < 2147483648"
  shows "\<exists>k. vth_writeString32List (ref_write i) le ss st = (Inr k, ref_put i (enc_strings le ss) st)"
proof -
  have room: "ref_room i (length (enc_strings le ss)) st" using assms by (simp add: buf_clearedD)
  have r1: "ref_room i 4 st" using assms by (simp add: buf_clearedD)
  have r2: "ref_room i (length (concat (map (enc_string32 le) ss)))
              (ref_put i (enc32 le (word_of_nat (length ss))) st)"
    using assms by (intro ref_sink.room_put) (simp add: buf_clearedD enc_strings_def)
  have "\<exists>k. fst (vth_writeString32List (ref_write i) le ss st) = Inr k"
    using ref_sink.writeStrings_ok [OF r2] r1
    by (simp add: vth_writeString32List_def ref_sink.writeInt32_ok)
  with ref_sink.writeString32List_ok [OF room] show ?thesis
    by (metis prod.collapse)
qed

lemma strlist_contents_short:
  assumes "ref_ok i st" "ref_rest i st = concat (map (enc_string32 le) ss)"
    and "length (sl_list s) + length ss < unat (sl_listSize s)"
    and "\<forall>x \<in> set ss. length x < 2147483648"
  shows "\<exists>s'. strlist_contents le i s st = (Inl (ProtocolException ''readInt32 failed..''),
           (s', ref_adv i (length (concat (map (enc_string32 le) ss))) st))
       \<and> sl_list s' = sl_list s @ ss \<and> sl_state s' = sl_state s"
  using assms
proof (induction ss arbitrary: s st)
  case Nil
  then show ?case
    using ref_source.readInt32_short [of i st le]
    by (simp add: strlist_contents.simps [of le i s st] vth_readString32_def)
next
  case (Cons x ss)
  let ?n = "4 + length x"
  let ?s = "s\<lparr>sl_payload_pos := to_int32 (sl_payload_pos s + uint (word_of_nat ?n :: 32 word)),
              sl_list := sl_list s @ [x]\<rparr>"
  have rd: "vth_readString32 (ref_read i) (ref_read_string i) le st
      = (Inr (x, word_of_nat ?n), ref_adv i ?n st)"
    using Cons.prems by (intro ref_source.readString32_enc) auto
  have len: "length (enc_string32 le x) = ?n" by (simp add: enc_string32_def)
  have st: "ref_ok i (ref_adv i ?n st)" "ref_rest i (ref_adv i ?n st) = concat (map (enc_string32 le) ss)"
    using Cons.prems len by (simp_all add: store_simps)
  have "\<exists>s'. strlist_contents le i ?s (ref_adv i ?n st) = (Inl (ProtocolException ''readInt32 failed..''),
           (s', ref_adv i (length (concat (map (enc_string32 le) ss))) (ref_adv i ?n st)))
       \<and> sl_list s' = sl_list ?s @ ss \<and> sl_state s' = sl_state ?s"
    using Cons.prems by (intro Cons.IH [OF st]) auto
  with rd len Cons.prems(3) show ?case
    by (simp add: strlist_contents.simps [of le i s st] Let_def ref_adv_add)
qed

lemma frame_serialize_protocol:
  fixes st :: store
  assumes "fr_payload f = []" "writeBuffer b \<noteq> writeBuffer bl"
    and "16 + length (enc_strings le (sl_list l)) < 2147483648"
  defines "es \<equiv> enc_strings le (sl_list l)"
  defines "s0 \<equiv> resetWritingBuffer bl (resetWritingBuffer b st)"
  shows "\<exists>f'. processSerialize le 0 (FrameProtocol b f (Some (StringListProtocol bl l None))) st
    = (Inr True, (FrameProtocol b f' (Some (StringListProtocol bl l None)),
        ref_put (writeBuffer b) (header_bytes le (makeChecksum (fr_header f)) (length es))
          (ref_put (writeBuffer bl) es s0)))"
proof -
  have c: "buf_cleared (writeBuffer bl) s0" "buf_cleared (writeBuffer b) s0"
    using assms(2) resetWritingBuffer_cleared [of b st]
    by (simp_all add: s0_def buf_cleared_def resetWritingBuffer_def)
  have es: "length es < 2147483648" using assms(3) by (simp add: es_def)
  obtain k where wr: "vth_writeString32List (ref_write (writeBuffer bl)) le (sl_list l) s0
      = (Inr k, ref_put (writeBuffer bl) es s0)"
    using writeString32List_cleared [OF c(1), of le "sl_list l"] es by (auto simp: es_def)
  have "bt_totalSize (bufs (ref_put (writeBuffer bl) es s0) (writeBuffer bl)) = length es"
    using buf_cleared_put [OF c(1) es] by simp
  moreover have "buf_cleared (writeBuffer b) (ref_put (writeBuffer bl) es s0)"
    using c assms(2) by simp
  ultimately show ?thesis
    using wr assms(1)
    by (simp add: Let_def frame_serialize_header_def header_serialize_ok flip: s0_def)
qed

text \<open>
  C26: A string list sent as the payload of a frame arrives: the frame protocol writes the
  header and the list, the receiving frame protocol completes, and a string list protocol on
  top of it reads exactly the strings that were sent, in order, whatever bytes follow.
\<close>

theorem strlist_in_frame_roundtrip:
  assumes "turnOnWrite b" "turnOnWrite bl" "writeBuffer b \<noteq> writeBuffer bl"
    and "16 + length (enc_strings le (sl_list l)) + length r < 2147483648"
    and "buf_cleared (readBuffer b') st'"
    and "processSerialize le 0 (setFrameProtocol h (StringListProtocol bl l None)
           (FrameProtocol b newFrame None)) st = (r1, (s, st1))"
    and "processWrite collect None s st1 [] = (r2, (st2, wire))"
    and "processReadFromReadingBuffer le (FrameProtocol b' newFrame None)
           (addToReadingBuffer (wire @ r) (FrameProtocol b' newFrame None) st') = (r3, (s', st3))"
    and "processReadFromPayloadBuffer le (StringListProtocol b2 newStringList (Some s')) st3 = (r4, (s4, st4))"
  shows "r1 = Inr True \<and> r2 = Inr True \<and> r3 = Inr True \<and> r4 = Inr True
    \<and> (\<exists>l'. s4 = StringListProtocol b2 l' (Some s') \<and> sl_list l' = sl_list l \<and> isReadComplete s4)"
proof -
  let ?es = "enc_strings le (sl_list l)" and ?f = "newFrame\<lparr>fr_header := h, fr_state := Complete\<rparr>"
  let ?hb = "header_bytes le (makeChecksum h) (length ?es)"
  let ?fb = "frame_bytes le h ?es"
  let ?w = "writeBuffer b" and ?wl = "writeBuffer bl" and ?i = "readBuffer b'"
  define s0 where "s0 = resetWritingBuffer bl (resetWritingBuffer b st)"
  have small: "16 + length ?es < 2147483648" using assms(4) by simp
  obtain f' where ser: "r1 = Inr True" "s = FrameProtocol b f' (Some (StringListProtocol bl l None))"
    "st1 = ref_put ?w ?hb (ref_put ?wl ?es s0)"
    using frame_serialize_protocol [OF _ assms(3) small, of ?f st] assms(6)
    by (auto simp: setFrameProtocol_def s0_def)
  have c: "buf_cleared ?wl s0" "buf_cleared ?w (ref_put ?wl ?es s0)"
    using assms(3) resetWritingBuffer_cleared [of b st]
    by (simp_all add: s0_def) (simp add: buf_cleared_def resetWritingBuffer_def)
  have es: "?es \<noteq> []" using length_enc_strings_ge [of "sl_list l" le] by auto
  have hb: "?hb \<noteq> []" by (metis length_header_bytes list.size(3) zero_neq_numeral)
  note w1 = write_buffer_ok [OF buf_cleared_put(1,2) [OF c(2)] hb, of "[]", folded ser(3)]
  have st1: "ref_ok ?wl (ref_adv ?w 16 st1)" "ref_rest ?wl (ref_adv ?w 16 st1) = ?es"
    using assms(3) buf_cleared_put [OF c(1), of ?es] small by (simp_all add: ser store_simps)
  have wire: "r2 = Inr True" "wire = ?fb"
    using w1 write_buffer_ok [OF st1 es, of ?hb] assms(1,2,7) small
    by (auto simp: ser frame_bytes_def)
  have rd: "r3 = Inr True" "\<exists>f2. s' = FrameProtocol b' f2 None \<and> fr_state f2 = Complete"
    "st3 = ref_adv ?i 16 (ref_put ?i (?fb @ r) st')"
    using frame_read_frame_bytes [OF assms(5), of ?es r le None h] assms(4,8) wire
    by (auto simp: received_def)
  have "ref_ok ?i (ref_put ?i (?fb @ r) st')" "ref_rest ?i (ref_put ?i (?fb @ r) st') = ?fb @ r"
    using buf_cleared_put [OF assms(5), of "?fb @ r"] assms(4) by simp_all
  then have st3: "ref_ok ?i st3" "ref_rest ?i st3 = ?es @ r"
    by (simp_all add: rd store_simps) (simp add: frame_bytes_def)
  have "length (sl_list l) < 4294967296" "\<forall>x \<in> set (sl_list l). length x < 2147483648"
    using length_enc_strings_ge [of "sl_list l" le] length_enc_string32_le [of _ "sl_list l" le] small
    by fastforce+
  from strlist_processRead_ok [OF st3 _ _ this, of newStringList] rd(1,2) ser(1) wire(1) assms(9)
  show ?thesis
    by (auto simp: processReadFromPayloadBuffer_def newStringList_def split: prod.splits)
qed

definition base23 :: base_protocol where
  "base23 = \<lparr>readBuffer = 2, writeBuffer = 3, turnOnWrite = True, ownerKey = 0\<rparr>"

lemma base23_simps [simp]:
  "readBuffer base23 = 2" "writeBuffer base23 = 3" "turnOnWrite base23"
  by (simp_all add: base23_def)

theorem strlist_in_frame_roundtrip_witness:
  "case processSerialize False 0 (setFrameProtocol (newFrameHeader 7 9)
          (StringListProtocol base23 (newStringList\<lparr>sl_list := [[1, 2], [], [3]]\<rparr>) None)
          (FrameProtocol base01 newFrame None)) emptyStore of (r1, (s, st1)) \<Rightarrow>
   case processWrite collect None s st1 [] of (r2, (st2, wire)) \<Rightarrow>
   case processReadFromReadingBuffer False (FrameProtocol base01 newFrame None)
          (addToReadingBuffer (wire @ [4]) (FrameProtocol base01 newFrame None) emptyStore)
   of (r3, (s', st3)) \<Rightarrow>
   case processReadFromPayloadBuffer False (StringListProtocol base23 newStringList (Some s')) st3 of
     (r4, (s4, st4)) \<Rightarrow> r4 = Inr True
        \<and> (\<exists>l'. s4 = StringListProtocol base23 l' (Some s') \<and> sl_list l' = [[1, 2], [], [3]])"
  apply (intro case_prodI2, hypsubst)
  subgoal premises prems
    using strlist_in_frame_roundtrip [OF _ _ _ _ _ prems]
    by (auto simp: enc_strings_def enc_string32_def)
  done

text \<open>
  A string list that announces more strings than have arrived is nevertheless reported as
  received: \<open>processRead\<close> returns true with the strings that are there, although the protocol
  is not complete.
\<close>

theorem strlist_truncated_reports_true:
  assumes "buf_cleared (readBuffer b) st" "length ss < unat n" "\<forall>x \<in> set ss. length x < 2147483648"
    and "bs = enc32 le n @ concat (map (enc_string32 le) ss)" "length bs < 2147483648"
    and "processReadFromReadingBuffer le (StringListProtocol b newStringList None)
           (addToReadingBuffer bs (StringListProtocol b newStringList None) st) = (res, (p1, st1))"
  shows "res = Inr True \<and> \<not> isReadComplete p1
       \<and> (\<exists>l. p1 = StringListProtocol b l None \<and> sl_list l = ss)"
proof -
  let ?i = "readBuffer b"
  let ?s = "ref_put ?i bs st"
  have s: "ref_ok ?i ?s" "ref_rest ?i ?s = bs" using buf_cleared_put [OF assms(1,5)] by auto
  have rd: "vth_readInt32 (ref_read ?i) le ?s = (Inr (n, 4), ref_adv ?i 4 ?s)"
    using s assms(4) by (intro ref_source.readInt32_enc) auto
  have s4: "ref_ok ?i (ref_adv ?i 4 ?s)"
    "ref_rest ?i (ref_adv ?i 4 ?s) = concat (map (enc_string32 le) ss)"
    using s assms(4) by (simp_all add: store_simps)
  let ?l = "newStringList\<lparr>sl_listSize := n, sl_payload_pos := to_int32 (sl_payload_pos newStringList + 4),
              sl_state := SContents\<rparr>"
  have "\<exists>s'. strlist_contents le ?i ?l (ref_adv ?i 4 ?s) = (Inl (ProtocolException ''readInt32 failed..''),
           (s', ref_adv ?i (length (concat (map (enc_string32 le) ss))) (ref_adv ?i 4 ?s)))
       \<and> sl_list s' = sl_list ?l @ ss \<and> sl_state s' = sl_state ?l"
    using assms by (intro strlist_contents_short [OF s4]) (auto simp: newStringList_def)
  then show ?thesis
    using rd assms
    by (auto simp: processReadFromReadingBuffer_def addToReadingBuffer_put buf_clearedD
        strlist_processRead_def strlist_switch_def with_obj_def catch_read_def newStringList_def)
qed

theorem strlist_truncated_reports_true_witness:
  "case processReadFromReadingBuffer False (StringListProtocol base01 newStringList None)
     (addToReadingBuffer [0,0,0,3, 0,0,0,1,65] (StringListProtocol base01 newStringList None) emptyStore) of
     (res, (p1, st1)) \<Rightarrow> res = Inr True \<and> \<not> isReadComplete p1"
proof -
  have "[0,0,0,3, 0,0,0,1,65] = enc32 False 3 @ concat (map (enc_string32 False) [[65]])" by code_simp
  note bs = this
  show ?thesis
    apply (intro case_prodI2, hypsubst)
    subgoal premises prems
      using strlist_truncated_reports_true [OF _ _ _ bs _ prems] by simp
    done
qed

section \<open>Lines\<close>

lemma find_lf_append: "10 \<notin> set l \<Longrightarrow> find_lf (l @ 10 # r) = Some (length l)"
  by (induction l) auto

lemma find_lf_None: "10 \<notin> set l \<Longrightarrow> find_lf l = None"
  by (induction l) auto

lemma line_feed:
  assumes "buf_cleared (readBuffer b) st" "length bs \<le> 4096"
  shows "processReadFromReadingBuffer le (LineProtocol b l None)
           (addToReadingBuffer bs (LineProtocol b l None) st)
       = (case line_scan bs l of (r, l) \<Rightarrow>
            (catch_read False (r, (LineProtocol b l None,
               ref_adv (readBuffer b) (length bs) (ref_put (readBuffer b) bs st)))))"
proof -
  let ?s = "ref_put (readBuffer b) bs st"
  have "ref_ok (readBuffer b) ?s" "ref_rest (readBuffer b) ?s = bs"
    using buf_cleared_put [OF assms(1), of bs] assms(2) by auto
  then show ?thesis
    using assms by (auto simp: processReadFromReadingBuffer_def addToReadingBuffer_put buf_clearedD
        line_processRead_def ref_read_ok with_obj_def catch_read_def split: prod.splits sum.splits)
qed

lemma line_remaining:
  assumes "buf_cleared (readBuffer b) st" "bs = x @ r" "length bs < 2147483648"
    and "ln_readComplete l" "ln_remainReadBufferSize l = int (length r)"
  shows "remainingBytes (LineProtocol b l None)
           (ref_adv (readBuffer b) (length bs) (ref_put (readBuffer b) bs st)) = Inr r"
proof -
  let ?i = "readBuffer b"
  let ?s = "ref_put ?i bs st"
  have "bt_pos (bufs (ref_adv ?i (length bs) ?s) ?i) = int (length bs)"
    "bt_buf (bufs (ref_adv ?i (length bs) ?s) ?i) = bs"
    using assms(1) by (simp_all add: ref_adv_def ref_put_def bt_put_def bt_simps buf_cleared_def)
  then show ?thesis
    using assms(2-5) by (auto simp: remainingBytes_def Let_def bt_currentPtr_def bt_mem_def)
qed

text \<open>
  C27: A line that is serialised and written, and arrives within one 4096 byte read together
  with other bytes, is read back as it was, without its line end, and exactly the other bytes
  are left over.
\<close>

theorem line_roundtrip:
  assumes "10 \<notin> set (ln_line l)" "length (ln_line l) + 2 + length r \<le> 4096" "turnOnWrite b"
    and "buf_cleared (readBuffer b') st'"
    and "processSerialize le 0 (LineProtocol b l None) st = (r1, (s, st1))"
    and "processWrite collect None s st1 [] = (r2, (st2, wire))"
    and "processReadFromReadingBuffer le (LineProtocol b' newLine None)
           (addToReadingBuffer (wire @ r) (LineProtocol b' newLine None) st') = (r3, (s', st3))"
  shows "r1 = Inr True \<and> r2 = Inr True \<and> r3 = Inr True \<and> remainingBytes s' st3 = Inr r
    \<and> (\<exists>l'. s' = LineProtocol b' l' None \<and> ln_line l' = ln_line l \<and> isReadComplete s')"
proof -
  let ?w = "writeBuffer b" and ?s0 = "resetWritingBuffer b st"
  let ?x = "ln_line l" and ?bs = "(ln_line l @ [13, 10]) @ r"
  have room: "ref_room ?w (length ?x) ?s0" "ref_room ?w 2 (ref_put ?w ?x ?s0)"
    using assms(2) by (auto simp: buf_clearedD [OF resetWritingBuffer_cleared] intro!: ref_sink.room_put)
  then have "ref_write ?w ?x ?s0 = (Inr (int (length ?x)), ref_put ?w ?x ?s0)"
    "ref_write ?w [13, 10] (ref_put ?w ?x ?s0) = (Inr 2, ref_put ?w (?x @ [13, 10]) ?s0)"
    using ref_sink.wr_ok [of ?w "[13, 10]" "ref_put ?w ?x ?s0"]
    by (simp_all add: ref_sink.wr_ok ref_sink.put_put numeral_2_eq_2)
  then have ser: "r1 = Inr True" "s = LineProtocol b l None" "st1 = ref_put ?w (?x @ [13, 10]) ?s0"
    using assms(5) by (auto simp: vth_writeBinary_def)
  have wr: "r2 = Inr True" "wire = ?x @ [13, 10]"
    using assms(2,3,6) ser
      write_buffer_ok [OF buf_cleared_put(1,2) [OF resetWritingBuffer_cleared, of "?x @ [13, 10]" b st]]
    by auto
  let ?l' = "newLine\<lparr>ln_remainReadBufferSize := int (length r), ln_line := ?x, ln_readComplete := True\<rparr>"
  have lf: "find_lf ?bs = Some (length ?x + 1)"
    using find_lf_append [of "?x @ [13]" r] assms(1) by simp
  have "line_scan ?bs newLine = (Inr True, ?l')"
    by (simp only: line_scan_def lf) (simp add: line_at_lf_def nth_append newLine_def)
  with line_feed [OF assms(4), of ?bs le newLine] assms(2,7) wr ser(1)
    line_remaining [OF assms(4), of ?bs "?x @ [13, 10]" r ?l']
  show ?thesis by (auto simp: catch_read_def)
qed

theorem line_roundtrip_witness:
  "case processSerialize False 0 (LineProtocol base01 (newLine\<lparr>ln_line := [65, 66]\<rparr>) None) emptyStore of
     (r1, (s, st1)) \<Rightarrow>
   case processWrite collect None s st1 [] of (r2, (st2, wire)) \<Rightarrow>
   case processReadFromReadingBuffer False (LineProtocol base01 newLine None)
          (addToReadingBuffer (wire @ [67]) (LineProtocol base01 newLine None) emptyStore)
   of (r3, (s', st3)) \<Rightarrow> remainingBytes s' st3 = Inr [67]
      \<and> (\<exists>l'. s' = LineProtocol base01 l' None \<and> ln_line l' = [65, 66])"
  apply (intro case_prodI2, hypsubst)
  subgoal premises prems
    using line_roundtrip [OF _ _ _ _ prems] by auto
  done

text \<open>
  A line feed at the start of what a read returns makes the parser look at
  \<open>buffer[-1]\<close>. That happens for an empty line ended by a bare line feed, and for every line
  whose carriage return and line feed arrive in different reads: the first read keeps the
  carriage return in the line, the second one is undefined.
\<close>

theorem line_split_before_lf_undefined:
  assumes "buf_cleared (readBuffer b) st" "10 \<notin> set x" "length x \<le> 4096" "length r \<le> 4000"
    and "processReadFromReadingBuffer le (LineProtocol b newLine None)
           (addToReadingBuffer x (LineProtocol b newLine None) st) = (r1, (p1, st1))"
    and "processReadFromReadingBuffer le p1 (addToReadingBuffer (10 # r) p1 st1) = (r2, (p2, st2))"
  shows "r1 = Inr False \<and> (\<exists>l. p1 = LineProtocol b l None \<and> ln_line l = x)
       \<and> r2 = Inl (Undef ''buffer[-1]'')"
proof -
  let ?i = "readBuffer b"
  have p1: "r1 = Inr False" "p1 = LineProtocol b (newLine\<lparr>ln_line := x\<rparr>) None"
    "st1 = ref_adv ?i (length x) (ref_put ?i x st)"
    using line_feed [OF assms(1,3), of le newLine] assms(5)
    by (auto simp: line_scan_def find_lf_None [OF assms(2)] newLine_def catch_read_def)
  have small: "length x < 2147483648" "length (10 # r) \<le> 4096" using assms(3,4) by auto
  note x = buf_cleared_put [OF assms(1) small(1)]
  have "ref_room ?i (length x + length (10 # r)) st"
    using assms(1,3,4) by (simp add: buf_clearedD)
  then have room: "ref_room ?i (length (10 # r)) (ref_adv ?i (length x) (ref_put ?i x st))"
    using ref_sink.room_put by (simp add: ref_room_def ref_adv_def bt_room_def bt_simps ref_put_def bt_put_def)
  have st1: "ref_ok ?i st1" "ref_rest ?i st1 = []"
    using x by (simp_all add: p1 store_simps)
  have "ref_ok ?i (ref_put ?i (10 # r) st1)" "ref_rest ?i (ref_put ?i (10 # r) st1) = 10 # r"
    using ref_put_ok [OF st1(1) room [folded p1(3)]] st1(2) by simp_all
  then show ?thesis
    using p1(1,2) assms(6) small room
    by (auto simp: processReadFromReadingBuffer_def addToReadingBuffer_put p1(3) [symmetric]
        line_processRead_def ref_read_ok with_obj_def catch_read_def line_scan_def line_at_lf_def
        newLine_def)
qed

theorem line_split_before_lf_undefined_witness:
  "case processReadFromReadingBuffer True (LineProtocol base01 newLine None)
     (addToReadingBuffer [65, 13] (LineProtocol base01 newLine None) emptyStore) of (r1, (p1, st1)) \<Rightarrow>
   case processReadFromReadingBuffer True p1 (addToReadingBuffer (10 # []) p1 st1) of
     (r2, (p2, st2)) \<Rightarrow> r1 = Inr False \<and> r2 = Inl (Undef ''buffer[-1]'')"
  apply (intro case_prodI2, hypsubst)
  subgoal premises prems
    using line_split_before_lf_undefined [OF _ _ _ _ prems] by simp
  done

text \<open>
  A line parser looks at no more than 4096 bytes of its buffer, and counts only those as
  left over: when a line is followed by more than that, as a 16 KB socket read can deliver,
  the bytes behind the 4096th are not among the remaining bytes.
\<close>

theorem line_burst_loses_bytes:
  assumes "buf_cleared (readBuffer b) st" "10 \<notin> set x" "length x + 2 \<le> 4096"
    and "bs = x @ [13, 10] @ r" "4096 < length bs" "length bs \<le> 16384"
    and "processReadFromReadingBuffer le (LineProtocol b newLine None)
           (addToReadingBuffer bs (LineProtocol b newLine None) st) = (r1, (p1, st1))"
  shows "r1 = Inr True \<and> (\<exists>l. p1 = LineProtocol b l None \<and> ln_line l = x)
       \<and> remainingBytes p1 st1 = Inr (take (4094 - length x) r) \<and> 4094 - length x < length r"
proof -
  let ?i = "readBuffer b"
  let ?s = "ref_put ?i bs st" and ?t = "take 4096 bs" and ?r = "take (4094 - length x) r"
  let ?l' = "newLine\<lparr>ln_remainReadBufferSize := int (length ?r), ln_line := x, ln_readComplete := True\<rparr>"
  have len: "length bs = length x + 2 + length r" "length ?r = 4094 - length x"
    using assms(4,5) by auto
  have tk: "?t = x @ [13, 10] @ ?r" using assms(3,4) by (simp add: take_Cons')
  have s: "ref_ok ?i ?s" "ref_rest ?i ?s = bs" using buf_cleared_put [OF assms(1), of bs] assms(6) by auto
  have rd: "ref_read ?i 4096 ?s = (Inr (?t, 4096), ref_adv ?i 4096 ?s)"
    using s assms(5) by (simp add: ref_read_ok)
  have lf: "find_lf ?t = Some (length x + 1)"
    using find_lf_append [of "x @ [13]" ?r] assms(2) by (simp add: tk)
  have "length ?t = 4096" using assms(5) by simp
  then have "line_scan ?t newLine = (Inr True, ?l')"
    using len assms(3)
    by (simp only: line_scan_def lf) (simp add: line_at_lf_def tk nth_append newLine_def)
  then have p1: "r1 = Inr True" "p1 = LineProtocol b ?l' None" "st1 = ref_adv ?i 4096 ?s"
    using assms(1,6,7) rd
    by (auto simp: processReadFromReadingBuffer_def addToReadingBuffer_put buf_clearedD
        line_processRead_def with_obj_def catch_read_def)
  have "bt_pos (bufs (ref_adv ?i 4096 ?s) ?i) = 4096" "bt_buf (bufs (ref_adv ?i 4096 ?s) ?i) = bs"
    using assms(1) by (simp_all add: ref_adv_def ref_put_def bt_put_def bt_simps buf_cleared_def)
  moreover have "nat (2 + int (length x)) = Suc (Suc (length x))"
    "nat (4094 - int (length x)) = 4094 - length x" by linarith+
  ultimately have "remainingBytes p1 st1 = Inr ?r"
    using len assms(3-5) by (simp add: p1 remainingBytes_def Let_def bt_currentPtr_def bt_mem_def)
  then show ?thesis using p1 len assms(3,5) by auto
qed

theorem line_burst_loses_bytes_witness:
  "case processReadFromReadingBuffer True (LineProtocol base01 newLine None)
     (addToReadingBuffer ([65] @ [13, 10] @ replicate 5000 66) (LineProtocol base01 newLine None) emptyStore) of
     (r1, (p1, st1)) \<Rightarrow> r1 = Inr True \<and> remainingBytes p1 st1 = Inr (replicate 4093 66)"
  apply (intro case_prodI2, hypsubst)
  subgoal premises prems
    using line_burst_loses_bytes [OF _ _ _ refl _ _ prems] by (simp add: min_def)
  done

end
