(* ===== verification/ClientController.thy ===== *)
theory ClientController
  imports DecoratorSpec
begin

text \<open>
  \<^verbatim>\<open>src/ClientController.h\<close> and \<^verbatim>\<open>src/ClientController.cpp\<close>: how socket events
  become protocols. The record \<open>client\<close> has the fields of the class; the buffers of its
  protocols are the store \<open>cl_store\<close>.

  Calls that leave the class (the user's callbacks, the observers, the deferred caller, the
  timer and the socket) are recorded in the order they are made, as values of
  \<open>client_event\<close>. A callback that is handed a protocol sees the object and its buffers as
  they are at that moment, so the entry has both. Callbacks do not change the protocol.
  What the socket delivers and what the factory makes are arguments.
\<close>

section \<open>State\<close>

datatype client_event =
    FireGotProtocol protocol store
  | OnReceivedProtocol protocol store
  | OnReceivedData bytes
  | OnReceivedDatagram bytes
  | OnConnected
  | OnInitialized
  | DeferOnError int string
  | DeferOnClosed
  | FireClosedConnection int
  | SetTimer int nat
  | KillTimer int
  | SocketClose
  | SocketConnect
  | OnTimer int

record client =
  cl_protocol :: "protocol option"
  cl_store :: store
  cl_factory :: bool
  cl_reconnectable :: bool
  cl_initFlag :: bool
  cl_retryConnectCnt :: int
  cl_timer :: bool
  cl_log :: "client_event list"

type_synonym factory = "store \<Rightarrow> protocol \<times> store"

definition newClient :: client where
  "newClient = \<lparr>cl_protocol = None, cl_store = emptyStore, cl_factory = False,
     cl_reconnectable = True, cl_initFlag = False, cl_retryConnectCnt = 0, cl_timer = False,
     cl_log = []\<rparr>"

definition TIMERID_RECONNECT :: int where
  "TIMERID_RECONNECT = 1073741825"

definition INTERNAL_TIMER_BIT :: int where
  "INTERNAL_TIMER_BIT = 1073741824"

definition IOBUF_LEN :: nat where
  "IOBUF_LEN = 16384"

definition emit :: "client_event list \<Rightarrow> client \<Rightarrow> client" where
  "emit es c = c\<lparr>cl_log := cl_log c @ es\<rparr>"

section \<open>Connection events\<close>

definition makeTimer :: "client \<Rightarrow> client" where
  "makeTimer c = c\<lparr>cl_timer := True\<rparr>"

definition setReconnectable :: "bool \<Rightarrow> client \<Rightarrow> client" where
  "setReconnectable enable c =
     (let c = c\<lparr>cl_reconnectable := enable\<rparr> in
      if \<not> cl_reconnectable c \<and> cl_timer c then emit [KillTimer TIMERID_RECONNECT] c else c)"

definition processReconnect :: "client \<Rightarrow> client" where
  "processReconnect c =
     (if cl_reconnectable c then emit [SetTimer TIMERID_RECONNECT 1000] (makeTimer c) else c)"

definition fireOnInitialized :: "client \<Rightarrow> client" where
  "fireOnInitialized c =
     (if \<not> cl_initFlag c then emit [OnInitialized] (c\<lparr>cl_initFlag := True\<rparr>) else c)"

definition onSocket_Initialized :: "client \<Rightarrow> client" where
  "onSocket_Initialized c = fireOnInitialized c"

definition onSocket_Connected :: "client \<Rightarrow> client" where
  "onSocket_Connected c = emit [OnConnected] c"

definition onSocket_Error :: "int \<Rightarrow> string \<Rightarrow> client \<Rightarrow> client" where
  "onSocket_Error err msg c =
     emit [FireClosedConnection err] (processReconnect (emit [DeferOnError err msg] c))"

definition onSocket_Close :: "client \<Rightarrow> client" where
  "onSocket_Close c =
     emit [FireClosedConnection 0] (processReconnect (emit [DeferOnClosed] c))"

text \<open>
  \<open>connect\<close> is what \<open>tcpSocket()->connect()\<close> does: it may throw, and then everything is
  caught and the timer goes on. \<open>BaseController::onTimer_Timer\<close> hands the user's timers on
  to \<open>onTimer\<close>, whose parameter is an unsigned short, and keeps the internal ones.
\<close>

definition BaseController_onTimer_Timer :: "int \<Rightarrow> client \<Rightarrow> client" where
  "BaseController_onTimer_Timer tid c =
     (if and tid INTERNAL_TIMER_BIT = 0 then emit [OnTimer (tid mod 65536)] c else c)"

definition onTimer_Timer :: "bool \<Rightarrow> int \<Rightarrow> client \<Rightarrow> client" where
  "onTimer_Timer connect_throws tid c =
     (if tid = TIMERID_RECONNECT then
        let c = emit [SocketConnect] (c\<lparr>cl_retryConnectCnt := to_int32 (cl_retryConnectCnt c + 1)\<rparr>)
        in if connect_throws then c else emit [KillTimer tid] c
      else BaseController_onTimer_Timer tid c)"

section \<open>Reading\<close>

text \<open>
  The parsing loop of \<open>onSocket_ReadEvent\<close>. \<open>read_step\<close> is one round of it: it leaves the
  loop with a result (\<open>Inl\<close>; an exception leaves it with the protocol object as it is) or
  goes on with a new protocol that has been fed with what the last one left over (\<open>Inr\<close>). The
  loop need not end, so its result is an option: \<open>None\<close> is an event handler that never returns.
\<close>

definition set_protocol :: "protocol \<Rightarrow> store \<Rightarrow> client \<Rightarrow> client" where
  "set_protocol p st c = c\<lparr>cl_protocol := Some p, cl_store := st\<rparr>"

definition leave_loop :: "protocol \<Rightarrow> store \<Rightarrow> client \<Rightarrow> client" where
  "leave_loop p st c =
     (if isInvalidPacketReceived p then emit [SocketClose] else id) (set_protocol p st c)"

definition read_step ::
  "bool \<Rightarrow> factory \<Rightarrow> protocol \<times> store \<times> client \<Rightarrow> (unit, client) res + protocol \<times> store \<times> client" where
  "read_step le factory s =
     (case s of (p, st, c) \<Rightarrow>
      case processReadFromReadingBuffer le p st of
        (Inl e, (p, st)) \<Rightarrow> Inl (Inl e, set_protocol p st c)
      | (Inr done, (p, st)) \<Rightarrow>
          if \<not> done then Inl (Inr (), leave_loop p st c)
          else
            let c = emit [FireGotProtocol p st, OnReceivedProtocol p st] c in
            if 0 < remainingBufferSize p st then
              (case remainingBytes p st of
                 Inl e \<Rightarrow> Inl (Inl e, set_protocol p st c)
               | Inr rest \<Rightarrow>
                   (case factory st of (p2, st2) \<Rightarrow> Inr (p2, addToReadingBuffer rest p2 st2, c)))
            else Inl (Inr (), leave_loop p st c))"

partial_function (option) read_loop ::
  "bool \<Rightarrow> factory \<Rightarrow> protocol \<times> store \<times> client \<Rightarrow> (unit, client) res option" where
  "read_loop le factory s =
     (case read_step le factory s of Inl r \<Rightarrow> Some r | Inr s \<Rightarrow> read_loop le factory s)"

declare read_loop.simps [code]

text \<open>\<open>if(!protocol_ || protocol_->isReadComplete()) protocol_ = protocolFactory_->makeProtocol();\<close>\<close>

definition current_protocol :: "factory \<Rightarrow> client \<Rightarrow> protocol \<times> store" where
  "current_protocol factory c =
     (case cl_protocol c of
        None \<Rightarrow> factory (cl_store c)
      | Some p \<Rightarrow> if isReadComplete p then factory (cl_store c) else (p, cl_store c))"

text \<open>
  \<open>got\<close> is what \<open>socket()->read(chunk, IOBUF_LEN)\<close> gives: an exception, or the count it
  returns with the bytes it has stored.
\<close>

definition onSocket_ReadEvent ::
  "bool \<Rightarrow> factory \<Rightarrow> exn + int \<times> bytes \<Rightarrow> client \<Rightarrow> (unit, client) res option" where
  "onSocket_ReadEvent le factory got c =
     (case got of
        Inl e \<Rightarrow> Some (Inl e, c)
      | Inr (nread, chunk) \<Rightarrow>
          if cl_factory c then
            if nread \<le> 0 then Some (Inr (), c)
            else (case current_protocol factory c of
                    (p, st) \<Rightarrow> read_loop le factory (p, addToReadingBuffer (take (nat nread) chunk) p st, c))
          else if 0 < nread then Some (Inr (), emit [OnReceivedData (take (nat nread) chunk)] c)
          else Some (Inr (), c))"

definition onSocket_ReadFrom ::
  "bool \<Rightarrow> factory \<Rightarrow> bytes \<Rightarrow> client \<Rightarrow> (unit, client) res" where
  "onSocket_ReadFrom le factory data c =
     (if cl_factory c then
        (case current_protocol factory c of
           (p, st) \<Rightarrow>
             (case processReadFromReadingBuffer le p
                     (addToReadingBuffer data p (resetBuffer (p_base p) st)) of
                (Inl e, (p, st)) \<Rightarrow> (Inl e, set_protocol p st c)
              | (Inr b, (p, st)) \<Rightarrow>
                  (Inr (), (if b then emit [OnReceivedProtocol p st] else id) (set_protocol p st c))))
      else (Inr (), emit [OnReceivedDatagram data] c))"

end
