(* ===== verification/ClientSpec.thy ===== *)
theory ClientSpec
  imports ClientController "HOL-Library.Sublist"
begin

text \<open>
  What a \<open>ClientController\<close> with a frame protocol factory delivers to its owner when a stream
  of frames arrives in arbitrary chunks, and the input on which its read handler never returns.
\<close>

section \<open>What the owner sees\<close>

definition frame_view :: "protocol \<Rightarrow> store \<Rightarrow> (32 word \<times> 32 word \<times> (exn + bytes)) option" where
  "frame_view p st =
     (case p of
        FrameProtocol b f q \<Rightarrow>
          Some (hdr_cmd (fr_header f), hdr_trid (fr_header f),
                (case payloadPtr b f st of
                   PayloadNull \<Rightarrow> Inr []
                 | PayloadString s \<Rightarrow> Inr s
                 | PayloadAt i off \<Rightarrow> bt_mem (bufs st i) off (payloadSize b f st)))
      | _ \<Rightarrow> None)"

fun delivered_by :: "client_event \<Rightarrow> (32 word \<times> 32 word \<times> (exn + bytes)) option list" where
  "delivered_by (OnReceivedProtocol p st) = [frame_view p st]"
| "delivered_by _ = []"

definition delivered :: "client \<Rightarrow> (32 word \<times> 32 word \<times> (exn + bytes)) option list" where
  "delivered c = concat (map delivered_by (cl_log c))"

definition sent_view :: "frame_header \<times> bytes \<Rightarrow> (32 word \<times> 32 word \<times> (exn + bytes)) option" where
  "sent_view hp = Some (hdr_cmd (fst hp), hdr_trid (fst hp), Inr (snd hp))"

definition stream :: "bool \<Rightarrow> (frame_header \<times> bytes) list \<Rightarrow> bytes" where
  "stream le fs = concat (map (\<lambda>(h, p). frame_bytes le h p) fs)"

lemma delivered_emit [simp]: "delivered (emit es c) = delivered c @ concat (map delivered_by es)"
  by (simp add: delivered_def emit_def)

lemma delivered_set [simp]: "delivered (set_protocol p st c) = delivered c"
  by (simp add: delivered_def set_protocol_def)

lemma leave_loop_eq [simp]: "leave_loop p st c = set_protocol p st c"
  by (simp add: leave_loop_def isInvalidPacketReceived_def)

lemma client_field_simps [simp]:
  "cl_reconnectable (emit es c) = cl_reconnectable c"
  "cl_factory (emit es c) = cl_factory c" "cl_factory (set_protocol p st c) = cl_factory c"
  "cl_protocol (set_protocol p st c) = Some p" "cl_store (set_protocol p st c) = st"
  by (simp_all add: emit_def set_protocol_def)

lemma stream_simps [simp]:
  "stream le [] = []" "stream le ((h, p) # fs) = frame_bytes le h p @ stream le fs"
  by (simp_all add: stream_def)

lemma stream_Nil_iff [simp]: "stream le fs = [] \<longleftrightarrow> fs = []"
  by (cases fs) (auto simp: stream_def split: prod.splits)

lemma newFrameProtocol_fresh:
  assumes "newFrameProtocol st = (p, st')"
  shows "\<exists>b. p = FrameProtocol b newFrame None \<and> buf_cleared (readBuffer b) st'"
  using assms newBaseProtocol_simps by (auto simp: newFrameProtocol_def split: prod.splits)

section \<open>One round of the loop\<close>

text \<open>A frame and what is behind it.\<close>

lemma received_view:
  fixes le :: bool and h :: frame_header
  assumes "buf_cleared (readBuffer b) st" "16 + length p + length r < 2147483648"
  defines "n \<equiv> word_of_nat (16 + length p) :: 32 word"
  defines "s \<equiv> ref_adv (readBuffer b) 16 (ref_put (readBuffer b) (frame_bytes le h p @ r) st)"
  defines "q \<equiv> FrameProtocol b (received (hdr_cmd h) (hdr_trid h) 1 n newFrame) None"
  shows "frame_view q s = sent_view (h, p)" "remainingBytes q s = Inr r"
    "remainingBufferSize q s = length r"
proof -
  let ?i = "readBuffer b" and ?bs = "header_bytes le (makeChecksum h) (length p) @ p @ r"
  have bs: "frame_bytes le h p @ r = ?bs" by (simp add: frame_bytes_def)
  note pay = received_payload [OF assms(1) length_header_bytes, of newFrame n p le
      "makeChecksum h" "length p" r, folded bs, folded s_def]
  have n: "unat n = 16 + length p" "uint n = 16 + int (length p)"
    using assms(2) length_receivedI [of p] by (simp_all add: n_def)
  have len: "length (frame_bytes le h p @ r) < 2147483648" using assms(2) by simp
  have tot: "bt_totalSize (bufs s ?i) = 16 + length p + length r"
    using buf_cleared_put [OF assms(1) len] by (simp add: s_def store_simps)
  show rb: "remainingBytes q s = Inr r"
    using pay(2) n len by (simp add: q_def)
  have rest: "bt_ok (bufs s ?i)" "bt_rest (bufs s ?i) = p @ r" "bt_readPos (bufs s ?i) = 16"
    using buf_cleared_put [OF assms(1) len] unfolding s_def
    by (simp_all add: store_simps bt_readPos_adv flip: ref_ok_def ref_rest_def) (simp add: frame_bytes_def)
  show "remainingBufferSize q s = length r"
    using rest n assms(2)
    by (simp add: q_def received_def unreadPayload_def readPayloadSize_def bt_remainingSize_ok)
  show "frame_view q s = sent_view (h, p)"
  proof (cases "p @ r = []")
    case True
    then show ?thesis
      using tot by (simp add: frame_view_def q_def sent_view_def received_def payloadPtr_def)
  next
    case False
    then show ?thesis
      using pay n len by (simp add: frame_view_def q_def sent_view_def) (simp add: received_def)
  qed
qed

lemma read_loop_done: "read_step le fac s = Inl r \<Longrightarrow> read_loop le fac s = Some r"
  by (simp add: read_loop.simps)

lemma read_loop_next: "read_step le fac s = Inr t \<Longrightarrow> read_loop le fac s = read_loop le fac t"
  by (simp add: read_loop.simps)

text \<open>An incomplete frame is not marked complete.\<close>

lemma frame_at_incomplete:
  assumes "k \<le> 4" "fr_state f = frame_label k" "frame_at k le i b f st = (r, (f', st'))" "r \<noteq> Inr True"
  shows "fr_state f' \<noteq> Complete"
  using assms
proof (induction k arbitrary: f st rule: inc_induct)
  case base
  then show ?case by (auto simp: frame_at_def frame_at_payload_def frame_label_def Let_def split: if_splits)
next
  case (step k)
  let ?rd = "vth_readInt32 (ref_read i) le st"
  have lab: "frame_label k \<noteq> Complete"
    using less_4_cases [of k] step.hyps by (auto simp: frame_label_def)
  have eq: "frame_at k le i b f st = bindR (with_obj f ?rd)
      (\<lambda>(v, n) (f, st). frame_at (Suc k) le i b (f\<lparr>fr_payload_pos := to_size (int (fr_payload_pos f) + uint n),
          fr_header := ([hdr_cmd_update (\<lambda>_. v), hdr_trid_update (\<lambda>_. v), hdr_checksum_update (\<lambda>_. v),
                    hdr_length_update (\<lambda>_. v)] ! k) (fr_header f),
          fr_state := frame_label (Suc k)\<rparr>) st)"
    using less_4_cases [OF step.hyps(2)]
    by (elim disjE) (simp_all add: frame_at_def frame_label_def frame_at_command_def frame_at_trid_def
        frame_at_checksum_def frame_at_length_def)
  show ?case
  proof (cases "fst ?rd")
    case (Inl e)
    with step.prems lab eq show ?thesis by (cases ?rd) (auto simp: with_obj_def)
  next
    case (Inr vn)
    then obtain v n st1 where rd: "?rd = (Inr (v, n), st1)" by (cases ?rd; cases vn) auto
    show ?thesis
      using step.prems(2) eq by (intro step.IH [OF _ _ step.prems(3)]) (auto simp: with_obj_def rd)
  qed
qed

lemma read_incomplete:
  assumes "processReadFromReadingBuffer le (FrameProtocol b newFrame q) st = (Inr False, (p1, st1))"
  shows "\<not> isReadComplete p1"
proof -
  obtain f1 where f1: "p1 = FrameProtocol b f1 q"
    "frame_processRead le (readBuffer b) b newFrame st = (Inr False, (f1, st1))"
    using assms by (auto simp: processReadFromReadingBuffer_def split: prod.splits)
  then have "\<exists>r st'. frame_at 0 le (readBuffer b) b newFrame st = (r, (f1, st')) \<and> r \<noteq> Inr True"
    by (auto simp: frame_processRead_def frame_switch_at [of 0] frame_label_def catch_read_def
        split: prod.splits sum.splits if_splits)
  then show ?thesis using frame_at_incomplete [of 0 newFrame] f1(1) by (fastforce simp: frame_label_def)
qed

section \<open>Streams of frames\<close>

text \<open>
  \<open>pending le c acc\<close>: the bytes \<open>acc\<close> have arrived since the last complete frame, and the
  current protocol is what a new one makes of them.
\<close>

definition pending :: "bool \<Rightarrow> client \<Rightarrow> bytes \<Rightarrow> bool" where
  "pending le c acc \<longleftrightarrow>
     (if acc = [] then (\<forall>p. cl_protocol c = Some p \<longrightarrow> isReadComplete p)
      else \<exists>b st0 p1. buf_cleared (readBuffer b) st0 \<and> cl_protocol c = Some p1
         \<and> processReadFromReadingBuffer le (FrameProtocol b newFrame None)
             (addToReadingBuffer acc (FrameProtocol b newFrame None) st0) = (Inr False, (p1, cl_store c)))"

fun incomplete :: "bool \<Rightarrow> bytes \<Rightarrow> (frame_header \<times> bytes) list \<Rightarrow> bool" where
  "incomplete le acc [] \<longleftrightarrow> acc = []"
| "incomplete le acc ((h, p) # fs) \<longleftrightarrow> strict_prefix acc (frame_bytes le h p)"

lemma strict_prefix_take:
  "strict_prefix xs ys \<Longrightarrow> length xs < length ys \<and> xs = take (length xs) ys"
  by (auto simp: strict_prefix_def prefix_def)

lemma read_loop_frames:
  assumes "buf_cleared (readBuffer b) st0" "bs = stream le fs @ acc" "bs \<noteq> []" "length bs < 2147483648"
    and "incomplete le acc gs" "\<forall>(h, p) \<in> set gs. 16 + length p < 2147483648"
  shows "\<exists>c'. read_loop le newFrameProtocol (FrameProtocol b newFrame None,
             addToReadingBuffer bs (FrameProtocol b newFrame None) st0, c) = Some (Inr (), c')
         \<and> delivered c' = delivered c @ map sent_view fs \<and> pending le c' acc
         \<and> cl_factory c' = cl_factory c"
  using assms(1-4)
proof (induction fs arbitrary: b st0 bs c)
  case Nil
  then have acc: "bs = acc" "acc \<noteq> []" by auto
  with assms(5) obtain h p gs' where gs: "gs = (h, p) # gs'" by (cases gs) auto
  define n where "n = length acc"
  have n: "n < 16 + length p" "acc = take n (frame_bytes le h p @ [])"
    using strict_prefix_take [of acc "frame_bytes le h p"] assms(5) gs by (simp_all add: n_def)
  let ?p = "FrameProtocol b newFrame None"
  obtain p1 st1 where rd: "processReadFromReadingBuffer le ?p (addToReadingBuffer acc ?p st0)
      = (Inr False, (p1, st1))"
    using frame_read_prefix_fact [OF Nil.prems(1), of p "[]" n le h None] n gs assms(6)
    by (cases "processReadFromReadingBuffer le ?p (addToReadingBuffer acc ?p st0)") auto
  then have "read_step le newFrameProtocol (?p, addToReadingBuffer acc ?p st0, c)
      = Inl (Inr (), set_protocol p1 st1 c)"
    by (simp add: read_step_def)
  from read_loop_done [OF this] show ?case
    using rd acc Nil.prems(1) by (auto simp: pending_def)
next
  case (Cons hp fs)
  obtain h p where hp: "hp = (h, p)" by (cases hp)
  let ?p = "FrameProtocol b newFrame None" and ?r = "stream le fs @ acc"
  let ?n = "word_of_nat (16 + length p) :: 32 word"
  let ?q = "FrameProtocol b (received (hdr_cmd h) (hdr_trid h) 1 ?n newFrame) None"
  let ?s = "ref_adv (readBuffer b) 16 (ref_put (readBuffer b) (frame_bytes le h p @ ?r) st0)"
  let ?c = "emit [FireGotProtocol ?q ?s, OnReceivedProtocol ?q ?s] c"
  have bs: "bs = frame_bytes le h p @ ?r" using Cons.prems(2) hp by simp
  have len: "16 + length p + length ?r < 2147483648" using Cons.prems(4) bs by simp
  note rd = frame_read_frame_bytes [OF Cons.prems(1) len, of le None h, folded bs]
  note view = received_view [OF Cons.prems(1) len, where le = le and h = h, folded bs]
  obtain q2 st2 where fac: "newFrameProtocol ?s = (q2, st2)" by (cases "newFrameProtocol ?s")
  obtain b2 where b2: "q2 = FrameProtocol b2 newFrame None" "buf_cleared (readBuffer b2) st2"
    using newFrameProtocol_fresh [OF fac] by auto
  show ?case
  proof (cases "?r = []")
    case True
    then have "read_step le newFrameProtocol (?p, addToReadingBuffer bs ?p st0, c)
        = Inl (Inr (), set_protocol ?q ?s ?c)"
      using rd view bs by (simp add: read_step_def Let_def)
    moreover have "pending le (set_protocol ?q ?s ?c) acc"
      using True by (simp add: pending_def received_def)
    moreover have "fs = []" "acc = []" using True by simp_all
    moreover have "delivered (set_protocol ?q ?s ?c) = delivered c @ map sent_view [hp]"
      using view(1) bs by (simp add: hp)
    ultimately show ?thesis
      by (intro exI [of _ "set_protocol ?q ?s ?c"]) (simp add: read_loop_done)
  next
    case False
    then have step: "read_step le newFrameProtocol (?p, addToReadingBuffer bs ?p st0, c)
        = Inr (q2, addToReadingBuffer ?r q2 st2, ?c)"
      using rd view bs fac by (simp add: read_step_def Let_def)
    have "length ?r < 2147483648" using len by simp
    from Cons.IH [OF b2(2) refl False this, of ?c] b2(1) step view(1) bs hp show ?thesis
      by (auto simp: read_loop_next)
  qed
qed

text \<open>Where a position of the stream lies in its frame, and which positions are safe to cut at.\<close>

fun frame_offset :: "(frame_header \<times> bytes) list \<Rightarrow> nat \<Rightarrow> nat" where
  "frame_offset [] n = n"
| "frame_offset ((h, p) # fs) n =
     (if n < 16 + length p then n else frame_offset fs (n - (16 + length p)))"

definition good_cut :: "nat \<Rightarrow> bool" where
  "good_cut n \<longleftrightarrow> n \<in> {0, 4, 8, 12} \<union> {16..}"

lemma frame_offset_stream:
  "frame_offset (fs @ gs) (length (stream le fs) + n) = frame_offset gs n"
  by (induction fs) (auto simp: stream_def)

lemma stream_append [simp]: "stream le (fs @ gs) = stream le fs @ stream le gs"
  by (simp add: stream_def)

lemma prefix_split:
  assumes "prefix xs (as @ bs)" "length as \<le> length xs"
  shows "\<exists>ys. xs = as @ ys \<and> prefix ys bs"
proof -
  obtain zs where "as @ bs = xs @ zs" using assms(1) by (auto simp: prefix_def)
  then obtain ys where "xs = as @ ys" "bs = ys @ zs"
    using assms(2) by (auto simp: append_eq_append_conv2)
  then show ?thesis by auto
qed

text \<open>A prefix of the stream is some whole frames and an incomplete one.\<close>

lemma stream_prefix:
  assumes "prefix xs (stream le fs)"
  shows "\<exists>fs1 gs acc. fs = fs1 @ gs \<and> xs = stream le fs1 @ acc \<and> incomplete le acc gs
         \<and> length acc = frame_offset fs (length xs)"
  using assms
proof (induction fs arbitrary: xs)
  case Nil
  then show ?case by (intro exI [of _ "[]"]) auto
next
  case (Cons hp fs)
  obtain h p where hp: "hp = (h, p)" by (cases hp)
  show ?case
  proof (cases "length xs < 16 + length p")
    case True
    then have "strict_prefix xs (frame_bytes le h p)"
      using Cons.prems hp by (auto simp: prefix_append strict_prefix_def dest: prefix_length_le)
    then show ?thesis
      using True hp by (intro exI [of _ "[]"] exI [of _ "hp # fs"] exI [of _ xs]) auto
  next
    case False
    have "prefix xs (frame_bytes le h p @ stream le fs)" using Cons.prems hp by simp
    from prefix_split [OF this] False obtain ys
      where ys: "xs = frame_bytes le h p @ ys" "prefix ys (stream le fs)" by auto
    with Cons.IH [OF ys(2)] obtain fs1 gs acc where ih: "fs = fs1 @ gs" "ys = stream le fs1 @ acc"
      "incomplete le acc gs" "length acc = frame_offset fs (length ys)" by blast
    then show ?thesis
      using ys hp by (intro exI [of _ "hp # fs1"] exI [of _ gs] exI [of _ acc]) auto
  qed
qed

lemma pending_new:
  assumes "pending le c []"
  shows "current_protocol fac c = fac (cl_store c)"
  using assms by (auto simp: pending_def current_protocol_def split: option.splits)

text \<open>One read event: the frames completed by the chunk are delivered, the rest is pending.\<close>

lemma read_event_frames:
  assumes "pending le c acc" "cl_factory c" "ch \<noteq> []" "good_cut (length acc)"
    and "acc @ ch = stream le fs @ acc'" "length (acc @ ch) < 2147483648"
    and "incomplete le acc' gs" "\<forall>(h, p) \<in> set gs. 16 + length p < 2147483648"
  shows "\<exists>c'. onSocket_ReadEvent le newFrameProtocol (Inr (int (length ch), ch)) c = Some (Inr (), c')
         \<and> delivered c' = delivered c @ map sent_view fs \<and> pending le c' acc' \<and> cl_factory c'"
proof (cases "acc = []")
  case True
  obtain q st where fac: "newFrameProtocol (cl_store c) = (q, st)" by fastforce
  obtain b where b: "q = FrameProtocol b newFrame None" "buf_cleared (readBuffer b) st"
    using newFrameProtocol_fresh [OF fac] by auto
  have "onSocket_ReadEvent le newFrameProtocol (Inr (int (length ch), ch)) c
      = read_loop le newFrameProtocol (q, addToReadingBuffer ch q st, c)"
    using assms(2,3) True fac pending_new [of le c newFrameProtocol] assms(1)
    by (simp add: onSocket_ReadEvent_def)
  then show ?thesis
    using read_loop_frames [OF b(2), of ch le fs acc' gs c] assms True b(1) by simp
next
  case False
  let ?p = "\<lambda>b. FrameProtocol b newFrame None"
  obtain b st0 p1 where b: "buf_cleared (readBuffer b) st0" "cl_protocol c = Some p1"
    and rd: "processReadFromReadingBuffer le (?p b) (addToReadingBuffer acc (?p b) st0)
      = (Inr False, (p1, cl_store c))"
    using assms(1) False by (auto simp: pending_def)
  let ?bs = "acc @ ch"
  have "current_protocol newFrameProtocol c = (p1, cl_store c)"
    using b(2) read_incomplete [OF rd] by (simp add: current_protocol_def)
  then have ev: "onSocket_ReadEvent le newFrameProtocol (Inr (int (length ch), ch)) c
      = read_loop le newFrameProtocol (p1, addToReadingBuffer ch p1 (cl_store c), c)"
    using assms(2,3) by (simp add: onSocket_ReadEvent_def)
  have "processReadFromReadingBuffer le p1 (addToReadingBuffer ch p1 (cl_store c))
      = processReadFromReadingBuffer le (?p b) (addToReadingBuffer ?bs (?p b) st0)"
    using frame_read_resumes_fact [OF b(1) assms(6), of newFrame "length acc" le None p1 "cl_store c"]
      rd assms(4) by (simp add: good_cut_def)
  then have "read_step le newFrameProtocol (p1, addToReadingBuffer ch p1 (cl_store c), c)
      = read_step le newFrameProtocol (?p b, addToReadingBuffer ?bs (?p b) st0, c)"
    by (simp add: read_step_def)
  then have "read_loop le newFrameProtocol (p1, addToReadingBuffer ch p1 (cl_store c), c)
      = read_loop le newFrameProtocol (?p b, addToReadingBuffer ?bs (?p b) st0, c)"
    by (simp add: read_loop.simps)
  then show ?thesis
    using ev read_loop_frames [OF b(1) assms(5) _ assms(6-8), of c] assms(2) False by simp
qed

text \<open>A sequence of read events; an exception or a handler that does not return ends it.\<close>

fun read_events :: "bool \<Rightarrow> factory \<Rightarrow> bytes list \<Rightarrow> client \<Rightarrow> (unit, client) res option" where
  "read_events le fac [] c = Some (Inr (), c)"
| "read_events le fac (ch # chs) c =
     (case onSocket_ReadEvent le fac (Inr (int (length ch), ch)) c of
        Some (Inr _, c) \<Rightarrow> read_events le fac chs c
      | r \<Rightarrow> r)"

lemma incomplete_short:
  "incomplete le acc gs \<Longrightarrow> \<forall>(h, p) \<in> set gs. length p \<le> N \<Longrightarrow> length acc \<le> 16 + N"
  by (cases gs) (auto dest!: strict_prefix_take)

lemma read_events_frames:
  assumes "pending le c acc" "cl_factory c" "acc @ concat chs = stream le fs" "incomplete le acc fs"
    and "\<forall>ch \<in> set chs. ch \<noteq> [] \<and> length ch \<le> 16384"
    and "\<forall>(h, p) \<in> set fs. length p \<le> 2147000000"
    and "\<forall>k \<le> length chs. good_cut (frame_offset fs (length acc + length (concat (take k chs))))"
    and "length acc = frame_offset fs (length acc)"
  shows "\<exists>c'. read_events le newFrameProtocol chs c = Some (Inr (), c')
         \<and> delivered c' = delivered c @ map sent_view fs \<and> pending le c' []"
  using assms
proof (induction chs arbitrary: c acc fs)
  case Nil
  then have "fs = []"
    by (cases fs) (auto simp: strict_prefix_def dest!: prefix_length_le split: prod.splits)
  then show ?case using Nil by simp
next
  case (Cons ch chs)
  have "prefix (acc @ ch) (stream le fs)" by (intro prefixI [of _ _ "concat chs"]) (simp flip: Cons.prems(3))
  from stream_prefix [OF this] obtain fs1 gs acc' where sp: "fs = fs1 @ gs"
    "acc @ ch = stream le fs1 @ acc'" "incomplete le acc' gs"
    "length acc' = frame_offset fs (length (acc @ ch))" by blast
  have good: "good_cut (length acc)"
    using Cons.prems(7,8) by (auto dest: spec [of _ 0])
  have len: "length (acc @ ch) < 2147483648"
    using incomplete_short [OF Cons.prems(4,6)] Cons.prems(5) by auto
  have "\<forall>(h, p) \<in> set gs. 16 + length p < 2147483648" using Cons.prems(6) sp(1)
    by (auto split: prod.splits dest!: bspec)
  from read_event_frames [OF Cons.prems(1,2) _ good sp(2) len sp(3) this] Cons.prems(5)
  obtain c1 where c1: "onSocket_ReadEvent le newFrameProtocol (Inr (int (length ch), ch)) c = Some (Inr (), c1)"
    "delivered c1 = delivered c @ map sent_view fs1" "pending le c1 acc'" "cl_factory c1" by auto
  have off: "frame_offset fs (length acc + (length ch + n)) = frame_offset gs (length acc' + n)" for n
  proof -
    have "length acc + (length ch + n) = length (stream le fs1) + (length acc' + n)"
      using arg_cong [OF sp(2), of length] by simp
    then show ?thesis by (simp only: sp(1) frame_offset_stream)
  qed
  have "\<exists>c'. read_events le newFrameProtocol chs c1 = Some (Inr (), c')
         \<and> delivered c' = delivered c1 @ map sent_view gs \<and> pending le c' []"
  proof (rule Cons.IH [OF c1(3,4) _ sp(3)])
    show "acc' @ concat chs = stream le gs" using Cons.prems(3) sp(1,2) by simp (metis append.assoc same_append_eq)
    show "\<forall>k\<le>length chs. good_cut (frame_offset gs (length acc' + length (concat (take k chs))))"
      using Cons.prems(7) off by (metis Suc_le_mono concat.simps(2) length_Cons length_append take_Suc_Cons)
    show "length acc' = frame_offset gs (length acc')" using sp(4) off [of 0] by simp
  qed (use Cons.prems(5,6) sp(1) in auto)
  then show ?case using c1 sp(1) by auto
qed

lemma read_loop_zero_length:
  assumes "buf_cleared (readBuffer b) st0" "length bs < 2147483648"
    and "bs = enc32 le cmd @ enc32 le tr @ enc32 le k @ enc32 le 0 @ r"
  shows "read_loop le newFrameProtocol (FrameProtocol b newFrame None,
           addToReadingBuffer bs (FrameProtocol b newFrame None) st0, c) = None"
proof (rule ccontr)
  let ?at = "\<lambda>s. \<exists>b st0 c. s = (FrameProtocol b newFrame None,
      addToReadingBuffer bs (FrameProtocol b newFrame None) st0, c) \<and> buf_cleared (readBuffer b) st0"
  assume "\<not> ?thesis"
  then obtain y where y: "read_loop le newFrameProtocol (FrameProtocol b newFrame None,
           addToReadingBuffer bs (FrameProtocol b newFrame None) st0, c) = Some y" by auto
  have never: "l = le \<longrightarrow> fac = newFrameProtocol \<longrightarrow> \<not> ?at s" if "read_loop l fac s = Some y" for l fac s y
  proof (rule read_loop.raw_induct
      [where P = "\<lambda>l fac s y. l = le \<longrightarrow> fac = newFrameProtocol \<longrightarrow> \<not> ?at s", OF _ that])
    fix loop l fac s y
    assume 1: "\<And>l fac s y. loop l fac s = Some y \<Longrightarrow> l = le \<longrightarrow> fac = newFrameProtocol \<longrightarrow> \<not> ?at s"
      "(case read_step l fac s of Inl r \<Rightarrow> Some r | Inr s \<Rightarrow> loop l fac s) = Some y"
    show "l = le \<longrightarrow> fac = newFrameProtocol \<longrightarrow> \<not> ?at s"
    proof (intro impI notI)
      assume lf: "l = le" "fac = newFrameProtocol" and "?at s"
      then obtain b st0 c where s: "s = (FrameProtocol b newFrame None,
          addToReadingBuffer bs (FrameProtocol b newFrame None) st0, c)" "buf_cleared (readBuffer b) st0"
        by blast
      obtain res p1 st1 where rd: "processReadFromReadingBuffer le (FrameProtocol b newFrame None)
          (addToReadingBuffer bs (FrameProtocol b newFrame None) st0) = (res, (p1, st1))"
        by (metis prod.exhaust)
      have z: "res = Inr True" "remainingBytes p1 st1 = Inr bs" "remainingBufferSize p1 st1 = length bs"
        using frame_zero_length_fact [OF s(2) assms(2) _ _ assms(3) rd] by auto
      have "0 < length bs" using assms(3) by simp
      obtain q2 st2 where fac: "newFrameProtocol st1 = (q2, st2)" by fastforce
      have "\<exists>c. read_step le newFrameProtocol s = Inr (q2, addToReadingBuffer bs q2 st2, c)"
        using rd z fac \<open>0 < length bs\<close> by (simp add: s read_step_def Let_def)
      moreover have "?at (q2, addToReadingBuffer bs q2 st2, c)" for c
        using newFrameProtocol_fresh [OF fac] by auto
      ultimately show False using 1 lf by fastforce
    qed
  qed
  show False using never [OF y] assms(1) by blast
qed

section \<open>Properties\<close>

text \<open>
  C3: A stream of frames that reaches a client in non-empty chunks, each cut lying between two
  fields of a header or behind a header, is delivered completely and in order: the read
  handler returns every time, and the protocols handed to \<open>onReceivedProtocol\<close> have exactly the
  commands, transaction ids and payloads that were sent.
\<close>

theorem client_delivers_frame_stream:
  assumes "cl_protocol c = None" "cl_factory c" "concat chs = stream le fs"
    and "\<forall>ch \<in> set chs. ch \<noteq> [] \<and> length ch \<le> 16384" "\<forall>(h, p) \<in> set fs. length p \<le> 2147000000"
    and "\<forall>k \<le> length chs. good_cut (frame_offset fs (length (concat (take k chs))))"
  shows "\<exists>c'. read_events le newFrameProtocol chs c = Some (Inr (), c')
       \<and> delivered c' = delivered c @ map sent_view fs"
proof -
  have "incomplete le [] fs"
    by (cases fs) (auto simp: strict_prefix_def frame_bytes_not_Nil [symmetric] split: prod.splits)
  moreover have "frame_offset fs 0 = 0" by (cases fs) auto
  ultimately show ?thesis
    using read_events_frames [of le c "[]" chs fs] assms by (auto simp: pending_def)
qed

theorem client_delivers_frame_stream_witness:
  "\<exists>c'. read_events True newFrameProtocol
       [take 12 (stream True [(newFrameHeader 1 2, [7]), (newFrameHeader 3 4, [])]),
        drop 12 (stream True [(newFrameHeader 1 2, [7]), (newFrameHeader 3 4, [])])]
       (newClient\<lparr>cl_factory := True\<rparr>) = Some (Inr (), c')
   \<and> delivered c' = [Some (1, 2, Inr [7]), Some (3, 4, Inr [])]"
proof -
  let ?fs = "[(newFrameHeader 1 2, [7 :: byte]), (newFrameHeader 3 4, [])]"
  let ?s = "stream True ?fs"
  have len: "length ?s = 33" by simp
  then have ne: "drop 12 ?s \<noteq> []" "take 12 ?s \<noteq> []" "length (take 12 ?s) = 12" "length (drop 12 ?s) = 21"
    by (auto simp del: stream_simps)
  have k: "k \<le> 2 \<Longrightarrow> k = 0 \<or> k = 1 \<or> k = 2" for k :: nat by arith
  have "good_cut (frame_offset ?fs (length (concat (take k [take 12 ?s, drop 12 ?s]))))" if "k \<le> 2" for k
    using k [OF that] ne(3,4) len by (elim disjE) (simp_all add: good_cut_def numeral_2_eq_2 del: stream_simps)
  then show ?thesis
    using client_delivers_frame_stream [of "newClient\<lparr>cl_factory := True\<rparr>" "[take 12 ?s, drop 12 ?s]" True ?fs]
      ne len by (simp add: newClient_def delivered_def sent_view_def newFrameHeader_def numeral_2_eq_2
        del: stream_simps)
qed

text \<open>
  C39: A frame with length field 0 makes the read handler run for ever: the frame is complete,
  its remainder is the frame itself, and a new protocol is fed with it again and again.
\<close>

theorem client_zero_length_never_returns:
  assumes "cl_protocol c = None" "cl_factory c" "0 < length bs" "length bs \<le> IOBUF_LEN"
    and "bs = enc32 le cmd @ enc32 le tr @ enc32 le k @ enc32 le 0 @ r"
  shows "onSocket_ReadEvent le newFrameProtocol (Inr (int (length bs), bs)) c = None"
proof -
  obtain q st where fac: "newFrameProtocol (cl_store c) = (q, st)" by fastforce
  obtain b where b: "q = FrameProtocol b newFrame None" "buf_cleared (readBuffer b) st"
    using newFrameProtocol_fresh [OF fac] by auto
  have "length bs < 2147483648" using assms(4) by (simp add: IOBUF_LEN_def)
  from read_loop_zero_length [OF b(2) this assms(5), of c] show ?thesis
    using assms(1-3) fac b(1) by (simp add: onSocket_ReadEvent_def current_protocol_def)
qed

theorem client_zero_length_never_returns_witness:
  "onSocket_ReadEvent False newFrameProtocol (Inr (16, [0,0,0,1, 0,0,0,2, 0,0,0,3, 0,0,0,0]))
     (newClient\<lparr>cl_factory := True\<rparr>) = None"
proof -
  let ?bs = "[0,0,0,1, 0,0,0,2, 0,0,0,3, 0,0,0,0] :: bytes"
  have "?bs = enc32 False 1 @ enc32 False 2 @ enc32 False 3 @ enc32 False 0 @ []" by code_simp
  then show ?thesis
    using client_zero_length_never_returns [of "newClient\<lparr>cl_factory := True\<rparr>" ?bs False 1 2 3 "[]"]
    by (simp add: newClient_def IOBUF_LEN_def)
qed

section \<open>Reconnecting\<close>

text \<open>Whether the repeating timer \<open>tid\<close> is set after the calls of a log.\<close>

fun timer_set :: "int \<Rightarrow> client_event list \<Rightarrow> bool \<Rightarrow> bool" where
  "timer_set tid [] b = b"
| "timer_set tid (SetTimer i ms # es) b = timer_set tid es (b \<or> i = tid)"
| "timer_set tid (KillTimer i # es) b = timer_set tid es (b \<and> i \<noteq> tid)"
| "timer_set tid (e # es) b = timer_set tid es b"

definition reconnecting :: "client \<Rightarrow> bool" where
  "reconnecting c \<longleftrightarrow> timer_set TIMERID_RECONNECT (cl_log c) False"

definition connects :: "client \<Rightarrow> nat" where
  "connects c = length (filter (\<lambda>e. e = SocketConnect) (cl_log c))"

lemma timer_set_append [simp]: "timer_set tid (es @ fs) b = timer_set tid fs (timer_set tid es b)"
  by (induction tid es b rule: timer_set.induct) auto

lemma reconnecting_emit [simp]:
  "reconnecting (emit es c) = timer_set TIMERID_RECONNECT es (reconnecting c)"
  by (simp add: reconnecting_def emit_def)

lemma connects_emit [simp]:
  "connects (emit es c) = connects c + length (filter (\<lambda>e. e = SocketConnect) es)"
  by (simp add: connects_def emit_def)

lemma reconnecting_fields [simp]:
  "reconnecting (c\<lparr>cl_retryConnectCnt := n\<rparr>) = reconnecting c" "reconnecting (makeTimer c) = reconnecting c"
  "connects (c\<lparr>cl_retryConnectCnt := n\<rparr>) = connects c" "connects (makeTimer c) = connects c"
  by (simp_all add: reconnecting_def makeTimer_def connects_def)

lemma connects_onSocket_Error [simp]: "connects (onSocket_Error e m c) = connects c"
  by (simp add: onSocket_Error_def processReconnect_def)

lemma failed_attempts:
  "reconnecting c \<Longrightarrow> reconnecting ((onTimer_Timer True TIMERID_RECONNECT ^^ n) c)
   \<and> connects ((onTimer_Timer True TIMERID_RECONNECT ^^ n) c) = connects c + n"
  by (induction n) (auto simp: onTimer_Timer_def Let_def)

text \<open>
  C33: After a socket error, or a close, a reconnectable client tries to connect each time its
  reconnect timer fires, once per firing; the timer goes on through any number of attempts
  that throw, and the first attempt that does not stops it. A client that is not reconnectable
  never sets the timer.
\<close>

theorem client_reconnects_until_connected:
  assumes "down \<in> {onSocket_Error err msg, onSocket_Close}"
  shows "(if cl_reconnectable c
    then reconnecting ((onTimer_Timer True TIMERID_RECONNECT ^^ n) (down c))
      \<and> \<not> reconnecting (onTimer_Timer False TIMERID_RECONNECT
                        ((onTimer_Timer True TIMERID_RECONNECT ^^ n) (down c)))
      \<and> connects (onTimer_Timer False TIMERID_RECONNECT
                        ((onTimer_Timer True TIMERID_RECONNECT ^^ n) (down c))) = connects c + n + 1
    else reconnecting (down c) = reconnecting c)"
proof -
  have "connects (down c) = connects c"
    using assms by (auto simp: onSocket_Close_def processReconnect_def)
  moreover have "cl_reconnectable c \<Longrightarrow> reconnecting (down c)"
    using assms by (auto simp: onSocket_Error_def onSocket_Close_def processReconnect_def)
  moreover have "\<not> cl_reconnectable c \<Longrightarrow> reconnecting (down c) = reconnecting c"
    using assms by (auto simp: onSocket_Error_def onSocket_Close_def processReconnect_def)
  moreover have "\<not> reconnecting (onTimer_Timer False TIMERID_RECONNECT d)"
    "connects (onTimer_Timer False TIMERID_RECONNECT d) = connects d + 1" for d
    by (simp_all add: onTimer_Timer_def Let_def)
  ultimately show ?thesis using failed_attempts [of "down c" n] by simp
qed

theorem client_reconnects_until_connected_witness:
  "connects (onTimer_Timer False TIMERID_RECONNECT
     ((onTimer_Timer True TIMERID_RECONNECT ^^ 3) (onSocket_Error 111 ''refused'' newClient))) = 4"
  using client_reconnects_until_connected [of "onSocket_Error 111 ''refused''" 111 "''refused''" newClient 3]
  by (simp add: newClient_def connects_def)

end
