(* ===== verification/Controllers.thy ===== *)
theory Controllers
  imports ClientSpec
begin

text \<open>
  The controllers that send: \<^verbatim>\<open>src/FrameController.cpp\<close>, \<^verbatim>\<open>src/LineController.cpp\<close>
  and \<^verbatim>\<open>src/FileDescriptorController.cpp\<close>, with their protocol factories. Each makes a
  protocol, serialises it and writes it to the socket, whose \<open>write\<close> is the argument \<open>wr\<close>
  and whose state has type \<open>'t\<close>. The class invariant they rely on is that
  \<open>_onPreInitialized\<close> has set their own factory.

  Parents are climbed as the code does it along one kind of pointer; a chain that mixes raw and
  shared pointers, which the code would climb only in part, is not represented.
\<close>

section \<open>Factories\<close>

definition FrameProtocolFactory :: factory where
  "FrameProtocolFactory = newFrameProtocol"

definition LineProtocolFactory :: factory where
  "LineProtocolFactory = newLineProtocol None"

definition FDProtocolFactory :: factory where
  "FDProtocolFactory = newFileDescriptorProtocol"

section \<open>Writing frames\<close>

text \<open>The nearest ancestor that is a frame stops writing; the result says whether there is one.\<close>

fun disableWriteBufferOfParentFrameProtocol :: "protocol \<Rightarrow> bool \<times> protocol"
  and disableInParent :: "protocol option \<Rightarrow> bool \<times> protocol option"
where
  "disableWriteBufferOfParentFrameProtocol (FrameProtocol b f q) = (False, FrameProtocol b f q)"
| "disableWriteBufferOfParentFrameProtocol (LineProtocol b l q) =
     (case disableInParent q of (r, q) \<Rightarrow> (r, LineProtocol b l q))"
| "disableWriteBufferOfParentFrameProtocol (StringListProtocol b s q) =
     (case disableInParent q of (r, q) \<Rightarrow> (r, StringListProtocol b s q))"
| "disableWriteBufferOfParentFrameProtocol (FileDescriptorProtocol b d q) =
     (case disableInParent q of (r, q) \<Rightarrow> (r, FileDescriptorProtocol b d q))"
| "disableInParent None = (False, None)"
| "disableInParent (Some p) =
     (if className p = ''FrameProtocol'' then (True, Some (enableWriteBuffer False p))
      else case disableWriteBufferOfParentFrameProtocol p of (r, p) \<Rightarrow> (r, Some p))"

definition serialize_and_write ::
  "bool \<Rightarrow> 't writer \<Rightarrow> (int \<Rightarrow> 't \<Rightarrow> 't) option \<Rightarrow> protocol \<Rightarrow> store \<Rightarrow> 't \<Rightarrow> (unit, store \<times> 't) res" where
  "serialize_and_write le wr sendfd p st t =
     (case processSerialize le 0 p st of
        (Inl e, (p, st)) \<Rightarrow> (Inl e, (st, t))
      | (Inr _, (p, st)) \<Rightarrow>
          (case processWrite wr sendfd p st t of
             (Inl e, s) \<Rightarrow> (Inl e, s)
           | (Inr _, s) \<Rightarrow> (Inr (), s)))"

definition writeFrame ::
  "bool \<Rightarrow> 't writer \<Rightarrow> frame_header \<Rightarrow> protocol \<Rightarrow> store \<Rightarrow> 't \<Rightarrow> (unit, store \<times> 't) res" where
  "writeFrame le wr header payload st t =
     (let payload = snd (disableWriteBufferOfParentFrameProtocol payload);
          (prot, st) = FrameProtocolFactory st
      in serialize_and_write le wr None (setFrameProtocol header payload prot) st t)"

definition writeFramePayload ::
  "bool \<Rightarrow> 't writer \<Rightarrow> frame_header \<Rightarrow> bytes \<Rightarrow> store \<Rightarrow> 't \<Rightarrow> (unit, store \<times> 't) res" where
  "writeFramePayload le wr header payload st t =
     (let (prot, st) = FrameProtocolFactory st
      in serialize_and_write le wr None (setFramePayload header payload prot) st t)"

definition writeFrameBuffer ::
  "bool \<Rightarrow> 't writer \<Rightarrow> frame_header \<Rightarrow> nat \<Rightarrow> store \<Rightarrow> 't \<Rightarrow> (unit, store \<times> 't) res" where
  "writeFrameBuffer le wr header i st t =
     (case bt_mem (bufs st i) (bt_currentPtr (bufs st i)) (bt_remainingSize (bufs st i)) of
        Inl e \<Rightarrow> (Inl e, (st, t))
      | Inr bs \<Rightarrow> writeFramePayload le wr header bs st t)"

section \<open>Writing lines and descriptors\<close>

definition setLine :: "bytes \<Rightarrow> protocol \<Rightarrow> protocol" where
  "setLine s p = (case p of LineProtocol b l q \<Rightarrow> LineProtocol b (l\<lparr>ln_line := s\<rparr>) q | _ \<Rightarrow> p)"

definition writeLine :: "bool \<Rightarrow> 't writer \<Rightarrow> bytes \<Rightarrow> store \<Rightarrow> 't \<Rightarrow> (unit, store \<times> 't) res" where
  "writeLine le wr s st t =
     (let (prot, st) = LineProtocolFactory st
      in serialize_and_write le wr None (setLine s prot) st t)"

definition setFileDescriptor :: "int \<Rightarrow> protocol \<Rightarrow> protocol" where
  "setFileDescriptor fd p =
     (case p of FileDescriptorProtocol b d q \<Rightarrow> FileDescriptorProtocol b (d\<lparr>fd_fd := fd\<rparr>) q | _ \<Rightarrow> p)"

definition writeDescriptor ::
  "bool \<Rightarrow> 't writer \<Rightarrow> (int \<Rightarrow> 't \<Rightarrow> 't) \<Rightarrow> bool \<Rightarrow> int \<Rightarrow> store \<Rightarrow> 't \<Rightarrow> (unit, store \<times> 't) res" where
  "writeDescriptor le wr sendfd has_factory fd st t =
     (if has_factory then
        (let (prot, st) = FDProtocolFactory st
         in serialize_and_write le wr (Some sendfd) (setFileDescriptor fd prot) st t)
      else (Inr (), (st, t)))"

section \<open>Receiving descriptors\<close>

text \<open>
  \<open>FileDescriptorProtocol::processRead\<close> on a socket. A call of \<open>recvmsg\<close> gives a count of at
  most zero, which \<open>checkResponseSocket\<close> looks at (it may throw), or a message with or without
  a descriptor in its control data.
\<close>

datatype recvmsg_result = RecvNone "exn option" | RecvMessage "int option"

definition fd_processRead :: "recvmsg_result \<Rightarrow> fdesc \<Rightarrow> (bool, fdesc) res" where
  "fd_processRead r d =
     (case r of
        RecvNone (Some e) \<Rightarrow> (Inl e, d)
      | RecvNone None \<Rightarrow> (Inr False, d)
      | RecvMessage (Some fd) \<Rightarrow> (Inr True, d\<lparr>fd_fd := fd, fd_readComplete := True\<rparr>)
      | RecvMessage None \<Rightarrow> (Inr False, d))"

text \<open>
  \<open>FileDescriptorController::onSocket_ReadEvent\<close> reads until a call gives no descriptor. Its
  state is the current protocol, the messages the socket has and the descriptors handed to
  \<open>onDescriptorReceived\<close>; an empty socket makes \<open>recvmsg\<close> return \<open>-1\<close>.
\<close>

definition fd_current :: "fdesc option \<Rightarrow> fdesc" where
  "fd_current p =
     (case p of Some d \<Rightarrow> if fd_readComplete d then \<lparr>fd_fd = 0, fd_readComplete = False\<rparr> else d
      | None \<Rightarrow> \<lparr>fd_fd = 0, fd_readComplete = False\<rparr>)"

fun fd_onSocket_ReadEvent ::
  "fdesc option \<Rightarrow> recvmsg_result list \<Rightarrow> int list \<Rightarrow> (unit, fdesc option \<times> int list \<times> recvmsg_result list) res" where
  "fd_onSocket_ReadEvent p [] out = (Inr (), (Some (fd_current p), out, []))"
| "fd_onSocket_ReadEvent p (r # rs) out =
     (case fd_processRead r (fd_current p) of
        (Inl e, d) \<Rightarrow> (Inl e, (Some d, out, rs))
      | (Inr True, d) \<Rightarrow> fd_onSocket_ReadEvent (Some d) rs (out @ [fd_fd d])
      | (Inr False, d) \<Rightarrow> (Inr (), (Some d, out, rs)))"

section \<open>Replies on a received frame\<close>

lemma newFrameProtocol_buffers:
  assumes "newFrameProtocol st = (p, st')"
  shows "\<exists>b. p = FrameProtocol b newFrame None \<and> turnOnWrite b \<and> buf_cleared (readBuffer b) st'
    \<and> nextBuf st \<le> writeBuffer b"
  using assms newBaseProtocol_simps [of st] by (auto simp: newFrameProtocol_def split: prod.splits)

lemma ref_sink_put_other:
  "i \<noteq> j \<Longrightarrow> bufs (ref_put i bs st) j = bufs st j" "i \<noteq> j \<Longrightarrow> bufs (ref_adv i n st) j = bufs st j"
  by (simp_all add: ref_put_def ref_adv_def)

lemma ref_cong:
  "bufs s i = bufs t i \<Longrightarrow> ref_ok i s = ref_ok i t" "bufs s i = bufs t i \<Longrightarrow> ref_rest i s = ref_rest i t"
  by (simp_all add: ref_ok_def ref_rest_def)

text \<open>
  Serialising a list whose parent is a frame: three buffers are written, the list's own, the
  parent's header and the new frame's header, which counts the list only.
\<close>

lemma reply_serialize:
  fixes st :: store
  assumes "fr_payload f = []" "fr_payload fp = []" "\<not> turnOnWrite bp"
    and "writeBuffer b \<noteq> writeBuffer bl" "writeBuffer b \<noteq> writeBuffer bp" "writeBuffer bl \<noteq> writeBuffer bp"
    and "16 + length (enc_strings le (sl_list l)) < 2147483648"
  defines "es \<equiv> enc_strings le (sl_list l)"
  shows "\<exists>f' fp' st'. processSerialize le 0
      (FrameProtocol b f (Some (StringListProtocol bl l (Some (FrameProtocol bp fp None))))) st
    = (Inr True, (FrameProtocol b f' (Some (StringListProtocol bl l (Some (FrameProtocol bp fp' None)))), st'))
    \<and> ref_ok (writeBuffer b) st'
    \<and> ref_rest (writeBuffer b) st' = header_bytes le (makeChecksum (fr_header f)) (length es)
    \<and> ref_ok (writeBuffer bl) st' \<and> ref_rest (writeBuffer bl) st' = es"
proof -
  let ?w = "writeBuffer b" and ?wl = "writeBuffer bl" and ?wp = "writeBuffer bp"
  let ?h = "header_bytes le (makeChecksum (fr_header f)) (length es)"
  let ?hp = "header_bytes le (makeChecksum (fr_header fp)) (length es)"
  define s0 where "s0 = resetWritingBuffer bl (resetWritingBuffer b st)"
  define s1 where "s1 = resetWritingBuffer bp (ref_put ?wl es s0)"
  define s2 where "s2 = ref_put ?wp ?hp s1"
  have es: "length es < 2147483648" using assms(7) by (simp add: es_def)
  have c0: "buf_cleared ?wl s0" "buf_cleared ?w s0"
    using assms(4) resetWritingBuffer_cleared [of b st]
    by (simp_all add: s0_def) (simp add: buf_cleared_def resetWritingBuffer_def)
  obtain k where wr: "vth_writeString32List (ref_write ?wl) le (sl_list l) s0
      = (Inr k, ref_put ?wl es s0)"
    using writeString32List_cleared [OF c0(1), of le "sl_list l"] es by (auto simp: es_def)
  have tot: "bt_totalSize (bufs (ref_put ?wl es s0) ?wl) = length es"
    using buf_cleared_put [OF c0(1) es] by simp
  have c1: "buf_cleared ?wp s1" by (simp add: s1_def)
  have "bufs s2 ?w = bufs s0 ?w" "bufs s2 ?wl = bufs (ref_put ?wl es s0) ?wl"
    using assms(4-6) by (simp_all add: s2_def s1_def ref_sink_put_other resetWritingBuffer_other)
  then have c2: "buf_cleared ?w s2" "bt_totalSize (bufs s2 ?wl) = length es"
    "ref_ok ?wl s2" "ref_rest ?wl s2 = es"
    using c0 tot buf_cleared_put [OF c0(1) es] buf_cleared_cong [of s2 ?w s0]
      ref_cong [of s2 ?wl "ref_put ?wl es s0"] by simp_all
  have "processSerialize le 0
      (FrameProtocol b f (Some (StringListProtocol bl l (Some (FrameProtocol bp fp None))))) st
    = (Inr True, (FrameProtocol b (f\<lparr>fr_header := (makeChecksum (fr_header f))
                     \<lparr>hdr_length := word_of_nat (16 + length es)\<rparr>\<rparr>)
        (Some (StringListProtocol bl l (Some (FrameProtocol bp (fp\<lparr>fr_header := (makeChecksum (fr_header fp))
                     \<lparr>hdr_length := word_of_nat (16 + length es)\<rparr>\<rparr>) None)))), ref_put ?w ?h s2))"
    using wr tot assms(1-3) c1 c2
    by (simp add: Let_def frame_serialize_header_def header_serialize_ok isEnabledWriteBuffer_def
        flip: s0_def s1_def s2_def)
  then show ?thesis
    using c2 assms(4) buf_cleared_put [OF c2(1), of ?h] by (auto simp: store_simps)
qed

text \<open>
  C34: A reply built on a received frame (a string list whose parent is that frame) is sent by
  \<open>writeFrame\<close> as one frame: the new header, whose length counts the list, and the list. The
  header of the received frame is not written again.
\<close>

theorem writeFrame_reply:
  assumes "turnOnWrite bl" "fr_payload fp = []" "writeBuffer bl \<noteq> writeBuffer bp"
    and "writeBuffer bl < nextBuf st" "writeBuffer bp < nextBuf st"
    and "16 + length (enc_strings le (sl_list l)) < 2147483648"
  shows "\<exists>st'. writeFrame le collect h (StringListProtocol bl l (Some (FrameProtocol bp fp None))) st out
       = (Inr (), (st', out @ frame_bytes le h (enc_strings le (sl_list l))))"
proof -
  let ?es = "enc_strings le (sl_list l)"
  let ?hb = "header_bytes le (makeChecksum h) (length ?es)"
  obtain q st1 where fac: "newFrameProtocol st = (q, st1)" by fastforce
  obtain b where b: "q = FrameProtocol b newFrame None" "turnOnWrite b" "nextBuf st \<le> writeBuffer b"
    using newFrameProtocol_buffers [OF fac] by auto
  have ne: "writeBuffer b \<noteq> writeBuffer bl" "writeBuffer b \<noteq> writeBuffer bp" using assms(4,5) b(3) by auto
  obtain f' fp' st2 where ser: "processSerialize le 0 (FrameProtocol b (newFrame\<lparr>fr_header := h, fr_state := Complete\<rparr>)
        (Some (StringListProtocol bl l (Some (FrameProtocol (bp\<lparr>turnOnWrite := False\<rparr>) fp None))))) st1
      = (Inr True, (FrameProtocol b f'
          (Some (StringListProtocol bl l (Some (FrameProtocol (bp\<lparr>turnOnWrite := False\<rparr>) fp' None)))), st2))"
    "ref_ok (writeBuffer b) st2" "ref_rest (writeBuffer b) st2 = ?hb"
    "ref_ok (writeBuffer bl) st2" "ref_rest (writeBuffer bl) st2 = ?es"
    using reply_serialize [of "newFrame\<lparr>fr_header := h, fr_state := Complete\<rparr>" fp
        "bp\<lparr>turnOnWrite := False\<rparr>" b bl le l st1] ne assms(2,3,6) by auto
  have es: "?es \<noteq> []" using length_enc_strings_ge [of "sl_list l" le] by auto
  have hb: "?hb \<noteq> []" by (metis length_header_bytes list.size(3) zero_neq_numeral)
  have w1: "write_buffer collect True (writeBuffer b) st2 out
      = (Inr True, (ref_adv (writeBuffer b) 16 st2, out @ ?hb))"
    using write_buffer_ok [OF ser(2,3) hb] by simp
  have "ref_ok (writeBuffer bl) (ref_adv (writeBuffer b) 16 st2)"
    "ref_rest (writeBuffer bl) (ref_adv (writeBuffer b) 16 st2) = ?es"
    using ser(4,5) ne by (simp_all add: store_simps)
  from write_buffer_ok [OF this es, of "out @ ?hb"] have
    "write_buffer collect True (writeBuffer bl) (ref_adv (writeBuffer b) 16 st2) (out @ ?hb)
      = (Inr True, (ref_adv (writeBuffer bl) (length ?es) (ref_adv (writeBuffer b) 16 st2),
          out @ frame_bytes le h ?es))"
    using assms(6) by (simp add: frame_bytes_def)
  moreover have "write_buffer collect False i s t = (Inr True, (s, t))" for i s t
    by (simp add: write_buffer_def)
  ultimately show ?thesis
    using fac b w1 ser(1) assms(1)
    by (simp add: writeFrame_def FrameProtocolFactory_def serialize_and_write_def setFrameProtocol_def)
qed

theorem writeFrame_reply_witness:
  "\<exists>st'. writeFrame False collect (newFrameHeader 5 6)
       (StringListProtocol base23 (newStringList\<lparr>sl_list := [[65]]\<rparr>) (Some (FrameProtocol base01 newFrame None)))
       (emptyStore\<lparr>nextBuf := 4\<rparr>) []
     = (Inr (), (st', [] @ frame_bytes False (newFrameHeader 5 6) (enc_strings False [[65]])))"
  using writeFrame_reply [of base23 newFrame base01 "emptyStore\<lparr>nextBuf := 4\<rparr>" False
      "newStringList\<lparr>sl_list := [[65]]\<rparr>" "newFrameHeader 5 6" "[]"]
  by (simp add: enc_strings_def enc_string32_def)

text \<open>
  Descriptors that have arrived are handed out in order, each once, by one read event,
  which ends at the first receive that gives no descriptor and leaves what is behind it.
\<close>

theorem fd_events_in_order:
  "fd_onSocket_ReadEvent p (map (\<lambda>fd. RecvMessage (Some fd)) fds @ RecvNone None # rs) out
   = (Inr (), (Some (fd_current (if fds = [] then p else Some \<lparr>fd_fd = last fds, fd_readComplete = True\<rparr>)),
              out @ fds, rs))"
proof (induction fds arbitrary: p out)
  case Nil
  then show ?case by (simp add: fd_processRead_def)
next
  case (Cons fd fds)
  have "fd_processRead (RecvMessage (Some fd)) (fd_current p)
      = (Inr True, \<lparr>fd_fd = fd, fd_readComplete = True\<rparr>)"
    by (cases "fd_current p") (simp add: fd_processRead_def)
  then show ?case by (simp add: Cons.IH)
qed

end
