(* ===== verification/KbufferProofs.thy ===== *)
theory KbufferProofs
  imports Kbuffer "HOL-Library.Sublist"
begin

text \<open>
  The chunk list is a queue of bytes: well-formed doubly linked lists, their abstraction, and
  the interpretation of the queue interface.
\<close>

section \<open>The interface of a byte queue\<close>

text \<open>\<open>rel b q\<close>: the buffer \<open>b\<close> holds the bytes \<open>q\<close>.\<close>

locale byte_queue =
  fixes rel :: "'b \<Rightarrow> bytes \<Rightarrow> bool" and add :: "bytes \<Rightarrow> 'b \<Rightarrow> (int, 'b) res"
    and peek :: "'b \<Rightarrow> exn + bytes option \<times> int" and drain :: "int \<Rightarrow> 'b \<Rightarrow> (unit, 'b) res option"
    and total :: "'b \<Rightarrow> int"
  assumes add_ok: "rel b q \<Longrightarrow> d \<noteq> [] \<Longrightarrow> length q + length d < 2147483648 \<Longrightarrow>
      \<exists>b'. add d b = (Inr (int (length d)), b') \<and> rel b' (q @ d)"
    and peek_ok: "rel b q \<Longrightarrow> q \<noteq> [] \<Longrightarrow>
      \<exists>d. d \<noteq> [] \<and> prefix d q \<and> peek b = Inr (Some d, int (length d))"
    and drain_ok: "rel b q \<Longrightarrow> n \<le> length q \<Longrightarrow>
      \<exists>b'. drain (int n) b = Some (Inr (), b') \<and> rel b' (drop n q)"
    and total_ok: "rel b q \<Longrightarrow> total b = int (length q)"
begin

lemma total_pos: "rel b q \<Longrightarrow> 0 < total b \<longleftrightarrow> q \<noteq> []"
  using total_ok by auto

lemma peek_prefix:
  assumes "rel b q" "q \<noteq> []"
  obtains d where "d \<noteq> []" "peek b = Inr (Some d, int (length d))" "take (length d) q = d" "length d \<le> length q"
proof -
  obtain d where d: "d \<noteq> []" "prefix d q" "peek b = Inr (Some d, int (length d))"
    using peek_ok [OF assms] by auto
  moreover have "take (length d) q = d" "length d \<le> length q"
    using d(2) by (auto simp: prefix_def)
  ultimately show ?thesis using that by blast
qed

text \<open>Sending \<open>n\<close> of the contiguous bytes takes exactly these from the front.\<close>

lemma send_front:
  assumes "rel b q" "peek b = Inr (Some d, k)" "n \<le> length d" "q \<noteq> []"
  shows "\<exists>b'. drain (int n) b = Some (Inr (), b') \<and> rel b' (drop n q) \<and> take n d @ drop n q = q"
proof -
  obtain e where e: "peek b = Inr (Some e, int (length e))" "take (length e) q = e" "length e \<le> length q"
    using peek_prefix [OF assms(1,4)] by metis
  then have "e = d" using assms(2) by simp
  then have "take n d = take n q" using e(2) assms(3) by (metis min_absorb1 take_take)
  then show ?thesis using drain_ok [OF assms(1), of n] e(3) assms(3) \<open>e = d\<close> by auto
qed

end

section \<open>Doubly linked lists\<close>

fun dll :: "(nat \<Rightarrow> kbuffer_chunk option) \<Rightarrow> nat option \<Rightarrow> nat option \<Rightarrow> nat list \<Rightarrow> bool" where
  "dll m prev p [] \<longleftrightarrow> p = None"
| "dll m prev p (a # as) \<longleftrightarrow>
     p = Some a \<and> (\<exists>c. m a = Some c \<and> kc_prev c = prev \<and> dll m (Some a) (kc_next c) as)"

definition last_addr :: "nat list \<Rightarrow> nat option" where
  "last_addr as = (if as = [] then None else Some (last as))"

definition chunk_rest :: "kbuffer_chunk \<Rightarrow> bytes" where
  "chunk_rest c = drop (nat (kc_pt c)) (kc_data c)"

definition chunk_ok :: "kbuffer_chunk \<Rightarrow> bool" where
  "chunk_ok c \<longleftrightarrow> 0 \<le> kc_pt c \<and> kc_pt c < kc_size c \<and> kc_size c = int (length (kc_data c))
                \<and> kc_size c < 2147483648"

definition contents :: "(nat \<Rightarrow> kbuffer_chunk option) \<Rightarrow> nat list \<Rightarrow> bytes" where
  "contents m as = concat (map (\<lambda>a. chunk_rest (the (m a))) as)"

definition kb_ok :: "kbuffer \<Rightarrow> nat list \<Rightarrow> bool" where
  "kb_ok b as \<longleftrightarrow> distinct as \<and> dll (kb_mem b) None (kb_head b) as \<and> kb_tail b = last_addr as
     \<and> (\<forall>a \<in> set as. a < kb_fresh b \<and> chunk_ok (the (kb_mem b a)))
     \<and> kb_size b = int (length (contents (kb_mem b) as))
     \<and> length (contents (kb_mem b) as) < 2147483648 \<and> dom (kb_mem b) = set as"

definition kb_rel :: "kbuffer \<Rightarrow> bytes \<Rightarrow> bool" where
  "kb_rel b q \<longleftrightarrow> (\<exists>as. kb_ok b as \<and> q = contents (kb_mem b) as)"

lemma kb_rel_new: "kb_rel kbuffer_new []"
  by (simp add: kb_rel_def kb_ok_def kbuffer_new_def last_addr_def contents_def exI [of _ "[]"])

lemma dll_cong: "(\<And>a. a \<in> set as \<Longrightarrow> m a = m' a) \<Longrightarrow> dll m prev p as = dll m' prev p as"
  by (induction as arbitrary: prev p) auto

lemma dll_alloc: "dll m prev p as \<Longrightarrow> a \<in> set as \<Longrightarrow> m a \<noteq> None"
  by (induction as arbitrary: prev p) auto

lemma contents_cong: "(\<And>a. a \<in> set as \<Longrightarrow> m a = m' a) \<Longrightarrow> contents m as = contents m' as"
  by (simp add: contents_def cong: map_cong)

lemma contents_simps [simp]:
  "contents m [] = []" "contents m (a # as) = chunk_rest (the (m a)) @ contents m as"
  "contents m (as @ bs) = contents m as @ contents m bs"
  by (simp_all add: contents_def)

lemma last_addr_simps [simp]:
  "last_addr [] = None" "last_addr (as @ [a]) = Some a" "last_addr as = None \<longleftrightarrow> as = []"
  by (simp_all add: last_addr_def)

lemma length_chunk_rest: "chunk_ok c \<Longrightarrow> int (length (chunk_rest c)) = kc_size c - kc_pt c"
  by (auto simp: chunk_ok_def chunk_rest_def of_nat_diff)

lemma chunk_rest_not_Nil: "chunk_ok c \<Longrightarrow> chunk_rest c \<noteq> []"
  by (auto simp: chunk_ok_def chunk_rest_def)

section \<open>Adding\<close>

text \<open>A list with its last link redirected to a new chunk.\<close>

definition set_next :: "nat \<Rightarrow> nat \<Rightarrow> (nat \<Rightarrow> kbuffer_chunk option) \<Rightarrow> nat \<Rightarrow> kbuffer_chunk option" where
  "set_next t k m = m(t := map_option (\<lambda>c. c\<lparr>kc_next := Some k\<rparr>) (m t))"

lemma set_next_other [simp]: "a \<noteq> t \<Longrightarrow> set_next t k m a = m a"
  by (simp add: set_next_def)

lemma dll_append_chunk:
  assumes "dll m prev p as" "distinct (as @ [k])"
    and "c = \<lparr>kc_data = d, kc_size = n, kc_pt = 0, kc_prev = (if as = [] then prev else Some (last as)), kc_next = None\<rparr>"
  shows "dll (if as = [] then m(k \<mapsto> c) else set_next (last as) k (m(k \<mapsto> c)))
             prev (if as = [] then Some k else p) (as @ [k])"
  using assms
proof (induction as arbitrary: prev p)
  case Nil
  then show ?case by simp
next
  case (Cons a as)
  then obtain ca where ca: "p = Some a" "m a = Some ca" "kc_prev ca = prev" "dll m (Some a) (kc_next ca) as"
    by auto
  show ?case
  proof (cases "as = []")
    case True
    with Cons.prems ca show ?thesis by (auto simp: set_next_def)
  next
    case False
    have "last as \<noteq> a" "k \<noteq> a" using Cons.prems(2) False by auto
    moreover have "dll (set_next (last as) k (m(k \<mapsto> c))) (Some a) (kc_next ca) (as @ [k])"
      using Cons.IH [OF ca(4)] Cons.prems(2,3) False by simp
    ultimately show ?thesis using ca False by simp
  qed
qed

lemma kbuffer_add_ok:
  assumes "kb_rel b q" "d \<noteq> []" "length q + length d < 2147483648"
  shows "\<exists>b'. kbuffer_add d b = (Inr (int (length d)), b') \<and> kb_rel b' (q @ d)"
proof -
  obtain as where as: "kb_ok b as" "q = contents (kb_mem b) as" using assms(1) by (auto simp: kb_rel_def)
  let ?k = "kb_fresh b" and ?m = "kb_mem b"
  define c where "c = \<lparr>kc_data = d, kc_size = int (length d), kc_pt = 0, kc_prev = last_addr as, kc_next = None\<rparr>"
  have n: "to_int32 (int (length d)) = int (length d)" using assms(3) by simp
  have ok: "distinct as" "dll ?m None (kb_head b) as" "kb_tail b = last_addr as"
    "kb_size b = int (length q)" "\<And>a. a \<in> set as \<Longrightarrow> a < ?k \<and> chunk_ok (the (?m a))"
    using as by (auto simp: kb_ok_def)
  have k: "?k \<notin> set as" using ok(5) by auto
  have alloc: "as \<noteq> [] \<Longrightarrow> ?m (last as) \<noteq> None" using dll_alloc [OF ok(2)] by simp
  define m' where "m' = (if as = [] then ?m(?k \<mapsto> c) else set_next (last as) ?k (?m(?k \<mapsto> c)))"
  have head: "kb_head b = None \<longleftrightarrow> as = []" using ok(2) by (cases as) auto
  define b' where "b' = b\<lparr>kb_mem := m', kb_fresh := Suc ?k, kb_tail := Some ?k,
      kb_head := (if as = [] then Some ?k else kb_head b), kb_size := int (length q + length d)\<rparr>"
  have add: "kbuffer_add d b = (Inr (int (length d)), b')"
    using n ok head alloc assms(3)
    by (cases as rule: rev_cases)
      (auto simp: kbuffer_add_def Let_def upd_chunk_def dangling_def b'_def m'_def c_def last_addr_def set_next_def)
  have dll: "dll m' None (if as = [] then Some ?k else kb_head b) (as @ [?k])"
    using dll_append_chunk [OF ok(2), of ?k c d "int (length d)"] ok(1) k
    by (simp add: m'_def c_def last_addr_def)
  have mem: "\<exists>f. the (m' a) = f (the (?m a)) \<and> (\<forall>x. chunk_rest (f x) = chunk_rest x \<and> chunk_ok (f x) = chunk_ok x)"
    if "a \<in> set as" for a
  proof (cases "a = last as")
    case True
    have "?m a \<noteq> None" using dll_alloc [OF ok(2) that] .
    then show ?thesis using True that k
      by (intro exI [of _ "\<lambda>c. c\<lparr>kc_next := Some ?k\<rparr>"])
        (auto simp: m'_def chunk_rest_def chunk_ok_def set_next_def)
  next
    case False
    with that k show ?thesis by (intro exI [of _ id]) (auto simp: m'_def)
  qed
  have dom: "dom m' = set (as @ [?k])"
  proof -
    have "dom ?m = set as" using as(1) by (simp add: kb_ok_def)
    moreover have "dom (set_next t k m) = dom m" for t k and m :: "nat \<Rightarrow> kbuffer_chunk option"
      by (auto simp: set_next_def dom_def)
    ultimately show ?thesis by (simp add: m'_def)
  qed
  have mk: "m' ?k = Some c"
  proof -
    have "as \<noteq> [] \<Longrightarrow> ?k \<noteq> last as" using k last_in_set by metis
    then show ?thesis by (simp add: m'_def)
  qed
  have ok': "a < Suc ?k \<and> chunk_ok (the (m' a))" if am: "a \<in> set as" for a
  proof -
    obtain f where "the (m' a) = f (the (?m a))" "\<forall>x. chunk_ok (f x) = chunk_ok x"
      using mem [OF am] by metis
    then show ?thesis using ok(5) [OF am] by simp
  qed
  have "chunk_ok c" using assms(2,3) by (simp add: c_def chunk_ok_def)
  then have all: "\<forall>a \<in> set (as @ [?k]). a < Suc ?k \<and> chunk_ok (the (m' a))" using ok' mk by auto
  have cont: "contents m' as = q"
    unfolding as(2) contents_def using mem by (intro arg_cong [of _ _ concat] map_cong) fastforce+
  have "kb_ok b' (as @ [?k])"
    unfolding kb_ok_def
    using ok(1) k dll all cont mk dom assms(3) by (simp add: b'_def c_def chunk_rest_def)
  moreover have "contents (kb_mem b') (as @ [?k]) = q @ d"
    using cont mk by (simp add: b'_def c_def chunk_rest_def)
  ultimately show ?thesis using add by (auto simp: kb_rel_def)
qed

section \<open>Looking and draining\<close>

lemma kbuffer_add_printf_ok:
  assumes "kb_rel b q" "formatted \<noteq> []" "hd formatted \<noteq> 0" "length q + 3998 < 2147483648"
  shows "\<exists>b'. kbuffer_add_printf formatted b = (Inr (), b')
     \<and> kb_rel b' (q @ takeWhile (\<lambda>c. c \<noteq> 0) (take 3998 formatted))"
proof -
  let ?d = "takeWhile (\<lambda>c. c \<noteq> 0) (take 3998 formatted)"
  have "length ?d \<le> 3998" by (rule order_trans [OF length_takeWhile_le]) simp
  moreover have "?d \<noteq> []" using assms(2,3) by (cases formatted) (auto simp: take_Cons')
  ultimately obtain b' where "kbuffer_add ?d b = (Inr (int (length ?d)), b')" "kb_rel b' (q @ ?d)"
    using kbuffer_add_ok [OF assms(1), of ?d] assms(4) by auto
  then show ?thesis by (simp add: kbuffer_add_printf_def)
qed

lemma kb_ok_empty: "kb_ok b as \<Longrightarrow> contents (kb_mem b) as = [] \<longleftrightarrow> as = []"
  by (cases as) (auto simp: kb_ok_def chunk_rest_not_Nil)

lemma kbuffer_peek_ok:
  assumes "kb_rel b q" "q \<noteq> []"
  shows "\<exists>d. d \<noteq> [] \<and> prefix d q \<and> kbuffer_get_contiguous_data b = Inr (Some d, int (length d))"
proof -
  obtain as where as: "kb_ok b as" "q = contents (kb_mem b) as" using assms(1) by (auto simp: kb_rel_def)
  then obtain a as' where a: "as = a # as'" using assms(2) by (cases as) auto
  obtain c where c: "kb_head b = Some a" "kb_mem b a = Some c" "chunk_ok c"
    using as(1) a by (auto simp: kb_ok_def)
  have "to_int32 (kc_size c - kc_pt c) = int (length (chunk_rest c))"
    using c(3) by (simp add: length_chunk_rest) (simp add: chunk_ok_def)
  then show ?thesis
    using c as(2) a by (auto simp: kbuffer_get_contiguous_data_def chunk_rest_def [symmetric]
        chunk_rest_not_Nil intro!: exI [of _ "chunk_rest c"])
qed

text \<open>Freeing the first chunk leaves the rest of the list.\<close>

lemma kbuffer_free_head:
  assumes "kb_ok b (a # as)" "kb_mem b a = Some c"
  shows "\<exists>b'. kbuffer_chuck_free a b = (Inr (kc_next c), b') \<and> kb_ok b' as
       \<and> kb_head b' = kc_next c
       \<and> contents (kb_mem b') as = contents (kb_mem b) as"
proof -
  let ?m = "kb_mem b"
  have ok: "distinct (a # as)" "kb_head b = Some a" "kc_prev c = None" "dll ?m (Some a) (kc_next c) as"
    "kb_tail b = Some (last (a # as))" "chunk_ok c"
    "kb_size b = int (length (chunk_rest c) + length (contents ?m as))"
    "length (chunk_rest c) + length (contents ?m as) < 2147483648"
    "\<And>x. x \<in> set as \<Longrightarrow> x < kb_fresh b \<and> chunk_ok (the (?m x))" "dom ?m = insert a (set as)"
    using assms by (auto simp: kb_ok_def last_addr_def)
  have sz: "to_int32 (kb_size b - to_int32 (kc_size c - kc_pt c)) = int (length (contents ?m as))"
    using ok(6,8) length_chunk_rest [OF ok(6)] by (simp add: ok(7))
  show ?thesis
  proof (cases as)
    case Nil
    then have "(?m)(a := None) = (\<lambda>x. None)" using ok(10) by (auto simp: dom_def fun_eq_iff)
    then show ?thesis
      using Nil ok assms(2) sz
      by (auto simp: kbuffer_chuck_free_def dangling_def Let_def upd_chunk_def kb_ok_def last_addr_def)
  next
    case (Cons x xs)
    obtain cx where cx: "?m x = Some cx" "kc_next c = Some x" "dll ?m (Some x) (kc_next cx) xs"
      using ok(4) Cons by auto
    define m' where "m' = (?m(x := map_option (\<lambda>c. c\<lparr>kc_prev := None\<rparr>) (?m x)))(a := None)"
    define b' where "b' = b\<lparr>kb_mem := m', kb_head := Some x, kb_size := int (length (contents ?m as))\<rparr>"
    have ne: "x \<noteq> a" "last as \<noteq> a" "x \<notin> set xs" "a \<notin> set xs" using ok(1) Cons by auto
    have free: "kbuffer_chuck_free a b = (Inr (kc_next c), b')"
      using ok(2,3,5) assms(2) sz cx ne Cons
      by (auto simp: kbuffer_chuck_free_def dangling_def Let_def upd_chunk_def b'_def m'_def)
    have same: "m' y = ?m y" if "y \<in> set xs" for y using that ne by (auto simp: m'_def)
    have mx: "m' x = Some (cx\<lparr>kc_prev := None\<rparr>)" using cx ne by (simp add: m'_def)
    have "dll m' None (Some x) as"
      using Cons cx(3) mx dll_cong [of xs m' ?m] same by simp
    moreover have "contents m' as = contents ?m as"
      using Cons mx cx(1) contents_cong [of xs m' ?m] same by (simp add: chunk_rest_def)
    moreover have "y < kb_fresh b \<and> chunk_ok (the (m' y))" if "y \<in> set as" for y
      using ok(9) [OF that] that Cons mx same cx(1) by (auto simp: chunk_ok_def)
    moreover have "dom m' = set as"
      using ok(1,10) cx(1) ne Cons by (auto simp: m'_def dom_def)
    ultimately have "kb_ok b' as"
      using ok Cons by (simp add: kb_ok_def b'_def last_addr_def)
    then show ?thesis
      using free cx(2) \<open>contents m' as = contents ?m as\<close> by (simp add: b'_def)
  qed
qed

lemma kbuffer_remove_head:
  assumes "kb_ok b (a # as)" "kb_mem b a = Some c" "n < length (chunk_rest c)"
  shows "kb_ok (kbuffer_chuck_remove a (int n) b) (a # as)
       \<and> contents (kb_mem (kbuffer_chuck_remove a (int n) b)) (a # as)
         = drop n (contents (kb_mem b) (a # as))"
proof -
  let ?m = "kb_mem b"
  have ok: "distinct (a # as)" "kb_head b = Some a" "kc_prev c = None" "dll ?m (Some a) (kc_next c) as"
    "kb_tail b = Some (last (a # as))" "chunk_ok c" "a < kb_fresh b"
    "kb_size b = int (length (chunk_rest c) + length (contents ?m as))"
    "length (chunk_rest c) + length (contents ?m as) < 2147483648"
    "\<And>x. x \<in> set as \<Longrightarrow> x < kb_fresh b \<and> chunk_ok (the (?m x))" "dom ?m = insert a (set as)"
    using assms by (auto simp: kb_ok_def last_addr_def)
  define c' where "c' = c\<lparr>kc_pt := kc_pt c + int n\<rparr>"
  have pt: "kc_pt c + int n < kc_size c" "0 \<le> kc_pt c" "kc_size c < 2147483648"
    using ok(6) assms(3) length_chunk_rest [OF ok(6)] by (auto simp: chunk_ok_def)
  have c': "chunk_ok c'" "chunk_rest c' = drop n (chunk_rest c)"
    using ok(6) pt by (auto simp: c'_def chunk_ok_def chunk_rest_def nat_add_distrib add.commute)
  have "to_int32 (kc_pt c + int n) = kc_pt c + int n" using pt by (intro to_int32_id) linarith+
  moreover have "to_int32 (kb_size b - int n)
      = int (length (drop n (chunk_rest c)) + length (contents ?m as))"
    using assms(3) ok(8,9) by simp
  ultimately have b': "kbuffer_chuck_remove a (int n) b = b\<lparr>kb_mem := ?m(a \<mapsto> c'),
      kb_size := int (length (chunk_rest c') + length (contents ?m as))\<rparr>"
    using assms(2) c'(2) by (simp add: kbuffer_chuck_remove_def upd_chunk_def c'_def)
  have same: "dll (?m(a \<mapsto> c')) (Some a) (kc_next c) as" "contents (?m(a \<mapsto> c')) as = contents ?m as"
  proof -
    have x: "(?m(a \<mapsto> c')) y = ?m y" if "y \<in> set as" for y using that ok(1) by auto
    have "dll (?m(a \<mapsto> c')) (Some a) (kc_next c) as = dll ?m (Some a) (kc_next c) as"
      by (rule dll_cong) (rule x)
    then show "dll (?m(a \<mapsto> c')) (Some a) (kc_next c) as" using ok(4) by simp
    show "contents (?m(a \<mapsto> c')) as = contents ?m as" by (rule contents_cong) (rule x)
  qed
  have len: "length (chunk_rest c') + length (contents ?m as) < 2147483648"
    using ok(9) c'(2) by simp
  have "x < kb_fresh b \<and> chunk_ok (the ((?m(a \<mapsto> c')) x))" if "x \<in> set (a # as)" for x
    using that ok(1,7,10) c'(1) by auto
  moreover have "kc_prev c' = None" "kc_next c' = kc_next c" using ok(3) by (simp_all add: c'_def)
  ultimately show ?thesis
    using ok(1,2,5,11) same c' len assms(2,3) unfolding b' by (simp add: kb_ok_def last_addr_def)
qed

lemma drain_loop_ok:
  assumes "kb_ok b as" "n \<le> length (contents (kb_mem b) as)"
  shows "\<exists>b' as'. drain_loop (kb_head b) (int n) b = Some (Inr (), b') \<and> kb_ok b' as'
       \<and> contents (kb_mem b') as' = drop n (contents (kb_mem b) as)"
  using assms
proof (induction as arbitrary: b n)
  case Nil
  then have "kb_head b = None" by (simp add: kb_ok_def)
  then show ?case using Nil by (intro exI [of _ b] exI [of _ "[]"]) (simp add: drain_loop.simps)
next
  case (Cons a as)
  obtain c where c: "kb_head b = Some a" "kb_mem b a = Some c" "chunk_ok c"
    using Cons.prems(1) by (auto simp: kb_ok_def)
  let ?k = "length (chunk_rest c)"
  have total: "?k + length (contents (kb_mem b) as) < 2147483648" using Cons.prems(1) c by (simp add: kb_ok_def)
  have cs: "to_int32 (kc_size c - kc_pt c) = int ?k"
    using c(3) by (simp add: length_chunk_rest) (simp add: chunk_ok_def)
  show ?case
  proof (cases "?k \<le> n")
    case True
    obtain b' where b': "kbuffer_chuck_free a b = (Inr (kc_next c), b')" "kb_ok b' as"
      "kb_head b' = kc_next c" "contents (kb_mem b') as = contents (kb_mem b) as"
      using kbuffer_free_head [OF Cons.prems(1) c(2)] by blast
    have d: "to_int32 (int n - int ?k) = int (n - ?k)"
      using True Cons.prems(2) total c(2) by (simp add: of_nat_diff)
    show ?thesis
    proof (cases "n = ?k")
      case True
      then show ?thesis
        using c cs d b' by (intro exI [of _ b'] exI [of _ as]) (simp add: drain_loop.simps)
    next
      case False
      with True have "n - ?k \<noteq> 0" by simp
      moreover have "n - ?k \<le> length (contents (kb_mem b') as)"
        using Cons.prems(2) c(2) b'(4) by simp
      ultimately show ?thesis
        using Cons.IH [OF b'(2), of "n - ?k"] c cs d b' True
        by (simp add: drain_loop.simps [of "Some a"])
    qed
  next
    case False
    then have "n < ?k" by simp
    from kbuffer_remove_head [OF Cons.prems(1) c(2) this] show ?thesis
      using c cs False
      by (intro exI [of _ "kbuffer_chuck_remove a (int n) b"] exI [of _ "a # as"])
        (simp add: drain_loop.simps)
  qed
qed

interpretation kb: byte_queue kb_rel kbuffer_add kbuffer_get_contiguous_data kbuffer_drain kbuffer_get_size
proof unfold_locales
  show "\<exists>b'. kbuffer_drain (int n) b = Some (Inr (), b') \<and> kb_rel b' (drop n q)"
    if "kb_rel b q" "n \<le> length q" for b q n
    using that drain_loop_ok by (fastforce simp: kb_rel_def kbuffer_drain_def)
  show "kbuffer_get_size b = int (length q)" if "kb_rel b q" for b q
    using that by (auto simp: kb_rel_def kb_ok_def kbuffer_get_size_def)
qed (use kbuffer_add_ok kbuffer_peek_ok in auto)

lemma free_loop_ok:
  "kb_ok b as \<Longrightarrow> \<exists>b'. free_loop (kb_head b) b = Some (Inr (), b') \<and> kb_ok b' []"
proof (induction as arbitrary: b)
  case Nil
  then have "kb_head b = None" by (simp add: kb_ok_def)
  then show ?case using Nil by (simp add: free_loop.simps)
next
  case (Cons a as)
  obtain c where c: "kb_head b = Some a" "kb_mem b a = Some c"
    using Cons.prems by (auto simp: kb_ok_def)
  obtain b' where b': "kbuffer_chuck_free a b = (Inr (kc_next c), b')" "kb_ok b' as" "kb_head b' = kc_next c"
    using kbuffer_free_head [OF Cons.prems c(2)] by blast
  with Cons.IH [OF b'(2)] c show ?case by (simp add: free_loop.simps [of "Some a"])
qed

lemma chunk_count_ok:
  "dll (kb_mem b) prev p as \<Longrightarrow> k + length as < 2147483648 \<Longrightarrow>
   chunk_count_loop p (int k) b = Some (Inr (int (k + length as)))"
proof (induction as arbitrary: prev p k)
  case Nil
  then show ?case by (simp add: chunk_count_loop.simps)
next
  case (Cons a as)
  then obtain c where c: "p = Some a" "kb_mem b a = Some c" "dll (kb_mem b) (Some a) (kc_next c) as" by auto
  have "to_int32 (int k + 1) = int (Suc k)" using Cons.prems(2) by simp
  then have "chunk_count_loop p (int k) b = chunk_count_loop (kc_next c) (int (Suc k)) b"
    using c(1,2) by (simp add: chunk_count_loop.simps [of "Some a"])
  with Cons.IH [OF c(3), of "Suc k"] Cons.prems(2) show ?case by simp
qed

section \<open>Properties\<close>

datatype kb_op = KbAdd bytes | KbDrain nat

fun kb_run :: "kb_op list \<Rightarrow> kbuffer \<Rightarrow> (unit, kbuffer) res option" where
  "kb_run [] b = Some (Inr (), b)"
| "kb_run (KbAdd d # ops) b =
     (case kbuffer_add d b of (Inl e, b) \<Rightarrow> Some (Inl e, b) | (Inr _, b) \<Rightarrow> kb_run ops b)"
| "kb_run (KbDrain n # ops) b =
     (case kbuffer_drain (int n) b of
        Some (Inr _, b) \<Rightarrow> kb_run ops b
      | r \<Rightarrow> r)"

fun queue_run :: "kb_op list \<Rightarrow> bytes \<Rightarrow> bytes" where
  "queue_run [] q = q"
| "queue_run (KbAdd d # ops) q = queue_run ops (q @ d)"
| "queue_run (KbDrain n # ops) q = queue_run ops (drop n q)"

fun queue_ops_ok :: "kb_op list \<Rightarrow> bytes \<Rightarrow> bool" where
  "queue_ops_ok [] q \<longleftrightarrow> True"
| "queue_ops_ok (KbAdd d # ops) q \<longleftrightarrow> d \<noteq> [] \<and> length q + length d < 2147483648 \<and> queue_ops_ok ops (q @ d)"
| "queue_ops_ok (KbDrain n # ops) q \<longleftrightarrow> n \<le> length q \<and> queue_ops_ok ops (drop n q)"

lemma kb_run_ok:
  "kb_rel b q \<Longrightarrow> queue_ops_ok ops q \<Longrightarrow>
   \<exists>b'. kb_run ops b = Some (Inr (), b') \<and> kb_rel b' (queue_run ops q)"
proof (induction ops arbitrary: b q)
  case (Cons op ops)
  then show ?case
  proof (cases op)
    case (KbAdd d)
    then show ?thesis using kb.add_ok [OF Cons.prems(1), of d] Cons by fastforce
  next
    case (KbDrain n)
    then show ?thesis using kb.drain_ok [OF Cons.prems(1), of n] Cons by fastforce
  qed
qed simp

text \<open>
  C5: The write buffer is a queue of bytes: after any sequence of adding non-empty data and
  draining no more than there is, starting from a new buffer, every call has returned, the size
  is the number of bytes queued, and the contiguous data is a non-empty piece of the front of
  the queue whenever the queue is not empty.
\<close>

theorem kbuffer_is_byte_queue:
  assumes "queue_ops_ok ops []"
  shows "\<exists>b. kb_run ops kbuffer_new = Some (Inr (), b)
       \<and> kbuffer_get_size b = int (length (queue_run ops []))
       \<and> (queue_run ops [] \<noteq> [] \<longrightarrow> (\<exists>d. d \<noteq> [] \<and> prefix d (queue_run ops [])
            \<and> kbuffer_get_contiguous_data b = Inr (Some d, int (length d))))"
  using kb_run_ok [OF kb_rel_new assms] kb.total_ok kb.peek_ok by blast

theorem kbuffer_is_byte_queue_witness:
  "\<exists>b. kb_run [KbAdd [1, 2], KbAdd [3, 4, 5], KbDrain 3] kbuffer_new = Some (Inr (), b)
     \<and> kbuffer_get_size b = 2"
  using kbuffer_is_byte_queue [of "[KbAdd [1, 2], KbAdd [3, 4, 5], KbDrain 3]"]
  by (auto simp: numeral_3_eq_3)

text \<open>
  Freeing a write buffer that was used so returns, and frees every chunk that was ever
  allocated and is not freed yet: no chunk leaks.
\<close>

theorem kbuffer_free_frees_all:
  assumes "queue_ops_ok ops []" "kb_run ops kbuffer_new = Some (Inr (), b)"
  shows "\<exists>b'. kbuffer_free b = Some (Inr (), b') \<and> kb_mem b' = (\<lambda>_. None)"
proof -
  obtain as where "kb_ok b as"
    using kb_run_ok [OF kb_rel_new assms(1)] assms(2) by (auto simp: kb_rel_def)
  from free_loop_ok [OF this] show ?thesis by (auto simp: kbuffer_free_def kb_ok_def)
qed

theorem kbuffer_free_frees_all_witness:
  "\<exists>b b'. kb_run [KbAdd [1, 2], KbAdd [3]] kbuffer_new = Some (Inr (), b)
        \<and> kbuffer_free b = Some (Inr (), b') \<and> kb_mem b' = (\<lambda>_. None)"
proof -
  have ok: "queue_ops_ok [KbAdd [1, 2], KbAdd [3]] []" by simp
  obtain b where "kb_run [KbAdd [1, 2], KbAdd [3]] kbuffer_new = Some (Inr (), b)"
    using kb_run_ok [OF kb_rel_new ok] by blast
  then show ?thesis using kbuffer_free_frees_all [OF ok] by blast
qed

end
