(* ===== verification/TcpSocket.thy ===== *)
theory TcpSocket
  imports KbufferProofs
begin

text \<open>
  \<^verbatim>\<open>src/LibeventTcpSocketImpl.h\<close>, the state machine of a TCP or unix domain socket on
  libevent, with \<open>BaseSocket::SocketState\<close> of \<^verbatim>\<open>src/BaseSocket.h\<close>.

  A socket made by host name runs on a bufferevent of libevent (\<open>ts_bev\<close>, with its input and
  output queues); an attached descriptor or a unix domain socket runs on a pair of events
  (\<open>ts_ev\<close>) and the write buffer \<open>ts_kbuffer\<close>, of which NULL is \<open>None\<close>. The event objects
  record whether they are added. What the operating system and the resolver answer are
  arguments. Calls into the owner (\<open>owner_->fire_*\<close>), the connect timer and the bytes handed
  to \<open>write(2)\<close> are recorded in \<open>ts_log\<close>; owners do not call back into the socket here.
  Locks, logging and the peer addresses are left out.
\<close>

section \<open>State\<close>

datatype socket_state = Connecting | Connected | Disconnected

record bufferevent =
  be_input :: bytes
  be_output :: bytes

record event_pair =
  ev_readAdded :: bool
  ev_writeAdded :: bool

datatype socket_event =
    FireInitialized
  | FireConnected
  | FireError int
  | FireClose
  | FireReadEvent
  | Sent bytes
  | ConnectTimer int
  | DeleteTimer

record tcp =
  ts_state :: socket_state
  ts_expired :: bool
  ts_errorDetected :: bool
  ts_pendingWriteSupported :: bool
  ts_bev :: "bufferevent option"
  ts_ev :: "event_pair option"
  ts_path :: string
  ts_timeout :: int
  ts_kbuffer :: "kbuffer option"
  ts_timer :: bool
  ts_log :: "socket_event list"

definition newTcp :: tcp where
  "newTcp = \<lparr>ts_state = Disconnected, ts_expired = False, ts_errorDetected = False,
     ts_pendingWriteSupported = True, ts_bev = None, ts_ev = None, ts_path = '''', ts_timeout = 0,
     ts_kbuffer = None, ts_timer = False, ts_log = []\<rparr>"

definition fire :: "socket_event \<Rightarrow> tcp \<Rightarrow> tcp" where
  "fire e s = s\<lparr>ts_log := ts_log s @ [e]\<rparr>"

definition EINTR :: int where "EINTR = 4"
definition EAGAIN :: int where "EAGAIN = 11"
definition ETIMEDOUT :: int where "ETIMEDOUT = 110"

section \<open>Closing and firing\<close>

definition deleteTimer :: "tcp \<Rightarrow> tcp" where
  "deleteTimer s = (if ts_timer s then fire DeleteTimer (s\<lparr>ts_timer := False\<rparr>) else s)"

text \<open>\<open>_close\<close>, which leaves the state and the write buffer alone.\<close>

definition tcp_close_handles :: "tcp \<Rightarrow> tcp" where
  "tcp_close_handles s = s\<lparr>ts_bev := None, ts_ev := None\<rparr>"

definition fire_onSocket_Close :: "tcp \<Rightarrow> tcp" where
  "fire_onSocket_Close s =
     fire FireClose (tcp_close_handles ((deleteTimer s)\<lparr>ts_state := Disconnected\<rparr>))"

definition fire_onSocket_Error :: "int \<Rightarrow> tcp \<Rightarrow> (unit, tcp) res" where
  "fire_onSocket_Error err s =
     (let s = s\<lparr>ts_errorDetected := True\<rparr> in
      if ts_state s = Connecting \<and> ts_bev s = None
      then (Inl (Undef ''bufferevent_socket_get_dns_error(NULL)''), s)
      else (Inr (), fire (FireError err) (tcp_close_handles (s\<lparr>ts_state := Disconnected\<rparr>))))"

definition fire_onSocket_Connected :: "tcp \<Rightarrow> tcp" where
  "fire_onSocket_Connected s =
     (if ts_errorDetected s then s
      else
        let s = s\<lparr>ts_state := Connected\<rparr>;
            s = (if ts_pendingWriteSupported s
                   \<and> (case ts_kbuffer s of None \<Rightarrow> False | Some b \<Rightarrow> 0 < kbuffer_get_size b)
                 then s\<lparr>ts_ev := map_option (\<lambda>e. e\<lparr>ev_writeAdded := True\<rparr>) (ts_ev s)\<rparr>
                 else s)
        in fire FireConnected (deleteTimer s))"

definition tcp_close :: "tcp \<Rightarrow> tcp" where
  "tcp_close s = fire_onSocket_Close (tcp_close_handles s)"

definition checkResponseSocket :: "int \<Rightarrow> int \<Rightarrow> tcp \<Rightarrow> (unit, tcp) res" where
  "checkResponseSocket r err s =
     (if r = -1 then
        (if err \<noteq> EINTR \<and> err \<noteq> EAGAIN then fire_onSocket_Error err s else (Inr (), s))
      else if r = 0 then (Inr (), fire_onSocket_Close s)
      else (Inr (), s))"

section \<open>Connecting\<close>

definition throwExceptionIfNotInitState :: "tcp \<Rightarrow> (unit, tcp) res" where
  "throwExceptionIfNotInitState s =
     (if ts_state s \<noteq> Disconnected \<or> ts_ev s \<noteq> None \<or> ts_bev s \<noteq> None
      then (Inl (IllegalStateException ''Already starting connection''), s)
      else (Inr (), s))"

definition ensure_kbuffer :: "tcp \<Rightarrow> tcp" where
  "ensure_kbuffer s =
     (if ts_kbuffer s = None then s\<lparr>ts_kbuffer := Some kbuffer_new\<rparr> else s)"

definition createEvent :: "tcp \<Rightarrow> tcp" where
  "createEvent s =
     fire FireInitialized (ensure_kbuffer
       (if ts_ev s = None then s\<lparr>ts_ev := Some \<lparr>ev_readAdded = False, ev_writeAdded = False\<rparr>\<rparr> else s))"

definition createBufferEvent :: "tcp \<Rightarrow> tcp" where
  "createBufferEvent s =
     fire FireInitialized (ensure_kbuffer
       (if ts_bev s = None then s\<lparr>ts_bev := Some \<lparr>be_input = [], be_output = []\<rparr>\<rparr> else s))"

definition install :: "tcp \<Rightarrow> tcp" where
  "install s =
     (let s = (case ts_bev s of
                 None \<Rightarrow> s
               | Some be \<Rightarrow> if be_input be \<noteq> [] then fire FireReadEvent s else s)
      in s\<lparr>ts_ev := map_option (\<lambda>e. e\<lparr>ev_readAdded := True, ev_writeAdded := True\<rparr>) (ts_ev s)\<rparr>)"

text \<open>
  What the system answers to a connection attempt: the result of
  \<open>bufferevent_socket_connect_hostname\<close>, and whether \<open>socket(2)\<close> and \<open>connect(2)\<close> succeed.
\<close>

record answers =
  an_hostname :: int
  an_socket :: bool
  an_connect :: bool

definition connectTcp :: "answers \<Rightarrow> tcp \<Rightarrow> (unit, tcp) res" where
  "connectTcp a s =
     (let s = createBufferEvent s in
      if an_hostname a \<noteq> 0
      then (Inl (SocketException ''Error starting connection''), tcp_close_handles s)
      else (Inr (), s))"

definition connectUnixDomain :: "answers \<Rightarrow> tcp \<Rightarrow> (unit, tcp) res" where
  "connectUnixDomain a s =
     (if \<not> an_socket a then (Inl (SocketException ''Error creating unix domain socket''), s)
      else
        let s = createEvent s in
        if \<not> an_connect a
        then (Inl (SocketException ''Error starting connection''),
              (tcp_close_handles s)\<lparr>ts_state := Disconnected\<rparr>)
        else (Inr (), s))"

definition connect :: "answers \<Rightarrow> tcp \<Rightarrow> (unit, tcp) res" where
  "connect a s =
     bindR (throwExceptionIfNotInitState s) (\<lambda>_ s.
     let s = (if 0 < ts_timeout s
              then fire (ConnectTimer (ts_timeout s * 1000)) (s\<lparr>ts_timer := True\<rparr>) else s);
         s = tcp_close_handles (s\<lparr>ts_errorDetected := False, ts_state := Connecting\<rparr>)
     in bindR (if ts_path s \<noteq> '''' then connectUnixDomain a s else connectTcp a s) (\<lambda>_ s.
        (Inr (), install s)))"

definition connectHost :: "answers \<Rightarrow> int \<Rightarrow> tcp \<Rightarrow> (unit, tcp) res" where
  "connectHost a timeout s = connect a (s\<lparr>ts_timeout := timeout, ts_path := ''''\<rparr>)"

definition connectUnix :: "answers \<Rightarrow> string \<Rightarrow> int \<Rightarrow> tcp \<Rightarrow> (unit, tcp) res" where
  "connectUnix a path timeout s = connect a (s\<lparr>ts_path := path, ts_timeout := timeout\<rparr>)"

definition attachSocketHandle :: "bool \<Rightarrow> tcp \<Rightarrow> (unit, tcp) res" where
  "attachSocketHandle doInstallFlag s =
     bindR (throwExceptionIfNotInitState s) (\<lambda>_ s.
     let s = (createEvent s)\<lparr>ts_state := Connected\<rparr>
     in (Inr (), if doInstallFlag then install s else s))"

section \<open>Reading and writing\<close>

definition pending_add :: "bytes \<Rightarrow> tcp \<Rightarrow> (int, tcp) res" where
  "pending_add data s =
     (case ts_kbuffer s of
        None \<Rightarrow> (Inl (Undef ''kbuffer_add(NULL)''), s)
      | Some b \<Rightarrow> (case kbuffer_add data b of (r, b) \<Rightarrow> (r, s\<lparr>ts_kbuffer := Some b\<rparr>)))"

definition tcp_write :: "bytes \<Rightarrow> tcp \<Rightarrow> (int, tcp) res" where
  "tcp_write data s =
     (if data = [] then (Inr 0, s)
      else if ts_state s \<noteq> Connected \<and> \<not> ts_pendingWriteSupported s then (Inr 0, s)
      else
        bindR (if ts_state s \<noteq> Connected then pending_add data s else (Inr (-1), s)) (\<lambda>ret s.
        case ts_bev s of
          Some be \<Rightarrow> (Inr (to_int32 (int (length data))),
                      s\<lparr>ts_bev := Some (be\<lparr>be_output := be_output be @ data\<rparr>)\<rparr>)
        | None \<Rightarrow>
            (case ts_ev s of
               None \<Rightarrow> (Inr ret, s)
             | Some e \<Rightarrow>
                 bindR (pending_add data s) (\<lambda>ret s.
                 (Inr ret, s\<lparr>ts_ev := Some (e\<lparr>ev_writeAdded := True\<rparr>)\<rparr>)))))"

text \<open>
  \<open>read\<close>, both overloads: from the input of the bufferevent, or by \<open>read(2)\<close>, whose answer is
  a count, the bytes and \<open>errno\<close>. The result is the value returned with the bytes stored.
\<close>

definition tcp_read :: "(nat \<Rightarrow> int \<times> bytes \<times> int) \<Rightarrow> nat \<Rightarrow> tcp \<Rightarrow> (int \<times> bytes, tcp) res" where
  "tcp_read rd n s =
     (case ts_bev s of
        None \<Rightarrow>
          (case rd n of (r, data, err) \<Rightarrow>
             if 0 < r then (Inr (r, data), s)
             else bindR (checkResponseSocket r err s) (\<lambda>_ s. (Inr (r, []), s)))
      | Some be \<Rightarrow>
          if be_input be = [] then (Inr (-1, []), s)
          else let k = min n (length (be_input be)) in
               (Inr (to_int32 (int k), take k (be_input be)),
                s\<lparr>ts_bev := Some (be\<lparr>be_input := drop k (be_input be)\<rparr>)\<rparr>))"

definition checkOutpuBufferAndClose :: "tcp \<Rightarrow> tcp" where
  "checkOutpuBufferAndClose s =
     (if ts_expired s
      then (case ts_bev s of
              None \<Rightarrow> s
            | Some be \<Rightarrow> if be_output be = [] then tcp_close s else s)
      else s)"

definition closeAfterAllSent :: "tcp \<Rightarrow> (unit, tcp) res" where
  "closeAfterAllSent s =
     (let s = s\<lparr>ts_expired := True\<rparr> in
      if ts_bev s \<noteq> None then (Inr (), checkOutpuBufferAndClose s)
      else (case ts_ev s of
              None \<Rightarrow> (Inl (Undef ''event_del(NULL)''), s)
            | Some e \<Rightarrow> (Inr (), s\<lparr>ts_ev := Some (e\<lparr>ev_readAdded := False, ev_writeAdded := True\<rparr>)\<rparr>)))"

text \<open>
  \<open>_onWriteEvent\<close>: \<open>wr\<close> is \<open>write(2)\<close>, which answers the data it is offered with a count and
  \<open>errno\<close>. A write buffer whose functions do not return counts as undefined here; the
  refinement of \<open>KbufferProofs\<close> excludes that.
\<close>

definition drop_writeEvent :: "tcp \<Rightarrow> tcp" where
  "drop_writeEvent s = s\<lparr>ts_ev := map_option (\<lambda>e. e\<lparr>ev_writeAdded := False\<rparr>) (ts_ev s)\<rparr>"

definition flush_kbuffer :: "(bytes \<Rightarrow> int \<times> int) \<Rightarrow> kbuffer \<Rightarrow> tcp \<Rightarrow> (unit, tcp) res" where
  "flush_kbuffer wr b s =
     (if kbuffer_get_size b \<le> 0 then
        (if ts_ev s = None then (Inl (Undef ''event_del(NULL)''), s)
         else let s = drop_writeEvent s in (Inr (), if ts_expired s then tcp_close s else s))
      else
        (case kbuffer_get_contiguous_data b of
           Inl e \<Rightarrow> (Inl e, s)
         | Inr (data, n) \<Rightarrow>
             (case wr (case data of None \<Rightarrow> [] | Some d \<Rightarrow> d) of (nwrite, err) \<Rightarrow>
              if 0 < nwrite then
                (case kbuffer_drain nwrite b of
                   None \<Rightarrow> (Inl (Undef ''kbuffer_drain does not return''), s)
                 | Some (Inl e, b) \<Rightarrow> (Inl e, s\<lparr>ts_kbuffer := Some b\<rparr>)
                 | Some (Inr _, b) \<Rightarrow>
                     (Inr (), fire (Sent (take (nat nwrite) (case data of None \<Rightarrow> [] | Some d \<Rightarrow> d)))
                                (s\<lparr>ts_kbuffer := Some b\<rparr>)))
              else if nwrite = 0 then (Inr (), tcp_close s)
              else if err = EAGAIN then (Inr (), s)
              else (Inr (), tcp_close s))))"

definition onWriteEvent :: "(bytes \<Rightarrow> int \<times> int) \<Rightarrow> tcp \<Rightarrow> (unit, tcp) res" where
  "onWriteEvent wr s =
     (if ts_state s \<noteq> Connecting then
        (case ts_kbuffer s of
           None \<Rightarrow> (Inl (Undef ''kbuffer_get_size(NULL)''), s)
         | Some b \<Rightarrow> flush_kbuffer wr b s)
      else if ts_ev s = None then (Inl (Undef ''event_del(NULL)''), s)
      else (Inr (), fire_onSocket_Connected (drop_writeEvent s)))"

section \<open>Callbacks of libevent\<close>

datatype bev_event = BEV_CONNECTED | BEV_ERROR int | BEV_EOF

definition bufevent_cb :: "bev_event \<Rightarrow> tcp \<Rightarrow> (unit, tcp) res" where
  "bufevent_cb e s =
     (case e of
        BEV_CONNECTED \<Rightarrow> (Inr (), fire_onSocket_Connected s)
      | BEV_ERROR err \<Rightarrow> fire_onSocket_Error err s
      | BEV_EOF \<Rightarrow> (Inr (), fire_onSocket_Close s))"

definition tcp_onTimer_Timer :: "tcp \<Rightarrow> (unit, tcp) res" where
  "tcp_onTimer_Timer s = fire_onSocket_Error ETIMEDOUT s"

definition tcp_onReadEvent :: "tcp \<Rightarrow> tcp" where
  "tcp_onReadEvent s = fire FireReadEvent s"

end
