(* ===== verification/TcpSpec.thy ===== *)
theory TcpSpec
  imports TcpSocket
begin

text \<open>
  The socket as a transition system: which states can be reached, what happens to data that
  is written, and how connection attempts end.
\<close>

section \<open>The transition system\<close>

datatype tcp_op =
    OpConnect answers
  | OpConnectHost answers int
  | OpConnectUnix answers string int
  | OpAttach bool
  | OpInstall
  | OpWrite bytes
  | OpRead "nat \<Rightarrow> int \<times> bytes \<times> int" nat
  | OpClose
  | OpCloseAfterAllSent
  | OpWriteEvent "bytes \<Rightarrow> int \<times> int"
  | OpReadEvent
  | OpBufEvent bev_event
  | OpTimer
  | OpArrive bytes
  | OpFlushed nat

fun tcp_do :: "tcp_op \<Rightarrow> tcp \<Rightarrow> (unit, tcp) res" where
  "tcp_do (OpConnect a) s = connect a s"
| "tcp_do (OpConnectHost a t) s = connectHost a t s"
| "tcp_do (OpConnectUnix a p t) s = connectUnix a p t s"
| "tcp_do (OpAttach i) s = attachSocketHandle i s"
| "tcp_do OpInstall s = (Inr (), install s)"
| "tcp_do (OpWrite d) s = bindR (tcp_write d s) (\<lambda>_ s. (Inr (), s))"
| "tcp_do (OpRead rd n) s = bindR (tcp_read rd n s) (\<lambda>_ s. (Inr (), s))"
| "tcp_do OpClose s = (Inr (), tcp_close s)"
| "tcp_do OpCloseAfterAllSent s = closeAfterAllSent s"
| "tcp_do (OpWriteEvent wr) s = onWriteEvent wr s"
| "tcp_do OpReadEvent s = (Inr (), tcp_onReadEvent s)"
| "tcp_do (OpBufEvent e) s = bufevent_cb e s"
| "tcp_do OpTimer s = tcp_onTimer_Timer s"
| "tcp_do (OpArrive d) s =
     (Inr (), s\<lparr>ts_bev := map_option (\<lambda>be. be\<lparr>be_input := be_input be @ d\<rparr>) (ts_bev s)\<rparr>)"
| "tcp_do (OpFlushed n) s =
     (Inr (), checkOutpuBufferAndClose
        (s\<lparr>ts_bev := map_option (\<lambda>be. be\<lparr>be_output := drop n (be_output be)\<rparr>) (ts_bev s)\<rparr>))"

text \<open>
  Events come from handles that exist and are added; \<open>write(2)\<close> takes no more than it is
  offered; and the pending data stays below the 2 GB an \<open>int\<close> can count.
\<close>

definition write_answer_ok :: "(bytes \<Rightarrow> int \<times> int) \<Rightarrow> bool" where
  "write_answer_ok wr \<longleftrightarrow> (\<forall>d. d \<noteq> [] \<longrightarrow> fst (wr d) \<le> int (length d))"

fun tcp_enabled :: "tcp_op \<Rightarrow> tcp \<Rightarrow> bool" where
  "tcp_enabled (OpWrite d) s \<longleftrightarrow>
     (case ts_kbuffer s of None \<Rightarrow> True | Some b \<Rightarrow> kbuffer_get_size b + 2 * int (length d) < 2147483648)"
| "tcp_enabled (OpWriteEvent wr) s \<longleftrightarrow>
     (\<exists>e. ts_ev s = Some e \<and> ev_writeAdded e) \<and> write_answer_ok wr"
| "tcp_enabled OpReadEvent s \<longleftrightarrow> (\<exists>e. ts_ev s = Some e \<and> ev_readAdded e)"
| "tcp_enabled (OpBufEvent e) s \<longleftrightarrow> ts_bev s \<noteq> None"
| "tcp_enabled (OpArrive d) s \<longleftrightarrow> ts_bev s \<noteq> None"
| "tcp_enabled (OpFlushed n) s \<longleftrightarrow> ts_bev s \<noteq> None"
| "tcp_enabled OpTimer s \<longleftrightarrow> ts_timer s"
| "tcp_enabled _ s \<longleftrightarrow> True"

inductive tcp_reachable :: "tcp \<Rightarrow> bool" where
  reach_new: "tcp_reachable newTcp"
| reach_do: "tcp_reachable s \<Longrightarrow> tcp_enabled op s \<Longrightarrow> tcp_do op s = (r, s') \<Longrightarrow>
     \<forall>u. r \<noteq> Inl (Undef u) \<Longrightarrow> tcp_reachable s'"

section \<open>The invariant\<close>

definition tcp_inv :: "tcp \<Rightarrow> bool" where
  "tcp_inv s \<longleftrightarrow>
     (\<forall>b. ts_kbuffer s = Some b \<longrightarrow> (\<exists>q. kb_rel b q))
     \<and> (ts_kbuffer s = None \<longrightarrow> ts_ev s = None \<and> ts_bev s = None)
     \<and> (ts_ev s = None \<or> ts_bev s = None)
     \<and> (ts_state s = Connected \<longrightarrow> ts_ev s \<noteq> None \<or> ts_bev s \<noteq> None)
     \<and> (ts_state s = Disconnected \<longrightarrow> ts_ev s = None \<and> ts_bev s = None)"

lemma fire_simps [simp]:
  "ts_state (fire e s) = ts_state s" "ts_expired (fire e s) = ts_expired s"
  "ts_errorDetected (fire e s) = ts_errorDetected s"
  "ts_pendingWriteSupported (fire e s) = ts_pendingWriteSupported s"
  "ts_bev (fire e s) = ts_bev s" "ts_ev (fire e s) = ts_ev s" "ts_path (fire e s) = ts_path s"
  "ts_timeout (fire e s) = ts_timeout s" "ts_kbuffer (fire e s) = ts_kbuffer s"
  "ts_timer (fire e s) = ts_timer s" "ts_log (fire e s) = ts_log s @ [e]"
  by (simp_all add: fire_def)

lemma close_handles_simps [simp]:
  "ts_state (tcp_close_handles s) = ts_state s" "ts_expired (tcp_close_handles s) = ts_expired s"
  "ts_bev (tcp_close_handles s) = None" "ts_ev (tcp_close_handles s) = None"
  "ts_kbuffer (tcp_close_handles s) = ts_kbuffer s" "ts_path (tcp_close_handles s) = ts_path s"
  "ts_timeout (tcp_close_handles s) = ts_timeout s" "ts_log (tcp_close_handles s) = ts_log s"
  "ts_errorDetected (tcp_close_handles s) = ts_errorDetected s"
  "ts_pendingWriteSupported (tcp_close_handles s) = ts_pendingWriteSupported s"
  by (simp_all add: tcp_close_handles_def)

lemma deleteTimer_simps [simp]:
  "ts_state (deleteTimer s) = ts_state s" "ts_bev (deleteTimer s) = ts_bev s"
  "ts_ev (deleteTimer s) = ts_ev s" "ts_kbuffer (deleteTimer s) = ts_kbuffer s"
  "ts_expired (deleteTimer s) = ts_expired s"
  "ts_pendingWriteSupported (deleteTimer s) = ts_pendingWriteSupported s"
  by (simp_all add: deleteTimer_def)

lemma tcp_close_simps [simp]:
  "ts_state (tcp_close s) = Disconnected" "ts_bev (tcp_close s) = None" "ts_ev (tcp_close s) = None"
  "ts_kbuffer (tcp_close s) = ts_kbuffer s"
  "ts_state (fire_onSocket_Close s) = Disconnected" "ts_bev (fire_onSocket_Close s) = None"
  "ts_ev (fire_onSocket_Close s) = None" "ts_kbuffer (fire_onSocket_Close s) = ts_kbuffer s"
  by (simp_all add: tcp_close_def fire_onSocket_Close_def)

lemma inv_new: "tcp_inv newTcp"
  by (simp add: tcp_inv_def newTcp_def)

lemma inv_closed: "tcp_inv s \<Longrightarrow> tcp_inv (tcp_close s) \<and> tcp_inv (fire_onSocket_Close s)"
  by (simp add: tcp_inv_def)

lemma inv_error: "tcp_inv s \<Longrightarrow> fire_onSocket_Error e s = (r, s') \<Longrightarrow> tcp_inv s'"
  by (auto simp: tcp_inv_def fire_onSocket_Error_def Let_def split: if_splits)

lemma inv_connected: "tcp_inv s \<Longrightarrow> ts_ev s \<noteq> None \<or> ts_bev s \<noteq> None \<Longrightarrow> tcp_inv (fire_onSocket_Connected s)"
  by (auto simp: tcp_inv_def fire_onSocket_Connected_def Let_def)

lemma ensure_kbuffer_simps [simp]:
  "ts_state (ensure_kbuffer s) = ts_state s" "ts_bev (ensure_kbuffer s) = ts_bev s"
  "ts_ev (ensure_kbuffer s) = ts_ev s" "ts_kbuffer (ensure_kbuffer s) \<noteq> None"
  "ts_path (ensure_kbuffer s) = ts_path s" "ts_log (ensure_kbuffer s) = ts_log s"
  "ts_kbuffer (ensure_kbuffer s) = Some b \<longleftrightarrow>
     ts_kbuffer s = Some b \<or> ts_kbuffer s = None \<and> b = kbuffer_new"
  by (auto simp: ensure_kbuffer_def)

lemma inv_connect:
  assumes "tcp_inv s" "connect a s = (r, s')"
  shows "tcp_inv s'"
  using assms kb_rel_new
  by (auto simp: connect_def throwExceptionIfNotInitState_def connectTcp_def connectUnixDomain_def
      createEvent_def createBufferEvent_def install_def tcp_inv_def Let_def
      split: if_splits option.splits)

lemma inv_attach:
  assumes "tcp_inv s" "attachSocketHandle i s = (r, s')"
  shows "tcp_inv s'"
  using assms kb_rel_new
  by (auto simp: attachSocketHandle_def throwExceptionIfNotInitState_def
      createEvent_def install_def tcp_inv_def Let_def split: if_splits option.splits)

lemma pending_add_ok:
  assumes "ts_kbuffer s = Some b" "kb_rel b q" "d \<noteq> []" "length q + length d < 2147483648"
  shows "\<exists>b'. pending_add d s = (Inr (int (length d)), s\<lparr>ts_kbuffer := Some b'\<rparr>) \<and> kb_rel b' (q @ d)"
  using kb.add_ok [OF assms(2-4)] assms(1) by (auto simp: pending_add_def)

lemma flush_empty:
  assumes "kb_rel b []" "ts_ev s \<noteq> None"
  shows "flush_kbuffer wr b s
       = (Inr (), if ts_expired s then tcp_close (drop_writeEvent s) else drop_writeEvent s)"
  using kb.total_ok [OF assms(1)] assms(2) by (simp add: flush_kbuffer_def Let_def) (simp add: drop_writeEvent_def)

lemma flush_data:
  assumes "kb_rel b q" "q \<noteq> []" "write_answer_ok wr"
  obtains d n err where "d \<noteq> []" "wr d = (n, err)" "n \<le> int (length d)"
    "0 < n \<Longrightarrow> \<exists>b'. flush_kbuffer wr b s = (Inr (), fire (Sent (take (nat n) d)) (s\<lparr>ts_kbuffer := Some b'\<rparr>))
        \<and> kb_rel b' (drop (nat n) q) \<and> take (nat n) d @ drop (nat n) q = q"
    "n \<le> 0 \<Longrightarrow> flush_kbuffer wr b s = (Inr (), if n < 0 \<and> err = EAGAIN then s else tcp_close s)"
proof -
  obtain d where d: "d \<noteq> []" "kbuffer_get_contiguous_data b = Inr (Some d, int (length d))"
    "length d \<le> length q"
    using kb.peek_prefix [OF assms(1,2)] by blast
  obtain n err where n: "wr d = (n, err)" by fastforce
  have le: "n \<le> int (length d)" using assms(3) n d(1) by (metis write_answer_ok_def fst_conv)
  have size: "0 < kbuffer_get_size b" using kb.total_pos [OF assms(1)] assms(2) by simp
  show ?thesis
  proof (rule that [OF d(1) n le])
    assume pos: "0 < n"
    then obtain b' where "kbuffer_drain n b = Some (Inr (), b')" "kb_rel b' (drop (nat n) q)"
      "take (nat n) d @ drop (nat n) q = q"
      using kb.send_front [OF assms(1) d(2) _ assms(2), of "nat n"] le by (auto simp: nat_le_iff)
    then show "\<exists>b'. flush_kbuffer wr b s = (Inr (), fire (Sent (take (nat n) d)) (s\<lparr>ts_kbuffer := Some b'\<rparr>))
        \<and> kb_rel b' (drop (nat n) q) \<and> take (nat n) d @ drop (nat n) q = q"
      using size d(2) n pos by (intro exI [of _ b']) (simp add: flush_kbuffer_def)
  next
    assume "n \<le> 0"
    then show "flush_kbuffer wr b s = (Inr (), if n < 0 \<and> err = EAGAIN then s else tcp_close s)"
      using size d(2) n by (auto simp: flush_kbuffer_def)
  qed
qed

lemma inv_flush:
  assumes "tcp_inv s" "ts_kbuffer s = Some b" "write_answer_ok wr" "flush_kbuffer wr b s = (r, s')"
  shows "tcp_inv s'"
proof -
  obtain q where q: "kb_rel b q" using assms(1,2) by (auto simp: tcp_inv_def)
  have drop: "tcp_inv (drop_writeEvent s)" using assms(1) by (simp add: tcp_inv_def drop_writeEvent_def)
  show ?thesis
  proof (cases "q = []")
    case True
    show ?thesis
    proof (cases "ts_ev s")
      case None
      then show ?thesis
        using assms(1,4) q True kb.total_ok [OF q] by (simp add: flush_kbuffer_def)
    next
      case (Some e)
      then show ?thesis using True assms(4) q flush_empty [of b s wr] inv_closed [OF drop] drop by auto
    qed
  next
    case False
    obtain d n err where f: "d \<noteq> []" "wr d = (n, err)" "n \<le> int (length d)"
      "0 < n \<Longrightarrow> \<exists>b'. flush_kbuffer wr b s = (Inr (), fire (Sent (take (nat n) d)) (s\<lparr>ts_kbuffer := Some b'\<rparr>))
        \<and> kb_rel b' (drop (nat n) q) \<and> take (nat n) d @ drop (nat n) q = q"
      "n \<le> 0 \<Longrightarrow> flush_kbuffer wr b s = (Inr (), if n < 0 \<and> err = EAGAIN then s else tcp_close s)"
      using flush_data [OF q False assms(3)] by metis
    show ?thesis
    proof (cases "0 < n")
      case True
      then obtain b' where "s' = fire (Sent (take (nat n) d)) (s\<lparr>ts_kbuffer := Some b'\<rparr>)"
        "kb_rel b' (drop (nat n) q)" using f(4) assms(4) by auto
      then show ?thesis using assms(1,2) by (auto simp: tcp_inv_def)
    next
      case False
      then show ?thesis using f(5) assms(1,4) inv_closed [OF assms(1)] by (auto split: if_splits)
    qed
  qed
qed

text \<open>Writing: the data goes to the bufferevent or to the write buffer, never to a missing one.\<close>

lemma inv_write:
  assumes "tcp_inv s" "tcp_enabled (OpWrite d) s" "tcp_write d s = (r, s')"
  shows "tcp_inv s'"
proof (cases "d = [] \<or> ts_state s \<noteq> Connected \<and> \<not> ts_pendingWriteSupported s")
  case True
  then have "tcp_write d s = (Inr 0, s)" by (auto simp: tcp_write_def)
  then show ?thesis using assms by simp
next
  case False
  show ?thesis
  proof (cases "ts_kbuffer s")
    case None
    then show ?thesis
      using assms(1,3) False by (auto simp: tcp_write_def tcp_inv_def pending_add_def)
  next
    case (Some b)
    obtain q where q: "kb_rel b q" using assms(1) Some by (auto simp: tcp_inv_def)
    have len: "length q + 2 * length d < 2147483648"
      using assms(2) Some kb.total_ok [OF q] by simp
    have add: "\<exists>b'. pending_add d t = (Inr (int (length d)), t\<lparr>ts_kbuffer := Some b'\<rparr>) \<and> kb_rel b' (q' @ d)"
      if "ts_kbuffer t = Some c" "kb_rel c q'" "length q' + length d < 2147483648" for t c q'
      using pending_add_ok [OF that(1,2) _ that(3)] False by simp
    obtain b1 where b1: "pending_add d s = (Inr (int (length d)), s\<lparr>ts_kbuffer := Some b1\<rparr>)"
      "kb_rel b1 (q @ d)"
      using add [OF Some q] len by auto
    obtain b2 where b2: "pending_add d (s\<lparr>ts_kbuffer := Some b1\<rparr>)
        = (Inr (int (length d)), s\<lparr>ts_kbuffer := Some b2\<rparr>)" "kb_rel b2 ((q @ d) @ d)"
      using add [of "s\<lparr>ts_kbuffer := Some b1\<rparr>", OF _ b1(2)] len by auto
    show ?thesis
      using assms(1,3) False Some b1 b2
      by (auto simp: tcp_write_def tcp_inv_def split: if_splits option.splits)
  qed
qed

lemma inv_checkOutput: "tcp_inv s \<Longrightarrow> tcp_inv (checkOutpuBufferAndClose s)"
  using inv_closed by (auto simp: checkOutpuBufferAndClose_def split: option.splits)

lemma inv_step:
  assumes "tcp_inv s" "tcp_enabled op s" "tcp_do op s = (r, s')"
  shows "tcp_inv s'"
proof -
  have fields: "tcp_inv (s\<lparr>ts_timeout := t\<rparr>)" "tcp_inv (s\<lparr>ts_timeout := t, ts_path := p\<rparr>)"
    "tcp_inv (s\<lparr>ts_path := p, ts_timeout := t\<rparr>)" "tcp_inv (s\<lparr>ts_expired := e\<rparr>)" "tcp_inv (fire x s)"
    "tcp_inv (drop_writeEvent s)" for t p e x
    using assms(1) by (simp_all add: tcp_inv_def drop_writeEvent_def)
  show ?thesis
  proof (cases op)
    case (OpConnect a)
    then show ?thesis using assms inv_connect by simp
  next
    case (OpConnectHost a t)
    then show ?thesis using assms(3) inv_connect [OF fields(2)] by (simp add: connectHost_def)
  next
    case (OpConnectUnix a p t)
    then show ?thesis using assms(3) inv_connect [OF fields(3)] by (simp add: connectUnix_def)
  next
    case (OpAttach i)
    then show ?thesis using assms inv_attach by simp
  next
    case OpInstall
    then show ?thesis using assms
      by (auto simp: install_def tcp_inv_def Let_def split: option.splits if_splits)
  next
    case (OpWrite d)
    then show ?thesis
      using assms inv_write [OF assms(1), of d] by (cases "tcp_write d s"; cases "fst (tcp_write d s)") auto
  next
    case (OpRead rd n)
    then show ?thesis
      using assms inv_closed [OF assms(1)] inv_error [OF assms(1)]
      by (cases "checkResponseSocket (fst (rd n)) (snd (snd (rd n))) s"; cases "fst (checkResponseSocket (fst (rd n)) (snd (snd (rd n))) s)")
        (auto simp: tcp_read_def checkResponseSocket_def Let_def tcp_inv_def
          split: option.splits prod.splits if_splits)
  next
    case (OpWriteEvent wr)
    then show ?thesis
      using assms inv_flush [OF assms(1), of _ wr r s'] inv_connected [OF fields(6)]
      by (auto simp: onWriteEvent_def drop_writeEvent_def split: if_splits option.splits)
  next
    case (OpBufEvent e)
    then show ?thesis
      using assms inv_closed [OF assms(1)] inv_error [OF assms(1)] inv_connected [OF assms(1)]
      by (auto simp: bufevent_cb_def split: bev_event.splits)
  next
    case OpCloseAfterAllSent
    then show ?thesis
      using assms inv_checkOutput [OF fields(4) [of True]]
      by (cases "ts_bev s") (auto simp: closeAfterAllSent_def Let_def tcp_inv_def split: option.splits)
  next
    case (OpFlushed n)
    have "tcp_inv (s\<lparr>ts_bev := map_option (\<lambda>be. be\<lparr>be_output := drop n (be_output be)\<rparr>) (ts_bev s)\<rparr>)"
      using assms(1) by (simp add: tcp_inv_def)
    then show ?thesis using OpFlushed assms inv_checkOutput by auto
  next
    case (OpArrive d)
    then show ?thesis using assms by (auto simp: tcp_inv_def)
  next
    case OpTimer
    then show ?thesis using assms inv_error [OF assms(1)] by (auto simp: tcp_onTimer_Timer_def)
  qed (use assms inv_closed [OF assms(1)] fields in \<open>auto simp: tcp_onReadEvent_def\<close>)
qed

lemma reachable_inv: "tcp_reachable s \<Longrightarrow> tcp_inv s"
  by (induction rule: tcp_reachable.induct) (auto intro: inv_new inv_step)

inductive_cases tcp_reachableE: "tcp_reachable s"

section \<open>Runs of events on an attached or unix domain socket\<close>

text \<open>The bytes handed to \<open>write(2)\<close> successfully, in order.\<close>

fun sent_by :: "socket_event \<Rightarrow> bytes" where
  "sent_by (Sent d) = d"
| "sent_by _ = []"

definition sent :: "tcp \<Rightarrow> bytes" where
  "sent s = concat (map sent_by (ts_log s))"

lemma sent_fire [simp]: "sent (fire e s) = sent s @ sent_by e"
  by (simp add: sent_def)

lemma sent_fields [simp]:
  "sent (s\<lparr>ts_kbuffer := b\<rparr>) = sent s" "sent (s\<lparr>ts_ev := e\<rparr>) = sent s"
  "sent (s\<lparr>ts_expired := x\<rparr>) = sent s" "sent (tcp_close_handles s) = sent s"
  "sent (drop_writeEvent s) = sent s" "sent (s\<lparr>ts_state := st\<rparr>) = sent s"
  by (simp_all add: sent_def tcp_close_handles_def drop_writeEvent_def)

lemma sent_close [simp]: "sent (tcp_close s) = sent s"
  by (simp add: tcp_close_def fire_onSocket_Close_def deleteTimer_def) (simp add: sent_def fire_def tcp_close_handles_def)

text \<open>\<open>ev_holds s q\<close>: an open socket on events, with \<open>q\<close> still to be written.\<close>

definition ev_holds :: "tcp \<Rightarrow> bytes \<Rightarrow> bool" where
  "ev_holds s q \<longleftrightarrow> ts_state s = Connected \<and> ts_bev s = None \<and> ts_ev s \<noteq> None
     \<and> (\<exists>b. ts_kbuffer s = Some b \<and> kb_rel b q)"

datatype io = IoWrite bytes | IoWriteable "bytes \<Rightarrow> int \<times> int"

fun io_run :: "io list \<Rightarrow> tcp \<Rightarrow> (unit, tcp) res" where
  "io_run [] s = (Inr (), s)"
| "io_run (IoWrite d # ios) s = bindR (tcp_write d s) (\<lambda>_. io_run ios)"
| "io_run (IoWriteable wr # ios) s = bindR (onWriteEvent wr s) (\<lambda>_. io_run ios)"

definition written :: "io list \<Rightarrow> bytes" where
  "written ios = concat (map (\<lambda>i. case i of IoWrite d \<Rightarrow> d | IoWriteable _ \<Rightarrow> []) ios)"

text \<open>A \<open>write(2)\<close> that takes something, or asks to be tried again.\<close>

definition write_goes_on :: "(bytes \<Rightarrow> int \<times> int) \<Rightarrow> bool" where
  "write_goes_on wr \<longleftrightarrow> write_answer_ok wr
     \<and> (\<forall>d. d \<noteq> [] \<longrightarrow> 0 < fst (wr d) \<or> fst (wr d) < 0 \<and> snd (wr d) = EAGAIN)"

lemma write_holds:
  assumes "ev_holds s q" "length q + length d < 2147483648"
  shows "\<exists>r s'. tcp_write d s = (Inr r, s') \<and> ev_holds s' (q @ d) \<and> sent s' = sent s
       \<and> ts_expired s' = ts_expired s"
proof (cases "d = []")
  case True
  then show ?thesis using assms by (auto simp: tcp_write_def)
next
  case False
  obtain b where b: "ts_kbuffer s = Some b" "kb_rel b q" using assms(1) by (auto simp: ev_holds_def)
  from pending_add_ok [OF b False assms(2)] assms(1) False show ?thesis
    by (auto simp: tcp_write_def ev_holds_def split: option.splits)
qed

lemma writeable_holds:
  assumes "ev_holds s q" "write_goes_on wr" "\<not> (ts_expired s \<and> q = [])"
  shows "\<exists>s' n. onWriteEvent wr s = (Inr (), s') \<and> ev_holds s' (drop n q) \<and> n \<le> length q
       \<and> sent s' = sent s @ take n q \<and> ts_expired s' = ts_expired s
       \<and> (q \<noteq> [] \<longrightarrow> (\<forall>d. d \<noteq> [] \<longrightarrow> 0 < fst (wr d)) \<longrightarrow> 0 < n)"
proof -
  obtain b where b: "ts_kbuffer s = Some b" "kb_rel b q" using assms(1) by (auto simp: ev_holds_def)
  have ev: "onWriteEvent wr s = flush_kbuffer wr b s"
    using assms(1) b(1) by (auto simp: onWriteEvent_def ev_holds_def)
  show ?thesis
  proof (cases "q = []")
    case True
    then show ?thesis
      using assms(1,3) b ev flush_empty [of b s wr]
      by (intro exI [of _ "drop_writeEvent s"] exI [of _ 0]) (auto simp: ev_holds_def drop_writeEvent_def sent_def)
  next
    case False
    have wr: "write_answer_ok wr" using assms(2) by (simp add: write_goes_on_def)
    obtain d n err where f: "d \<noteq> []" "wr d = (n, err)" "n \<le> int (length d)"
      "0 < n \<Longrightarrow> \<exists>b'. flush_kbuffer wr b s = (Inr (), fire (Sent (take (nat n) d)) (s\<lparr>ts_kbuffer := Some b'\<rparr>))
        \<and> kb_rel b' (drop (nat n) q) \<and> take (nat n) d @ drop (nat n) q = q"
      "n \<le> 0 \<Longrightarrow> flush_kbuffer wr b s = (Inr (), if n < 0 \<and> err = EAGAIN then s else tcp_close s)"
      using flush_data [OF b(2) False wr] by metis
    have ans: "0 < n \<or> n < 0 \<and> err = EAGAIN"
      using assms(2) f(1,2) by (metis write_goes_on_def fst_conv snd_conv)
    show ?thesis
    proof (cases "0 < n")
      case True
      then obtain b' where b': "flush_kbuffer wr b s = (Inr (), fire (Sent (take (nat n) d)) (s\<lparr>ts_kbuffer := Some b'\<rparr>))"
        "kb_rel b' (drop (nat n) q)" "take (nat n) d @ drop (nat n) q = q" using f(4) by blast
      have len: "length (take (nat n) d) = nat n" using f(3) by simp
      have "take (nat n) q = take (nat n) (take (nat n) d @ drop (nat n) q)" by (simp only: b'(3))
      moreover have "length q = nat n + (length q - nat n)"
        using arg_cong [OF b'(3), of length] len by simp
      ultimately have "take (nat n) q = take (nat n) d \<and> nat n \<le> length q" using len by simp
      then show ?thesis
        using ev b' assms(1) True
        by (intro exI [of _ "fire (Sent (take (nat n) d)) (s\<lparr>ts_kbuffer := Some b'\<rparr>)"] exI [of _ "nat n"])
          (simp add: ev_holds_def)
    next
      case False
      then show ?thesis
        using ans f(1,2,5) ev assms(1) by (intro exI [of _ s] exI [of _ 0]) (auto dest: spec [of _ d])
    qed
  qed
qed

lemma io_run_holds:
  assumes "ev_holds s q" "\<not> ts_expired s" "length q + length (written ios) < 2147483648"
    and "\<forall>wr. IoWriteable wr \<in> set ios \<longrightarrow> write_goes_on wr"
  shows "\<exists>s' q'. io_run ios s = (Inr (), s') \<and> ev_holds s' q' \<and> sent s' @ q' = sent s @ q @ written ios"
  using assms
proof (induction ios arbitrary: s q)
  case Nil
  then show ?case by (auto simp: written_def)
next
  case (Cons i ios)
  show ?case
  proof (cases i)
    case (IoWrite d)
    have len: "length q + length d < 2147483648" "length (q @ d) + length (written ios) < 2147483648"
      using Cons.prems(3) IoWrite by (auto simp: written_def)
    obtain r s1 where s1: "tcp_write d s = (Inr r, s1)" "ev_holds s1 (q @ d)" "sent s1 = sent s"
      "ts_expired s1 = ts_expired s"
      using write_holds [OF Cons.prems(1) len(1)] by blast
    from Cons.IH [OF s1(2) _ len(2)] Cons.prems(2,4) s1 IoWrite show ?thesis
      by (auto simp: written_def)
  next
    case (IoWriteable wr)
    obtain s1 n where s1: "onWriteEvent wr s = (Inr (), s1)" "ev_holds s1 (drop n q)"
      "sent s1 = sent s @ take n q" "ts_expired s1 = ts_expired s" "n \<le> length q"
      using writeable_holds [OF Cons.prems(1)] Cons.prems(2,4) IoWriteable by (metis list.set_intros(1))
    have len: "length (drop n q) + length (written ios) < 2147483648"
      using Cons.prems(3) IoWriteable by (auto simp: written_def)
    have glue: "take n q @ drop n q @ x = q @ x" for x by (simp flip: append_assoc)
    from Cons.IH [OF s1(2) _ len] Cons.prems(2,4) s1 IoWriteable show ?thesis
      by (auto simp: written_def glue)
  qed
qed

lemma close_after_sent:
  assumes "ev_holds s q" "ts_expired s" "length q < length wrs"
    and "\<forall>wr \<in> set wrs. write_answer_ok wr \<and> (\<forall>d. d \<noteq> [] \<longrightarrow> 0 < fst (wr d))"
  shows "\<exists>k s'. k \<le> length wrs \<and> io_run (map IoWriteable (take k wrs)) s = (Inr (), s')
       \<and> ts_state s' = Disconnected \<and> sent s' = sent s @ q"
  using assms
proof (induction wrs arbitrary: s q)
  case (Cons wr wrs)
  show ?case
  proof (cases "q = []")
    case True
    obtain b where b: "ts_kbuffer s = Some b" "kb_rel b q" "ts_state s = Connected" "ts_ev s \<noteq> None"
      using Cons.prems(1) by (auto simp: ev_holds_def)
    then have "onWriteEvent wr s = (Inr (), tcp_close (drop_writeEvent s))"
      using flush_empty [of b s wr] Cons.prems(2) True by (auto simp: onWriteEvent_def)
    then show ?thesis
      using True by (intro exI [of _ 1] exI [of _ "tcp_close (drop_writeEvent s)"]) simp
  next
    case False
    have "write_goes_on wr" using Cons.prems(4) by (simp add: write_goes_on_def)
    from writeable_holds [OF Cons.prems(1) this] False Cons.prems(4)
    obtain s1 n where s1: "onWriteEvent wr s = (Inr (), s1)" "ev_holds s1 (drop n q)"
      "sent s1 = sent s @ take n q" "ts_expired s1 = ts_expired s" "0 < n" by auto
    have "length (drop n q) < length wrs" using Cons.prems(3) s1(5) False
      by (cases q) auto
    from Cons.IH [OF s1(2) _ this] Cons.prems(2,4) s1(4) obtain k s' where k: "k \<le> length wrs"
      "io_run (map IoWriteable (take k wrs)) s1 = (Inr (), s')" "ts_state s' = Disconnected"
      "sent s' = sent s1 @ drop n q" by auto
    then show ?thesis using s1(1,3) by (intro exI [of _ "Suc k"] exI [of _ s']) simp
  qed
qed simp

section \<open>Properties\<close>

text \<open>
  C15: In every state a socket can reach, a connected socket has exactly one of its two kinds of
  handle, a disconnected one has none, a handle never lacks the write buffer, and the write
  buffer is a well-formed queue; so a new connection attempt on a disconnected socket is never
  refused as one already under way.
\<close>

theorem tcp_reachable_states:
  assumes "tcp_reachable s"
  shows "(ts_state s = Connected \<longrightarrow> (ts_ev s = None) \<noteq> (ts_bev s = None))
       \<and> (ts_state s = Disconnected \<longrightarrow> ts_ev s = None \<and> ts_bev s = None)
       \<and> (ts_ev s \<noteq> None \<or> ts_bev s \<noteq> None \<longrightarrow> ts_kbuffer s \<noteq> None)
       \<and> (\<forall>b. ts_kbuffer s = Some b \<longrightarrow> 0 \<le> kbuffer_get_size b)
       \<and> (ts_state s = Disconnected \<longrightarrow>
            fst (connect a s) \<noteq> Inl (IllegalStateException ''Already starting connection''))"
proof -
  have inv: "tcp_inv s" using reachable_inv [OF assms] .
  then have "\<forall>b. ts_kbuffer s = Some b \<longrightarrow> 0 \<le> kbuffer_get_size b"
    using kb.total_ok by (fastforce simp: tcp_inv_def)
  moreover have "ts_state s = Disconnected \<Longrightarrow>
      fst (connect a s) \<noteq> Inl (IllegalStateException ''Already starting connection'')"
    using inv by (auto simp: tcp_inv_def connect_def throwExceptionIfNotInitState_def
        connectTcp_def connectUnixDomain_def Let_def)
  ultimately show ?thesis using inv by (auto simp: tcp_inv_def)
qed

theorem tcp_reachable_states_witness:
  "let s = snd (attachSocketHandle True newTcp) in ts_ev s \<noteq> None \<and> ts_bev s = None"
proof -
  let ?s = "snd (attachSocketHandle True newTcp)"
  have "tcp_do (OpAttach True) newTcp = (Inr (), ?s)"
    by (simp add: attachSocketHandle_def throwExceptionIfNotInitState_def newTcp_def)
  from reach_do [OF reach_new _ this] have "tcp_reachable ?s" by simp
  from tcp_reachable_states [OF this] show ?thesis
    by (simp add: attachSocketHandle_def throwExceptionIfNotInitState_def newTcp_def createEvent_def
        install_def fire_def ensure_kbuffer_def)
qed

text \<open>
  C4: An open socket on events loses nothing, duplicates nothing and reorders nothing: after
  any interleaving of \<open>write\<close> calls and writeable events, however little \<open>write(2)\<close> takes each
  time, the bytes sent followed by those still queued are what was sent and queued before
  followed by what was written.
\<close>

theorem tcp_event_mode_fifo:
  assumes "ev_holds s q" "\<not> ts_expired s" "length q + length (written ios) < 2147483648"
    and "\<forall>wr. IoWriteable wr \<in> set ios \<longrightarrow> write_goes_on wr"
  shows "\<exists>s' q'. io_run ios s = (Inr (), s') \<and> ev_holds s' q' \<and> sent s' @ q' = sent s @ q @ written ios"
  using io_run_holds [OF assms] .

lemma attached_holds: "ev_holds (snd (attachSocketHandle True newTcp)) []"
  using kb_rel_new
  by (simp add: attachSocketHandle_def throwExceptionIfNotInitState_def newTcp_def createEvent_def
      install_def fire_def ensure_kbuffer_def ev_holds_def)

lemma attached_simps:
  "ts_expired (snd (attachSocketHandle True newTcp)) = False"
  "sent (snd (attachSocketHandle True newTcp)) = []"
  by (simp_all add: attachSocketHandle_def throwExceptionIfNotInitState_def newTcp_def createEvent_def
      install_def fire_def ensure_kbuffer_def sent_def)

theorem tcp_event_mode_fifo_witness:
  "\<exists>s' q'. io_run [IoWrite [1, 2], IoWriteable (\<lambda>d. (1, 0)), IoWrite [3]]
       (snd (attachSocketHandle True newTcp)) = (Inr (), s') \<and> sent s' @ q' = [1, 2, 3]"
proof -
  let ?ios = "[IoWrite [1, 2], IoWriteable (\<lambda>d. (1, 0)), IoWrite [3]]"
  have "write_goes_on (\<lambda>d. (1, 0))"
    by (auto simp: write_goes_on_def write_answer_ok_def Suc_le_eq)
  then have "\<forall>wr. IoWriteable wr \<in> set ?ios \<longrightarrow> write_goes_on wr" by auto
  from tcp_event_mode_fifo [OF attached_holds _ _ this] show ?thesis
    by (auto simp: attached_simps written_def)
qed

text \<open>
  C17: A socket on events that is closed with \<open>closeAfterAllSent\<close> sends everything that was
  queued and then closes: when every writeable event takes at least one byte, it is
  disconnected after at most one event more than there are bytes, and by then exactly the
  queued bytes have been sent.
\<close>

theorem tcp_closeAfterAllSent_drains:
  assumes "ev_holds s q" "length q < length wrs"
    and "\<forall>wr \<in> set wrs. write_answer_ok wr \<and> (\<forall>d. d \<noteq> [] \<longrightarrow> 0 < fst (wr d))"
  shows "\<exists>s1 k s'. closeAfterAllSent s = (Inr (), s1) \<and> k \<le> length wrs
       \<and> io_run (map IoWriteable (take k wrs)) s1 = (Inr (), s')
       \<and> ts_state s' = Disconnected \<and> sent s' = sent s @ q"
proof -
  obtain e where e: "ts_ev s = Some e" using assms(1) by (auto simp: ev_holds_def)
  let ?s1 = "s\<lparr>ts_expired := True, ts_ev := Some (e\<lparr>ev_readAdded := False, ev_writeAdded := True\<rparr>)\<rparr>"
  have "closeAfterAllSent s = (Inr (), ?s1)"
    using assms(1) e by (simp add: closeAfterAllSent_def ev_holds_def)
  moreover have "ev_holds ?s1 q" "ts_expired ?s1" using assms(1) by (auto simp: ev_holds_def)
  ultimately show ?thesis
    using close_after_sent [of ?s1 q wrs] assms(2,3) by auto
qed

theorem tcp_closeAfterAllSent_drains_witness:
  "\<exists>s q s1 k s'. q = [1, 2] \<and> closeAfterAllSent s = (Inr (), s1)
     \<and> io_run (map IoWriteable (take k (replicate 3 (\<lambda>d. (1, 0))))) s1 = (Inr (), s')
     \<and> ts_state s' = Disconnected \<and> sent s' = q"
proof -
  obtain r s where s: "ev_holds s [1, 2]" "sent s = []"
    using write_holds [OF attached_holds, of "[1, 2]"] by (auto simp: attached_simps)
  let ?wrs = "replicate 3 (\<lambda>d :: bytes. (1 :: int, 0 :: int))"
  have "\<forall>wr \<in> set ?wrs. write_answer_ok wr \<and> (\<forall>d. d \<noteq> [] \<longrightarrow> 0 < fst (wr d))"
    by (auto simp: write_answer_ok_def Suc_le_eq)
  from tcp_closeAfterAllSent_drains [OF s(1) _ this] obtain s1 k s' where
    "closeAfterAllSent s = (Inr (), s1)" "io_run (map IoWriteable (take k ?wrs)) s1 = (Inr (), s')"
    "ts_state s' = Disconnected" "sent s' = [1, 2]"
    using s(2) by auto
  then show ?thesis by blast
qed

text \<open>
  C40: Data written to a socket on events while it is still connecting is queued twice: the
  peer will receive it twice.
\<close>

theorem tcp_write_while_connecting_twice:
  assumes "ts_state s = Connecting" "ts_pendingWriteSupported s" "ts_bev s = None" "ts_ev s = Some e"
    and "ts_kbuffer s = Some b" "kb_rel b q" "d \<noteq> []" "length q + 2 * length d < 2147483648"
  shows "\<exists>s' b'. tcp_write d s = (Inr (int (length d)), s') \<and> ts_kbuffer s' = Some b' \<and> kb_rel b' (q @ d @ d)"
proof -
  obtain b1 where b1: "pending_add d s = (Inr (int (length d)), s\<lparr>ts_kbuffer := Some b1\<rparr>)"
    "kb_rel b1 (q @ d)"
    using pending_add_ok [OF assms(5-7)] assms(8) by auto
  obtain b2 where "pending_add d (s\<lparr>ts_kbuffer := Some b1\<rparr>)
        = (Inr (int (length d)), s\<lparr>ts_kbuffer := Some b2\<rparr>)" "kb_rel b2 ((q @ d) @ d)"
    using pending_add_ok [of "s\<lparr>ts_kbuffer := Some b1\<rparr>", OF _ b1(2) assms(7)] assms(8) by auto
  with b1 assms show ?thesis by (auto simp: tcp_write_def)
qed

theorem tcp_write_while_connecting_twice_witness:
  "\<exists>s' b'. tcp_write [7] (snd (connectUnix \<lparr>an_hostname = 0, an_socket = True, an_connect = True\<rparr>
       ''/tmp/s'' 0 newTcp)) = (Inr 1, s') \<and> ts_kbuffer s' = Some b' \<and> kb_rel b' [7, 7]"
proof -
  let ?s = "snd (connectUnix \<lparr>an_hostname = 0, an_socket = True, an_connect = True\<rparr> ''/tmp/s'' 0 newTcp)"
  have s: "ts_state ?s = Connecting" "ts_pendingWriteSupported ?s" "ts_bev ?s = None"
    "ts_ev ?s = Some \<lparr>ev_readAdded = True, ev_writeAdded = True\<rparr>" "ts_kbuffer ?s = Some kbuffer_new"
    by (simp_all add: connectUnix_def connect_def throwExceptionIfNotInitState_def newTcp_def
        connectUnixDomain_def createEvent_def install_def tcp_close_handles_def ensure_kbuffer_def fire_def Let_def)
  from tcp_write_while_connecting_twice [OF s kb_rel_new, of "[7]"] show ?thesis by simp
qed

text \<open>
  Data accepted while a socket is disconnected and then connected by host name is never
  sent: it stays in the write buffer, which the bufferevent of the new connection does not use.
\<close>

theorem tcp_pending_data_lost_on_host_connection:
  assumes "ts_state s = Disconnected" "ts_bev s = None" "ts_ev s = None" "ts_pendingWriteSupported s"
    and "ts_kbuffer s = Some b" "kb_rel b q" "d \<noteq> []" "length q + length d < 2147483648" "an_hostname a = 0"
  shows "\<exists>s1 s2 s3 b'. tcp_write d s = (Inr (int (length d)), s1) \<and> connectHost a 0 s1 = (Inr (), s2)
       \<and> bufevent_cb BEV_CONNECTED s2 = (Inr (), s3) \<and> ts_state s3 = Connected
       \<and> ts_bev s3 = Some \<lparr>be_input = [], be_output = []\<rparr> \<and> ts_kbuffer s3 = Some b' \<and> kb_rel b' (q @ d)"
proof -
  obtain b1 where b1: "pending_add d s = (Inr (int (length d)), s\<lparr>ts_kbuffer := Some b1\<rparr>)"
    "kb_rel b1 (q @ d)"
    using pending_add_ok [OF assms(5-8)] by auto
  then have "tcp_write d s = (Inr (int (length d)), s\<lparr>ts_kbuffer := Some b1\<rparr>)"
    using assms by (simp add: tcp_write_def)
  moreover obtain s2 where s2: "connectHost a 0 (s\<lparr>ts_kbuffer := Some b1\<rparr>) = (Inr (), s2)"
    "ts_bev s2 = Some \<lparr>be_input = [], be_output = []\<rparr>" "ts_kbuffer s2 = Some b1" "ts_errorDetected s2 = False"
    "ts_ev s2 = None"
    using assms by (auto simp: connectHost_def connect_def throwExceptionIfNotInitState_def connectTcp_def
        createBufferEvent_def ensure_kbuffer_def install_def tcp_close_handles_def fire_def Let_def)
  ultimately show ?thesis
    using b1(2) by (auto simp: bufevent_cb_def fire_onSocket_Connected_def Let_def)
qed

theorem tcp_pending_data_lost_on_host_connection_witness:
  "\<exists>s s1 s2 s3 b'. tcp_write [7] s = (Inr 1, s1)
     \<and> connectHost \<lparr>an_hostname = 0, an_socket = True, an_connect = True\<rparr> 0 s1 = (Inr (), s2)
     \<and> bufevent_cb BEV_CONNECTED s2 = (Inr (), s3) \<and> ts_state s3 = Connected
     \<and> ts_bev s3 = Some \<lparr>be_input = [], be_output = []\<rparr> \<and> ts_kbuffer s3 = Some b' \<and> kb_rel b' [7]"
proof -
  have "length ([] :: bytes) + length [7 :: byte] < 2147483648" by simp
  from tcp_pending_data_lost_on_host_connection [of "newTcp\<lparr>ts_kbuffer := Some kbuffer_new\<rparr>",
      OF _ _ _ _ _ kb_rel_new _ this] show ?thesis
    by (force simp: newTcp_def)
qed

text \<open>
  When a connection attempt by host name fails at once, the socket is left connecting with
  no handle: every later attempt is refused with the exception for one that is under way.
\<close>

theorem tcp_failed_attempt_blocks_reconnect:
  assumes "ts_state s = Disconnected" "ts_bev s = None" "ts_ev s = None" "an_hostname a \<noteq> 0"
    and "connectHost a 0 s = (r, s1)"
  shows "r = Inl (SocketException ''Error starting connection'') \<and> ts_state s1 = Connecting
       \<and> ts_bev s1 = None \<and> ts_ev s1 = None
       \<and> connect a' s1 = (Inl (IllegalStateException ''Already starting connection''), s1)"
  using assms by (auto simp: connectHost_def connect_def throwExceptionIfNotInitState_def connectTcp_def Let_def
      createBufferEvent_def)

theorem tcp_failed_attempt_blocks_reconnect_witness:
  "connect \<lparr>an_hostname = 0, an_socket = True, an_connect = True\<rparr>
     (snd (connectHost \<lparr>an_hostname = -1, an_socket = True, an_connect = True\<rparr> 0 newTcp))
   = (Inl (IllegalStateException ''Already starting connection''),
      snd (connectHost \<lparr>an_hostname = -1, an_socket = True, an_connect = True\<rparr> 0 newTcp))"
  using tcp_failed_attempt_blocks_reconnect [of newTcp "\<lparr>an_hostname = -1, an_socket = True, an_connect = True\<rparr>"]
  by (simp add: newTcp_def prod_eq_iff)

end
