(* ===== verification/Strings.thy ===== *)
theory Strings
  imports Prelude
begin

text \<open>
  Character strings of the HTTP components, and the method type they share. A \<open>std::string\<close> is a list of characters, which
  in HOL are the 256 byte values; a position is a \<open>nat\<close> and \<open>npos\<close> is \<open>None\<close>. The functions
  are those of the C and C++ library the components call: \<open>find\<close>, \<open>substr\<close>, the copy of a
  C string, which stops at the first NUL, and the decimal form that \<^verbatim>\<open>%d\<close> and
  \<open>operator<<\<close> give. The lemmas say where a pattern is found first.
\<close>

datatype HttpMethodType = HTTP_POST | HTTP_GET | HTTP_UNKNOWN

definition crlf :: string where "crlf = [CHR 0x0D, CHR 0x0A]"

section \<open>Searching\<close>

definition occurs_at :: "string \<Rightarrow> string \<Rightarrow> nat \<Rightarrow> bool" where
  "occurs_at pat s i \<longleftrightarrow> i + length pat \<le> length s \<and> take (length pat) (drop i s) = pat"

definition str_find :: "string \<Rightarrow> string \<Rightarrow> nat \<Rightarrow> nat option" where
  "str_find s pat from = List.find (occurs_at pat s) [from..<Suc (length s)]"

definition str_rfind :: "string \<Rightarrow> char \<Rightarrow> nat option" where
  "str_rfind s c = List.find (\<lambda>i. s ! i = c) (rev [0..<length s])"

definition substr :: "string \<Rightarrow> nat \<Rightarrow> nat \<Rightarrow> string" where
  "substr s pos n = take n (drop pos s)"

definition c_str :: "string \<Rightarrow> string" where
  "c_str s = takeWhile (\<lambda>c. c \<noteq> CHR 0x00) s"

lemma c_str_id [simp]: "CHR 0x00 \<notin> set s \<Longrightarrow> c_str s = s"
  by (induction s) (auto simp: c_str_def)

lemma find_upt_None: "List.find P [i..<n] = None \<longleftrightarrow> (\<forall>j. i \<le> j \<and> j < n \<longrightarrow> \<not> P j)"
  by (auto simp: find_None_iff)

lemma find_upt_Some:
  "List.find P [i..<n] = Some j \<longleftrightarrow> i \<le> j \<and> j < n \<and> P j \<and> (\<forall>k. i \<le> k \<and> k < j \<longrightarrow> \<not> P k)"
proof (induction "n - i" arbitrary: i)
  case 0 then show ?case by auto
next
  case (Suc d)
  have u: "[i..<n] = i # [Suc i..<n]" using Suc.hyps(2) by (intro upt_conv_Cons) simp
  have ih: "List.find P [Suc i..<n] = Some j \<longleftrightarrow>
      Suc i \<le> j \<and> j < n \<and> P j \<and> (\<forall>k. Suc i \<le> k \<and> k < j \<longrightarrow> \<not> P k)"
    by (rule Suc.hyps(1)) (use Suc.hyps(2) in simp)
  show ?case
  proof (cases "P i")
    case True
    then show ?thesis using Suc.hyps(2) by (auto simp: u)
  next
    case False
    have le: "Suc i \<le> k \<longleftrightarrow> i \<le> k" if "P k" for k
      using that False by (cases "k = i") auto
    have "(Suc i \<le> j \<and> j < n \<and> P j \<and> (\<forall>k. Suc i \<le> k \<and> k < j \<longrightarrow> \<not> P k)) \<longleftrightarrow>
        (i \<le> j \<and> j < n \<and> P j \<and> (\<forall>k. i \<le> k \<and> k < j \<longrightarrow> \<not> P k))"
      using le by blast
    then show ?thesis using False ih by (simp add: u)
  qed
qed

lemma str_find_Some:
  "str_find s pat from = Some j \<longleftrightarrow>
    from \<le> j \<and> occurs_at pat s j \<and> (\<forall>k. from \<le> k \<and> k < j \<longrightarrow> \<not> occurs_at pat s k)"
  by (auto simp: str_find_def find_upt_Some occurs_at_def simp del: upt_Suc)

lemma str_find_None: "str_find s pat from = None \<longleftrightarrow> (\<forall>k\<ge>from. \<not> occurs_at pat s k)"
  by (auto simp: str_find_def find_upt_None occurs_at_def simp del: upt_Suc)

lemma occurs_at_append: "occurs_at pat (u @ pat @ v) (length u)"
  by (simp add: occurs_at_def)

lemma occurs_at_nth:
  "occurs_at pat s i \<Longrightarrow> k < length pat \<Longrightarrow> s ! (i + k) = pat ! k"
  by (metis add.commute add_leD2 nth_drop nth_take occurs_at_def)

text \<open>
  A pattern without the first character of \<open>m\<close> that does not occur in \<open>u\<close> does not start in
  \<open>u\<close> or at \<open>m\<close> when \<open>m\<close> follows.
\<close>

lemma not_occurs_before:
  assumes u: "\<And>k. \<not> occurs_at pat u k" and c: "c \<notin> set pat" and k: "k \<le> length u" and p: "pat \<noteq> []"
  shows "\<not> occurs_at pat (u @ c # v) k"
proof
  assume o: "occurs_at pat (u @ c # v) k"
  show False
  proof (cases "k + length pat \<le> length u")
    case True
    then have "occurs_at pat u k" using o by (simp add: occurs_at_def)
    with u show False by simp
  next
    case False
    then have l: "length u - k < length pat" using k by simp
    have "(u @ c # v) ! (k + (length u - k)) = pat ! (length u - k)"
      by (rule occurs_at_nth [OF o l])
    then have "pat ! (length u - k) = c" using k by simp
    then show False using c l nth_mem by blast
  qed
qed

lemma occurs_at_Cons_Suc [simp]: "occurs_at pat (c # s) (Suc k) \<longleftrightarrow> occurs_at pat s k"
  by (auto simp: occurs_at_def)

lemma occurs_at_append_ge:
  "length u \<le> k \<Longrightarrow> occurs_at pat (u @ s) k \<longleftrightarrow> occurs_at pat s (k - length u)"
  by (auto simp: occurs_at_def)

lemma occurs_at_char:
  "occurs_at pat s k \<Longrightarrow> pat \<noteq> [] \<Longrightarrow> k < length s \<and> s ! k = hd pat"
  using occurs_at_nth [of pat s k 0] by (cases pat) (auto simp: occurs_at_def)

lemma not_occurs_if_no_hd:
  "pat \<noteq> [] \<Longrightarrow> hd pat \<notin> set s \<Longrightarrow> \<not> occurs_at pat s k"
  using occurs_at_char nth_mem by metis

section \<open>Decimal numbers\<close>

fun dec :: "nat \<Rightarrow> string" where
  "dec n = (if n div 10 = 0 then [] else dec (n div 10)) @ [char_of (48 + n mod 10)]"

declare dec.simps [simp del]

definition undec :: "string \<Rightarrow> nat" where
  "undec s = foldl (\<lambda>n c. 10 * n + (of_char c - 48)) 0 s"

lemma undec_dec: "undec (dec n) = n"
proof (induction n rule: dec.induct)
  case (1 n)
  show ?case
  proof (cases "n div 10 = 0")
    case True
    then show ?thesis by (subst dec.simps) (auto simp: undec_def of_char_of)
  next
    case False
    have "undec (dec (n div 10)) = n div 10" using 1 False by simp
    then have "undec (dec (n div 10) @ [char_of (48 + n mod 10)]) = 10 * (n div 10) + n mod 10"
      by (simp add: undec_def of_char_of)
    then show ?thesis using False by (subst dec.simps) simp
  qed
qed

lemma dec_inject [simp]: "dec m = dec n \<longleftrightarrow> m = n"
  by (metis undec_dec)

end
