(* ===== verification/Mpfd.thy ===== *)
theory Mpfd
  imports Strings "HOL-Library.AList"
begin

text \<open>
  The parser of multipart form data, \<^verbatim>\<open>dep/MPFDParser/Field.cpp\<close> and \<^verbatim>\<open>Parser.cpp\<close>, as
  it is used (and patched) in this library. A field and the parser are records of their
  members; a pointer that may be null is an option. The characters behind a \<open>char *\<close> are a
  string, with the length member kept apart where the code keeps one
  (\<open>FieldContentLength\<close>); \<open>DataCollectorLength\<close> is always the length of the collected
  data and is not a member of the model.

  The file system is an association list from paths to contents; whether a file can be
  created is an argument, \<open>cc\<close>. A search for a free name ends because the file system is
  finite; the counter \<open>int i\<close> of that search is a natural number.
\<close>

type_synonym fsys = "(string \<times> string) list"

section \<open>Fields\<close>

definition TextType :: int where "TextType = 1"
definition FileType :: int where "FileType = 2"
definition StoreUploadedFilesInFilesystem :: int where "StoreUploadedFilesInFilesystem = 1"
definition StoreUploadedFilesInMemory :: int where "StoreUploadedFilesInMemory = 2"

lemmas mpfd_consts = TextType_def FileType_def StoreUploadedFilesInFilesystem_def
  StoreUploadedFilesInMemory_def

record field =
  FieldContentLength :: nat
  WhereToStoreUploadedFiles :: "int option"
  TempDir :: string
  TempFile :: string
  FileContentType :: string
  FileName :: string
  f_type :: int
  FieldContent :: "string option"
  f_file :: bool
  f_key :: string

definition newField :: "string \<Rightarrow> field" where
  "newField key = \<lparr>FieldContentLength = 0, WhereToStoreUploadedFiles = None, TempDir = [],
    TempFile = [], FileContentType = [], FileName = [], f_type = 0, FieldContent = None,
    f_file = False, f_key = key\<rparr>"

definition field_destroy :: "field \<Rightarrow> fsys \<Rightarrow> fsys" where
  "field_destroy f fs = (if f_type f = FileType \<and> f_file f
    then AList.delete (TempDir f @ ''/'' @ TempFile f) fs else fs)"

definition SetType :: "int \<Rightarrow> field \<Rightarrow> (unit, field) res" where
  "SetType t f = (if t = TextType \<or> t = FileType then (Inr (), f\<lparr>f_type := t\<rparr>)
    else (Inl (MpfdException ''Trying to set type of field, but type is incorrect.''), f))"

definition GetType :: "field \<Rightarrow> exn + int" where
  "GetType f = (if f_type f > 0 then Inr (f_type f)
    else Inl (MpfdException ''Trying to get type of field, but no type was set.''))"

definition SetTempDir :: "string \<Rightarrow> field \<Rightarrow> field" where
  "SetTempDir dir f = f\<lparr>TempDir := dir\<rparr>"

definition SetFileName :: "string \<Rightarrow> field \<Rightarrow> field" where
  "SetFileName name f = f\<lparr>FileName := name\<rparr>"

definition field_SetUploadedFilesStorage :: "int \<Rightarrow> field \<Rightarrow> field" where
  "field_SetUploadedFilesStorage w f = f\<lparr>WhereToStoreUploadedFiles := Some w\<rparr>"

definition SetFileContentType :: "string \<Rightarrow> field \<Rightarrow> field" where
  "SetFileContentType t f = f\<lparr>FileContentType := t\<rparr>"

text \<open>The search for the first \<open>MPFD_Temp_i\<close> that cannot be opened for reading.\<close>

definition temp_name :: "nat \<Rightarrow> string" where
  "temp_name i = ''MPFD_Temp_'' @ dec i"

definition temp_left :: "fsys \<Rightarrow> string \<Rightarrow> nat \<Rightarrow> nat set" where
  "temp_left fs dir i = {j. i \<le> j \<and> map_of fs (dir @ ''/'' @ temp_name j) \<noteq> None}"

lemma finite_temp_left: "finite (temp_left fs dir i)"
proof (rule finite_imageD)
  have "(\<lambda>j. dir @ ''/'' @ temp_name j) ` temp_left fs dir i \<subseteq> dom (map_of fs)"
    by (auto simp: temp_left_def)
  then show "finite ((\<lambda>j. dir @ ''/'' @ temp_name j) ` temp_left fs dir i)"
    by (rule finite_subset) (rule finite_dom_map_of)
  show "inj_on (\<lambda>j. dir @ ''/'' @ temp_name j) (temp_left fs dir i)"
    by (rule inj_onI) (simp add: temp_name_def)
qed

lemma temp_left_Suc:
  assumes "map_of fs (dir @ ''/'' @ temp_name i) \<noteq> None"
  shows "card (temp_left fs dir (Suc i)) < card (temp_left fs dir i)"
proof (rule psubset_card_mono [OF finite_temp_left])
  have "i \<in> temp_left fs dir i" "i \<notin> temp_left fs dir (Suc i)"
    using assms by (auto simp: temp_left_def)
  moreover have "temp_left fs dir (Suc i) \<subseteq> temp_left fs dir i"
    by (auto simp: temp_left_def)
  ultimately show "temp_left fs dir (Suc i) \<subset> temp_left fs dir i" by blast
qed

function find_temp :: "fsys \<Rightarrow> string \<Rightarrow> nat \<Rightarrow> string" where
  "find_temp fs dir i = (if map_of fs (dir @ ''/'' @ temp_name i) \<noteq> None
     then find_temp fs dir (Suc i) else temp_name i)"
  by pat_completeness auto
termination
  by (relation "measure (\<lambda>(fs, dir, i). card (temp_left fs dir i))") (auto intro: temp_left_Suc)

declare find_temp.simps [simp del]

text \<open>\<open>AcceptSomeData\<close> for a file that is kept in the file system.\<close>

definition AcceptFileData :: "(string \<Rightarrow> bool) \<Rightarrow> string \<Rightarrow> field \<times> fsys \<Rightarrow> (unit, field \<times> fsys) res" where
  "AcceptFileData cc dat ffs = (case ffs of (f, fs) \<Rightarrow>
     if TempDir f \<noteq> [] then
       (let (f1, fs1) =
          (if f_file f then (f, fs)
           else let tf = find_temp fs (TempDir f) 1; path = TempDir f @ ''/'' @ tf
                in if cc path then (f\<lparr>TempFile := tf, f_file := True\<rparr>, AList.update path [] fs)
                   else (f\<lparr>TempFile := tf\<rparr>, fs));
            path = TempDir f1 @ ''/'' @ TempFile f1
        in if f_file f1
           then (Inr (), f1, AList.update path (case map_of fs1 path of None \<Rightarrow> dat | Some c \<Rightarrow> c @ dat) fs1)
           else (Inl (MpfdException (''Cannot write to file '' @ path)), f1, fs1))
     else (Inl (MpfdException ''Trying to AcceptSomeData for a file but no TempDir is set.''), f, fs))"

definition field_AcceptSomeData :: "(string \<Rightarrow> bool) \<Rightarrow> string \<Rightarrow> field \<times> fsys \<Rightarrow> (unit, field \<times> fsys) res" where
  "field_AcceptSomeData cc dat ffs = (case ffs of (f, fs) \<Rightarrow>
     let old = (case FieldContent f of None \<Rightarrow> [] | Some c \<Rightarrow> take (FieldContentLength f) c) in
     if f_type f = TextType then
       (Inr (), f\<lparr>FieldContent := Some (old @ dat @ [CHR 0x00])\<rparr>, fs)
     else if f_type f = FileType then
       (case WhereToStoreUploadedFiles f of
          None \<Rightarrow> (Inl (Undef ''uninitialised WhereToStoreUploadedFiles''), f, fs)
        | Some w \<Rightarrow>
            if w = StoreUploadedFilesInFilesystem then AcceptFileData cc dat (f, fs)
            else (Inr (), f\<lparr>FieldContent := Some (old @ dat),
                            FieldContentLength := FieldContentLength f + length dat\<rparr>, fs))
     else (Inl (MpfdException ''Trying to AcceptSomeData but no type was set.''), f, fs))"

definition GetFileContentSize :: "field \<Rightarrow> exn + nat" where
  "GetFileContentSize f =
    (if f_type f = 0 then Inl (MpfdException ''Trying to get file content size, but no type was set.'')
     else if f_type f = FileType then
       (case WhereToStoreUploadedFiles f of
          None \<Rightarrow> Inl (Undef ''uninitialised WhereToStoreUploadedFiles'')
        | Some w \<Rightarrow> if w = StoreUploadedFilesInMemory then Inr (FieldContentLength f)
            else Inl (MpfdException ''Trying to get file content size, but uploaded files are stored in filesystem.''))
     else Inl (MpfdException ''Trying to get file content size, but the type is not file.''))"

definition GetFileContent :: "field \<Rightarrow> exn + string option" where
  "GetFileContent f =
    (if f_type f = 0 then Inl (MpfdException ''Trying to get file content, but no type was set.'')
     else if f_type f = FileType then
       (case WhereToStoreUploadedFiles f of
          None \<Rightarrow> Inl (Undef ''uninitialised WhereToStoreUploadedFiles'')
        | Some w \<Rightarrow> if w = StoreUploadedFilesInMemory then Inr (FieldContent f)
            else Inl (MpfdException ''Trying to get file content, but uplaoded files are stored in filesystem.''))
     else Inl (MpfdException ''Trying to get file content, but the type is not file.''))"

definition GetTextTypeContent :: "field \<Rightarrow> exn + string" where
  "GetTextTypeContent f =
    (if f_type f = 0 then Inl (MpfdException ''Trying to get text content of the field, but no type was set.'')
     else if f_type f \<noteq> TextType
     then Inl (MpfdException ''Trying to get content of the field, but the type is not text.'')
     else Inr (case FieldContent f of None \<Rightarrow> [] | Some c \<Rightarrow> c_str c))"

definition GetTempFileName :: "field \<Rightarrow> exn + string" where
  "GetTempFileName f =
    (if f_type f = 0 then Inl (MpfdException ''Trying to get file temp name, but no type was set.'')
     else if f_type f = FileType then
       (case WhereToStoreUploadedFiles f of
          None \<Rightarrow> Inl (Undef ''uninitialised WhereToStoreUploadedFiles'')
        | Some w \<Rightarrow> if w = StoreUploadedFilesInFilesystem then Inr (TempDir f @ ''/'' @ TempFile f)
            else Inl (MpfdException ''Trying to get file temp name, but uplaoded files are stored in memory.''))
     else Inl (MpfdException ''Trying to get file temp name, but the type is not file.''))"

definition GetFileName :: "field \<Rightarrow> exn + string" where
  "GetFileName f =
    (if f_type f = 0 then Inl (MpfdException ''Trying to get file name, but no type was set.'')
     else if f_type f = FileType then Inr (FileName f)
     else Inl (MpfdException ''Trying to get file name, but the type is not file.''))"

definition GetFileMimeType :: "field \<Rightarrow> exn + string" where
  "GetFileMimeType f =
    (if f_type f = 0 then Inl (MpfdException ''Trying to get mime type of file, but no type was set.'')
     else if f_type f \<noteq> FileType
     then Inl (MpfdException ''Trying to get mime type of the field, but the type is not File.'')
     else Inr (FileContentType f))"

section \<open>The parser\<close>

datatype status =
    Status_LookingForStartingBoundary
  | Status_ProcessingHeaders
  | Status_ProcessingContentOfTheField

record parser =
  WhereToStore :: int
  Fields :: "field list"
  TempDirForFileUpload :: string
  CurrentStatus :: status
  Boundary :: string
  ProcessingFieldName :: string
  CurrentField :: "field option"
  DataCollector :: "string option"
  MaxDataCollectorLength :: int
  p_fs :: fsys

definition newParser :: "fsys \<Rightarrow> parser" where
  "newParser fs = \<lparr>WhereToStore = StoreUploadedFilesInFilesystem, Fields = [],
    TempDirForFileUpload = [], CurrentStatus = Status_LookingForStartingBoundary, Boundary = [],
    ProcessingFieldName = [], CurrentField = None, DataCollector = None,
    MaxDataCollectorLength = 16 * 1024 * 1024, p_fs = fs\<rparr>"

definition parser_destroy :: "parser \<Rightarrow> fsys" where
  "parser_destroy P = (let fs = fold field_destroy (Fields P) (p_fs P)
    in case CurrentField P of None \<Rightarrow> fs | Some f \<Rightarrow> field_destroy f fs)"

definition collected :: "parser \<Rightarrow> string" where
  "collected P = (case DataCollector P of None \<Rightarrow> [] | Some d \<Rightarrow> d)"

lemma collected_simps [simp]:
  "collected (P\<lparr>DataCollector := d\<rparr>) = (case d of None \<Rightarrow> [] | Some d \<Rightarrow> d)"
  "collected (P\<lparr>CurrentStatus := st\<rparr>) = collected P"
  "collected (P\<lparr>CurrentField := c\<rparr>) = collected P"
  "collected (P\<lparr>Fields := fl\<rparr>) = collected P"
  "collected (P\<lparr>ProcessingFieldName := n\<rparr>) = collected P"
  "collected (P\<lparr>p_fs := fs\<rparr>) = collected P"
  by (simp_all add: collected_def)

definition SetUploadedFilesStorage :: "int \<Rightarrow> parser \<Rightarrow> parser" where
  "SetUploadedFilesStorage w P = P\<lparr>WhereToStore := w\<rparr>"

definition SetTempDirForFileUpload :: "string \<Rightarrow> parser \<Rightarrow> parser" where
  "SetTempDirForFileUpload dir P = P\<lparr>TempDirForFileUpload := dir\<rparr>"

definition SetMaxCollectedDataLength :: "int \<Rightarrow> parser \<Rightarrow> parser" where
  "SetMaxCollectedDataLength m P = P\<lparr>MaxDataCollectorLength := m\<rparr>"

definition SetContentType :: "string \<Rightarrow> parser \<Rightarrow> (unit, parser) res" where
  \<open>SetContentType ty P =
    (if str_find ty ''multipart/form-data;'' 0 \<noteq> Some 0
     then (Inl (MpfdException (''Content type is not "multipart/form-data"'' @ [CHR 0x0A] @ ''It is "'' @ ty @ ''"'')), P)
     else case str_find ty ''boundary='' 0 of
       None \<Rightarrow> (Inl (MpfdException (''Cannot find boundary in Content-type: "'' @ ty @ ''"'')), P)
     | Some bp \<Rightarrow> (Inr (), P\<lparr>Boundary := ''--'' @ substr ty (bp + 9) (length ty - bp)\<rparr>))\<close>

fun match_boundary :: "string \<Rightarrow> nat \<Rightarrow> string \<Rightarrow> bool" where
  "match_boundary D k [] = True"
| "match_boundary D k (c # b) = (if D ! k \<noteq> c then False else match_boundary D (Suc k) b)"

function boundary_loop :: "string \<Rightarrow> string \<Rightarrow> nat \<Rightarrow> int" where
  "boundary_loop D b i =
    (if int i \<le> int (length D) - int (length b)
     then if match_boundary D i b then int i else boundary_loop D b (Suc i)
     else -1)"
  by pat_completeness auto
termination by (relation "measure (\<lambda>(D, b, i). Suc (length D) - i)") auto

declare boundary_loop.simps [simp del]

definition BoundaryPositionInDataCollector :: "parser \<Rightarrow> int" where
  "BoundaryPositionInDataCollector P =
    (if length (collected P) \<ge> length (Boundary P) then boundary_loop (collected P) (Boundary P) 0 else -1)"

definition TruncateDataCollectorFromTheBeginning :: "nat \<Rightarrow> parser \<Rightarrow> parser" where
  "TruncateDataCollectorFromTheBeginning n P = P\<lparr>DataCollector := Some (drop n (collected P))\<rparr>"

definition FindStartingBoundaryAndTruncData :: "parser \<Rightarrow> (bool, parser) res" where
  "FindStartingBoundaryAndTruncData P =
    (let n = BoundaryPositionInDataCollector P in
     if n \<ge> 0
     then (Inr True, TruncateDataCollectorFromTheBeginning (nat n + length (Boundary P)) P)
     else (Inr False, P))"

text \<open>
  The end of a content type: the position before the first blank or line end behind it, and
  0 if there is none. \<open>substr\<close> is called with the difference of two positions, an unsigned
  number: a difference below 0 is more than any length.
\<close>

fun content_type_end :: "string \<Rightarrow> nat \<Rightarrow> int" where
  "content_type_end [] i = 0"
| "content_type_end (c # cs) i =
    (if c = CHR '' '' \<or> c = CHR 0x0A \<or> c = CHR 0x0D
     then (if int i - 1 = 0 then content_type_end cs (Suc i) else int i - 1)
     else content_type_end cs (Suc i))"

definition file_content_type :: "string \<Rightarrow> nat \<Rightarrow> string" where
  "file_content_type headers pos = substr headers (pos + 14)
    (to_size (content_type_end (drop (pos + 14) headers) (pos + 14) - int (pos + 14)))"

definition on_current :: "(field \<Rightarrow> field) \<Rightarrow> parser \<Rightarrow> parser" where
  "on_current g P = P\<lparr>CurrentField := map_option g (CurrentField P)\<rparr>"

definition set_file_data :: "string \<Rightarrow> parser \<Rightarrow> (unit, parser) res" where
  \<open>set_file_data headers P = (case str_find headers ''filename="'' 0 of
     None \<Rightarrow> (Inr (), on_current (\<lambda>f. f\<lparr>f_type := TextType\<rparr>) P)
   | Some fpos \<Rightarrow>
      (let P1 = on_current (\<lambda>f. field_SetUploadedFilesStorage (WhereToStore P)
                  (SetTempDir (TempDirForFileUpload P) (f\<lparr>f_type := FileType\<rparr>))) P
       in case str_find headers ''"'' (fpos + 10) of
         None \<Rightarrow> (Inl (MpfdException (''Cannot find closing quote of "filename=" attribute.''
                   @ [CHR 0x0A] @ ''The headers are: "'' @ headers @ ''"'')), P1)
       | Some fend \<Rightarrow>
           let P2 = on_current (SetFileName (substr headers (fpos + 10) (fend - (fpos + 10)))) P1
           in (Inr (), case str_find headers ''Content-Type: '' 0 of
                None \<Rightarrow> P2
              | Some cpos \<Rightarrow> on_current (SetFileContentType (file_content_type headers cpos)) P2)))\<close>

definition ParseHeaders :: "string \<Rightarrow> parser \<Rightarrow> (unit, parser) res" where
  \<open>ParseHeaders headers P =
    (let quoted = [CHR 0x0A] @ ''The headers are: "'' @ headers @ ''"'' in
     if str_find headers ''Content-Disposition: form-data;'' 0 = None
     then (Inl (MpfdException (''Accepted headers of field does not contain "Content-Disposition: form-data;"'' @ quoted)), P)
     else case str_find headers ''name="'' 0 of
       None \<Rightarrow> (Inl (MpfdException (''Accepted headers of field does not contain "name=".'' @ quoted)), P)
     | Some npos \<Rightarrow>
        (case str_find headers ''"'' (npos + 6) of
           None \<Rightarrow> (Inl (MpfdException (''Cannot find closing quote of "name=" attribute.'' @ quoted)), P)
         | Some nend \<Rightarrow>
            (let name = substr headers (npos + 6) (nend - (npos + 6));
                 fs = (case CurrentField P of None \<Rightarrow> p_fs P | Some f \<Rightarrow> field_destroy f (p_fs P))
             in set_file_data headers
                  (P\<lparr>ProcessingFieldName := name, p_fs := fs, CurrentField := Some (newField name)\<rparr>))))\<close>

definition crlfcrlf :: string where "crlfcrlf = [CHR 0x0D, CHR 0x0A, CHR 0x0D, CHR 0x0A]"

function headers_end :: "string \<Rightarrow> nat \<Rightarrow> nat option" where
  "headers_end D i =
    (if int i < int (length D) - 3
     then if D ! i = CHR 0x0D \<and> D ! (i + 1) = CHR 0x0A \<and> D ! (i + 2) = CHR 0x0D \<and> D ! (i + 3) = CHR 0x0A
          then Some i else headers_end D (Suc i)
     else None)"
  by pat_completeness auto
termination by (relation "measure (\<lambda>(D, i). length D - i)") auto

declare headers_end.simps [simp del]

definition WaitForHeadersEndAndParseThem :: "parser \<Rightarrow> (bool, parser) res" where
  "WaitForHeadersEndAndParseThem P = (case headers_end (collected P) 0 of
     None \<Rightarrow> (Inr False, P)
   | Some i \<Rightarrow> bindR (ParseHeaders (c_str (take i (collected P))) P)
       (\<lambda>_ P1. (Inr True, TruncateDataCollectorFromTheBeginning (i + 4) P1)))"

text \<open>
  \<open>DataLengthToSendToField\<close>: without a boundary the code keeps room for one, or, when less
  than that has been collected, for the line end only.
\<close>

definition data_length :: "parser \<Rightarrow> int" where
  "data_length P = (let len = int (length (collected P)); bl = int (length (Boundary P));
       pos = BoundaryPositionInDataCollector P
     in if pos \<ge> 0 then pos - 2 else if len < bl + 2 then len - 2 else len - (bl + 2))"

definition ProcessContentOfTheField :: "(string \<Rightarrow> bool) \<Rightarrow> parser \<Rightarrow> (bool, parser) res" where
  "ProcessContentOfTheField cc P =
    (let pos = BoundaryPositionInDataCollector P; n = data_length P;
         finish = (\<lambda>P. if pos \<ge> 0 then (Inr True, P\<lparr>CurrentStatus := Status_LookingForStartingBoundary\<rparr>)
                       else (Inr False, P))
     in if n > 0 then
          (case CurrentField P of
             None \<Rightarrow> (Inl (Undef ''CurrentField is NULL''), P)
           | Some f \<Rightarrow>
              (case field_AcceptSomeData cc (take (nat n) (collected P)) (f, p_fs P) of
                 (Inl e, f', fs) \<Rightarrow> (Inl e, P\<lparr>CurrentField := Some f', p_fs := fs\<rparr>)
               | (Inr _, f', fs) \<Rightarrow>
                   finish (TruncateDataCollectorFromTheBeginning (nat n)
                     (P\<lparr>Fields := Fields P @ [f'], CurrentField := None, p_fs := fs\<rparr>))))
        else finish P)"

text \<open>One pass through the \<open>switch\<close>; the value is \<open>NeedToRepeat\<close>.\<close>

definition process_step :: "(string \<Rightarrow> bool) \<Rightarrow> parser \<Rightarrow> (bool, parser) res" where
  "process_step cc P = (case CurrentStatus P of
     Status_LookingForStartingBoundary \<Rightarrow>
       bindR (FindStartingBoundaryAndTruncData P)
         (\<lambda>b P. (Inr b, if b then P\<lparr>CurrentStatus := Status_ProcessingHeaders\<rparr> else P))
   | Status_ProcessingHeaders \<Rightarrow>
       bindR (WaitForHeadersEndAndParseThem P)
         (\<lambda>b P. (Inr b, if b then P\<lparr>CurrentStatus := Status_ProcessingContentOfTheField\<rparr> else P))
   | Status_ProcessingContentOfTheField \<Rightarrow>
       bindR (ProcessContentOfTheField cc P)
         (\<lambda>b P. (Inr b, if b then P\<lparr>CurrentStatus := Status_LookingForStartingBoundary\<rparr> else P)))"

fun status_rank :: "status \<Rightarrow> nat" where
  "status_rank Status_ProcessingContentOfTheField = 2"
| "status_rank Status_LookingForStartingBoundary = 1"
| "status_rank Status_ProcessingHeaders = 0"

lemma collected_on_current [simp]: "collected (on_current g P) = collected P"
  by (simp add: on_current_def)

lemma set_file_data_collected: "snd (set_file_data headers P) = P' \<Longrightarrow> collected P' = collected P"
  by (auto simp: set_file_data_def Let_def split: option.splits)

lemma ParseHeaders_collected: "collected (snd (ParseHeaders headers P)) = collected P"
  by (auto simp: ParseHeaders_def Let_def set_file_data_collected [OF refl] split: option.splits)

lemma headers_end_less: "headers_end D i = Some j \<Longrightarrow> i \<le> j \<and> j + 4 \<le> length D"
proof (induction D i rule: headers_end.induct)
  case (1 D i)
  from "1.prems" show ?case
    by (subst (asm) headers_end.simps) (use "1.IH" in \<open>auto split: if_splits\<close>)
qed

lemma process_step_less:
  assumes "process_step cc P = (Inr True, P')"
  shows "length (collected P') < length (collected P) \<or>
    length (collected P') = length (collected P) \<and>
    status_rank (CurrentStatus P') < status_rank (CurrentStatus P)"
proof (cases "CurrentStatus P")
  case Status_LookingForStartingBoundary
  then have "\<exists>k. P' = TruncateDataCollectorFromTheBeginning k P\<lparr>CurrentStatus := Status_ProcessingHeaders\<rparr>"
    using assms by (auto simp: process_step_def FindStartingBoundaryAndTruncData_def Let_def split: if_splits)
  then show ?thesis using Status_LookingForStartingBoundary
    by (auto simp: TruncateDataCollectorFromTheBeginning_def)
next
  case Status_ProcessingHeaders
  then obtain i P1 where i: "headers_end (collected P) 0 = Some i"
    and p: "ParseHeaders (c_str (take i (collected P))) P = (Inr (), P1)"
    and P': "P' = TruncateDataCollectorFromTheBeginning (i + 4) P1\<lparr>CurrentStatus := Status_ProcessingContentOfTheField\<rparr>"
    using assms
    by (auto simp: process_step_def WaitForHeadersEndAndParseThem_def bindR_Inr_iff split: option.splits if_splits)
  have "collected P1 = collected P" using ParseHeaders_collected [of _ P] p by (metis snd_conv)
  then show ?thesis using headers_end_less [OF i] P'
    by (auto simp: TruncateDataCollectorFromTheBeginning_def)
next
  case Status_ProcessingContentOfTheField
  then have "length (collected P') \<le> length (collected P) \<and> CurrentStatus P' = Status_LookingForStartingBoundary"
    using assms
    by (auto simp: process_step_def bindR_Inr_iff ProcessContentOfTheField_def Let_def
        TruncateDataCollectorFromTheBeginning_def split: option.splits if_splits sum.splits prod.splits)
  then show ?thesis using Status_ProcessingContentOfTheField by auto
qed

function ProcessData :: "(string \<Rightarrow> bool) \<Rightarrow> parser \<Rightarrow> (unit, parser) res" where
  "ProcessData cc P = bindR (process_step cc P)
     (\<lambda>again P'. if again then ProcessData cc P' else (Inr (), P'))"
  by pat_completeness auto
termination
  by (relation "inv_image (less_than <*lex*> less_than)
      (\<lambda>(cc, P). (length (collected P), status_rank (CurrentStatus P)))")
    (auto dest: process_step_less)

declare ProcessData.simps [simp del]

definition AcceptSomeData :: "(string \<Rightarrow> bool) \<Rightarrow> string \<Rightarrow> parser \<Rightarrow> (unit, parser) res" where
  "AcceptSomeData cc dat P =
    (if Boundary P \<noteq> [] then
       (let P1 = P\<lparr>DataCollector := Some (collected P @ dat)\<rparr> in
        if int (length (collected P1)) > MaxDataCollectorLength P
        then (Inl (MpfdException ''Maximum data collector length reached.''), P1)
        else ProcessData cc P1)
     else (Inl (MpfdException ''Accepting data, but content type was not set.''), P))"

end
