(* ===== verification/MpfdSpec.thy ===== *)
theory MpfdSpec
  imports Mpfd "HOL-Library.Sublist"
begin

text \<open>
  What the form parser does with a body that is given to it at once. The two search loops are
  the first occurrence of a pattern; a part of the form is taken off the collected data in one
  round of the three states, and a body of such parts leaves the fields of \<open>received_parts\<close>.
\<close>

named_theorems mpfd_simps "facts about the state of the form parser"

section \<open>The search loops\<close>

lemma match_boundary_iff:
  "k + length b \<le> length D \<Longrightarrow> match_boundary D k b \<longleftrightarrow> take (length b) (drop k D) = b"
proof (induction b arbitrary: k)
  case (Cons c b)
  then have d: "drop k D = D ! k # drop (Suc k) D" by (intro Cons_nth_drop_Suc [symmetric]) simp
  show ?case using Cons.IH [of "Suc k"] Cons.prems by (auto simp: d)
qed simp

lemma boundary_loop_find:
  assumes "length b \<le> length D"
  shows "boundary_loop D b i = (case str_find D b i of None \<Rightarrow> -1 | Some j \<Rightarrow> int j)"
  using assms
proof (induction D b i rule: boundary_loop.induct)
  case (1 D b i)
  show ?case
  proof (cases "i + length b \<le> length D")
    case False
    then have "str_find D b i = None" by (auto simp: str_find_None occurs_at_def)
    then show ?thesis using False by (subst boundary_loop.simps) simp
  next
    case True
    then have m: "match_boundary D i b \<longleftrightarrow> occurs_at b D i"
      by (simp add: match_boundary_iff occurs_at_def)
    have u: "[i..<Suc (length D)] = i # [Suc i..<Suc (length D)]"
      using True by (intro upt_conv_Cons) simp
    show ?thesis
    proof (cases "occurs_at b D i")
      case o: True
      have "str_find D b i = Some i" using o by (auto simp: str_find_Some)
      then show ?thesis using o m True by (subst boundary_loop.simps) simp
    next
      case o: False
      have "str_find D b i = str_find D b (Suc i)"
        using o unfolding str_find_def u by simp
      then show ?thesis
        using "1.IH" "1.prems" o m True by (subst boundary_loop.simps) simp
    qed
  qed
qed

lemma BoundaryPosition_find:
  "BoundaryPositionInDataCollector P =
    (case str_find (collected P) (Boundary P) 0 of None \<Rightarrow> -1 | Some j \<Rightarrow> int j)"
proof (cases "length (Boundary P) \<le> length (collected P)")
  case True
  then show ?thesis by (simp add: BoundaryPositionInDataCollector_def boundary_loop_find)
next
  case False
  then have "str_find (collected P) (Boundary P) 0 = None"
    by (auto simp: str_find_None occurs_at_def)
  then show ?thesis using False by (simp add: BoundaryPositionInDataCollector_def)
qed

lemma occurs_crlfcrlf:
  "occurs_at crlfcrlf D i \<longleftrightarrow> i + 4 \<le> length D \<and> D ! i = CHR 0x0D \<and> D ! (i + 1) = CHR 0x0A
    \<and> D ! (i + 2) = CHR 0x0D \<and> D ! (i + 3) = CHR 0x0A"
proof (cases "i + 4 \<le> length D")
  case True
  have "drop i D = D ! i # D ! (i + 1) # D ! (i + 2) # D ! (i + 3) # drop (i + 4) D"
    using True by (simp add: Cons_nth_drop_Suc eval_nat_numeral)
  then show ?thesis using True by (simp add: occurs_at_def crlfcrlf_def)
qed (simp add: occurs_at_def crlfcrlf_def)

lemma headers_end_find: "headers_end D i = str_find D crlfcrlf i"
proof (induction D i rule: headers_end.induct)
  case (1 D i)
  show ?case
  proof (cases "int i < int (length D) - 3")
    case False
    then have "str_find D crlfcrlf i = None" by (auto simp: str_find_None occurs_crlfcrlf)
    then show ?thesis using False by (subst headers_end.simps) simp
  next
    case True
    then have u: "[i..<Suc (length D)] = i # [Suc i..<Suc (length D)]" by (intro upt_conv_Cons) simp
    have "str_find D crlfcrlf i = (if occurs_at crlfcrlf D i then Some i else str_find D crlfcrlf (Suc i))"
      unfolding str_find_def u by simp
    then show ?thesis using "1.IH" True by (subst headers_end.simps) (auto simp: occurs_crlfcrlf)
  qed
qed

section \<open>Where patterns are found\<close>

text \<open>The first occurrence of a pattern behind a prefix, by looking at the prefix only.\<close>

lemma str_find_prefix:
  assumes "\<forall>k<length u. take (length pat) (drop k (u @ pat)) \<noteq> pat"
  shows "str_find (u @ pat @ v) pat 0 = Some (length u)"
proof -
  have "\<not> occurs_at pat (u @ pat @ v) k" if "k < length u" for k
  proof
    assume "occurs_at pat (u @ pat @ v) k"
    then have "take (length pat) (drop k (u @ pat @ v)) = pat" by (simp add: occurs_at_def)
    moreover have "take (length pat) (drop k (u @ pat @ v)) = take (length pat) (drop k (u @ pat))"
      using that by simp
    ultimately show False using assms that by simp
  qed
  then show ?thesis by (simp add: str_find_Some occurs_at_append)
qed

lemma str_find_char:
  assumes "c \<notin> set w"
  shows "str_find (u @ w @ c # v) [c] (length u) = Some (length u + length w)"
proof -
  have "\<not> occurs_at [c] (u @ w @ c # v) k" if k: "length u \<le> k" "k < length u + length w" for k
  proof
    assume "occurs_at [c] (u @ w @ c # v) k"
    then have "(u @ w @ c # v) ! k = c" using occurs_at_char by fastforce
    moreover obtain j where j: "k = length u + j" using le_Suc_ex [OF k(1)] by blast
    ultimately have "w ! j = c" "j < length w" using k(2) by (simp_all add: nth_append)
    then show False using assms nth_mem by blast
  qed
  moreover have "occurs_at [c] (u @ w @ c # v) (length u + length w)"
    by (simp add: occurs_at_def)
  ultimately show ?thesis by (simp add: str_find_Some)
qed

text \<open>A boundary behind a value and a line end.\<close>

definition boundary_ok :: "string \<Rightarrow> bool" where
  "boundary_ok B \<longleftrightarrow> B \<noteq> [] \<and> CHR 0x0D \<notin> set B \<and> CHR 0x0A \<notin> set B"

lemma not_occurs_crlf:
  assumes B: "boundary_ok B" and v: "\<And>k. \<not> occurs_at B v k" and k: "k < length v + 2"
  shows "\<not> occurs_at B (v @ crlf @ w) k"
proof (cases "k \<le> length v")
  case True
  then show ?thesis
    using not_occurs_before [OF v, of "CHR 0x0D" k "CHR 0x0A # w"] B
    by (simp add: crlf_def boundary_ok_def)
next
  case False
  then have "k = length v + 1" using k by simp
  then have "(v @ crlf @ w) ! k = CHR 0x0A" by (simp add: crlf_def nth_append)
  then show ?thesis using B occurs_at_char [of B "v @ crlf @ w" k]
    by (auto simp: boundary_ok_def)
qed

lemma find_boundary:
  assumes B: "boundary_ok B" and v: "\<And>k. \<not> occurs_at B v k"
  shows "str_find (v @ crlf @ B @ w) B 0 = Some (length v + 2)"
proof -
  have "occurs_at B ((v @ crlf) @ B @ w) (length (v @ crlf))" by (rule occurs_at_append)
  then show ?thesis using not_occurs_crlf [OF B v]
    by (auto simp: str_find_Some crlf_def)
qed

lemma find_no_boundary:
  assumes B: "boundary_ok B" and v: "\<And>k. \<not> occurs_at B v k"
  shows "str_find (v @ crlf) B 0 = None"
proof -
  have "\<not> occurs_at B (v @ crlf) k" for k
  proof (cases "k < length v + 2")
    case True then show ?thesis using not_occurs_crlf [OF B v, of k "[]"] by simp
  next
    case False then show ?thesis using B by (auto simp: occurs_at_def crlf_def boundary_ok_def)
  qed
  then show ?thesis by (simp add: str_find_None)
qed

section \<open>The header of a part\<close>

definition disposition :: string where
  \<open>disposition = ''Content-Disposition: form-data; ''\<close>

definition part_header :: "string \<Rightarrow> string" where
  \<open>part_header key = crlf @ disposition @ ''name="'' @ key @ ''"''\<close>

definition key_ok :: "string \<Rightarrow> bool" where
  \<open>key_ok key \<longleftrightarrow> CHR 0x22 \<notin> set key \<and> CHR 0x0D \<notin> set key \<and> CHR 0x00 \<notin> set key
     \<and> \<not> suffix ''filename='' key\<close>

definition text_field :: "string \<Rightarrow> string \<Rightarrow> field" where
  "text_field key v = (newField key)\<lparr>f_type := TextType, FieldContent := Some (v @ [CHR 0x00])\<rparr>"

definition empty_field :: "string \<Rightarrow> field" where
  "empty_field key = (newField key)\<lparr>f_type := TextType\<rparr>"

lemma header_name_found:
  \<open>str_find (part_header key) ''name="'' 0 = Some (length (crlf @ disposition))\<close>
proof -
  have \<open>\<forall>k<length (crlf @ disposition).
      take (length ''name="'') (drop k ((crlf @ disposition) @ ''name="'')) \<noteq> ''name="''\<close>
    by (simp add: crlf_def disposition_def All_less_Suc numeral_2_eq_2 flip: numeral_eq_Suc)
  from str_find_prefix [OF this] show ?thesis by (simp add: part_header_def)
qed

lemma header_name_end:
  assumes "key_ok key"
  shows \<open>str_find (part_header key) [CHR 0x22] (length (crlf @ disposition) + 6)
    = Some (length (crlf @ disposition) + 6 + length key)\<close>
  using str_find_char [of "CHR 0x22" key \<open>crlf @ disposition @ ''name="''\<close> "[]"] assms
  by (simp add: part_header_def key_ok_def eval_nat_numeral)

lemma occurs_at_iff: "occurs_at pat s k \<longleftrightarrow> (\<exists>a b. s = a @ pat @ b \<and> length a = k)"
proof
  assume o: "occurs_at pat s k"
  then have "s = take k s @ pat @ drop (length pat) (drop k s)"
    unfolding occurs_at_def by (metis append_take_drop_id)
  moreover have "length (take k s) = k" using o by (simp add: occurs_at_def)
  ultimately show "\<exists>a b. s = a @ pat @ b \<and> length a = k" by blast
next
  assume "\<exists>a b. s = a @ pat @ b \<and> length a = k"
  then show "occurs_at pat s k" using occurs_at_append by blast
qed

lemma suffix_behind: "suffix w (u @ c # x) \<Longrightarrow> c \<notin> set w \<Longrightarrow> suffix w x"
  by (auto simp: suffix_append suffix_Cons)

lemma snoc_occurs:
  assumes o: "a @ w @ c # b = u @ c # x @ [c]" and c: "c \<notin> set w" "c \<notin> set u" "c \<notin> set x"
  shows "suffix w u \<or> suffix w x"
proof -
  from o have "(a @ w) @ c # b = u @ c # x @ [c]" by simp
  then obtain r where "a @ w = u @ r \<and> r @ c # b = c # x @ [c]
      \<or> (a @ w) @ r = u \<and> c # b = r @ c # x @ [c]"
    unfolding append_eq_append_conv2 by blast
  then consider "(a @ w) @ r = u" "c # b = r @ c # x @ [c]" | "a @ w = u @ r" "r @ c # b = c # x @ [c]"
    by blast
  then show ?thesis
  proof cases
    case 1
    then have "r = []" using c(2) by (cases r) auto
    then show ?thesis using 1 by (auto simp: suffix_def)
  next
    case 2
    show ?thesis
    proof (cases r)
      case Nil
      then show ?thesis using 2 by (auto simp: suffix_def)
    next
      case (Cons d r')
      then have r': "d = c" "r' @ c # b = x @ [c]" using 2(2) by auto
      have "b = []"
      proof (rule ccontr)
        assume "b \<noteq> []"
        then obtain b' e where "b = b' @ [e]" by (metis rev_exhaust)
        then have "r' @ c # b' = x" using r'(2) by simp
        with c(3) show False by auto
      qed
      then have "r' = x" using r'(2) by simp
      then have "u @ c # x = a @ w" using 2(1) Cons r'(1) by simp
      then have "suffix w (u @ c # x)" by (rule suffixI)
      from suffix_behind [OF this c(1)] show ?thesis by simp
    qed
  qed
qed

lemma header_no_filename:
  assumes "key_ok key"
  shows \<open>str_find (part_header key) ''filename="'' 0 = None\<close>
proof (rule ccontr)
  assume \<open>str_find (part_header key) ''filename="'' 0 \<noteq> None\<close>
  then obtain k where \<open>occurs_at (''filename='' @ ''"'') (part_header key) k\<close>
    by (auto simp: str_find_None)
  then obtain a b where "a @ ''filename='' @ CHR 0x22 # b = (crlf @ disposition @ ''name='') @ CHR 0x22 # key @ [CHR 0x22]"
    by (auto simp: occurs_at_iff part_header_def)
  from snoc_occurs [OF this] have "suffix ''filename='' (crlf @ disposition @ ''name='') \<or> suffix ''filename='' key"
    using assms by (auto simp: key_ok_def crlf_def disposition_def)
  then show False using assms
    by (simp add: key_ok_def crlf_def disposition_def suffix_Cons)
qed

lemma header_disposition:
  "str_find (part_header key) ''Content-Disposition: form-data;'' 0 \<noteq> None"
  using occurs_at_append [of "''Content-Disposition: form-data;''" crlf "'' '' @ ''name='' @ CHR 0x22 # key @ [CHR 0x22]"]
  by (auto simp: str_find_None part_header_def disposition_def)

lemma c_str_part_header [simp]: "key_ok key \<Longrightarrow> c_str (part_header key) = part_header key"
  by (rule c_str_id) (simp add: key_ok_def part_header_def crlf_def disposition_def)

definition no_file :: "field option \<Rightarrow> bool" where
  "no_file C \<longleftrightarrow> (case C of None \<Rightarrow> True | Some f \<Rightarrow> f_type f \<noteq> FileType)"

lemma no_file_simps [simp]: "no_file None" "no_file (Some (empty_field key))"
  by (simp_all add: no_file_def empty_field_def mpfd_consts)

lemma ParseHeaders_part:
  assumes "key_ok key" "no_file (CurrentField P)"
  shows "ParseHeaders (part_header key) P =
    (Inr (), P\<lparr>ProcessingFieldName := key, CurrentField := Some (empty_field key)\<rparr>)"
proof -
  have fs: "(case CurrentField P of None \<Rightarrow> p_fs P | Some f \<Rightarrow> field_destroy f (p_fs P)) = p_fs P"
    using assms(2) by (auto simp: no_file_def field_destroy_def split: option.splits)
  have sub: "substr (part_header key) (length (crlf @ disposition) + 6)
      (length (crlf @ disposition) + 6 + length key - (length (crlf @ disposition) + 6)) = key"
    by (simp add: substr_def part_header_def)
  have "ParseHeaders (part_header key) P = set_file_data (part_header key)
    (P\<lparr>ProcessingFieldName := key, p_fs := p_fs P, CurrentField := Some (newField key)\<rparr>)"
    unfolding ParseHeaders_def Let_def
    by (simp only: header_disposition header_name_found header_name_end [OF assms(1)] fs sub
        option.case if_False simp_thms)
  also have "\<dots> = (Inr (), P\<lparr>ProcessingFieldName := key, CurrentField := Some (empty_field key)\<rparr>)"
    by (simp add: set_file_data_def header_no_filename [OF assms(1)] on_current_def empty_field_def)
  finally show ?thesis .
qed

section \<open>One part of the form\<close>

text \<open>The members the parser's states depend on.\<close>

definition p_env :: "parser \<Rightarrow> fsys \<times> string \<times> int" where
  "p_env P = (p_fs P, TempDirForFileUpload P, WhereToStore P)"

lemma p_env_simps [simp]:
  "p_env (P\<lparr>DataCollector := d\<rparr>) = p_env P"
  "p_env (P\<lparr>CurrentStatus := st\<rparr>) = p_env P"
  "p_env (P\<lparr>CurrentField := c\<rparr>) = p_env P"
  "p_env (P\<lparr>Fields := fl\<rparr>) = p_env P"
  "p_env (P\<lparr>ProcessingFieldName := n\<rparr>) = p_env P"
  "p_env (P\<lparr>p_fs := p_fs P'\<rparr>) = (p_fs P', snd (p_env P))"
  "(p_fs P, snd (p_env P)) = p_env P"
  by (simp_all add: p_env_def)

definition form_view :: "parser \<Rightarrow> status \<times> string \<times> string \<times> field list \<times> field option
    \<times> fsys \<times> string \<times> int" where
  "form_view P = (CurrentStatus P, Boundary P, collected P, Fields P, CurrentField P, p_env P)"

lemma ProcessData_again:
  "process_step cc P = (Inr True, P') \<Longrightarrow> ProcessData cc P = ProcessData cc P'"
  by (subst ProcessData.simps) simp

lemma ProcessData_stop:
  "process_step cc P = (Inr False, P') \<Longrightarrow> ProcessData cc P = (Inr (), P')"
  by (subst ProcessData.simps) simp

lemma look_step:
  assumes "form_view P = (Status_LookingForStartingBoundary, B, u @ B @ w, fl, c, fs)"
    and "str_find (u @ B @ w) B 0 = Some (length u)"
  obtains P' where "ProcessData cc P = ProcessData cc P'"
    "form_view P' = (Status_ProcessingHeaders, B, w, fl, c, fs)"
proof
  let ?P = "TruncateDataCollectorFromTheBeginning (length u + length B) P\<lparr>CurrentStatus := Status_ProcessingHeaders\<rparr>"
  have "process_step cc P = (Inr True, ?P)"
    using assms by (simp add: form_view_def process_step_def FindStartingBoundaryAndTruncData_def
        BoundaryPosition_find)
  then show "ProcessData cc P = ProcessData cc ?P" by (rule ProcessData_again)
  show "form_view ?P = (Status_ProcessingHeaders, B, w, fl, c, fs)"
    using assms(1) by (simp add: form_view_def TruncateDataCollectorFromTheBeginning_def)
qed

lemma nth_middle: "j < length t \<Longrightarrow> (a @ t @ z) ! (length a + j) = t ! j"
  by (simp add: nth_append)

lemma find_behind:
  assumes "\<And>k. k < length u \<Longrightarrow> \<not> occurs_at pat (u @ z) k"
  shows "str_find (u @ z) pat 0 = map_option ((+) (length u)) (str_find z pat 0)"
proof (cases "str_find z pat 0")
  case None
  then have "\<not> occurs_at pat (u @ z) k" for k
    using assms [of k] by (cases "k < length u") (simp_all add: str_find_None occurs_at_append_ge)
  then have "str_find (u @ z) pat 0 = None" by (simp add: str_find_None)
  then show ?thesis using None by simp
next
  case (Some j)
  then have j: "occurs_at pat z j" "\<And>k. k < j \<Longrightarrow> \<not> occurs_at pat z k"
    by (simp_all add: str_find_Some)
  have "\<not> occurs_at pat (u @ z) k" if "k < length u + j" for k
    using assms [of k] j(2) [of "k - length u"] that
    by (cases "k < length u") (simp_all add: occurs_at_append_ge)
  then have "str_find (u @ z) pat 0 = Some (length u + j)"
    using j(1) by (simp add: str_find_Some occurs_at_append_ge)
  then show ?thesis using Some by simp
qed

text \<open>The empty line is not in a header line that is not empty.\<close>

lemma header_line:
  assumes l: "CHR 0x0D \<notin> set l" "l \<noteq> []"
  shows "str_find (crlf @ l @ z) crlfcrlf 0 = map_option ((+) (2 + length l)) (str_find z crlfcrlf 0)"
proof -
  have no: "\<not> occurs_at crlfcrlf ((crlf @ l) @ z) k" if k: "k < length (crlf @ l)" for k
  proof
    assume "occurs_at crlfcrlf ((crlf @ l) @ z) k"
    then have cr: "(crlf @ l @ z) ! k = CHR 0x0D" "(crlf @ l @ z) ! (k + 2) = CHR 0x0D"
      by (simp_all add: occurs_crlfcrlf)
    have len: "length crlf = 2" by (simp add: crlf_def)
    have not_cr: "(crlf @ l @ z) ! (2 + j) \<noteq> CHR 0x0D" if "j < length l" for j
      using nth_middle [OF that, of crlf z] nth_mem [OF that] l(1) len by metis
    consider "k = 0" | "k = 1" | "2 \<le> k" by linarith
    then show False
    proof cases
      case 1 then show ?thesis using cr(2) not_cr [of 0] l(2) by (simp add: numeral_2_eq_2)
    next
      case 2 then show ?thesis using cr(1) by (simp add: crlf_def)
    next
      case 3
      then obtain j where "k = 2 + j" using le_Suc_ex by blast
      then show ?thesis using cr(1) not_cr [of j] k len by auto
    qed
  qed
  from find_behind [of "crlf @ l" crlfcrlf z, OF no] show ?thesis by (simp add: crlf_def)
qed

lemma header_empty_line: "str_find (crlfcrlf @ w) crlfcrlf 0 = Some 0"
  using occurs_at_append [of crlfcrlf "[]" w] by (simp add: str_find_Some)

lemma headers_part:
  assumes "key_ok key"
  shows "headers_end (part_header key @ crlfcrlf @ w) 0 = Some (length (part_header key))"
proof -
  let ?t = "disposition @ ''name='' @ CHR 0x22 # key @ [CHR 0x22]"
  have "str_find (crlf @ ?t @ crlfcrlf @ w) crlfcrlf 0 = map_option ((+) (2 + length ?t)) (Some 0)"
    using assms by (subst header_line) (simp_all add: header_empty_line key_ok_def disposition_def)
  then show ?thesis by (simp add: headers_end_find part_header_def crlf_def)
qed

lemma headers_step:
  assumes v: "form_view P = (Status_ProcessingHeaders, B, part_header key @ crlfcrlf @ w, fl, c, fs)"
    and k: "key_ok key" and c: "no_file c"
  obtains P' where "ProcessData cc P = ProcessData cc P'"
    "form_view P' = (Status_ProcessingContentOfTheField, B, w, fl, Some (empty_field key), fs)"
proof
  let ?P1 = "P\<lparr>ProcessingFieldName := key, CurrentField := Some (empty_field key)\<rparr>"
  let ?P = "TruncateDataCollectorFromTheBeginning (length (part_header key) + 4)
    ?P1\<lparr>CurrentStatus := Status_ProcessingContentOfTheField\<rparr>"
  have h: "headers_end (collected P) 0 = Some (length (part_header key))"
    "c_str (take (length (part_header key)) (collected P)) = part_header key"
    using v headers_part [OF k, of w] k by (simp_all add: form_view_def)
  have p: "ParseHeaders (part_header key) P = (Inr (), ?P1)"
    using v by (intro ParseHeaders_part [OF k]) (simp add: form_view_def c)
  have st: "CurrentStatus P = Status_ProcessingHeaders" using v by (simp add: form_view_def)
  have "process_step cc P = (Inr True, ?P)"
    by (simp add: process_step_def WaitForHeadersEndAndParseThem_def st h p)
  then show "ProcessData cc P = ProcessData cc ?P" by (rule ProcessData_again)
  show "form_view ?P = (Status_ProcessingContentOfTheField, B, w, fl, Some (empty_field key), fs)"
    using v by (simp add: form_view_def TruncateDataCollectorFromTheBeginning_def crlfcrlf_def)
qed

lemma AcceptSomeData_text:
  "field_AcceptSomeData cc v (empty_field key, fs) = (Inr (), text_field key v, fs)"
  by (simp add: field_AcceptSomeData_def empty_field_def text_field_def newField_def mpfd_consts)

definition value_field :: "string \<Rightarrow> string \<Rightarrow> field list" where
  "value_field key v = (if v = [] then [] else [text_field key v])"

definition left_field :: "string \<Rightarrow> string \<Rightarrow> field option" where
  "left_field key v = (if v = [] then Some (empty_field key) else None)"

lemma no_file_left [simp]: "no_file (left_field key v)"
  by (simp add: left_field_def)

lemma content_step:
  assumes v: "form_view P = (Status_ProcessingContentOfTheField, B, v @ crlf @ B @ w, fl,
      Some (empty_field key), fs)"
    and B: "boundary_ok B" and nv: "\<And>k. \<not> occurs_at B v k"
  obtains P' where "ProcessData cc P = ProcessData cc P'"
    "form_view P' = (Status_LookingForStartingBoundary, B, crlf @ B @ w, fl @ value_field key v,
      left_field key v, fs)"
proof -
  have pos: "BoundaryPositionInDataCollector P = int (length v + 2)"
    using v find_boundary [OF B nv, of w] by (simp add: form_view_def BoundaryPosition_find)
  have n: "data_length P = int (length v)" by (simp add: data_length_def pos Let_def)
  let ?P = "(if v = [] then P else TruncateDataCollectorFromTheBeginning (length v)
      (P\<lparr>Fields := Fields P @ [text_field key v], CurrentField := None, p_fs := p_fs P\<rparr>))
    \<lparr>CurrentStatus := Status_LookingForStartingBoundary\<rparr>"
  have "process_step cc P = (Inr True, ?P)"
    using v by (simp add: process_step_def ProcessContentOfTheField_def pos n form_view_def
        AcceptSomeData_text)
  then have 1: "ProcessData cc P = ProcessData cc ?P" by (rule ProcessData_again)
  have "form_view ?P = (Status_LookingForStartingBoundary, B, crlf @ B @ w, fl @ value_field key v,
      left_field key v, fs)"
    using v by (simp add: form_view_def TruncateDataCollectorFromTheBeginning_def value_field_def
        left_field_def)
  with 1 show thesis by (rule that)
qed

text \<open>The last part: without a boundary behind it, only so much is handed to the field.\<close>

definition last_value :: "string \<Rightarrow> string \<Rightarrow> string" where
  "last_value B v = (if length v < length B then v else take (length v - length B) v)"

lemma content_last:
  assumes v: "form_view P = (Status_ProcessingContentOfTheField, B, v @ crlf, fl,
      Some (empty_field key), fs)"
    and B: "boundary_ok B" and nv: "\<And>k. \<not> occurs_at B v k"
  obtains P' where "ProcessData cc P = (Inr (), P')"
    "Fields P' = fl @ value_field key (last_value B v)" "p_env P' = fs"
    "CurrentField P' = left_field key (last_value B v)"
proof -
  have pos: "BoundaryPositionInDataCollector P = -1"
    using v find_no_boundary [OF B nv] by (simp add: form_view_def BoundaryPosition_find)
  have n: "data_length P = int (length (last_value B v))"
    using v by (auto simp: data_length_def pos Let_def form_view_def crlf_def last_value_def)
  have t: "take (length (last_value B v)) (v @ crlf) = last_value B v"
    by (auto simp: last_value_def)
  let ?P = "if last_value B v = [] then P else TruncateDataCollectorFromTheBeginning (length (last_value B v))
      (P\<lparr>Fields := Fields P @ [text_field key (last_value B v)], CurrentField := None, p_fs := p_fs P\<rparr>)"
  have "process_step cc P = (Inr False, ?P)"
    using v t by (simp add: process_step_def ProcessContentOfTheField_def pos n form_view_def
        AcceptSomeData_text)
  then have 1: "ProcessData cc P = (Inr (), ?P)" by (rule ProcessData_stop)
  have "Fields ?P = fl @ value_field key (last_value B v)" "p_env ?P = fs"
    "CurrentField ?P = left_field key (last_value B v)"
    using v by (simp_all add: form_view_def TruncateDataCollectorFromTheBeginning_def value_field_def
        left_field_def)
  with 1 show thesis by (rule that)
qed

section \<open>A whole body\<close>

definition part_bytes :: "string \<Rightarrow> string \<times> string \<Rightarrow> string" where
  "part_bytes B kv = B @ part_header (fst kv) @ crlfcrlf @ snd kv @ crlf"

lemma part_bytes_pair: "part_bytes B (k, v) = B @ part_header k @ crlfcrlf @ v @ crlf"
  by (simp add: part_bytes_def)

definition part_ok :: "string \<Rightarrow> string \<times> string \<Rightarrow> bool" where
  "part_ok B kv \<longleftrightarrow> key_ok (fst kv) \<and> str_find (snd kv) B 0 = None"

definition form_fields :: "(string \<times> string) list \<Rightarrow> field list" where
  "form_fields kvs = concat (map (\<lambda>(k, v). value_field k v) kvs)"

lemma form_fields_simps [simp]:
  "form_fields [] = []" "form_fields ((k, v) # kvs) = value_field k v @ form_fields kvs"
  "form_fields (kvs @ kvs') = form_fields kvs @ form_fields kvs'"
  by (simp_all add: form_fields_def)

lemma part_okD: "part_ok B (k, v) \<Longrightarrow> key_ok k \<and> (\<forall>i. \<not> occurs_at B v i)"
  by (simp add: part_ok_def str_find_None)

lemma find_first_boundary:
  assumes "boundary_ok B" "u = [] \<or> u = crlf"
  shows "str_find (u @ B @ w) B 0 = Some (length u)"
proof -
  have no: "\<not> occurs_at B [] k" for k
    using assms(1) by (simp add: occurs_at_def boundary_ok_def)
  have "str_find (B @ w) B 0 = Some 0" using occurs_at_append [of B "[]" w] by (simp add: str_find_Some)
  then show ?thesis using assms(2) find_boundary [OF assms(1) no, of w] by (auto simp: crlf_def)
qed

text \<open>Up to the content of a part.\<close>

lemma part_start:
  assumes v: "form_view P = (Status_LookingForStartingBoundary, B, u @ B @ part_header k @ crlfcrlf @ w, fl, c, fs)"
    and ok: "boundary_ok B" "key_ok k" "u = [] \<or> u = crlf" "no_file c"
  obtains P' where "ProcessData cc P = ProcessData cc P'"
    "form_view P' = (Status_ProcessingContentOfTheField, B, w, fl, Some (empty_field k), fs)"
proof -
  obtain P1 where 1: "ProcessData cc P = ProcessData cc P1"
    "form_view P1 = (Status_ProcessingHeaders, B, part_header k @ crlfcrlf @ w, fl, c, fs)"
    by (rule look_step [OF v find_first_boundary [OF ok(1,3)]])
  obtain P2 where 2: "ProcessData cc P1 = ProcessData cc P2"
    "form_view P2 = (Status_ProcessingContentOfTheField, B, w, fl, Some (empty_field k), fs)"
    by (rule headers_step [OF 1(2) ok(2,4)])
  show thesis by (rule that [of P2]) (simp_all add: 1(1) 2)
qed

text \<open>Parts with another boundary behind them are taken off completely.\<close>

lemma parts_prefix:
  assumes "form_view P = (Status_LookingForStartingBoundary, B, u @ concat (map (part_bytes B) kvs) @ B @ w, fl, c, fs)"
    and "\<forall>kv\<in>set kvs. part_ok B kv" "boundary_ok B" "u = [] \<or> u = crlf" "no_file c"
  shows "\<exists>P' u' c'. ProcessData cc P = ProcessData cc P'
    \<and> form_view P' = (Status_LookingForStartingBoundary, B, u' @ B @ w, fl @ form_fields kvs, c', fs)
    \<and> (u' = [] \<or> u' = crlf) \<and> no_file c'"
  using assms
proof (induction kvs arbitrary: P u fl c)
  case Nil
  then show ?case by (intro exI [of _ P] exI [of _ u] exI [of _ c]) simp
next
  case (Cons kv kvs)
  obtain k v where kv: "kv = (k, v)" by (cases kv)
  have ok: "key_ok k" "\<And>i. \<not> occurs_at B v i"
    using Cons.prems(2) part_okD [of B k v] by (auto simp: kv)
  obtain x where x: "concat (map (part_bytes B) kvs) @ B @ w = B @ x"
    by (cases kvs) (auto simp: part_bytes_def)
  have "form_view P = (Status_LookingForStartingBoundary, B,
      u @ B @ part_header k @ crlfcrlf @ v @ crlf @ B @ x, fl, c, fs)"
    using Cons.prems(1) x by (simp add: kv part_bytes_pair)
  then obtain P1 where 1: "ProcessData cc P = ProcessData cc P1"
    "form_view P1 = (Status_ProcessingContentOfTheField, B, v @ crlf @ B @ x, fl, Some (empty_field k), fs)"
    by (rule part_start [OF _ Cons.prems(3) ok(1) Cons.prems(4,5)])
  obtain P2 where 2: "ProcessData cc P1 = ProcessData cc P2"
    "form_view P2 = (Status_LookingForStartingBoundary, B, crlf @ B @ x, fl @ value_field k v, left_field k v, fs)"
    by (rule content_step [OF 1(2) Cons.prems(3) ok(2)])
  have "form_view P2 = (Status_LookingForStartingBoundary, B,
      crlf @ concat (map (part_bytes B) kvs) @ B @ w, fl @ value_field k v, left_field k v, fs)"
    by (simp add: 2(2) x)
  from Cons.IH [OF this _ Cons.prems(3)] Cons.prems(2) show ?case
    by (auto simp: 1(1) 2(1) kv)
qed

text \<open>A body without a closing boundary: the last value may be cut.\<close>

lemma parts_run:
  assumes v: "form_view P = (Status_LookingForStartingBoundary, B,
      concat (map (part_bytes B) (kvs @ [(k, v)])), fl, None, fs)"
    and ok: "\<forall>kv\<in>set (kvs @ [(k, v)]). part_ok B kv" "boundary_ok B"
  shows "\<exists>P'. ProcessData cc P = (Inr (), P') \<and> Fields P' = fl @ form_fields (kvs @ [(k, last_value B v)])
    \<and> p_env P' = fs \<and> no_file (CurrentField P')"
proof -
  have okv: "key_ok k" "\<And>i. \<not> occurs_at B v i" using ok(1) part_okD [of B k v] by auto
  have "form_view P = (Status_LookingForStartingBoundary, B,
      [] @ concat (map (part_bytes B) kvs) @ B @ part_header k @ crlfcrlf @ v @ crlf, fl, None, fs)"
    using v by (simp add: part_bytes_pair)
  from parts_prefix [OF this _ ok(2), of cc] ok(1)
  obtain P1 u c where 1: "ProcessData cc P = ProcessData cc P1"
    "form_view P1 = (Status_LookingForStartingBoundary, B, u @ B @ part_header k @ crlfcrlf @ v @ crlf,
      fl @ form_fields kvs, c, fs)" "u = [] \<or> u = crlf" "no_file c"
    by auto
  obtain P2 where 2: "ProcessData cc P1 = ProcessData cc P2"
    "form_view P2 = (Status_ProcessingContentOfTheField, B, v @ crlf, fl @ form_fields kvs,
      Some (empty_field k), fs)"
    by (rule part_start [OF 1(2) ok(2) okv(1) 1(3,4)])
  obtain P3 where 3: "ProcessData cc P2 = (Inr (), P3)"
    "Fields P3 = (fl @ form_fields kvs) @ value_field k (last_value B v)" "p_env P3 = fs"
    "CurrentField P3 = left_field k (last_value B v)"
    by (rule content_last [OF 2(2) ok(2) okv(2)])
  show ?thesis by (intro exI [of _ P3]) (simp add: 1(1) 2(1) 3)
qed

section \<open>An uploaded file\<close>

text \<open>
  The library never sets a directory for uploaded files, so a file's content makes the field
  throw.
\<close>

definition file_header :: "string \<Rightarrow> string \<Rightarrow> string \<Rightarrow> string" where
  \<open>file_header key fname ctype = crlf @ (disposition @ ''name="'' @ key @ ''"; filename="'' @ fname @ ''"'')
     @ crlf @ ''Content-Type: '' @ ctype\<close>

definition file_key_ok :: "string \<Rightarrow> string \<Rightarrow> string \<Rightarrow> bool" where
  "file_key_ok key fname ctype \<longleftrightarrow> CHR 0x22 \<notin> set key \<and> CHR 0x22 \<notin> set fname
    \<and> CHR 0x0D \<notin> set (key @ fname @ ctype) \<and> CHR 0x00 \<notin> set (key @ fname @ ctype)"

lemma file_name_found:
  \<open>str_find (file_header key fname ctype) ''name="'' 0 = Some (length (crlf @ disposition))\<close>
proof -
  have \<open>\<forall>k<length (crlf @ disposition).
      take (length ''name="'') (drop k ((crlf @ disposition) @ ''name="'')) \<noteq> ''name="''\<close>
    by (simp add: crlf_def disposition_def All_less_Suc numeral_2_eq_2 flip: numeral_eq_Suc)
  from str_find_prefix [OF this] show ?thesis by (simp add: file_header_def)
qed

lemma str_find_quote:
  assumes "CHR 0x22 \<in> set z"
  shows "str_find (u @ z) [CHR 0x22] (length u) \<noteq> None"
proof -
  from assms obtain a b where "z = a @ CHR 0x22 # b" by (auto simp: in_set_conv_decomp)
  then have "occurs_at [CHR 0x22] (u @ z) (length u + length a)"
    using occurs_at_append [of "[CHR 0x22]" "u @ a" b] by simp
  then show ?thesis unfolding str_find_None by (metis le_add1)
qed

lemma headers_file:
  assumes "file_key_ok key fname ctype"
  shows "headers_end (file_header key fname ctype @ crlfcrlf @ w) 0 = Some (length (file_header key fname ctype))"
proof -
  let ?l1 = \<open>disposition @ ''name="'' @ key @ ''"; filename="'' @ fname @ ''"''\<close>
  let ?l2 = "''Content-Type: '' @ ctype"
  have 2: "str_find (crlf @ ?l2 @ crlfcrlf @ w) crlfcrlf 0 = Some (2 + length ?l2)"
    using assms by (subst header_line) (simp_all add: header_empty_line file_key_ok_def)
  have "str_find (crlf @ ?l1 @ crlf @ ?l2 @ crlfcrlf @ w) crlfcrlf 0
      = map_option ((+) (2 + length ?l1)) (Some (2 + length ?l2))"
    using assms by (subst header_line, simp_all only: 2) (simp_all add: file_key_ok_def disposition_def)
  then show ?thesis by (simp add: headers_end_find file_header_def crlf_def)
qed

lemma file_header_fails:
  assumes "TempDirForFileUpload P = []" "WhereToStore P = StoreUploadedFilesInFilesystem"
    and f: "CurrentField P = Some f" and h: \<open>str_find headers ''filename="'' 0 = Some fpos\<close>
    and q: \<open>str_find headers ''"'' (fpos + 10) \<noteq> None\<close>
  shows "\<exists>P' f'. set_file_data headers P = (Inr (), P') \<and> CurrentField P' = Some f'
    \<and> f_type f' = FileType \<and> TempDir f' = [] \<and> WhereToStoreUploadedFiles f' = Some StoreUploadedFilesInFilesystem
    \<and> collected P' = collected P \<and> Boundary P' = Boundary P"
  using assms
  by (auto simp: set_file_data_def Let_def on_current_def SetTempDir_def SetFileName_def
      SetFileContentType_def field_SetUploadedFilesStorage_def split: option.splits)

lemma file_filename_found:
  obtains fpos where \<open>str_find (file_header key fname ctype) ''filename="'' 0 = Some fpos\<close>
    \<open>str_find (file_header key fname ctype) ''"'' (fpos + 10) \<noteq> None\<close>
proof -
  let ?h = "file_header key fname ctype"
  let ?u = \<open>crlf @ disposition @ ''name="'' @ key @ ''"; ''\<close>
  let ?z = \<open>fname @ ''"'' @ crlf @ ''Content-Type: '' @ ctype\<close>
  have h: \<open>?h = ?u @ ''filename="'' @ ?z\<close> by (simp add: file_header_def)
  have o: \<open>occurs_at ''filename="'' ?h (length ?u)\<close> unfolding h by (rule occurs_at_append)
  then obtain fpos where fpos: \<open>str_find ?h ''filename="'' 0 = Some fpos\<close>
    by (cases \<open>str_find ?h ''filename="'' 0\<close>) (auto simp: str_find_None)
  have le: "fpos \<le> length ?u"
  proof (rule ccontr)
    assume "\<not> fpos \<le> length ?u"
    then have "0 \<le> length ?u \<and> length ?u < fpos" by simp
    with fpos o show False unfolding str_find_Some by blast
  qed
  let ?a = "?u @ ''filename='' @ CHR 0x22 # fname"
  let ?b = "crlf @ ''Content-Type: '' @ ctype"
  have s: "?a @ [CHR 0x22] @ ?b = ?h" by (simp add: h)
  have l: "length ?a = length ?u + 10 + length fname" by simp
  from occurs_at_append [of "[CHR 0x22]" ?a ?b]
  have "occurs_at [CHR 0x22] ?h (length ?u + 10 + length fname)" unfolding s l .
  moreover have "fpos + 10 \<le> length ?u + 10 + length fname" using le by linarith
  ultimately have \<open>str_find ?h ''"'' (fpos + 10) \<noteq> None\<close> unfolding str_find_None by blast
  with fpos show thesis by (rule that)
qed

lemma c_str_file_header [simp]:
  "file_key_ok key fname ctype \<Longrightarrow> c_str (file_header key fname ctype) = file_header key fname ctype"
  by (rule c_str_id) (simp add: file_key_ok_def file_header_def crlf_def disposition_def)

lemma ParseHeaders_file:
  assumes ok: "file_key_ok key fname ctype"
    and env: "TempDirForFileUpload P = []" "WhereToStore P = StoreUploadedFilesInFilesystem"
  obtains P' f' where "ParseHeaders (file_header key fname ctype) P = (Inr (), P')"
    "CurrentField P' = Some f'" "f_type f' = FileType" "TempDir f' = []"
    "WhereToStoreUploadedFiles f' = Some StoreUploadedFilesInFilesystem"
    "collected P' = collected P" "Boundary P' = Boundary P"
proof -
  let ?h = "file_header key fname ctype"
  have d: "str_find ?h ''Content-Disposition: form-data;'' 0 \<noteq> None"
    using occurs_at_append [of "''Content-Disposition: form-data;''" crlf]
    by (auto simp: str_find_None file_header_def disposition_def)
  have "str_find ((crlf @ disposition @ ''name='' @ [CHR 0x22]) @ key @ CHR 0x22 # ''; filename='' @ CHR 0x22 # fname
      @ CHR 0x22 # crlf @ ''Content-Type: '' @ ctype) [CHR 0x22] (length (crlf @ disposition @ ''name='' @ [CHR 0x22])) \<noteq> None"
    by (rule str_find_quote) simp
  then obtain nend where q: \<open>str_find ?h ''"'' (length (crlf @ disposition) + 6) = Some nend\<close>
    by (auto simp: file_header_def eval_nat_numeral)
  obtain fpos where f: \<open>str_find ?h ''filename="'' 0 = Some fpos\<close> \<open>str_find ?h ''"'' (fpos + 10) \<noteq> None\<close>
    by (rule file_filename_found)
  define n where "n = substr ?h (length (crlf @ disposition) + 6) (nend - (length (crlf @ disposition) + 6))"
  define P1 where "P1 = P\<lparr>ProcessingFieldName := n,
    p_fs := (case CurrentField P of None \<Rightarrow> p_fs P | Some f \<Rightarrow> field_destroy f (p_fs P)),
    CurrentField := Some (newField n)\<rparr>"
  have eq: "ParseHeaders ?h P = set_file_data ?h P1"
    unfolding ParseHeaders_def Let_def
    by (simp only: d file_name_found q option.case if_False simp_thms P1_def n_def)
  have "TempDirForFileUpload P1 = []" "WhereToStore P1 = StoreUploadedFilesInFilesystem"
    "CurrentField P1 = Some (newField n)" "collected P1 = collected P" "Boundary P1 = Boundary P"
    by (simp_all add: P1_def env)
  from file_header_fails [OF this(1,2,3) f] this(4,5) show thesis
    by (auto simp: eq intro: that)
qed

text \<open>A file part with a boundary behind it ends the parsing with an exception.\<close>

lemma file_part_throws:
  assumes v: "form_view P = (Status_LookingForStartingBoundary, B,
      u @ B @ file_header key fname ctype @ crlfcrlf @ v @ crlf @ B @ w, fl, c,
      fs, [], StoreUploadedFilesInFilesystem)"
    and ok: "boundary_ok B" "u = [] \<or> u = crlf" "file_key_ok key fname ctype"
    and val: "v \<noteq> []" "\<And>k. \<not> occurs_at B v k"
  shows "\<exists>e P'. ProcessData cc P = (Inl (MpfdException e), P')"
proof -
  let ?h = "file_header key fname ctype"
  obtain P1 where 1: "ProcessData cc P = ProcessData cc P1"
    "form_view P1 = (Status_ProcessingHeaders, B, ?h @ crlfcrlf @ v @ crlf @ B @ w, fl, c,
      fs, [], StoreUploadedFilesInFilesystem)"
    by (rule look_step [OF v find_first_boundary [OF ok(1,2)]])
  have env: "TempDirForFileUpload P1 = []" "WhereToStore P1 = StoreUploadedFilesInFilesystem"
    and st: "CurrentStatus P1 = Status_ProcessingHeaders"
    and col: "collected P1 = ?h @ crlfcrlf @ v @ crlf @ B @ w" "Boundary P1 = B"
    using 1(2) by (simp_all add: form_view_def p_env_def)
  obtain P2 f where 2: "ParseHeaders ?h P1 = (Inr (), P2)" "CurrentField P2 = Some f"
    "f_type f = FileType" "TempDir f = []"
    "WhereToStoreUploadedFiles f = Some StoreUploadedFilesInFilesystem"
    "collected P2 = collected P1" "Boundary P2 = Boundary P1"
    by (rule ParseHeaders_file [OF ok(3) env])
  let ?P3 = "TruncateDataCollectorFromTheBeginning (length ?h + 4) P2
    \<lparr>CurrentStatus := Status_ProcessingContentOfTheField\<rparr>"
  have h: "headers_end (collected P1) 0 = Some (length ?h)" "take (length ?h) (collected P1) = ?h"
    by (simp_all add: col headers_file [OF ok(3)])
  have "process_step cc P1 = (Inr True, ?P3)"
    by (simp add: process_step_def st WaitForHeadersEndAndParseThem_def h ok(3) 2(1))
  note s2 = ProcessData_again [OF this]
  have c3: "collected ?P3 = v @ crlf @ B @ w" "Boundary ?P3 = B" "CurrentField ?P3 = Some f"
    by (simp_all add: TruncateDataCollectorFromTheBeginning_def 2 col crlfcrlf_def)
  have pos: "BoundaryPositionInDataCollector ?P3 = int (length v + 2)"
    using find_boundary [OF ok(1) val(2), of w] by (simp only: BoundaryPosition_find c3 option.case)
  have n: "data_length ?P3 = int (length v)" by (simp add: data_length_def pos Let_def)
  have a: "field_AcceptSomeData cc x (f, y) = (Inl (MpfdException
      ''Trying to AcceptSomeData for a file but no TempDir is set.''), f, y)" for x y
    by (simp add: field_AcceptSomeData_def AcceptFileData_def 2 mpfd_consts)
  have "\<exists>P'. process_step cc ?P3 = (Inl (MpfdException
      ''Trying to AcceptSomeData for a file but no TempDir is set.''), P')"
    using val(1) by (simp add: process_step_def ProcessContentOfTheField_def pos n c3 a)
  then obtain P4 where "process_step cc ?P3 = (Inl (MpfdException
      ''Trying to AcceptSomeData for a file but no TempDir is set.''), P4)" by blast
  then have "ProcessData cc ?P3 = (Inl (MpfdException
      ''Trying to AcceptSomeData for a file but no TempDir is set.''), P4)"
    by (subst ProcessData.simps) simp
  then show ?thesis by (simp add: 1(1) s2)
qed

end
