(* ===== verification/HttpClient.thy ===== *)
theory HttpClient
  imports Strings
begin

text \<open>
  The HTTP client: the parameters of \<^verbatim>\<open>HttpClient.h\<close> and the request of
  \<^verbatim>\<open>LibeventHttpClientImpl.h\<close>, to which \<^verbatim>\<open>HttpClient.cpp\<close> forwards. What libevent does with
  a query, a URI and a value to be encoded, what \<open>rand()\<close> gives and what the files hold are
  arguments, collected in an environment. An \<open>evhttp_request\<close> is what the code hands to
  it and reads from it: its headers, and the bytes added to its output buffer and received in
  its input buffer. The calls to the event handler and the request that is made are logged.
\<close>

section \<open>Parameters\<close>

datatype parameterType = HEADER_TYPE | FILE_TYPE | STRING_TYPE

record parameter_t =
  p_type :: parameterType
  p_key :: string
  p_value :: string

type_synonym HttpParameter = "parameter_t list"

definition addHeader :: "string \<Rightarrow> string \<Rightarrow> HttpParameter \<Rightarrow> HttpParameter" where
  "addHeader key value ps = ps @ [\<lparr>p_type = HEADER_TYPE, p_key = c_str key, p_value = c_str value\<rparr>]"

definition addParameterBuffer :: "string \<Rightarrow> string \<Rightarrow> nat \<Rightarrow> HttpParameter \<Rightarrow> HttpParameter" where
  "addParameterBuffer key value valuesize ps =
    ps @ [\<lparr>p_type = STRING_TYPE, p_key = c_str key, p_value = take valuesize value\<rparr>]"

definition addParameter :: "string \<Rightarrow> string \<Rightarrow> HttpParameter \<Rightarrow> HttpParameter" where
  "addParameter key value ps = ps @ [\<lparr>p_type = STRING_TYPE, p_key = c_str key, p_value = value\<rparr>]"

definition dec_int :: "int \<Rightarrow> string" where
  "dec_int i = (if i < 0 then ''-'' @ dec (nat (- i)) else dec (nat i))"

definition addParameterInt :: "string \<Rightarrow> int \<Rightarrow> HttpParameter \<Rightarrow> HttpParameter" where
  "addParameterInt key value ps = addParameter key (dec_int value) ps"

definition addFile :: "string \<Rightarrow> string \<Rightarrow> HttpParameter \<Rightarrow> HttpParameter" where
  "addFile key filePath ps = ps @ [\<lparr>p_type = FILE_TYPE, p_key = c_str key, p_value = c_str filePath\<rparr>]"

section \<open>The client and its environment\<close>

datatype RequestState = Prepare | Requesting | ReceivingResponse
datatype ErrorCode = NoError | ConnectionTimeout | ResponseError | Canceled

record uri_parts =
  uri_host :: string
  uri_port :: int
  uri_path :: string

record http_env =
  parse_query :: "string \<Rightarrow> (string \<times> string) list"
  uri_parse :: "string \<Rightarrow> uri_parts option"
  uriencode :: "string \<Rightarrow> string"
  file_data :: "string \<Rightarrow> string option"
  rands :: "nat list"

record out_request =
  output_headers :: "(string \<times> string) list"
  output_buffer :: string
  input_headers :: "(string \<times> string) list"
  input_buffer :: string
  response_code :: int

definition newRequest :: out_request where
  "newRequest = \<lparr>output_headers = [], output_buffer = [], input_headers = [], input_buffer = [],
    response_code = 0\<rparr>"

datatype http_event =
    onHttpClient_Response int
  | onHttpClient_Error ErrorCode
  | onHttpClient_ReceivedChunked nat
  | evhttp_make_request HttpMethodType string out_request
  | evhttp_cancel_request

definition HTTP_OK :: int where "HTTP_OK = 200"
definition HTTP_INTERNAL :: int where "HTTP_INTERNAL = 500"

record http_client =
  h_state :: RequestState
  h_evcon :: "(string \<times> int \<times> int) option"
  h_dnsbase :: bool
  out_req :: "out_request option"
  h_evuri :: "uri_parts option"
  h_responsebuffer :: "string option"
  h_method :: HttpMethodType
  h_uri :: string
  h_paramTemp :: "HttpParameter option"
  h_timeout :: int
  h_responseBody :: string
  h_param :: HttpParameter
  h_chunkmode :: bool
  h_multipart :: bool
  h_boundary :: string
  h_inputHeaders :: "string \<rightharpoonup> string"
  h_responseCode :: int
  http_log :: "http_event list"

definition newHttpClient :: "HttpMethodType \<Rightarrow> string \<Rightarrow> HttpParameter option \<Rightarrow> int \<Rightarrow> http_client" where
  "newHttpClient method uri param timeout = \<lparr>h_state = Prepare, h_evcon = None, h_dnsbase = False,
    out_req = None, h_evuri = None, h_responsebuffer = None, h_method = method, h_uri = uri,
    h_paramTemp = param, h_timeout = timeout, h_responseBody = [], h_param = [], h_chunkmode = True,
    h_multipart = True, h_boundary = [], h_inputHeaders = Map.empty, h_responseCode = HTTP_INTERNAL,
    http_log = []\<rparr>"

definition http_emit :: "http_event \<Rightarrow> http_client \<Rightarrow> http_client" where
  "http_emit e h = h\<lparr>http_log := http_log h @ [e]\<rparr>"

definition cleanUp :: "http_client \<Rightarrow> http_client" where
  "cleanUp h = h\<lparr>h_state := Prepare, h_evcon := None, out_req := None, h_evuri := None,
    h_dnsbase := False, h_responsebuffer := None\<rparr>"

section \<open>Headers and body\<close>

definition get_name_of_path :: "string \<Rightarrow> string" where
  "get_name_of_path path = (case str_rfind path (CHR ''/'') of
     None \<Rightarrow> path
   | Some pos \<Rightarrow> if pos = length path - 1 then [] else substr path (pos + 1) (length path - pos - 1))"

definition parseParameter :: "http_env \<Rightarrow> http_client \<Rightarrow> http_client" where
  "parseParameter env h = h\<lparr>h_param :=
     fold (\<lambda>(k, v). addParameter k v) (parse_query env (c_str (h_uri h)))
       (case h_paramTemp h of None \<Rightarrow> h_param h | Some p \<Rightarrow> p)\<rparr>"

definition makeBasicHeader :: "string \<Rightarrow> HttpParameter \<Rightarrow> (string \<times> string) list" where
  "makeBasicHeader host ps = (''Host'', host) #
     [(c_str (p_key p), c_str (p_value p)). p \<leftarrow> ps, p_type p = HEADER_TYPE]"

definition hex_digit :: "nat \<Rightarrow> char" where
  "hex_digit n = ''0123456789abcdef'' ! (n mod 16)"

definition makeMultipartBoundary :: "nat list \<Rightarrow> string" where
  "makeMultipartBoundary rs = ''--'' @ map hex_digit (take 13 rs)"

definition string_part :: "string \<Rightarrow> parameter_t \<Rightarrow> string" where
  \<open>string_part boundary p = ''--'' @ c_str boundary @ crlf
    @ ''Content-Disposition: form-data; name="'' @ c_str (p_key p) @ ''"'' @ crlf @ crlf
    @ p_value p @ crlf\<close>

definition file_part :: "string \<Rightarrow> parameter_t \<Rightarrow> string \<Rightarrow> string" where
  \<open>file_part boundary p content = ''--'' @ c_str boundary @ crlf
    @ ''Content-Disposition: form-data; name="'' @ c_str (p_key p) @ ''"; filename="''
    @ get_name_of_path (c_str (p_value p)) @ ''"'' @ crlf
    @ ''Content-Type: "application/octet-stream"'' @ crlf @ crlf
    @ content @ crlf\<close>

fun multipart_body :: "http_env \<Rightarrow> string \<Rightarrow> HttpParameter \<Rightarrow> string" where
  "multipart_body env boundary [] = []"
| "multipart_body env boundary (p # ps) = (case p_type p of
      HEADER_TYPE \<Rightarrow> multipart_body env boundary ps
    | STRING_TYPE \<Rightarrow> string_part boundary p @ multipart_body env boundary ps
    | FILE_TYPE \<Rightarrow> (case file_data env (c_str (p_value p)) of
          None \<Rightarrow> multipart_body env boundary ps
        | Some content \<Rightarrow> file_part boundary p content @ multipart_body env boundary ps))"

fun query_loop :: "http_env \<Rightarrow> bool \<Rightarrow> HttpParameter \<Rightarrow> string" where
  "query_loop env first [] = []"
| "query_loop env first (p # ps) = (if first then [] else ''&'') @
     (if p_type p \<noteq> STRING_TYPE then query_loop env first ps
      else p_key p @ ''='' @ uriencode env (p_value p) @ query_loop env False ps)"

definition makeGetMethodBody :: "http_env \<Rightarrow> http_client \<Rightarrow> string" where
  "makeGetMethodBody env h = query_loop env True (h_param h)"

definition makePostBody :: "http_env \<Rightarrow> http_client \<Rightarrow> string" where
  "makePostBody env h = (if h_multipart h then multipart_body env (h_boundary h) (h_param h)
     else makeGetMethodBody env h)"

definition makePostHeader :: "http_client \<Rightarrow> string \<times> string" where
  "makePostHeader h = (''Content-Type'',
     if h_multipart h then ''multipart/form-data; boundary='' @ c_str (h_boundary h)
     else ''application/x-www-form-urlencoded'')"

definition makeContentLengthHeader :: "int \<Rightarrow> string \<times> string" where
  "makeContentLengthHeader n = (''Content-Length'', dec_int n)"

definition add_headers :: "(string \<times> string) list \<Rightarrow> out_request \<Rightarrow> out_request" where
  "add_headers hs r = r\<lparr>output_headers := output_headers r @ hs\<rparr>"

definition makeHeaderAndBody :: "http_env \<Rightarrow> uri_parts \<Rightarrow> out_request \<Rightarrow> http_client \<Rightarrow> http_client" where
  "makeHeaderAndBody env u r h =
    (let r1 = add_headers (makeBasicHeader (uri_host u) (h_param h)) r in
     if h_method h = HTTP_POST then
       (let h1 = h\<lparr>h_boundary := makeMultipartBoundary (rands env)\<rparr>;
            r2 = add_headers [makePostHeader h1] r1;
            body = output_buffer r2 @ makePostBody env h1;
            r3 = r2\<lparr>output_buffer := body\<rparr>
        in h1\<lparr>out_req := Some (add_headers [makeContentLengthHeader (to_int32 (int (length body)))] r3)\<rparr>)
     else h\<lparr>out_req := Some (add_headers [makeContentLengthHeader 0] r1)\<rparr>)"

definition makeRequestUri :: "http_env \<Rightarrow> uri_parts \<Rightarrow> http_client \<Rightarrow> string" where
  "makeRequestUri env u h = uri_path u @
     (if h_method h = HTTP_GET then ''?'' @ makeGetMethodBody env h else [])"

section \<open>Requests\<close>

definition makeHttpConnection :: "uri_parts \<Rightarrow> http_client \<Rightarrow> http_client" where
  "makeHttpConnection u h =
    h\<lparr>h_evcon := Some (uri_host u, if uri_port u < 0 then 80 else uri_port u, h_timeout h)\<rparr>"

definition startRequest :: "string \<Rightarrow> out_request \<Rightarrow> http_client \<Rightarrow> http_client" where
  "startRequest uri r h =
    (http_emit (evhttp_make_request (if h_method h = HTTP_POST then HTTP_POST else HTTP_GET) (c_str uri) r)
       (h\<lparr>h_dnsbase := True\<rparr>))\<lparr>h_state := Requesting\<rparr>"

definition requestInternal :: "http_env \<Rightarrow> http_client \<Rightarrow> (unit, http_client) res" where
  "requestInternal env h =
    (let h1 = parseParameter env h in
     case uri_parse env (c_str (h_uri h1)) of
       None \<Rightarrow> (Inl (Undef ''evhttp_uri can not be allocated''), h1)
     | Some u \<Rightarrow>
        (let h2 = h1\<lparr>h_evuri := Some u, out_req := Some newRequest,
                     h_responsebuffer := (if h_chunkmode h1 then Some [] else h_responsebuffer h1)\<rparr>;
             h3 = makeHeaderAndBody env u newRequest h2;
             uri = makeRequestUri env u h3
         in (Inr (), startRequest uri (the (out_req h3)) (makeHttpConnection u h3))))"

definition already_requested :: exn where
  "already_requested = IllegalStateException ''Already http requested, you need to call cancelRequest''"

definition request :: "http_env \<Rightarrow> http_client \<Rightarrow> (unit, http_client) res" where
  "request env h = (if h_state h \<noteq> Prepare then (Inl already_requested, h) else requestInternal env h)"

definition requestWith :: "http_env \<Rightarrow> HttpMethodType \<Rightarrow> string \<Rightarrow> HttpParameter option \<Rightarrow> int \<Rightarrow>
    http_client \<Rightarrow> (unit, http_client) res" where
  "requestWith env method uri param timeout h =
    (if h_state h \<noteq> Prepare then (Inl already_requested, h)
     else requestInternal env (h\<lparr>h_uri := c_str uri, h_method := method, h_paramTemp := param,
                                 h_timeout := timeout\<rparr>))"

section \<open>Answers\<close>

definition fire_Error :: "ErrorCode \<Rightarrow> http_client \<Rightarrow> http_client" where
  "fire_Error ec h = http_emit (onHttpClient_Error ec) (cleanUp h)"

definition fire_onHttpClient_Error :: "http_client \<Rightarrow> http_client" where
  "fire_onHttpClient_Error h = fire_Error
     (if h_state h = Requesting then if \<not> h_chunkmode h then ResponseError else ConnectionTimeout
      else ResponseError) h"

definition cancelRequest :: "http_client \<Rightarrow> http_client" where
  "cancelRequest h = (case out_req h of None \<Rightarrow> h
     | Some _ \<Rightarrow> (fire_Error Canceled (http_emit evhttp_cancel_request h))\<lparr>h_state := Prepare\<rparr>)"

definition fire_ReceivedChunked :: "http_client \<Rightarrow> (unit, http_client) res" where
  "fire_ReceivedChunked h = (let h1 = h\<lparr>h_state := ReceivingResponse\<rparr> in
     case (out_req h, h_responsebuffer h) of
       (Some r, Some b) \<Rightarrow>
         (let b' = b @ input_buffer r in
          (Inr (), http_emit (onHttpClient_ReceivedChunked (length b'))
            (h1\<lparr>out_req := Some (r\<lparr>input_buffer := []\<rparr>), h_responsebuffer := Some b'\<rparr>)))
     | _ \<Rightarrow> (Inl (Undef ''NULL buffer''), h1))"

definition insert_header :: "string \<times> string \<Rightarrow> (string \<rightharpoonup> string) \<Rightarrow> (string \<rightharpoonup> string)" where
  "insert_header kv m = (if m (fst kv) = None then m(fst kv \<mapsto> snd kv) else m)"

definition makeResultHeaders :: "out_request \<Rightarrow> http_client \<Rightarrow> http_client" where
  "makeResultHeaders r h = h\<lparr>h_inputHeaders := fold insert_header (input_headers r) (h_inputHeaders h)\<rparr>"

definition fire_onHttpClient_Response :: "http_client \<Rightarrow> (unit, http_client) res" where
  "fire_onHttpClient_Response h = (case out_req h of
     None \<Rightarrow> (Inl (Undef ''req_ is NULL''), h)
   | Some r \<Rightarrow>
      (let h1 = h\<lparr>h_responseCode := response_code r\<rparr>;
           done = (\<lambda>h. (Inr (), http_emit (onHttpClient_Response (response_code r)) (cleanUp h)))
       in if response_code r = HTTP_OK then
            (let h2 = makeResultHeaders r h1 in
             case if h_chunkmode h2 then h_responsebuffer h2 else Some (input_buffer r) of
               None \<Rightarrow> (Inl (Undef ''NULL buffer''), h2)
             | Some b \<Rightarrow> done (h2\<lparr>h_responseBody := b\<rparr>))
          else done h1))"

definition http_done_cb :: "bool \<Rightarrow> http_client \<Rightarrow> (unit, http_client) res" where
  "http_done_cb have_req h = (if have_req then fire_onHttpClient_Response h
     else (Inr (), fire_onHttpClient_Error h))"

definition client_findHeader :: "string \<Rightarrow> http_client \<Rightarrow> string" where
  "client_findHeader key h = (case h_inputHeaders h (c_str key) of Some v \<Rightarrow> v | None \<Rightarrow> [])"

end
