(* ===== verification/HttpRequest.thy ===== *)
theory HttpRequest
  imports Mpfd
begin

text \<open>
  A request the HTTP server received, \<^verbatim>\<open>LibeventHttpRequestImpl.h\<close>, to which
  \<^verbatim>\<open>HttpRequest.cpp\<close> forwards. The \<open>evhttp_request\<close> is what the code reads from it: its
  command, headers and URI, and the answers of the successive \<open>evbuffer_remove\<close> calls until
  its input buffer is empty. libevent's parsers of a query and a URI are arguments.
\<close>

datatype ev_command = EVHTTP_REQ_GET | EVHTTP_REQ_POST | EVHTTP_REQ_OTHER

record in_request =
  ev_command :: ev_command
  ev_headers :: "(string \<times> string) list"
  ev_uri :: string
  ev_input :: "string list"

record req_env =
  req_uri_parse :: "string \<Rightarrow> int \<Rightarrow> string option option"
  req_parse_query :: "string \<Rightarrow> (string \<times> string) list option"
  req_parse_query_str :: "string \<Rightarrow> (string \<times> string) list option"
  can_create :: "string \<Rightarrow> bool"

record http_request =
  q_req :: "in_request option"
  req_evuri :: "string option option"
  reqBody :: string
  parameters :: "string \<rightharpoonup> string list"
  parseDone :: bool
  q_path :: string
  replies :: "(int \<times> string \<times> string) list"
  req_fs :: fsys

definition newHttpRequest :: "in_request \<Rightarrow> fsys \<Rightarrow> http_request" where
  "newHttpRequest r fs = \<lparr>q_req = Some r, req_evuri = None, reqBody = [], parameters = Map.empty,
    parseDone = False, q_path = [], replies = [], req_fs = fs\<rparr>"

definition methodType :: "http_request \<Rightarrow> HttpMethodType" where
  "methodType q = (case q_req q of
     None \<Rightarrow> HTTP_UNKNOWN
   | Some r \<Rightarrow> (case ev_command r of
        EVHTTP_REQ_GET \<Rightarrow> HTTP_GET
      | EVHTTP_REQ_POST \<Rightarrow> HTTP_POST
      | EVHTTP_REQ_OTHER \<Rightarrow> HTTP_UNKNOWN))"

definition http_uri :: "http_request \<Rightarrow> string" where
  "http_uri q = (case q_req q of None \<Rightarrow> [] | Some r \<Rightarrow> ev_uri r)"

definition parseUri :: "req_env \<Rightarrow> http_request \<Rightarrow> http_request" where
  "parseUri env q = (case req_evuri q of
     Some _ \<Rightarrow> q
   | None \<Rightarrow> q\<lparr>req_evuri := (case req_uri_parse env (http_uri q) 0 of
        None \<Rightarrow> req_uri_parse env (http_uri q) 1 | Some p \<Rightarrow> Some p)\<rparr>)"

definition isValidRequest :: "req_env \<Rightarrow> http_request \<Rightarrow> bool \<times> http_request" where
  "isValidRequest env q = (if q_req q = None then (False, q)
     else let q1 = parseUri env q in (req_evuri q1 \<noteq> None, q1))"

definition http_path :: "http_request \<Rightarrow> (string option, http_request) res" where
  "http_path q = (if q_path q \<noteq> [] then (Inr (Some (q_path q)), q)
     else if q_req q = None then (Inr None, q)
     else case req_evuri q of
       None \<Rightarrow> (Inr None, q)
     | Some a \<Rightarrow>
        (let p = (case a of None \<Rightarrow> [] | Some s \<Rightarrow> s); q1 = q\<lparr>q_path := p\<rparr> in
         case str_rfind p (CHR ''/'') of
           None \<Rightarrow> if p = [] then (Inl StdOutOfRange, q1) else (Inr (Some p), q1)
         | Some idx \<Rightarrow> if idx \<noteq> length p - 1 then (Inr (Some p), q1)
             else (Inr (Some (take idx p)), q1\<lparr>q_path := take idx p\<rparr>)))"

definition findHeader :: "string \<Rightarrow> http_request \<Rightarrow> string option" where
  "findHeader key q = (case q_req q of
     None \<Rightarrow> None
   | Some r \<Rightarrow> map_option snd (List.find (\<lambda>kv. fst kv = key) (ev_headers r)))"

text \<open>The loop of \<open>_storeRequestBody\<close>, over the answers of \<open>evbuffer_remove\<close>.\<close>

fun store_loop :: "string \<Rightarrow> string list \<Rightarrow> string" where
  "store_loop body [] = body"
| "store_loop body (c # cs) = store_loop (if length c > 0 then body @ c else body) cs"

definition storeRequestBody :: "http_request \<Rightarrow> http_request" where
  "storeRequestBody q = (if length (reqBody q) > 0 then q
     else case q_req q of
       None \<Rightarrow> q
     | Some r \<Rightarrow> q\<lparr>reqBody := store_loop (reqBody q) (ev_input r), q_req := Some (r\<lparr>ev_input := []\<rparr>)\<rparr>)"

definition requestBody :: "http_request \<Rightarrow> string \<times> http_request" where
  "requestBody q = (if q_req q = None then (reqBody q, q)
     else let q1 = storeRequestBody q in (reqBody q1, q1))"

definition add_value :: "string \<Rightarrow> string \<Rightarrow> (string \<rightharpoonup> string list) \<Rightarrow> (string \<rightharpoonup> string list)" where
  "add_value k v m = (case m k of None \<Rightarrow> m(k \<mapsto> [v]) | Some vs \<Rightarrow> m(k \<mapsto> vs @ [v]))"

text \<open>The loop over the parsed fields; \<open>Inl\<close> is the exception that leaves it.\<close>

fun field_loop :: "field list \<Rightarrow> (string \<rightharpoonup> string list) \<Rightarrow> (unit, string \<rightharpoonup> string list) res" where
  "field_loop [] m = (Inr (), m)"
| "field_loop (f # fs) m = (case GetType f of
     Inl e \<Rightarrow> (Inl e, m)
   | Inr t \<Rightarrow> if t \<noteq> TextType then field_loop fs m
       else (case GetTextTypeContent f of
          Inl e \<Rightarrow> (Inl e, m)
        | Inr v \<Rightarrow> field_loop fs (add_value (f_key f) v m)))"

text \<open>
  The part of \<open>_parseParmeter\<close> under its \<open>try\<close>, with what has been put into the map when an
  exception leaves it. The body is only read when the parser has taken the content type. The
  parser is a local object: the fields it has collected are lost with it.
\<close>

definition parse_multipart :: "req_env \<Rightarrow> http_request \<Rightarrow>
    (unit, (string \<rightharpoonup> string list) \<times> http_request) res" where
  "parse_multipart env q = (case findHeader ''Content-Type'' q of
     None \<Rightarrow> (Inl (Undef ''std::string from NULL''), Map.empty, q)
   | Some ty \<Rightarrow>
      (case SetContentType ty (newParser (req_fs q)) of
         (Inl e, P) \<Rightarrow> (Inl e, Map.empty, q\<lparr>req_fs := parser_destroy P\<rparr>)
       | (Inr _, P) \<Rightarrow>
          (case requestBody q of (body, q) \<Rightarrow>
            (case AcceptSomeData (can_create env) body P of
               (Inl e, P) \<Rightarrow> (Inl e, Map.empty, q\<lparr>req_fs := parser_destroy P\<rparr>)
             | (Inr _, P) \<Rightarrow> (case field_loop (Fields P) Map.empty of
                 (r, m) \<Rightarrow> (r, m, q\<lparr>req_fs := parser_destroy P\<rparr>))))))"

definition strip_query :: "string \<Rightarrow> string" where
  "strip_query key = (case str_find key ''?'' 0 of None \<Rightarrow> key | Some pos \<Rightarrow> drop (pos + 1) key)"

fun query_params :: "bool \<Rightarrow> (string \<times> string) list \<Rightarrow> (string \<rightharpoonup> string list) \<Rightarrow> (string \<rightharpoonup> string list)" where
  "query_params bfirst [] m = m"
| "query_params bfirst ((k, v) # kvs) m =
     query_params False kvs (add_value (if bfirst then strip_query k else k) v m)"

definition parse_get :: "req_env \<Rightarrow> string \<Rightarrow> (string \<rightharpoonup> string list) \<Rightarrow> (string \<rightharpoonup> string list)" where
  "parse_get env u m =
    (case (case req_parse_query env u of None \<Rightarrow> req_parse_query_str env u | Some l \<Rightarrow> Some l) of
       None \<Rightarrow> m | Some l \<Rightarrow> query_params True l m)"

fun undefined_behaviour :: "exn \<Rightarrow> bool" where
  "undefined_behaviour (Undef _) = True"
| "undefined_behaviour _ = False"

text \<open>The map is empty before: it is only filled here, once.\<close>

definition parseParmeter :: "req_env \<Rightarrow> http_request \<Rightarrow> (unit, http_request) res" where
  "parseParmeter env q =
    (if q_req q = None \<or> parseDone q then (Inr (), q)
     else if methodType q = HTTP_POST then
       (case parse_multipart env q of (r, m, q) \<Rightarrow>
         (case r of
            Inl e \<Rightarrow> if undefined_behaviour e then (Inl e, q)
              else (Inr (), q\<lparr>parameters := m, parseDone := True\<rparr>)
          | Inr _ \<Rightarrow> (Inr (), q\<lparr>parameters := m, parseDone := True\<rparr>)))
     else (Inr (), q\<lparr>parameters := parse_get env (http_uri q) (parameters q), parseDone := True\<rparr>))"

text \<open>
  \<open>find\<close> gives \<open>npos\<close>, the largest \<open>size_t\<close>, when there is no \<open>[]\<close>, and the length minus
  2 is an unsigned number too.
\<close>

definition convertKeyArrayStyle :: "string \<Rightarrow> string" where
  "convertKeyArrayStyle key =
    (let pos = (case str_find key ''[]'' 0 of None \<Rightarrow> 18446744073709551615 | Some p \<Rightarrow> p) in
     if pos \<noteq> to_size (int (length key) - 2) then key @ ''[]'' else key)"

definition parsed :: "req_env \<Rightarrow> http_request \<Rightarrow> (unit, http_request) res" where
  "parsed env q = (if parseDone q then (Inr (), q) else parseParmeter env q)"

definition parameterCountOf :: "req_env \<Rightarrow> string option \<Rightarrow> http_request \<Rightarrow> (nat, http_request) res" where
  "parameterCountOf env key q = (if q_req q = None then (Inr 0, q) else case key of
     None \<Rightarrow> (Inr 0, q)
   | Some k \<Rightarrow> bindR (parsed env q) (\<lambda>_ q.
       (Inr (case parameters q (convertKeyArrayStyle k) of None \<Rightarrow> 0 | Some vs \<Rightarrow> length vs), q)))"

definition findParameterOf :: "req_env \<Rightarrow> string option \<Rightarrow> nat \<Rightarrow> http_request \<Rightarrow> (string option, http_request) res" where
  "findParameterOf env key index q = (if q_req q = None then (Inr None, q) else case key of
     None \<Rightarrow> (Inr None, q)
   | Some k \<Rightarrow> bindR (parsed env q) (\<lambda>_ q.
       (Inr (case parameters q (convertKeyArrayStyle k) of
          None \<Rightarrow> None
        | Some vs \<Rightarrow> if index < length vs then Some (c_str (vs ! index)) else None), q)))"

definition findParameter :: "req_env \<Rightarrow> string option \<Rightarrow> http_request \<Rightarrow> (string option, http_request) res" where
  "findParameter env key q = (if q_req q = None then (Inr None, q) else case key of
     None \<Rightarrow> (Inr None, q)
   | Some k \<Rightarrow> bindR (parsed env q) (\<lambda>_ q.
       (Inr (case parameters q k of
          None \<Rightarrow> None
        | Some vs \<Rightarrow> if length vs > 0 then Some (c_str (vs ! 0)) else None), q)))"

definition sendReplyData :: "int \<Rightarrow> string \<Rightarrow> string \<Rightarrow> http_request \<Rightarrow> bool \<times> http_request" where
  "sendReplyData code reason dat q = (if q_req q = None then (False, q)
     else (True, q\<lparr>replies := replies q @ [(code, reason, dat)], q_req := None\<rparr>))"

end
