(* ===== verification/HttpSpec.thy ===== *)
theory HttpSpec
  imports MpfdSpec HttpClient HttpRequest
begin

text \<open>
  A form that \<open>HttpClient\<close> posts and \<open>HttpRequest\<close> reads: the body the client builds, the
  header that names its boundary, and the parameters the request finds after the form parser
  has been through it. The laws of the map of parameters are a locale, which the model's
  \<open>add_value\<close> interprets.
\<close>

section \<open>Parameters by key\<close>

definition values_of :: "(string \<times> string) list \<Rightarrow> string \<Rightarrow> string list" where
  "values_of kvs k = map snd (filter (\<lambda>kv. fst kv = k) kvs)"

definition values_by_key :: "(string \<times> string) list \<Rightarrow> string \<rightharpoonup> string list" where
  "values_by_key kvs k = (if values_of kvs k = [] then None else Some (values_of kvs k))"

locale multimap =
  fixes add :: "'k \<Rightarrow> 'v \<Rightarrow> 'm \<Rightarrow> 'm" and vals :: "'m \<Rightarrow> 'k \<Rightarrow> 'v list"
  assumes values_add: "vals (add k v m) k' = vals m k' @ (if k = k' then [v] else [])"
begin

lemma values_fold:
  "vals (fold (\<lambda>(k, v). add k v) kvs m) k' = vals m k' @ map snd (filter (\<lambda>kv. fst kv = k') kvs)"
  by (induction kvs arbitrary: m) (auto simp: values_add)

end

definition map_values :: "(string \<rightharpoonup> string list) \<Rightarrow> string \<Rightarrow> string list" where
  "map_values m k = (case m k of None \<Rightarrow> [] | Some vs \<Rightarrow> vs)"

interpretation pm: multimap add_value map_values
  by unfold_locales (auto simp: add_value_def map_values_def split: option.splits)

definition no_empty :: "(string \<rightharpoonup> string list) \<Rightarrow> bool" where
  "no_empty m \<longleftrightarrow> (\<forall>k. m k \<noteq> Some [])"

lemma no_empty_fold: "no_empty m \<Longrightarrow> no_empty (fold (\<lambda>(k, v). add_value k v) kvs m)"
  by (induction kvs arbitrary: m)
    (auto simp: no_empty_def add_value_def split: option.splits if_splits)

lemma fold_add_value:
  "fold (\<lambda>(k, v). add_value k v) kvs Map.empty = values_by_key kvs"
proof
  fix k
  let ?m = "fold (\<lambda>(k, v). add_value k v) kvs Map.empty"
  have "map_values ?m k = values_of kvs k"
    using pm.values_fold [of kvs Map.empty k] by (simp add: values_of_def map_values_def)
  moreover have "?m k \<noteq> Some []" using no_empty_fold [of Map.empty kvs] by (simp add: no_empty_def)
  ultimately show "?m k = values_by_key kvs k"
    by (auto simp: map_values_def values_by_key_def split: option.splits)
qed

definition text_ok :: "string \<times> string \<Rightarrow> bool" where
  "text_ok kv \<longleftrightarrow> CHR 0x00 \<notin> set (snd kv)"

lemma c_str_snoc: "CHR 0x00 \<notin> set v \<Longrightarrow> c_str (v @ [CHR 0x00]) = v"
  by (induction v) (auto simp: c_str_def)

lemma GetTextTypeContent_text:
  "CHR 0x00 \<notin> set v \<Longrightarrow> GetTextTypeContent (text_field k v) = Inr v"
  by (simp add: GetTextTypeContent_def text_field_def newField_def mpfd_consts c_str_snoc)

lemma field_loop_text:
  "\<forall>kv\<in>set kvs. text_ok kv \<Longrightarrow>
    field_loop (form_fields kvs) m = (Inr (), fold (\<lambda>(k, v). add_value k v) (filter (\<lambda>kv. snd kv \<noteq> []) kvs) m)"
proof (induction kvs arbitrary: m)
  case (Cons kv kvs)
  obtain k v where kv: "kv = (k, v)" by (cases kv)
  have g: "GetType (text_field k v) = Inr TextType" "f_key (text_field k v) = k"
    "GetTextTypeContent (text_field k v) = Inr v"
    using Cons.prems by (simp_all add: GetTextTypeContent_text kv text_ok_def)
      (simp_all add: GetType_def text_field_def newField_def mpfd_consts)
  show ?case using Cons g by (simp add: kv value_field_def)
qed simp

section \<open>Parsing a posted body\<close>

definition content_type :: "string \<Rightarrow> string" where
  "content_type b = ''multipart/form-data; boundary='' @ b"

lemma SetContentType_ok:
  "SetContentType (content_type b) P = (Inr (), P\<lparr>Boundary := ''--'' @ b\<rparr>)"
proof -
  have 1: "str_find (content_type b) ''multipart/form-data;'' 0 = Some 0"
    using str_find_prefix [of "[]" "''multipart/form-data;''" "'' boundary='' @ b"]
    by (simp add: content_type_def)
  have "\<forall>k<length ''multipart/form-data; ''.
      take (length ''boundary='') (drop k (''multipart/form-data; '' @ ''boundary='')) \<noteq> ''boundary=''"
    by (simp add: All_less_Suc numeral_2_eq_2 flip: numeral_eq_Suc)
  from str_find_prefix [OF this, of b]
  have 2: "str_find (content_type b) ''boundary='' 0 = Some 21"
    by (simp add: content_type_def)
  have "substr (content_type b) (21 + 9) (length (content_type b) - 21) = b"
    by (simp add: substr_def content_type_def)
  then show ?thesis by (simp add: SetContentType_def 1 2)
qed

definition max_body :: nat where "max_body = 16777216"

lemma AcceptSomeData_new:
  assumes "length body \<le> max_body"
  shows "bindR (SetContentType (content_type b) (newParser fs)) (\<lambda>_. AcceptSomeData cc body)
    = ProcessData cc (newParser fs\<lparr>Boundary := ''--'' @ b, DataCollector := Some body\<rparr>)"
  using assms
  by (simp add: SetContentType_ok AcceptSomeData_def newParser_def max_body_def collected_def Let_def)

lemma start_view:
  "form_view (newParser fs\<lparr>Boundary := B, DataCollector := Some body\<rparr>)
    = (Status_LookingForStartingBoundary, B, body, [], None, fs, [], StoreUploadedFilesInFilesystem)"
  by (simp add: form_view_def p_env_def newParser_def collected_def)

lemma fold_destroy_text [simp]: "fold field_destroy (form_fields kvs) fs = fs"
  by (induction kvs) (auto simp: value_field_def field_destroy_def text_field_def newField_def mpfd_consts)

text \<open>What arrives of the pairs: those without a value are left out, the last one is cut.\<close>

definition arriving :: "string \<Rightarrow> (string \<times> string) list \<Rightarrow> (string \<times> string) list" where
  "arriving B kvs = filter (\<lambda>kv. snd kv \<noteq> [])
     (butlast kvs @ [(fst (last kvs), last_value B (snd (last kvs)))])"

lemma text_ok_last: "text_ok (k, v) \<Longrightarrow> text_ok (k, last_value B v)"
  by (auto simp: text_ok_def last_value_def dest: in_set_takeD)

lemma parse_multipart_parts:
  assumes "kvs \<noteq> []" and ok: "\<forall>kv\<in>set kvs. part_ok (''--'' @ b) kv \<and> text_ok kv"
    and B: "boundary_ok (''--'' @ b)"
    and body: "body = concat (map (part_bytes (''--'' @ b)) kvs)" "length body \<le> max_body"
    and q: "findHeader ''Content-Type'' q = Some (content_type b)" "requestBody q = (body, q1)"
      "req_fs q = fs" "req_fs q1 = fs"
  shows "parse_multipart env q = (Inr (), values_by_key (arriving (''--'' @ b) kvs), q1)"
proof -
  obtain kvs' k v where kvs: "kvs = kvs' @ [(k, v)]"
    using assms(1) by (cases kvs rule: rev_cases) auto
  let ?P = "newParser fs\<lparr>Boundary := ''--'' @ b, DataCollector := Some body\<rparr>"
  have "form_view ?P = (Status_LookingForStartingBoundary, ''--'' @ b,
      concat (map (part_bytes (''--'' @ b)) (kvs' @ [(k, v)])), [], None, fs, [], StoreUploadedFilesInFilesystem)"
    unfolding start_view by (simp only: body kvs)
  from parts_run [OF this _ B, of "can_create env"] ok
  obtain P' where P': "ProcessData (can_create env) ?P = (Inr (), P')"
    "Fields P' = [] @ form_fields (kvs' @ [(k, last_value (''--'' @ b) v)])"
    "p_env P' = (fs, [], StoreUploadedFilesInFilesystem)" "no_file (CurrentField P')"
    by (auto simp: kvs)
  have "\<forall>kv\<in>set (kvs' @ [(k, last_value (''--'' @ b) v)]). text_ok kv"
    using ok text_ok_last by (auto simp: kvs)
  note loop = field_loop_text [OF this, of Map.empty, unfolded fold_add_value]
  have loop': "field_loop (Fields P') Map.empty = (Inr (), values_by_key (arriving (''--'' @ b) kvs))"
    unfolding P'(2) append_Nil loop arriving_def kvs butlast_snoc last_snoc fst_conv snd_conv ..
  have "parser_destroy P' = fs"
    using P'(2-4) by (auto simp: parser_destroy_def p_env_def no_file_def field_destroy_def Let_def
        simp del: form_fields_simps split: option.splits)
  then show ?thesis
    using AcceptSomeData_new [OF body(2), of b fs "can_create env"] P'(1)
    by (simp add: parse_multipart_def q SetContentType_ok loop')
qed

section \<open>What the client posts\<close>

definition form_pairs :: "HttpParameter \<Rightarrow> (string \<times> string) list" where
  "form_pairs ps = [(p_key p, p_value p). p \<leftarrow> ps, p_type p = STRING_TYPE]"

lemma form_pairs_simps [simp]:
  "form_pairs [] = []"
  "form_pairs (p # ps) = (if p_type p = STRING_TYPE then (p_key p, p_value p) # form_pairs ps else form_pairs ps)"
  "form_pairs (ps @ ps') = form_pairs ps @ form_pairs ps'"
  by (simp_all add: form_pairs_def)

lemma key_ok_c_str: "key_ok k \<Longrightarrow> c_str k = k"
  by (simp add: key_ok_def)

lemma string_part_bytes:
  "key_ok (p_key p) \<Longrightarrow> c_str b = b \<Longrightarrow> string_part b p = part_bytes (''--'' @ b) (p_key p, p_value p)"
  by (simp add: string_part_def part_bytes_def part_header_def disposition_def crlfcrlf_def crlf_def
      key_ok_c_str)

lemma multipart_body_parts:
  assumes "\<forall>p\<in>set ps. p_type p \<noteq> FILE_TYPE" "\<forall>kv\<in>set (form_pairs ps). key_ok (fst kv)" "c_str b = b"
  shows "multipart_body env b (ps @ ps')
    = concat (map (part_bytes (''--'' @ b)) (form_pairs ps)) @ multipart_body env b ps'"
  using assms by (induction ps) (auto simp: string_part_bytes split: parameterType.splits if_splits)

lemma hex_digit_neq: "CHR 0x00 \<noteq> hex_digit n" "CHR 0x0A \<noteq> hex_digit n" "CHR 0x0D \<noteq> hex_digit n"
proof -
  have "hex_digit n \<in> set ''0123456789abcdef''" unfolding hex_digit_def by (rule nth_mem) simp
  then show "CHR 0x00 \<noteq> hex_digit n" "CHR 0x0A \<noteq> hex_digit n" "CHR 0x0D \<noteq> hex_digit n" by auto
qed

lemma boundary_made:
  "c_str (makeMultipartBoundary rs) = makeMultipartBoundary rs"
  "boundary_ok (''--'' @ makeMultipartBoundary rs)"
  by (auto simp: makeMultipartBoundary_def boundary_ok_def hex_digit_neq intro!: c_str_id)

text \<open>The request that is made, and what the client remembers of it.\<close>

lemma request_posts:
  assumes "request env (newHttpClient HTTP_POST u (Some ps) t) = (Inr (), h)"
  obtains uri r host where "http_log h = [evhttp_make_request HTTP_POST uri r]"
    "output_headers r = makeBasicHeader host (h_param h)
      @ [(''Content-Type'', content_type (h_boundary h)), makeContentLengthHeader (to_int32 (int (length (output_buffer r))))]"
    "output_buffer r = multipart_body env (h_boundary h) (h_param h)"
    "c_str (h_boundary h) = h_boundary h" "boundary_ok (''--'' @ h_boundary h)"
    "h_param h = fold (\<lambda>(k, v). addParameter k v) (parse_query env (c_str u)) ps"
  using assms boundary_made [of "rands env"]
  by (auto simp: request_def requestInternal_def newHttpClient_def parseParameter_def Let_def
      makeHeaderAndBody_def startRequest_def makeHttpConnection_def http_emit_def add_headers_def
      makePostHeader_def makePostBody_def newRequest_def content_type_def split: option.splits)

definition no_content_type :: "HttpParameter \<Rightarrow> bool" where
  "no_content_type ps \<longleftrightarrow> (\<forall>p\<in>set ps. p_type p = HEADER_TYPE \<longrightarrow> c_str (p_key p) \<noteq> ''Content-Type'')"

definition posted :: "string \<Rightarrow> out_request \<Rightarrow> string list \<Rightarrow> in_request" where
  "posted uri r chunks = \<lparr>ev_command = EVHTTP_REQ_POST, ev_headers = output_headers r,
    ev_uri = uri, ev_input = chunks\<rparr>"

lemma find_behind_None: "List.find Q xs = None \<Longrightarrow> List.find Q (xs @ ys) = List.find Q ys"
  by (induction xs) (auto split: if_splits)

lemma findHeader_posted:
  assumes "no_content_type ps"
    and "output_headers r = makeBasicHeader host ps @ [(''Content-Type'', v), x]"
  shows "findHeader ''Content-Type'' (newHttpRequest (posted uri r chunks) fs) = Some v"
proof -
  have "List.find (\<lambda>kv. fst kv = ''Content-Type'') (makeBasicHeader host ps) = None"
    using assms(1) by (auto simp: find_None_iff makeBasicHeader_def no_content_type_def)
  then have "List.find (\<lambda>kv. fst kv = ''Content-Type'') (makeBasicHeader host ps @ [(''Content-Type'', v), x])
      = Some (''Content-Type'', v)"
    by (simp add: find_behind_None)
  then show ?thesis by (simp add: findHeader_def newHttpRequest_def posted_def assms(2))
qed

lemma store_loop_concat: "store_loop body cs = body @ concat cs"
  by (induction cs arbitrary: body) auto

lemma requestBody_posted:
  obtains q1 where "requestBody (newHttpRequest (posted uri r chunks) fs) = (concat chunks, q1)" "req_fs q1 = fs"
  by (cases "requestBody (newHttpRequest (posted uri r chunks) fs)")
    (auto simp: requestBody_def storeRequestBody_def newHttpRequest_def posted_def store_loop_concat Let_def)

lemma req_fs_new [simp]: "req_fs (newHttpRequest r fs) = fs"
  by (simp add: newHttpRequest_def)

lemma parse_posted:
  assumes "parse_multipart renv (newHttpRequest (posted uri r chunks) fs) = (res, m, q1)"
    and "\<And>e. res = Inl e \<Longrightarrow> \<not> undefined_behaviour e"
  shows "\<exists>q. parseParmeter renv (newHttpRequest (posted uri r chunks) fs) = (Inr (), q)
    \<and> parseDone q \<and> parameters q = m"
proof -
  have "q_req (newHttpRequest (posted uri r chunks) fs) \<noteq> None"
    "\<not> parseDone (newHttpRequest (posted uri r chunks) fs)"
    "methodType (newHttpRequest (posted uri r chunks) fs) = HTTP_POST"
    by (simp_all add: newHttpRequest_def methodType_def posted_def)
  then show ?thesis using assms by (cases res) (auto simp: parseParmeter_def)
qed

text \<open>What a client's form becomes when a request is read.\<close>

definition post_ok :: "string \<Rightarrow> HttpParameter \<Rightarrow> bool" where
  "post_ok B ps \<longleftrightarrow> (\<forall>p\<in>set ps. p_type p \<noteq> FILE_TYPE) \<and> no_content_type ps \<and> form_pairs ps \<noteq> []
     \<and> (\<forall>kv\<in>set (form_pairs ps). part_ok B kv \<and> text_ok kv)"

lemma http_post_arrives:
  assumes sent: "request env (newHttpClient HTTP_POST u (Some ps) t) = (Inr (), h)"
    and made: "evhttp_make_request HTTP_POST uri r \<in> set (http_log h)"
    and arrived: "concat chunks = output_buffer r" "length (output_buffer r) \<le> max_body"
    and ok: "post_ok (''--'' @ h_boundary h) (h_param h)"
  shows "\<exists>q. parseParmeter renv (newHttpRequest (posted uri r chunks) fs) = (Inr (), q)
    \<and> parseDone q \<and> parameters q = values_by_key (arriving (''--'' @ h_boundary h) (form_pairs (h_param h)))"
proof -
  obtain uri' r' host where r': "http_log h = [evhttp_make_request HTTP_POST uri' r']"
    and r: "output_headers r' = makeBasicHeader host (h_param h) @ [(''Content-Type'', content_type (h_boundary h)),
        makeContentLengthHeader (to_int32 (int (length (output_buffer r'))))]"
      "output_buffer r' = multipart_body env (h_boundary h) (h_param h)"
    and B: "c_str (h_boundary h) = h_boundary h" "boundary_ok (''--'' @ h_boundary h)"
    by (rule request_posts [OF sent])
  have rr: "r' = r" using r' made by simp
  have ok': "\<forall>p\<in>set (h_param h). p_type p \<noteq> FILE_TYPE" "no_content_type (h_param h)"
    "form_pairs (h_param h) \<noteq> []"
    "\<forall>kv\<in>set (form_pairs (h_param h)). part_ok (''--'' @ h_boundary h) kv \<and> text_ok kv"
    using ok by (simp_all add: post_ok_def)
  have keys: "\<forall>kv\<in>set (form_pairs (h_param h)). key_ok (fst kv)"
    using ok'(4) by (simp add: part_ok_def)
  have "concat chunks = concat (map (part_bytes (''--'' @ h_boundary h)) (form_pairs (h_param h)))"
    using multipart_body_parts [OF ok'(1) keys B(1), of env "[]"] r(2) arrived(1) rr by simp
  moreover obtain q1 where q1: "requestBody (newHttpRequest (posted uri r chunks) fs) = (concat chunks, q1)"
    "req_fs q1 = fs" by (rule requestBody_posted)
  ultimately have "parse_multipart renv (newHttpRequest (posted uri r chunks) fs)
      = (Inr (), values_by_key (arriving (''--'' @ h_boundary h) (form_pairs (h_param h))), q1)"
    using parse_multipart_parts [OF ok'(3,4) B(2) _ _ findHeader_posted [OF ok'(2) r(1)[unfolded rr]] q1(1) req_fs_new q1(2)]
      arrived by simp
  from parse_posted [OF this] show ?thesis by simp
qed

section \<open>Forms that arrive, and forms that do not\<close>

lemma arriving_all:
  assumes "\<forall>kv\<in>set kvs. snd kv \<noteq> []" "kvs \<noteq> []" "length (snd (last kvs)) < length B"
  shows "arriving B kvs = kvs"
  using assms by (cases kvs rule: rev_cases) (auto simp: arriving_def last_value_def filter_id_conv)

lemma arriving_cut:
  assumes "\<forall>kv\<in>set kvs. snd kv \<noteq> []" "length B \<le> length v"
  shows "arriving B (kvs @ [(k, v)])
    = kvs @ (if length v = length B then [] else [(k, take (length v - length B) v)])"
  using assms by (auto simp: arriving_def last_value_def filter_id_conv)

text \<open>
  C2: A form that the HTTP client posts is read by the request completely, every key with its
  values in the order of the form and no other key with any, if the form is one that survives
  the way: it has a string parameter and no file, its user sets no \<open>Content-Type\<close> of his own, no
  key has a quote, CR or NUL in it or ends in \<open>filename=\<close>, no value has a NUL or the boundary
  line in it, none is empty, the last one is shorter than the boundary line, and the body has at
  most 16 MB. What becomes of a form with a file, or with a longer last value, is in
  \<open>http_upload_loses_form\<close> and \<open>http_post_last_value_cut\<close>.
\<close>

theorem http_post_roundtrip:
  assumes "request env (newHttpClient HTTP_POST u (Some ps) t) = (Inr (), h)"
    and "evhttp_make_request HTTP_POST uri r \<in> set (http_log h)"
    and "concat chunks = output_buffer r" "length (output_buffer r) \<le> max_body"
    and "post_ok (''--'' @ h_boundary h) (h_param h)"
    and "\<forall>kv\<in>set (form_pairs (h_param h)). snd kv \<noteq> []"
    and "length (snd (last (form_pairs (h_param h)))) < length (''--'' @ h_boundary h)"
  shows "\<exists>q. parseParmeter renv (newHttpRequest (posted uri r chunks) fs) = (Inr (), q)
    \<and> parseDone q \<and> parameters q = values_by_key (form_pairs (h_param h))"
proof -
  have "form_pairs (h_param h) \<noteq> []" using assms(5) by (simp add: post_ok_def)
  from arriving_all [OF assms(6) this assms(7)]
  show ?thesis using http_post_arrives [OF assms(1-5), of renv fs] by simp
qed

text \<open>
  The body has no closing boundary, and the parser keeps room for one: a last value at
  least as long as the boundary line arrives without its last characters, as many as the
  boundary line has, and not at all if it is as long.
\<close>

theorem http_post_last_value_cut:
  assumes "request env (newHttpClient HTTP_POST u (Some ps) t) = (Inr (), h)"
    and "evhttp_make_request HTTP_POST uri r \<in> set (http_log h)"
    and "concat chunks = output_buffer r" "length (output_buffer r) \<le> max_body"
    and "post_ok (''--'' @ h_boundary h) (h_param h)"
    and "form_pairs (h_param h) = kvs @ [(k, v)]" "\<forall>kv\<in>set kvs. snd kv \<noteq> []"
    and "length (''--'' @ h_boundary h) \<le> length v"
  shows "\<exists>q. parseParmeter renv (newHttpRequest (posted uri r chunks) fs) = (Inr (), q)
    \<and> parameters q = values_by_key (kvs @
        (if length v = length (''--'' @ h_boundary h) then []
         else [(k, take (length v - length (''--'' @ h_boundary h)) v)]))"
  using http_post_arrives [OF assms(1-5), of renv fs] arriving_cut [OF assms(7,8), of k]
  by (auto simp: assms(6))

lemma file_part_bytes:
  assumes "c_str b = b" "c_str (p_key p) = p_key p"
  shows \<open>file_part b p content = (''--'' @ b) @ file_header (p_key p) (get_name_of_path (c_str (p_value p)))
      ''"application/octet-stream"'' @ crlfcrlf @ content @ crlf\<close>
  using assms by (simp add: file_part_def file_header_def disposition_def crlfcrlf_def crlf_def)

lemma multipart_body_starts:
  "c_str b = b \<Longrightarrow> multipart_body env b ps \<noteq> [] \<Longrightarrow> \<exists>w. multipart_body env b ps = (''--'' @ b) @ w"
  by (induction ps) (auto simp: string_part_def file_part_def split: parameterType.splits option.splits)

lemma parse_multipart_file:
  assumes ok: "\<forall>kv\<in>set kvs. part_ok (''--'' @ b) kv" and B: "boundary_ok (''--'' @ b)"
    and f: "file_key_ok key fname ctype" "content \<noteq> []" "str_find content (''--'' @ b) 0 = None"
    and body: "body = concat (map (part_bytes (''--'' @ b)) kvs)
        @ (''--'' @ b) @ file_header key fname ctype @ crlfcrlf @ content @ crlf @ (''--'' @ b) @ w"
      "length body \<le> max_body"
    and q: "findHeader ''Content-Type'' q = Some (content_type b)" "requestBody q = (body, q1)" "req_fs q = fs"
  shows "\<exists>e q'. parse_multipart env q = (Inl (MpfdException e), Map.empty, q')"
proof -
  let ?P = "newParser fs\<lparr>Boundary := ''--'' @ b, DataCollector := Some body\<rparr>"
  have "form_view ?P = (Status_LookingForStartingBoundary, ''--'' @ b,
      [] @ concat (map (part_bytes (''--'' @ b)) kvs) @ (''--'' @ b) @ file_header key fname ctype
        @ crlfcrlf @ content @ crlf @ (''--'' @ b) @ w,
      [], None, fs, [], StoreUploadedFilesInFilesystem)"
    unfolding start_view by (simp only: body append_Nil)
  from parts_prefix [OF this ok B, of "can_create env"]
  obtain P' u' c' where P': "ProcessData (can_create env) ?P = ProcessData (can_create env) P'"
    "form_view P' = (Status_LookingForStartingBoundary, ''--'' @ b,
       u' @ (''--'' @ b) @ file_header key fname ctype @ crlfcrlf @ content @ crlf @ (''--'' @ b) @ w,
       [] @ form_fields kvs, c', fs, [], StoreUploadedFilesInFilesystem)"
    "u' = [] \<or> u' = crlf"
    by auto
  have "\<And>k. \<not> occurs_at (''--'' @ b) content k" using f(3) by (simp add: str_find_None)
  from file_part_throws [OF P'(2) B P'(3) f(1,2) this, of "can_create env"]
  obtain e P2 where "ProcessData (can_create env) ?P = (Inl (MpfdException e), P2)"
    using P'(1) by auto
  then show ?thesis
    using AcceptSomeData_new [OF body(2), of b fs "can_create env"]
    by (auto simp: parse_multipart_def q SetContentType_ok)
qed

text \<open>
  A form with an uploaded file delivers no parameter at all, not even those in front of the
  file: the parser has no directory to store it, and the exception is dropped with the fields.
\<close>

theorem http_upload_loses_form:
  assumes sent: "request env (newHttpClient HTTP_POST u (Some ps) t) = (Inr (), h)"
    and made: "evhttp_make_request HTTP_POST uri r \<in> set (http_log h)"
    and arrived: "concat chunks = output_buffer r" "length (output_buffer r) \<le> max_body"
    and form: "h_param h = before @ f # after" "p_type f = FILE_TYPE" "no_content_type (h_param h)"
      "\<forall>p\<in>set before. p_type p \<noteq> FILE_TYPE"
      "\<forall>kv\<in>set (form_pairs before). part_ok (''--'' @ h_boundary h) kv"
    and upload: "file_data env (c_str (p_value f)) = Some content" "content \<noteq> []"
      "str_find content (''--'' @ h_boundary h) 0 = None"
      \<open>file_key_ok (p_key f) (get_name_of_path (c_str (p_value f))) ''"application/octet-stream"''\<close>
    and after: "multipart_body env (h_boundary h) after \<noteq> []"
  shows "\<exists>q. parseParmeter renv (newHttpRequest (posted uri r chunks) fs) = (Inr (), q)
    \<and> parseDone q \<and> parameters q = Map.empty"
proof -
  let ?B = "''--'' @ h_boundary h"
  obtain uri' r' host where r': "http_log h = [evhttp_make_request HTTP_POST uri' r']"
    and r: "output_headers r' = makeBasicHeader host (h_param h) @ [(''Content-Type'', content_type (h_boundary h)),
        makeContentLengthHeader (to_int32 (int (length (output_buffer r'))))]"
      "output_buffer r' = multipart_body env (h_boundary h) (h_param h)"
    and B: "c_str (h_boundary h) = h_boundary h" "boundary_ok ?B"
    by (rule request_posts [OF sent])
  have rr: "r' = r" using r' made by simp
  have keys: "\<forall>kv\<in>set (form_pairs before). key_ok (fst kv)" using form(5) by (simp add: part_ok_def)
  have key: "c_str (p_key f) = p_key f" using upload(4) by (simp add: file_key_ok_def)
  obtain w where w: "multipart_body env (h_boundary h) after = ?B @ w"
    using multipart_body_starts [OF B(1) after] by blast
  have "concat chunks = concat (map (part_bytes ?B) (form_pairs before)) @ ?B
      @ file_header (p_key f) (get_name_of_path (c_str (p_value f))) ''\"application/octet-stream\"''
      @ crlfcrlf @ content @ crlf @ ?B @ w"
    using arrived(1) r(2) w form(2)
    by (simp add: rr form(1) multipart_body_parts [OF form(4) keys B(1)] upload(1)
        file_part_bytes [OF B(1) key])
  moreover obtain q1 where q1: "requestBody (newHttpRequest (posted uri r chunks) fs) = (concat chunks, q1)"
    by (rule requestBody_posted)
  ultimately obtain e q' where "parse_multipart renv (newHttpRequest (posted uri r chunks) fs)
      = (Inl (MpfdException e), Map.empty, q')"
    using parse_multipart_file [OF form(5) B(2) upload(4,2,3) _ _ findHeader_posted [OF form(3) r(1)[unfolded rr]] q1 req_fs_new]
      arrived by fastforce
  from parse_posted [OF this] show ?thesis by simp
qed

section \<open>Witnesses\<close>

definition demo_env :: http_env where
  "demo_env = \<lparr>parse_query = \<lambda>_. [], uri_parse = \<lambda>_. Some \<lparr>uri_host = ''h'', uri_port = 80, uri_path = ''/''\<rparr>,
    uriencode = id, file_data = \<lambda>f. if f = ''/a/b'' then Some ''data'' else None, rands = replicate 13 7\<rparr>"

definition demo_post :: "HttpParameter \<Rightarrow> http_client" where
  "demo_post ps = snd (request demo_env (newHttpClient HTTP_POST ''http://h/'' (Some ps) 5))"

definition demo_request :: "HttpParameter \<Rightarrow> out_request" where
  "demo_request ps = (case http_log (demo_post ps) of [evhttp_make_request _ _ r] \<Rightarrow> r | _ \<Rightarrow> newRequest)"

definition demo_form :: HttpParameter where
  "demo_form = addParameter ''id'' ''2'' (addParameter ''name'' ''x y'' (addParameter ''id'' ''1'' []))"

lemma demo_sent:
  "request demo_env (newHttpClient HTTP_POST ''http://h/'' (Some ps) 5) = (Inr (), demo_post ps)"
  by (simp add: demo_post_def prod_eq_iff)
    (simp add: request_def requestInternal_def newHttpClient_def parseParameter_def demo_env_def Let_def)

definition demo_renv :: req_env where
  "demo_renv = \<lparr>req_uri_parse = \<lambda>_ _. None, req_parse_query = \<lambda>_. None, req_parse_query_str = \<lambda>_. None,
    can_create = \<lambda>_. True\<rparr>"

theorem http_post_roundtrip_witness:
  "\<exists>q. parseParmeter demo_renv (newHttpRequest (posted ''/'' (demo_request demo_form)
      [output_buffer (demo_request demo_form)]) []) = (Inr (), q)
    \<and> parseDone q \<and> parameters q = values_by_key [(''id'', ''1''), (''name'', ''x y''), (''id'', ''2'')]"
proof -
  have made: "evhttp_make_request HTTP_POST ''/'' (demo_request demo_form) \<in> set (http_log (demo_post demo_form))"
    by code_simp
  have "length (output_buffer (demo_request demo_form)) \<le> 300" by code_simp
  then have len: "length (output_buffer (demo_request demo_form)) \<le> max_body" by (simp add: max_body_def)
  have ok: "post_ok (''--'' @ h_boundary (demo_post demo_form)) (h_param (demo_post demo_form))" by code_simp
  have pairs: "form_pairs (h_param (demo_post demo_form)) = [(''id'', ''1''), (''name'', ''x y''), (''id'', ''2'')]"
    by code_simp
  have "length (''--'' @ h_boundary (demo_post demo_form)) = 17" by code_simp
  then show ?thesis
    using http_post_roundtrip [OF demo_sent made _ len ok, of "[output_buffer (demo_request demo_form)]" demo_renv "[]"]
    by (simp add: pairs)
qed

definition demo_long :: HttpParameter where
  "demo_long = addParameter ''text'' (replicate 20 (CHR ''a'')) (addParameter ''id'' ''1'' [])"

theorem http_post_last_value_cut_witness:
  "\<exists>q. parseParmeter demo_renv (newHttpRequest (posted ''/'' (demo_request demo_long)
      [output_buffer (demo_request demo_long)]) []) = (Inr (), q)
    \<and> parameters q = values_by_key [(''id'', ''1''), (''text'', ''aaa'')]"
proof -
  have made: "evhttp_make_request HTTP_POST ''/'' (demo_request demo_long) \<in> set (http_log (demo_post demo_long))"
    by code_simp
  have "length (output_buffer (demo_request demo_long)) \<le> 300" by code_simp
  then have len: "length (output_buffer (demo_request demo_long)) \<le> max_body" by (simp add: max_body_def)
  have ok: "post_ok (''--'' @ h_boundary (demo_post demo_long)) (h_param (demo_post demo_long))" by code_simp
  have pairs: "form_pairs (h_param (demo_post demo_long)) = [(''id'', ''1'')] @ [(''text'', replicate 20 (CHR ''a''))]"
    by code_simp
  have bl: "length (''--'' @ h_boundary (demo_post demo_long)) = 17" by code_simp
  from http_post_last_value_cut [OF demo_sent made _ len ok pairs, of "[output_buffer (demo_request demo_long)]" demo_renv "[]"]
  show ?thesis unfolding bl by (simp add: eval_nat_numeral)
qed

definition demo_upload :: HttpParameter where
  "demo_upload = addParameter ''name'' ''x'' (addFile ''file'' ''/a/b'' (addParameter ''id'' ''1'' []))"

theorem http_upload_loses_form_witness:
  "\<exists>q. parseParmeter demo_renv (newHttpRequest (posted ''/'' (demo_request demo_upload)
      [output_buffer (demo_request demo_upload)]) []) = (Inr (), q)
    \<and> parseDone q \<and> parameters q = Map.empty"
proof -
  let ?h = "demo_post demo_upload"
  let ?f = "\<lparr>p_type = FILE_TYPE, p_key = ''file'', p_value = ''/a/b''\<rparr>"
  have made: "evhttp_make_request HTTP_POST ''/'' (demo_request demo_upload) \<in> set (http_log ?h)"
    by code_simp
  have "length (output_buffer (demo_request demo_upload)) \<le> 300" by code_simp
  then have len: "length (output_buffer (demo_request demo_upload)) \<le> max_body" by (simp add: max_body_def)
  have form: "h_param ?h = [\<lparr>p_type = STRING_TYPE, p_key = ''id'', p_value = ''1''\<rparr>]
      @ ?f # [\<lparr>p_type = STRING_TYPE, p_key = ''name'', p_value = ''x''\<rparr>]" by code_simp
  have ct: "no_content_type (h_param ?h)" by code_simp
  have before: "\<forall>p\<in>set [\<lparr>p_type = STRING_TYPE, p_key = ''id'', p_value = ''1''\<rparr>]. p_type p \<noteq> FILE_TYPE"
    by simp
  have parts: "\<forall>kv\<in>set (form_pairs [\<lparr>p_type = STRING_TYPE, p_key = ''id'', p_value = ''1''\<rparr>]).
      part_ok (''--'' @ h_boundary ?h) kv" by code_simp
  have content: "file_data demo_env (c_str (p_value ?f)) = Some ''data''" by code_simp
  have free: "str_find ''data'' (''--'' @ h_boundary ?h) 0 = None" by code_simp
  have key: \<open>file_key_ok (p_key ?f) (get_name_of_path (c_str (p_value ?f))) ''"application/octet-stream"''\<close>
    by code_simp
  have after: "multipart_body demo_env (h_boundary ?h) [\<lparr>p_type = STRING_TYPE, p_key = ''name'', p_value = ''x''\<rparr>] \<noteq> []"
    by code_simp
  show ?thesis
    by (rule http_upload_loses_form [OF demo_sent made _ len form _ ct before parts content _ free key after]) simp_all
qed

end
