(* ===== verification/Timers.thy ===== *)
theory Timers
  imports ClientController
begin

text \<open>
  Timers: the map of timer contexts of \<^verbatim>\<open>LibeventTimerImpl.h\<close>, to which \<^verbatim>\<open>Timer.cpp\<close>
  forwards, and the timers \<open>BaseController\<close> gives its user. Each context has one libevent
  event; \<open>tm_pending\<close> is whether that event is added. An event that libevent has activated is
  not pending any more when its callback runs. A run is a sequence of calls and firings; what
  a timer's handler does in its turn are the next calls of the run, since the map is final
  before the handler is called.
\<close>

record timer_context =
  tm_repeat :: bool
  tm_tv :: "nat \<times> nat"
  tm_pending :: bool

type_synonym timers = "int \<rightharpoonup> timer_context"

definition MAKE_TIMEVAL_MSEC :: "nat \<Rightarrow> nat \<times> nat" where
  "MAKE_TIMEVAL_MSEC msec = (msec div 1000, (msec mod 1000) * 1000)"

definition setTimer :: "int \<Rightarrow> nat \<Rightarrow> bool \<Rightarrow> timers \<Rightarrow> timers" where
  "setTimer i msec repeat T =
    (let T1 = (case T i of
        Some c \<Rightarrow> T(i \<mapsto> c\<lparr>tm_pending := False\<rparr>)
      | None \<Rightarrow> T(i \<mapsto> \<lparr>tm_repeat = False, tm_tv = (0, 0), tm_pending = False\<rparr>))
     in T1(i \<mapsto> (the (T1 i))\<lparr>tm_tv := MAKE_TIMEVAL_MSEC msec, tm_repeat := repeat, tm_pending := True\<rparr>))"

definition killTimer :: "int \<Rightarrow> timers \<Rightarrow> timers" where
  "killTimer i T = (case T i of Some _ \<Rightarrow> T(i := None) | None \<Rightarrow> T)"

text \<open>The value is the id the handler is called with.\<close>

definition fire_onTimer :: "int \<Rightarrow> timer_context \<Rightarrow> timers \<Rightarrow> int \<times> timers" where
  "fire_onTimer i c T =
    (i, if tm_repeat c then T(i \<mapsto> c\<lparr>tm_pending := True\<rparr>) else killTimer i T)"

definition timer_cb :: "int \<Rightarrow> timers \<Rightarrow> (int \<times> timers) option" where
  "timer_cb i T = (case T i of
     None \<Rightarrow> None
   | Some c \<Rightarrow> if tm_pending c
       then let c' = c\<lparr>tm_pending := False\<rparr> in Some (fire_onTimer i c' (T(i \<mapsto> c'))) else None)"

definition destroyTimers :: "timers \<Rightarrow> timers" where
  "destroyTimers T = Map.empty"

section \<open>Runs\<close>

datatype timer_op = Set_Timer int nat bool | Kill_Timer int | Fire_Timer int

inductive timer_run :: "timers \<Rightarrow> timer_op list \<Rightarrow> timers \<Rightarrow> bool" where
  run_Nil: "timer_run T [] T"
| run_set: "timer_run (setTimer i ms r T) ops T' \<Longrightarrow> timer_run T (Set_Timer i ms r # ops) T'"
| run_kill: "timer_run (killTimer i T) ops T' \<Longrightarrow> timer_run T (Kill_Timer i # ops) T'"
| run_fire: "timer_cb i T = Some (j, T1) \<Longrightarrow> timer_run T1 ops T' \<Longrightarrow> timer_run T (Fire_Timer i # ops) T'"

inductive_cases timer_run_NilE [elim!]: "timer_run T [] T'"
inductive_cases timer_run_setE [elim!]: "timer_run T (Set_Timer i ms r # ops) T'"
inductive_cases timer_run_killE [elim!]: "timer_run T (Kill_Timer i # ops) T'"
inductive_cases timer_run_fireE [elim!]: "timer_run T (Fire_Timer i # ops) T'"

fun sets_timer :: "int \<Rightarrow> timer_op \<Rightarrow> bool" where
  "sets_timer i (Set_Timer j ms r) \<longleftrightarrow> j = i"
| "sets_timer i op \<longleftrightarrow> False"

text \<open>What the calls promise: a timer is active until it is killed, or, if it does not repeat, fires.\<close>

definition active :: "timers \<Rightarrow> int \<Rightarrow> bool option" where
  "active T i = map_option tm_repeat (T i)"

definition timers_ok :: "timers \<Rightarrow> bool" where
  "timers_ok T \<longleftrightarrow> (\<forall>i c. T i = Some c \<longrightarrow> tm_pending c)"

lemma timers_ok_empty [simp]: "timers_ok Map.empty"
  by (simp add: timers_ok_def)

lemma active_empty [simp]: "active Map.empty i = None"
  by (simp add: active_def)

lemma active_set [simp]: "active (setTimer i ms r T) = (active T)(i \<mapsto> r)"
  by (auto simp: active_def setTimer_def Let_def split: option.splits)

lemma active_kill [simp]: "active (killTimer i T) = (active T)(i := None)"
  by (auto simp: active_def killTimer_def split: option.splits)

lemma setTimer_other [simp]: "j \<noteq> i \<Longrightarrow> setTimer i ms r T j = T j"
  by (simp add: setTimer_def Let_def split: option.splits)

lemma killTimer_other [simp]: "j \<noteq> i \<Longrightarrow> killTimer i T j = T j"
  by (simp add: killTimer_def split: option.splits)

lemma timers_ok_set: "timers_ok T \<Longrightarrow> timers_ok (setTimer i ms r T)"
  by (auto simp: timers_ok_def setTimer_def Let_def split: option.splits if_splits)

lemma timers_ok_kill: "timers_ok T \<Longrightarrow> timers_ok (killTimer i T)"
  by (auto simp: timers_ok_def killTimer_def split: option.splits if_splits)

lemma timer_cb_iff:
  assumes "timers_ok T"
  shows "timer_cb i T = Some (j, T1) \<longleftrightarrow> j = i \<and> T i \<noteq> None \<and>
    T1 = (if active T i = Some True then T else killTimer i T)"
  using assms
  by (cases "T i") (auto simp: timer_cb_def fire_onTimer_def timers_ok_def active_def killTimer_def Let_def)

lemma timers_ok_cb: "timers_ok T \<Longrightarrow> timer_cb i T = Some (j, T1) \<Longrightarrow> timers_ok T1"
  by (auto simp: timer_cb_iff timers_ok_kill split: if_splits)

lemma timer_run_ok: "timer_run T ops T' \<Longrightarrow> timers_ok T \<Longrightarrow> timers_ok T'"
  by (induction rule: timer_run.induct) (auto simp: timers_ok_set timers_ok_kill timers_ok_cb)

lemma active_None: "active T i = None \<longleftrightarrow> T i = None"
  by (simp add: active_def)

lemma timer_run_silent:
  "timer_run T ops T' \<Longrightarrow> timers_ok T \<Longrightarrow> active T i = None \<Longrightarrow> \<forall>op\<in>set ops. \<not> sets_timer i op \<Longrightarrow>
    Fire_Timer i \<notin> set ops \<and> active T' i = None"
proof (induction rule: timer_run.induct)
  case (run_fire k T j T1 ops T')
  have "k \<noteq> i" using run_fire.prems(2) run_fire.hyps(1) timer_cb_iff [OF run_fire.prems(1)]
    by (auto simp: active_None)
  moreover have "active T1 i = None"
    using run_fire.hyps(1) run_fire.prems(2) timer_cb_iff [OF run_fire.prems(1)] by auto
  ultimately show ?case using run_fire timers_ok_cb [OF run_fire.prems(1) run_fire.hyps(1)] by auto
qed (auto simp: timers_ok_set timers_ok_kill)

text \<open>The context of a timer that is on: armed, with the interval it was set with.\<close>

definition armed :: "nat \<Rightarrow> bool \<Rightarrow> timer_context" where
  "armed ms r = \<lparr>tm_repeat = r, tm_tv = MAKE_TIMEVAL_MSEC ms, tm_pending = True\<rparr>"

lemma setTimer_armed: "setTimer i ms r T i = Some (armed ms r)"
  by (simp add: setTimer_def armed_def Let_def split: option.splits)

lemma active_armed: "T i = Some (armed ms r) \<Longrightarrow> active T i = Some r"
  by (simp add: active_def armed_def)

text \<open>What a run that does not set a timer again leaves of it.\<close>

definition timer_left :: "int \<Rightarrow> nat \<Rightarrow> bool \<Rightarrow> timer_op list \<Rightarrow> timer_context option" where
  "timer_left i ms r ops =
    (if Kill_Timer i \<notin> set ops \<and> (r \<or> Fire_Timer i \<notin> set ops) then Some (armed ms r) else None)"

lemma timer_run_as_set:
  "timer_run T ops T' \<Longrightarrow> timers_ok T \<Longrightarrow> T i = Some (armed ms r) \<Longrightarrow> \<forall>op\<in>set ops. \<not> sets_timer i op \<Longrightarrow>
    (\<not> r \<longrightarrow> count_list ops (Fire_Timer i) \<le> 1)
    \<and> (\<forall>a b. ops = a @ Kill_Timer i # b \<longrightarrow> Fire_Timer i \<notin> set b)
    \<and> T' i = timer_left i ms r ops"
proof (induction rule: timer_run.induct)
  case (run_kill k T ops T')
  show ?case
  proof (cases "k = i")
    case True
    have "Fire_Timer i \<notin> set ops \<and> active T' i = None"
      using timer_run_silent [OF run_kill.hyps timers_ok_kill [OF run_kill.prems(1)]] run_kill.prems(3) True
      by simp
    then show ?thesis using True
      by (auto simp: Cons_eq_append_conv count_list_0_iff timer_left_def active_None)
  next
    case False
    then show ?thesis using run_kill by (auto simp: timers_ok_kill Cons_eq_append_conv timer_left_def)
  qed
next
  case (run_fire k T j T1 ops T')
  note T1 = timer_cb_iff [OF run_fire.prems(1), THEN iffD1, OF run_fire.hyps(1)]
  have ok1: "timers_ok T1" by (rule timers_ok_cb [OF run_fire.prems(1) run_fire.hyps(1)])
  have act: "active T i = Some r" using run_fire.prems(2) by (rule active_armed)
  show ?case
  proof (cases "k = i \<and> \<not> r")
    case True
    then have "active T1 i = None" using T1 act by simp
    then have "Fire_Timer i \<notin> set ops \<and> active T' i = None"
      using timer_run_silent [OF run_fire.hyps(2) ok1] run_fire.prems(3) by simp
    then show ?thesis using True
      by (auto simp: Cons_eq_append_conv count_list_0_iff timer_left_def active_None)
  next
    case False
    then have "T1 i = Some (armed ms r)" using T1 act run_fire.prems(2) by (cases "k = i") (auto split: if_splits)
    then show ?thesis using run_fire ok1 False by (auto simp: Cons_eq_append_conv timer_left_def)
  qed
qed (auto simp: timers_ok_set Cons_eq_append_conv timer_left_def)

text \<open>
  C22: A timer that is set and not set again fires only until it is killed, and one that does
  not repeat at most once. At the end of any run it is in the map exactly if it was not killed
  and either repeats or has not fired; and then it is armed again: its event is pending, with the
  interval and the kind it was set with, and when it fires the handler gets its id.
\<close>

theorem timer_fires_as_set:
  assumes "timer_run Map.empty pre T" "timer_run T (Set_Timer i ms r # ops) T'"
    and "\<forall>op\<in>set ops. \<not> sets_timer i op"
  shows "(\<not> r \<longrightarrow> count_list ops (Fire_Timer i) \<le> 1)
    \<and> (\<forall>a b. ops = a @ Kill_Timer i # b \<longrightarrow> Fire_Timer i \<notin> set b)
    \<and> T' i = (if Kill_Timer i \<notin> set ops \<and> (r \<or> Fire_Timer i \<notin> set ops)
        then Some \<lparr>tm_repeat = r, tm_tv = (ms div 1000, (ms mod 1000) * 1000), tm_pending = True\<rparr> else None)
    \<and> map_option fst (timer_cb i T') = (if T' i = None then None else Some i)"
proof -
  have ok: "timers_ok (setTimer i ms r T)"
    by (rule timers_ok_set, rule timer_run_ok [OF assms(1)]) simp
  from assms(2) have run: "timer_run (setTimer i ms r T) ops T'" by auto
  have "timers_ok T'" by (rule timer_run_ok [OF run ok])
  then have "map_option fst (timer_cb i T') = (if T' i = None then None else Some i)"
    by (cases "T' i") (auto simp: timer_cb_def fire_onTimer_def timers_ok_def Let_def)
  then show ?thesis
    using timer_run_as_set [OF run ok setTimer_armed assms(3)]
    unfolding timer_left_def armed_def MAKE_TIMEVAL_MSEC_def by (elim conjE, intro conjI) assumption+
qed

theorem timer_fires_as_set_witness:
  "\<exists>T'. timer_run Map.empty [Set_Timer 7 1500 True, Fire_Timer 7, Set_Timer 9 50 False] T'
     \<and> T' 7 = Some \<lparr>tm_repeat = True, tm_tv = (1, 500000), tm_pending = True\<rparr>"
proof -
  let ?T = "setTimer 7 1500 True Map.empty"
  have f: "timer_cb 7 ?T = Some (7, ?T)"
    by (simp add: timer_cb_iff timers_ok_set active_None [symmetric])
  have r: "timer_run Map.empty (Set_Timer 7 1500 True # [Fire_Timer 7, Set_Timer 9 50 False]) (setTimer 9 50 False ?T)"
    by (rule run_set, rule run_fire [OF f], rule run_set, rule run_Nil)
  have "\<forall>op\<in>set [Fire_Timer 7, Set_Timer 9 50 False]. \<not> sets_timer 7 op" by simp
  from timer_fires_as_set [OF run_Nil r this]
  show ?thesis by (intro exI [of _ "setTimer 9 50 False ?T"] conjI r) simp
qed

section \<open>The user's timers\<close>

text \<open>\<open>id\<close> is an unsigned short; the timer object is made when it is first needed.\<close>

definition BaseController_setTimer :: "16 word \<Rightarrow> nat \<Rightarrow> bool \<Rightarrow> timers option \<Rightarrow> timers option" where
  "BaseController_setTimer i msec repeat t =
    Some (setTimer (uint i) msec repeat (case t of None \<Rightarrow> Map.empty | Some T \<Rightarrow> T))"

definition BaseController_killTimer :: "16 word \<Rightarrow> timers option \<Rightarrow> timers option" where
  "BaseController_killTimer i t =
    Some (killTimer (uint i) (case t of None \<Rightarrow> Map.empty | Some T \<Rightarrow> T))"

lemma short_and_internal: "and (uint (i :: 16 word)) INTERNAL_TIMER_BIT = 0"
proof (rule bit_eqI)
  fix n
  have "\<not> bit (uint i) 30" by (simp add: bit_uint_iff)
  moreover have "bit INTERNAL_TIMER_BIT n \<longleftrightarrow> n = 30"
    using bit_exp_iff [of 30 n, where 'a = int] by (auto simp: INTERNAL_TIMER_BIT_def)
  ultimately show "bit (and (uint i) INTERNAL_TIMER_BIT) n \<longleftrightarrow> bit (0::int) n"
    by (auto simp: bit_and_iff)
qed

text \<open>
  A timer of the user is kept apart from the internal ones: whatever its number, it does not
  touch the reconnect timer, and when it fires the user's handler gets the number it was set
  with, while the reconnect timer never reaches the user.
\<close>

theorem user_timers_kept_apart:
  "uint (i :: 16 word) \<noteq> TIMERID_RECONNECT
   \<and> the (BaseController_setTimer i msec rep (Some T)) TIMERID_RECONNECT = T TIMERID_RECONNECT
   \<and> the (BaseController_killTimer i (Some T)) TIMERID_RECONNECT = T TIMERID_RECONNECT
   \<and> onTimer_Timer throws (uint i) c = emit [OnTimer (uint i)] c
   \<and> BaseController_onTimer_Timer TIMERID_RECONNECT c = c"
proof -
  have lt: "uint i < 65536" using uint_lt2p [of i] by simp
  then have ne: "uint i \<noteq> TIMERID_RECONNECT" by (auto simp: TIMERID_RECONNECT_def)
  have "onTimer_Timer throws (uint i) c = emit [OnTimer (uint i)] c"
    using ne lt by (simp add: onTimer_Timer_def BaseController_onTimer_Timer_def short_and_internal)
  moreover have "BaseController_onTimer_Timer TIMERID_RECONNECT c = c"
    by (simp add: BaseController_onTimer_Timer_def TIMERID_RECONNECT_def INTERNAL_TIMER_BIT_def)
  ultimately show ?thesis using ne
    by (auto simp: BaseController_setTimer_def BaseController_killTimer_def setTimer_def killTimer_def
        Let_def split: option.splits)
qed

end
