(* ===== verification/HttpServer.thy ===== *)
theory HttpServer
  imports HttpRequest Timers
begin

text \<open>
  The HTTP server: \<^verbatim>\<open>HttpServer.cpp\<close> and \<^verbatim>\<open>LibeventHttpServerImpl.h\<close>, with the life of the
  requests (\<^verbatim>\<open>LibeventHttpRequestImpl.h\<close>). An \<open>HttpRequest\<close> is counted: it lives while the
  server's \<open>requests_\<close>, the user or a call holds a pointer to it, and its destructor frees the
  \<open>evhttp_request\<close> it still has. \<open>fixed\<close> is \<^verbatim>\<open>HAVE_LIBEVENT_GUNOODADDY_FIX\<close>, a libevent
  that calls back when it frees a request. Of libevent the state keeps the \<open>evhttp_request\<close>s
  that are not freed, each with whether a reply has been handed to it; using one that is freed
  is undefined. A request and its object have the same number, which may be used again.
\<close>

datatype http_event =
    HsInitialized
  | HsDocumentRequest nat
  | HsDestroyRequest nat
  | HsTimer int

record http_server =
  hs_handler :: bool
  hs_http :: bool
  hs_bound :: bool
  hs_timers :: "timers option"
  hs_requests :: "nat list"
  hs_objs :: "nat \<rightharpoonup> http_request"
  hs_held :: "nat list"
  hs_evreqs :: "nat \<rightharpoonup> bool"
  hs_fs :: fsys
  hs_log :: "http_event list"

definition newHttpServer :: "bool \<Rightarrow> fsys \<Rightarrow> http_server" where
  "newHttpServer handler fs =
    \<lparr>hs_handler = handler, hs_http = False, hs_bound = False, hs_timers = None, hs_requests = [],
     hs_objs = Map.empty, hs_held = [], hs_evreqs = Map.empty, hs_fs = fs, hs_log = []\<rparr>"

definition hs_emit :: "http_event \<Rightarrow> http_server \<Rightarrow> http_server" where
  "hs_emit e s = s\<lparr>hs_log := hs_log s @ [e]\<rparr>"

section \<open>Listening and timers\<close>

definition fire_onHttpServer_Initialized :: "http_server \<Rightarrow> http_server" where
  "fire_onHttpServer_Initialized s = (if hs_handler s then hs_emit HsInitialized s else s)"

text \<open>\<open>bound\<close>: whether libevent could bind the port.\<close>

definition http_server_listen :: "bool \<Rightarrow> http_server \<Rightarrow> (unit, http_server) res" where
  "http_server_listen bound s =
    (let s = s\<lparr>hs_http := True, hs_bound := bound\<rparr> in
     if \<not> bound then (Inl (SocketException ''couldn't bind to port for http server''), s)
     else (Inr (), fire_onHttpServer_Initialized s))"

definition http_server_makeTimer :: "http_server \<Rightarrow> http_server" where
  "http_server_makeTimer s = (if hs_timers s = None then s\<lparr>hs_timers := Some Map.empty\<rparr> else s)"

definition http_server_setTimer :: "int \<Rightarrow> nat \<Rightarrow> bool \<Rightarrow> http_server \<Rightarrow> http_server" where
  "http_server_setTimer tid msec repeat s =
    (let s = http_server_makeTimer s in
     s\<lparr>hs_timers := map_option (setTimer (tid mod 65536) msec repeat) (hs_timers s)\<rparr>)"

definition http_server_killTimer :: "int \<Rightarrow> http_server \<Rightarrow> http_server" where
  "http_server_killTimer tid s =
    (let s = http_server_makeTimer s in
     s\<lparr>hs_timers := map_option (killTimer (tid mod 65536)) (hs_timers s)\<rparr>)"

text \<open>The handler is called without asking whether there is one.\<close>

definition http_server_onTimer :: "int \<Rightarrow> http_server \<Rightarrow> (unit, http_server) res" where
  "http_server_onTimer tid s =
    (if and tid INTERNAL_TIMER_BIT = 0 then
       (if hs_handler s then (Inr (), hs_emit (HsTimer (tid mod 65536)) s)
        else (Inl (Undef ''handler_ is NULL''), s))
     else (Inr (), s))"

definition http_server_removeTimer :: "http_server \<Rightarrow> http_server" where
  "http_server_removeTimer s = s\<lparr>hs_timers := None\<rparr>"

section \<open>The life of a request\<close>

text \<open>
  The destructor of a request. With the fix \<open>evhttp_request_free\<close> calls \<open>request_free_cb\<close>,
  which asks the dying object for a counted pointer to itself.
\<close>

definition request_destroy :: "bool \<Rightarrow> nat \<Rightarrow> http_server \<Rightarrow> (unit, http_server) res" where
  "request_destroy fixed r s =
    (case hs_objs s r of
       None \<Rightarrow> (Inl (Undef ''request deleted twice''), s)
     | Some q \<Rightarrow>
         (let s = s\<lparr>hs_objs := (hs_objs s)(r := None)\<rparr> in
          if q_req q = None then (Inr (), s)
          else if hs_evreqs s r = None then (Inl (Undef ''evhttp_request freed twice''), s)
          else
            (let s = s\<lparr>hs_evreqs := (hs_evreqs s)(r := None)\<rparr> in
             if fixed then (Inl (Undef ''bad_weak_ptr out of a destructor''), s) else (Inr (), s))))"

text \<open>A pointer to the request goes out of scope.\<close>

definition drop_pointer :: "bool \<Rightarrow> nat \<Rightarrow> http_server \<Rightarrow> (unit, http_server) res" where
  "drop_pointer fixed r s =
    (if r \<in> set (hs_requests s) \<or> r \<in> set (hs_held s) then (Inr (), s) else request_destroy fixed r s)"

text \<open>What a user's handler does with a request: it may answer it and may keep its pointer.\<close>

record reaction =
  ra_reply :: "(int \<times> string \<times> string) option"
  ra_keep :: bool

definition http_send_reply :: "nat \<Rightarrow> int \<Rightarrow> string \<Rightarrow> string \<Rightarrow> http_server \<Rightarrow> (bool, http_server) res" where
  "http_send_reply r code reason dat s =
    (case hs_objs s r of
       None \<Rightarrow> (Inl (Undef ''request used after it was deleted''), s)
     | Some q \<Rightarrow>
         (if q_req q \<noteq> None \<and> hs_evreqs s r = None then (Inl (Undef ''reply to a freed evhttp_request''), s)
          else
            (case sendReplyData code reason dat q of
               (b, q') \<Rightarrow>
                 (Inr b, s\<lparr>hs_objs := (hs_objs s)(r \<mapsto> q'),
                           hs_evreqs := (if b then (hs_evreqs s)(r \<mapsto> True) else hs_evreqs s)\<rparr>))))"

definition react :: "reaction \<Rightarrow> nat \<Rightarrow> http_server \<Rightarrow> (unit, http_server) res" where
  "react a r s =
    bindR (case ra_reply a of
             None \<Rightarrow> (Inr False, s)
           | Some (code, reason, dat) \<Rightarrow> http_send_reply r code reason dat s) (\<lambda>_ s.
    (Inr (), if ra_keep a then s\<lparr>hs_held := set_insert r (hs_held s)\<rparr> else s))"

definition fire_onHttpServer_DocumentRequest ::
  "bool \<Rightarrow> reaction \<Rightarrow> nat \<Rightarrow> http_server \<Rightarrow> (unit, http_server) res" where
  "fire_onHttpServer_DocumentRequest fixed a r s =
    bindR (if hs_handler s then react a r (hs_emit (HsDocumentRequest r) s) else (Inr (), s)) (\<lambda>_ s.
    (Inr (), if fixed then s\<lparr>hs_requests := set_insert r (hs_requests s)\<rparr> else s))"

text \<open>The handler of \<open>DestroyRequest\<close> may give up the pointer it keeps.\<close>

definition fire_onHttpServer_DestroyRequest :: "bool \<Rightarrow> nat \<Rightarrow> http_server \<Rightarrow> http_server" where
  "fire_onHttpServer_DestroyRequest gives_up r s =
    (let s = (if hs_handler s then hs_emit (HsDestroyRequest r)
                (if gives_up then s\<lparr>hs_held := set_erase r (hs_held s)\<rparr> else s) else s)
     in s\<lparr>hs_requests := set_erase r (hs_requests s)\<rparr>)"

text \<open>A request arrives: \<open>http_path_callback\<close>; \<open>request\<close> is a local pointer.\<close>

definition fire_onDocumentCallback ::
  "bool \<Rightarrow> req_env \<Rightarrow> reaction \<Rightarrow> nat \<Rightarrow> in_request \<Rightarrow> http_server \<Rightarrow> (unit, http_server) res" where
  "fire_onDocumentCallback fixed env a r req s =
    (case isValidRequest env (newHttpRequest req (hs_fs s)) of
       (valid, q) \<Rightarrow>
         (let s = s\<lparr>hs_objs := (hs_objs s)(r \<mapsto> q)\<rparr> in
          bindR (if valid then fire_onHttpServer_DocumentRequest fixed a r s else (Inr (), s)) (\<lambda>_.
          drop_pointer fixed r)))"

text \<open>libevent frees a request: with the fix it calls \<open>request_free_cb\<close>.\<close>

definition request_free_cb :: "bool \<Rightarrow> nat \<Rightarrow> http_server \<Rightarrow> (unit, http_server) res" where
  "request_free_cb gives_up r s =
    (case hs_objs s r of
       None \<Rightarrow> (Inl (Undef ''request used after it was deleted''), s)
     | Some q \<Rightarrow>
         (let s = s\<lparr>hs_objs := (hs_objs s)(r \<mapsto> q\<lparr>q_req := None\<rparr>)\<rparr> in
          drop_pointer True r (fire_onHttpServer_DestroyRequest gives_up r s)))"

text \<open>
  The destructor of the server: the timer, the set of requests, and with the implementation
  libevent's server.
\<close>

fun drop_pointers :: "bool \<Rightarrow> nat list \<Rightarrow> http_server \<Rightarrow> (unit, http_server) res" where
  "drop_pointers fixed [] s = (Inr (), s)"
| "drop_pointers fixed (r # rs) s = bindR (drop_pointer fixed r s) (\<lambda>_. drop_pointers fixed rs)"

definition http_server_destroy :: "bool \<Rightarrow> http_server \<Rightarrow> (unit, http_server) res" where
  "http_server_destroy fixed s =
    bindR (drop_pointers fixed (hs_requests s) ((http_server_removeTimer s)\<lparr>hs_requests := []\<rparr>)) (\<lambda>_ s.
    (Inr (), s\<lparr>hs_http := False, hs_bound := False\<rparr>))"

section \<open>Runs of a server\<close>

text \<open>
  libevent frees a request once its reply is sent; the code owns its requests
  (\<open>evhttp_request_own\<close>), so a lost connection frees one only with the fix, which tells. The
  user answers and releases requests it keeps.
\<close>

datatype http_step =
    HsArrive nat in_request reaction
  | HsReply nat int string string
  | HsRelease nat
  | HsFree nat bool

fun http_do :: "bool \<Rightarrow> req_env \<Rightarrow> http_step \<Rightarrow> http_server \<Rightarrow> (unit, http_server) res" where
  "http_do fixed env (HsArrive r req a) s =
     fire_onDocumentCallback fixed env a r req (s\<lparr>hs_evreqs := (hs_evreqs s)(r \<mapsto> False)\<rparr>)"
| "http_do fixed env (HsReply r code reason dat) s =
     bindR (http_send_reply r code reason dat s) (\<lambda>_ s. (Inr (), s))"
| "http_do fixed env (HsRelease r) s =
     drop_pointer fixed r (s\<lparr>hs_held := set_erase r (hs_held s)\<rparr>)"
| "http_do fixed env (HsFree r gives_up) s =
     (let s = s\<lparr>hs_evreqs := (hs_evreqs s)(r := None)\<rparr> in
      if fixed then request_free_cb gives_up r s else (Inr (), s))"

fun http_can :: "bool \<Rightarrow> req_env \<Rightarrow> http_step \<Rightarrow> http_server \<Rightarrow> bool" where
  "http_can fixed env (HsArrive r req a) s \<longleftrightarrow>
     hs_evreqs s r = None \<and> hs_objs s r = None
     \<and> (fixed \<longrightarrow> fst (isValidRequest env (newHttpRequest req (hs_fs s))))"
| "http_can fixed env (HsReply r code reason dat) s \<longleftrightarrow> r \<in> set (hs_held s)"
| "http_can fixed env (HsRelease r) s \<longleftrightarrow> r \<in> set (hs_held s)"
| "http_can fixed env (HsFree r gives_up) s \<longleftrightarrow>
     (case hs_evreqs s r of None \<Rightarrow> False | Some replied \<Rightarrow> replied \<or> fixed)"

inductive http_reachable :: "bool \<Rightarrow> req_env \<Rightarrow> http_server \<Rightarrow> bool" for fixed env where
  http_start: "http_reachable fixed env (newHttpServer handler fs)"
| http_next: "http_reachable fixed env s \<Longrightarrow> http_can fixed env st s \<Longrightarrow>
    http_do fixed env st s = (Inr (), s') \<Longrightarrow> http_reachable fixed env s'"

section \<open>Requests live until they are freed\<close>

text \<open>
  \<open>ps\<close> are the pointers a running call holds: with them every object is counted, and with the
  fix the server's set is what libevent has not freed.
\<close>

definition http_counted :: "nat set \<Rightarrow> bool \<Rightarrow> http_server \<Rightarrow> bool" where
  "http_counted ps fixed s \<longleftrightarrow>
     (\<forall>r. hs_evreqs s r = Some False \<longleftrightarrow> (\<exists>q. hs_objs s r = Some q \<and> q_req q \<noteq> None))
     \<and> dom (hs_objs s) = set (hs_requests s) \<union> set (hs_held s) \<union> ps
     \<and> set (hs_requests s) = (if fixed then dom (hs_evreqs s) else {})"

abbreviation http_inv :: "bool \<Rightarrow> http_server \<Rightarrow> bool" where
  "http_inv \<equiv> http_counted {}"

lemma http_countedD:
  assumes "http_counted ps fixed s"
  shows "hs_evreqs s r = Some False \<longleftrightarrow> (\<exists>q. hs_objs s r = Some q \<and> q_req q \<noteq> None)"
    "(\<exists>q. hs_objs s r = Some q) \<longleftrightarrow> r \<in> set (hs_requests s) \<or> r \<in> set (hs_held s) \<or> r \<in> ps"
    "r \<in> set (hs_requests s) \<longleftrightarrow> fixed \<and> hs_evreqs s r \<noteq> None"
  using assms unfolding http_counted_def set_eq_iff Un_iff dom_def by auto

lemma http_countedI:
  assumes "\<And>r. hs_evreqs s r = Some False \<longleftrightarrow> (\<exists>q. hs_objs s r = Some q \<and> q_req q \<noteq> None)"
    "\<And>r. (\<exists>q. hs_objs s r = Some q) \<longleftrightarrow> r \<in> set (hs_requests s) \<or> r \<in> set (hs_held s) \<or> r \<in> ps"
    "\<And>r. r \<in> set (hs_requests s) \<longleftrightarrow> fixed \<and> hs_evreqs s r \<noteq> None"
  shows "http_counted ps fixed s"
  using assms unfolding http_counted_def set_eq_iff Un_iff dom_def by auto

lemma hs_emit_fields [simp]:
  "hs_objs (hs_emit e s) = hs_objs s" "hs_evreqs (hs_emit e s) = hs_evreqs s"
  "hs_requests (hs_emit e s) = hs_requests s" "hs_held (hs_emit e s) = hs_held s"
  "hs_handler (hs_emit e s) = hs_handler s" "hs_fs (hs_emit e s) = hs_fs s"
  by (simp_all add: hs_emit_def)

lemma isValidRequest_req: "isValidRequest env q = (b, q') \<Longrightarrow> q_req q' = q_req q"
  by (auto simp: isValidRequest_def parseUri_def Let_def split: if_splits option.splits)

lemma send_reply_inv:
  assumes inv: "http_inv fixed s" and held: "r \<in> set (hs_held s)"
  shows "\<exists>b s'. http_send_reply r code reason dat s = (Inr b, s') \<and> http_inv fixed s'"
proof -
  note D = http_countedD [OF inv]
  obtain q where q: "hs_objs s r = Some q" using D(2) [of r] held by auto
  show ?thesis
  proof (cases "q_req q")
    case None
    then have "http_send_reply r code reason dat s = (Inr False, s)"
      using q by (simp add: http_send_reply_def sendReplyData_def fun_upd_idem)
    then show ?thesis using inv by blast
  next
    case (Some x)
    then have "hs_evreqs s r = Some False" using D(1) [of r] q by auto
    then have "http_send_reply r code reason dat s = (Inr True, s\<lparr>
        hs_objs := (hs_objs s)(r \<mapsto> snd (sendReplyData code reason dat q)), hs_evreqs := (hs_evreqs s)(r \<mapsto> True)\<rparr>)"
      (is "_ = (_, ?s')")
      using q Some by (simp add: http_send_reply_def sendReplyData_def)
    moreover have "http_inv fixed ?s'"
      using D Some q held by (intro http_countedI) (auto simp: sendReplyData_def)
    ultimately show ?thesis by blast
  qed
qed

lemma arrive_reacts:
  assumes "hs_objs s r = Some q" "q_req q \<noteq> None" "hs_evreqs s r = Some False"
  shows "\<exists>s' q' b. react a r s = (Inr (), s') \<and> hs_objs s' = (hs_objs s)(r \<mapsto> q')
    \<and> hs_evreqs s' = (hs_evreqs s)(r \<mapsto> b) \<and> (b \<longleftrightarrow> q_req q' = None)
    \<and> hs_requests s' = hs_requests s \<and> set (hs_held s') = set (hs_held s) \<union> (if ra_keep a then {r} else {})"
  using assms
proof (cases "ra_reply a")
  case None
  then show ?thesis using assms
    by (intro exI [of _ "snd (react a r s)"] exI [of _ q] exI [of _ False])
      (auto simp: react_def fun_upd_idem)
next
  case (Some x)
  then show ?thesis using assms by (auto simp: react_def http_send_reply_def sendReplyData_def)
qed

lemma drop_inv:
  assumes inv: "http_counted {r} fixed s"
  shows "\<exists>s'. drop_pointer fixed r s = (Inr (), s') \<and> http_inv fixed s'"
proof (cases "r \<in> set (hs_requests s) \<or> r \<in> set (hs_held s)")
  case True
  then have "http_inv fixed s" using http_countedD [OF inv] by (intro http_countedI) auto
  then show ?thesis using True by (simp add: drop_pointer_def)
next
  case False
  note D = http_countedD [OF inv]
  obtain q where q: "hs_objs s r = Some q" using D(2) [of r] by auto
  show ?thesis
  proof (cases "q_req q")
    case None
    then have "drop_pointer fixed r s = (Inr (), s\<lparr>hs_objs := (hs_objs s)(r := None)\<rparr>)"
      using False q by (simp add: drop_pointer_def request_destroy_def)
    moreover have "http_inv fixed (s\<lparr>hs_objs := (hs_objs s)(r := None)\<rparr>)"
      using D False q None by (intro http_countedI) auto
    ultimately show ?thesis by blast
  next
    case (Some x)
    then have e: "hs_evreqs s r = Some False" using D(1) [of r] q by auto
    then have "\<not> fixed" using D(3) [of r] False by auto
    then have "drop_pointer fixed r s = (Inr (), s\<lparr>hs_objs := (hs_objs s)(r := None), hs_evreqs := (hs_evreqs s)(r := None)\<rparr>)"
      (is "_ = (_, ?s')")
      using False q Some e by (simp add: drop_pointer_def request_destroy_def)
    moreover have "http_inv fixed ?s'"
      using D False q \<open>\<not> fixed\<close> by (intro http_countedI) auto
    ultimately show ?thesis by blast
  qed
qed

lemma request_arrives:
  assumes inv: "http_inv fixed s" and free: "hs_evreqs s r = None" "hs_objs s r = None"
    and valid: "fixed \<Longrightarrow> v"
    and s1: "s1 = s\<lparr>hs_evreqs := (hs_evreqs s)(r \<mapsto> False), hs_objs := (hs_objs s)(r \<mapsto> q)\<rparr>" "q_req q \<noteq> None"
  shows "\<exists>s'. (if v then fire_onHttpServer_DocumentRequest fixed a r s1 else (Inr (), s1)) = (Inr (), s')
    \<and> http_counted {r} fixed s'"
proof (cases v)
  case False
  moreover have "http_counted {r} fixed s1"
    using http_countedD [OF inv] free s1 False valid by (intro http_countedI) auto
  ultimately show ?thesis by simp
next
  case True
  note D = http_countedD [OF inv]
  have "r \<notin> set (hs_requests s)" "r \<notin> set (hs_held s)" using D(2) [of r] free(2) by auto
  obtain s2 q' b k where s2: "(if hs_handler s1 then react a r (hs_emit (HsDocumentRequest r) s1) else (Inr (), s1)) = (Inr (), s2)"
      "hs_objs s2 = (hs_objs s)(r \<mapsto> q')" "hs_evreqs s2 = (hs_evreqs s)(r \<mapsto> b)"
      "b \<longleftrightarrow> q_req q' = None" "hs_requests s2 = hs_requests s"
      "set (hs_held s2) = set (hs_held s) \<union> (if k then {r} else {})"
  proof (cases "hs_handler s")
    case True
    then show ?thesis
      using arrive_reacts [of "hs_emit (HsDocumentRequest r) s1" r q a] s1 that by auto
  next
    case False
    then show ?thesis using s1 that [of s1 q False False] by simp
  qed
  have "http_counted {r} fixed (if fixed then s2\<lparr>hs_requests := set_insert r (hs_requests s2)\<rparr> else s2)"
    using D s2(2-6) free by (intro http_countedI) auto
  then show ?thesis using True s2(1) by (simp add: fire_onHttpServer_DocumentRequest_def)
qed

lemma http_step_ok:
  assumes "http_inv fixed s" "http_can fixed env st s"
  shows "\<exists>s'. http_do fixed env st s = (Inr (), s') \<and> http_inv fixed s'"
proof (cases st)
  case (HsArrive r req a)
  obtain v q where q: "isValidRequest env (newHttpRequest req (hs_fs s)) = (v, q)" by fastforce
  then have "q_req q \<noteq> None" by (auto dest!: isValidRequest_req simp: newHttpRequest_def)
  moreover have "hs_evreqs s r = None" "hs_objs s r = None" "fixed \<Longrightarrow> v" using assms(2) HsArrive q by auto
  ultimately obtain s' where
    "(if v then fire_onHttpServer_DocumentRequest fixed a r
        (s\<lparr>hs_evreqs := (hs_evreqs s)(r \<mapsto> False), hs_objs := (hs_objs s)(r \<mapsto> q)\<rparr>)
      else (Inr (), s\<lparr>hs_evreqs := (hs_evreqs s)(r \<mapsto> False), hs_objs := (hs_objs s)(r \<mapsto> q)\<rparr>)) = (Inr (), s')"
    "http_counted {r} fixed s'"
    using request_arrives [OF assms(1), of r v _ q] by blast
  then show ?thesis using drop_inv HsArrive q by (simp add: fire_onDocumentCallback_def)
next
  case (HsReply r code reason dat)
  then show ?thesis using send_reply_inv [OF assms(1), of r code reason dat] assms(2) by auto
next
  case (HsRelease r)
  then have "http_counted {r} fixed (s\<lparr>hs_held := set_erase r (hs_held s)\<rparr>)"
    using http_countedD [OF assms(1)] assms(2) by (intro http_countedI) auto
  then show ?thesis using drop_inv HsRelease by simp
next
  case (HsFree r gives_up)
  note D = http_countedD [OF assms(1)]
  obtain b where b: "hs_evreqs s r = Some b" "b \<or> fixed" using assms(2) HsFree by (auto split: option.splits)
  show ?thesis
  proof (cases fixed)
    case False
    have "http_inv fixed (s\<lparr>hs_evreqs := (hs_evreqs s)(r := None)\<rparr>)"
    proof (rule http_countedI)
      fix x
      show "hs_evreqs (s\<lparr>hs_evreqs := (hs_evreqs s)(r := None)\<rparr>) x = Some False
          \<longleftrightarrow> (\<exists>q. hs_objs (s\<lparr>hs_evreqs := (hs_evreqs s)(r := None)\<rparr>) x = Some q \<and> q_req q \<noteq> None)"
        using D(1) [of x] b False by auto
    qed (use D(2,3) False in simp_all)
    then show ?thesis using HsFree False by simp
  next
    case True
    obtain q where q: "hs_objs s r = Some q" using D(2,3) [of r] b(1) True by auto
    let ?s = "fire_onHttpServer_DestroyRequest gives_up r
      (s\<lparr>hs_evreqs := (hs_evreqs s)(r := None), hs_objs := (hs_objs s)(r \<mapsto> q\<lparr>q_req := None\<rparr>)\<rparr>)"
    have "http_counted {r} fixed ?s"
      using D True q by (intro http_countedI) (auto simp: fire_onHttpServer_DestroyRequest_def)
    then show ?thesis using drop_inv [of r fixed ?s] HsFree True q by (simp add: request_free_cb_def)
  qed
qed

lemma http_reachable_inv: "http_reachable fixed env s \<Longrightarrow> http_inv fixed s"
proof (induction rule: http_reachable.induct)
  case (http_next s st s')
  then show ?case using http_step_ok [of fixed s env st] by auto
qed (simp add: http_counted_def newHttpServer_def)

section \<open>Properties\<close>

text \<open>
  C12: The life of a request, with or without the libevent that tells when it frees one (\<open>fixed\<close>).
  Requests arrive under new addresses, and with the fix only valid ones, whose URI libevent can
  parse (an invalid one is fatal there, see \<open>http_invalid_request_fatal\<close>); the user answers and
  releases the requests he keeps, in any order; libevent frees a request that is answered and,
  with the fix, also one that is not. In every state such steps reach, no further one of them
  fails or touches a request that is freed or an object that is deleted. Afterwards a request
  that libevent has not freed and nobody has answered has its object and can still be
  answered; an object lives exactly as long as the server or the user holds it; and with the
  fix the server holds exactly what libevent has not freed.
\<close>

theorem http_requests_live:
  assumes "http_reachable fixed env s" "http_can fixed env st s"
  shows "\<exists>s'. http_do fixed env st s = (Inr (), s')
    \<and> (\<forall>r. hs_evreqs s' r = Some False \<longleftrightarrow> (\<exists>q. hs_objs s' r = Some q \<and> q_req q \<noteq> None))
    \<and> dom (hs_objs s') = set (hs_requests s') \<union> set (hs_held s')
    \<and> set (hs_requests s') = (if fixed then dom (hs_evreqs s') else {})"
  using http_step_ok [OF http_reachable_inv [OF assms(1)] assms(2)] by (auto simp: http_counted_def)

definition plain_env :: req_env where
  "plain_env = \<lparr>req_uri_parse = \<lambda>u _. Some (Some u), req_parse_query = \<lambda>_. None,
     req_parse_query_str = \<lambda>_. None, can_create = \<lambda>_. False\<rparr>"

definition plain_request :: in_request where
  "plain_request = \<lparr>ev_command = EVHTTP_REQ_GET, ev_headers = [], ev_uri = ''/a'', ev_input = []\<rparr>"

text \<open>A request is kept without an answer, its connection is lost, and the user gives it up.\<close>

theorem http_requests_live_witness:
  "\<exists>s s'. http_reachable True plain_env s \<and> hs_evreqs s 3 = Some False
     \<and> http_do True plain_env (HsFree 3 True) s = (Inr (), s')
     \<and> dom (hs_objs s') = set (hs_requests s') \<union> set (hs_held s')
     \<and> set (hs_requests s') = dom (hs_evreqs s')"
proof -
  let ?st = "HsArrive 3 plain_request \<lparr>ra_reply = None, ra_keep = True\<rparr>"
  define s where "s = snd (http_do True plain_env ?st (newHttpServer True []))"
  have valid: "isValidRequest plain_env (newHttpRequest plain_request [])
      = (True, (newHttpRequest plain_request [])\<lparr>req_evuri := Some (Some ''/a'')\<rparr>)"
    by (simp add: isValidRequest_def parseUri_def newHttpRequest_def plain_env_def plain_request_def http_uri_def)
  have s: "http_do True plain_env ?st (newHttpServer True []) = (Inr (), s)" "hs_evreqs s 3 = Some False"
    by (simp_all add: s_def newHttpServer_def valid fire_onDocumentCallback_def react_def
        fire_onHttpServer_DocumentRequest_def drop_pointer_def)
  have "http_reachable True plain_env s"
    by (rule http_next [OF http_start _ s(1)]) (simp add: newHttpServer_def valid)
  moreover have "http_can True plain_env (HsFree 3 True) s" using s(2) by simp
  ultimately show ?thesis
    using http_requests_live [of True plain_env s "HsFree 3 True"] s(2) by auto
qed

text \<open>
  With the fix, a request whose URI cannot be parsed brings the server down: its object is
  dropped at once, frees the request, and is asked for a pointer to itself while it dies.
\<close>

theorem http_invalid_request_fatal:
  assumes "\<not> fst (isValidRequest env (newHttpRequest req (hs_fs s)))"
    and "hs_objs s r = None" "r \<notin> set (hs_requests s)" "r \<notin> set (hs_held s)"
  shows "fst (http_do True env (HsArrive r req a) s) = Inl (Undef ''bad_weak_ptr out of a destructor'')"
proof -
  obtain q where q: "isValidRequest env (newHttpRequest req (hs_fs s)) = (False, q)"
    using assms(1) by (metis (full_types) prod.collapse)
  then have "q_req q \<noteq> None" by (auto dest!: isValidRequest_req simp: newHttpRequest_def)
  then show ?thesis
    using assms(2-4) q by (simp add: fire_onDocumentCallback_def drop_pointer_def request_destroy_def Let_def)
qed

theorem http_invalid_request_fatal_witness:
  "fst (http_do True (plain_env\<lparr>req_uri_parse := \<lambda>_ _. None\<rparr>)
     (HsArrive 3 plain_request \<lparr>ra_reply = None, ra_keep = True\<rparr>) (newHttpServer True []))
   = Inl (Undef ''bad_weak_ptr out of a destructor'')"
  by (rule http_invalid_request_fatal)
    (simp_all add: isValidRequest_def parseUri_def newHttpRequest_def plain_env_def newHttpServer_def)

text \<open>So does the end of a server that still waits for an answer.\<close>

theorem http_server_destroy_waiting_fatal:
  assumes "http_reachable True env s" "hs_requests s = r # rs" "r \<notin> set (hs_held s)"
    and "hs_evreqs s r = Some False"
  shows "fst (http_server_destroy True s) = Inl (Undef ''bad_weak_ptr out of a destructor'')"
proof -
  obtain q where q: "hs_objs s r = Some q" "q_req q \<noteq> None"
    using http_countedD(1) [OF http_reachable_inv [OF assms(1)], of r] assms(4) by auto
  then show ?thesis using assms(2-4)
    by (auto simp: http_server_destroy_def http_server_removeTimer_def drop_pointer_def request_destroy_def Let_def)
qed

theorem http_server_destroy_waiting_fatal_witness:
  "\<exists>s. http_reachable True plain_env s
     \<and> fst (http_server_destroy True s) = Inl (Undef ''bad_weak_ptr out of a destructor'')"
proof -
  let ?st = "HsArrive 3 plain_request \<lparr>ra_reply = None, ra_keep = False\<rparr>"
  define s where "s = snd (http_do True plain_env ?st (newHttpServer True []))"
  have valid: "isValidRequest plain_env (newHttpRequest plain_request [])
      = (True, (newHttpRequest plain_request [])\<lparr>req_evuri := Some (Some ''/a'')\<rparr>)"
    by (simp add: isValidRequest_def parseUri_def newHttpRequest_def plain_env_def plain_request_def http_uri_def)
  have s: "http_do True plain_env ?st (newHttpServer True []) = (Inr (), s)" "hs_evreqs s 3 = Some False"
    "hs_requests s = [3]" "hs_held s = []"
    by (simp_all add: s_def newHttpServer_def valid fire_onDocumentCallback_def react_def hs_emit_def
        fire_onHttpServer_DocumentRequest_def drop_pointer_def set_insert_def)
  have "http_reachable True plain_env s"
    by (rule http_next [OF http_start _ s(1)]) (simp add: newHttpServer_def valid)
  then show ?thesis using http_server_destroy_waiting_fatal [of plain_env s 3 "[]"] s(2-4) by auto
qed

end
