(* ===== verification/Events.thy ===== *)
theory Events
  imports Prelude
begin

text \<open>
  The observers of a controller, \<^verbatim>\<open>BaseControllerEvent.h\<close> and \<^verbatim>\<open>BaseControllerEvent.cpp\<close>.
  The four event classes have the same operations but \<open>GotResponse\<close>, which keeps a set of
  observers for every ticket; the three others are one definition, over the argument they
  hand on. Controllers are addresses, a \<open>std::set\<close> of them is a strictly sorted list.

  \<open>mounted\<close> is whether the current thread is the one of the observer's service, and
  \<open>handler\<close> what an observer that is called directly does to the observers in its turn. The
  locale \<open>registry\<close> is what firing relies on; both kinds of registry interpret it.
\<close>

type_synonym observers = "nat list"

datatype 'a notification =
    Notify nat nat 'a
  | Defer_Notify nat nat 'a

section \<open>Registration\<close>

definition registerObserver :: "nat \<Rightarrow> observers \<Rightarrow> observers" where
  "registerObserver observer obs = set_insert observer obs"

definition unregisterObserver :: "nat \<Rightarrow> observers \<Rightarrow> observers" where
  "unregisterObserver observer obs = set_erase observer obs"

type_synonym ticket_observers = "int \<rightharpoonup> observers"

definition registerTicketObserver :: "int \<Rightarrow> nat \<Rightarrow> ticket_observers \<Rightarrow> ticket_observers" where
  "registerTicketObserver ticket observer m = (case m ticket of
     Some s \<Rightarrow> m(ticket \<mapsto> set_insert observer s)
   | None \<Rightarrow> m(ticket \<mapsto> set_insert observer []))"

definition unregisterTicketObserver :: "int \<Rightarrow> nat \<Rightarrow> ticket_observers \<Rightarrow> ticket_observers" where
  "unregisterTicketObserver ticket observer m = (case m ticket of
     Some s \<Rightarrow> (let s' = set_erase observer s in if length s' \<le> 0 then m(ticket := None) else m(ticket \<mapsto> s'))
   | None \<Rightarrow> m)"

definition clearObserver :: "int \<Rightarrow> ticket_observers \<Rightarrow> ticket_observers" where
  "clearObserver ticket m = (case m ticket of Some _ \<Rightarrow> m(ticket := None) | None \<Rightarrow> m)"

section \<open>Firing\<close>

text \<open>The loop over the copy \<open>observersTemp\<close>; the registry it works on may change meanwhile.\<close>

fun fire_observers_loop ::
  "(nat \<Rightarrow> bool) \<Rightarrow> (nat \<Rightarrow> 'r \<Rightarrow> 'r) \<Rightarrow> nat \<Rightarrow> 'a \<Rightarrow> observers \<Rightarrow> 'r \<times> 'a notification list \<Rightarrow>
    'r \<times> 'a notification list" where
  "fire_observers_loop mounted handler target arg [] (r, l) = (r, l)"
| "fire_observers_loop mounted handler target arg (it # rest) (r, l) =
    fire_observers_loop mounted handler target arg rest
      (if \<not> mounted it then (r, l @ [Defer_Notify it target arg])
       else (handler it r, l @ [Notify it target arg]))"

definition fireObservers ::
  "(nat \<Rightarrow> bool) \<Rightarrow> (nat \<Rightarrow> observers \<Rightarrow> observers) \<Rightarrow> nat \<Rightarrow> 'a \<Rightarrow> observers \<Rightarrow>
    observers \<times> 'a notification list" where
  "fireObservers mounted handler target arg obs =
    (if length obs > 0 then fire_observers_loop mounted handler target arg obs (obs, []) else (obs, []))"

definition fireTicketObservers ::
  "(nat \<Rightarrow> bool) \<Rightarrow> (nat \<Rightarrow> ticket_observers \<Rightarrow> ticket_observers) \<Rightarrow> nat \<Rightarrow> int \<Rightarrow> ticket_observers \<Rightarrow>
    ticket_observers \<times> int notification list" where
  "fireTicketObservers mounted handler target ticket m = (case m ticket of
     None \<Rightarrow> (m, [])
   | Some s \<Rightarrow> if length s > 0 then fire_observers_loop mounted handler target ticket s (m, []) else (m, []))"

lemma fire_observers_loop_log:
  "snd (fire_observers_loop mounted handler target arg obs (r, l)) =
    l @ map (\<lambda>it. if mounted it then Notify it target arg else Defer_Notify it target arg) obs"
  by (induction mounted handler target arg obs "(r, l)" arbitrary: r l rule: fire_observers_loop.induct) auto

section \<open>The registry\<close>

datatype registration = Register nat | Unregister nat

fun registered :: "registration list \<Rightarrow> nat \<Rightarrow> bool" where
  "registered [] x \<longleftrightarrow> False"
| "registered (Register y # ops) x \<longleftrightarrow> y = x \<or> registered ops x"
| "registered (Unregister y # ops) x \<longleftrightarrow> y \<noteq> x \<and> registered ops x"

locale registry =
  fixes reg unreg :: "nat \<Rightarrow> 'r \<Rightarrow> 'r" and members :: "'r \<Rightarrow> observers"
  assumes members_reg: "members (reg x r) = set_insert x (members r)"
    and members_unreg: "members (unreg x r) = set_erase x (members r)"
begin

lemma members_registered:
  assumes "members r = []"
  shows "sorted (members (foldr (case_registration reg unreg) ops r))
    \<and> distinct (members (foldr (case_registration reg unreg) ops r))
    \<and> set (members (foldr (case_registration reg unreg) ops r)) = {x. registered ops x}"
proof (induction ops)
  case (Cons op ops)
  then show ?case by (cases op) (auto simp: members_reg members_unreg)
qed (simp add: assms)

end

interpretation plain: registry registerObserver unregisterObserver id
  by unfold_locales (simp_all add: registerObserver_def unregisterObserver_def)

definition ticket_members :: "int \<Rightarrow> ticket_observers \<Rightarrow> observers" where
  "ticket_members ticket m = (case m ticket of None \<Rightarrow> [] | Some s \<Rightarrow> s)"

interpretation ticket: registry "registerTicketObserver t" "unregisterTicketObserver t" "ticket_members t" for t
  by unfold_locales
    (auto simp: ticket_members_def registerTicketObserver_def unregisterTicketObserver_def Let_def
      set_erase_def split: option.splits)

lemma fireObservers_log:
  "snd (fireObservers mounted handler target arg obs) =
    map (\<lambda>it. if mounted it then Notify it target arg else Defer_Notify it target arg) obs"
  by (simp add: fireObservers_def fire_observers_loop_log)

lemma fireTicketObservers_log:
  "snd (fireTicketObservers mounted handler target ticket m) =
    map (\<lambda>it. if mounted it then Notify it target ticket else Defer_Notify it target ticket) (ticket_members ticket m)"
  by (auto simp: fireTicketObservers_def ticket_members_def fire_observers_loop_log split: option.splits)

definition notified :: "(nat \<Rightarrow> bool) \<Rightarrow> nat \<Rightarrow> 'a \<Rightarrow> nat set \<Rightarrow> 'a notification list \<Rightarrow> bool" where
  "notified mounted target arg obs l \<longleftrightarrow> distinct l \<and>
     set l = {Notify x target arg |x. x \<in> obs \<and> mounted x} \<union> {Defer_Notify x target arg |x. x \<in> obs \<and> \<not> mounted x}"

lemma notified_map:
  "distinct obs \<Longrightarrow> notified mounted target arg (set obs)
    (map (\<lambda>it. if mounted it then Notify it target arg else Defer_Notify it target arg) obs)"
  by (auto simp: notified_def distinct_map inj_on_def split: if_splits)

text \<open>
  C28: After any registrations and removals, firing an event notifies exactly the observers that
  are registered, each of them once, directly if the thread is that of its service and through
  its deferred caller otherwise, whatever the handlers register or remove meanwhile; the
  event of a ticket notifies the observers of this ticket only.
\<close>

theorem events_notify_registered_once:
  "notified mounted target arg {x. registered ops x}
     (snd (fireObservers mounted handler target arg
       (foldr (case_registration registerObserver unregisterObserver) ops [])))
   \<and> notified mounted target ticket {x. registered ops x}
     (snd (fireTicketObservers mounted handler' target ticket
       (foldr (case_registration (registerTicketObserver ticket) (unregisterTicketObserver ticket)) ops Map.empty)))
   \<and> (other \<noteq> ticket \<longrightarrow> (foldr (case_registration (registerTicketObserver ticket)
       (unregisterTicketObserver ticket)) ops m) other = m other)"
proof -
  have "notified mounted target arg {x. registered ops x}
     (snd (fireObservers mounted handler target arg
       (foldr (case_registration registerObserver unregisterObserver) ops [])))"
    using plain.members_registered [of "[]" ops]
      notified_map [of "foldr (case_registration registerObserver unregisterObserver) ops []" mounted target arg]
    by (simp add: fireObservers_log)
  moreover have "notified mounted target ticket {x. registered ops x}
     (snd (fireTicketObservers mounted handler' target ticket
       (foldr (case_registration (registerTicketObserver ticket) (unregisterTicketObserver ticket)) ops Map.empty)))"
    using ticket.members_registered [of ticket Map.empty ops]
      notified_map [of "ticket_members ticket (foldr (case_registration (registerTicketObserver ticket)
        (unregisterTicketObserver ticket)) ops Map.empty)" mounted target ticket]
    by (simp add: fireTicketObservers_log ticket_members_def)
  moreover have "(foldr (case_registration (registerTicketObserver ticket)
       (unregisterTicketObserver ticket)) ops m) other = m other" if "other \<noteq> ticket"
    using that
    by (induction ops)
      (auto simp: registerTicketObserver_def unregisterTicketObserver_def Let_def
        split: option.splits registration.splits)
  ultimately show ?thesis by blast
qed

theorem events_notify_registered_once_witness:
  "(foldr (case_registration (registerTicketObserver 5) (unregisterTicketObserver 5)) [Register 3] Map.empty) 6
    = (Map.empty :: ticket_observers) 6"
  using events_notify_registered_once [where ticket = 5 and other = 6 and ops = "[Register 3]" and m = Map.empty
      and mounted = "\<lambda>_. True" and target = 0 and arg = "0::nat" and handler = "\<lambda>_ r. r" and handler' = "\<lambda>_ r. r"]
  by simp

text \<open>Clearing a ticket removes all its observers.\<close>

lemma clearObserver_members: "ticket_members t (clearObserver ticket m) = (if t = ticket then [] else ticket_members t m)"
  by (auto simp: ticket_members_def clearObserver_def split: option.splits)

end
