(* ===== verification/Server.thy ===== *)
theory Server
  imports Timers Events
begin

text \<open>
  \<^verbatim>\<open>ServerController.h\<close> and \<^verbatim>\<open>ServerController.cpp\<close>: the set of clients, the clients
  that are to be removed, and the timer that removes them; and the container of services,
  \<^verbatim>\<open>IOServiceContainer.cpp\<close>, that deals new clients out to its services, with the key maker
  of \<^verbatim>\<open>IOService.cpp\<close>.

  Clients are addresses. \<open>mounted\<close> is whether the current thread is the one of a client's
  service; a removal that is deferred to the client's thread waits in \<open>sv_deferred\<close>. What the
  user's \<open>onHookAccept\<close> and \<open>onAccept\<close> answer are arguments. Each operation is one step: the
  lock is held throughout but for the moment in which a call is deferred.
\<close>

section \<open>Server controller\<close>

datatype server_event =
    SetSocket nat
  | SetNotReconnectable nat
  | RegisterObserver nat
  | AttachSocketHandle nat int
  | Install nat
  | OnError int
  | OnClosedConnection nat int
  | OnServerTimer int

record server =
  sv_clients :: "nat list"
  sv_delay :: "nat list"
  sv_timers :: "timers option"
  sv_deferred :: "nat list"
  sv_log :: "server_event list"

definition newServer :: server where
  "newServer = \<lparr>sv_clients = [], sv_delay = [], sv_timers = None, sv_deferred = [], sv_log = []\<rparr>"

definition TIMERID_DELAYED_REMOVE :: int where
  "TIMERID_DELAYED_REMOVE = 1073741825"

definition sv_emit :: "server_event list \<Rightarrow> server \<Rightarrow> server" where
  "sv_emit es v = v\<lparr>sv_log := sv_log v @ es\<rparr>"

definition onDelayedClientRemove :: "nat \<Rightarrow> server \<Rightarrow> server" where
  "onDelayedClientRemove client v = (if client \<in> set (sv_clients v)
     then v\<lparr>sv_clients := set_erase client (sv_clients v)\<rparr> else v)"

fun remove_loop :: "(nat \<Rightarrow> bool) \<Rightarrow> nat list \<Rightarrow> server \<Rightarrow> server" where
  "remove_loop mounted [] v = v"
| "remove_loop mounted (it # rest) v = remove_loop mounted rest
    (if it \<in> set (sv_clients v) then
       if mounted it then v\<lparr>sv_clients := set_erase it (sv_clients v)\<rparr>
       else v\<lparr>sv_deferred := sv_deferred v @ [it]\<rparr>
     else v)"

definition processDelayedRemoveClientFromSet :: "(nat \<Rightarrow> bool) \<Rightarrow> server \<Rightarrow> server" where
  "processDelayedRemoveClientFromSet mounted v = remove_loop mounted (sv_delay v) v\<lparr>sv_delay := []\<rparr>"

definition onConnectionListener_Accept :: "bool \<Rightarrow> nat option \<Rightarrow> int \<Rightarrow> server \<Rightarrow> server" where
  "onConnectionListener_Accept hooked accepted newSocket v =
    (if hooked then v else case accepted of
       None \<Rightarrow> v
     | Some c \<Rightarrow> sv_emit [SetSocket c, SetNotReconnectable c, RegisterObserver c,
                         AttachSocketHandle c newSocket, Install c]
                  (v\<lparr>sv_clients := set_insert c (sv_clients v)\<rparr>))"

definition onConnectionListener_Error :: "int \<Rightarrow> server \<Rightarrow> server" where
  "onConnectionListener_Error err v = sv_emit [OnError err] v"

definition server_onTimer_Timer :: "(nat \<Rightarrow> bool) \<Rightarrow> int \<Rightarrow> server \<Rightarrow> server" where
  "server_onTimer_Timer mounted tid v =
    (if tid = TIMERID_DELAYED_REMOVE then processDelayedRemoveClientFromSet mounted v
     else if and tid INTERNAL_TIMER_BIT = 0 then sv_emit [OnServerTimer (tid mod 65536)] v else v)"

definition server_ClosedConnection :: "nat \<Rightarrow> int \<Rightarrow> server \<Rightarrow> server" where
  "server_ClosedConnection controller err v =
    (let T = (case sv_timers v of None \<Rightarrow> Map.empty | Some T \<Rightarrow> T);
         v1 = v\<lparr>sv_timers := Some (setTimer TIMERID_DELAYED_REMOVE 10 False T)\<rparr>
     in sv_emit [OnClosedConnection controller err]
          (v1\<lparr>sv_delay := set_insert controller (sv_delay v1)\<rparr>))"

definition server_OccuredError :: "nat \<Rightarrow> int \<Rightarrow> server \<Rightarrow> server" where
  "server_OccuredError controller err v = server_ClosedConnection controller err v"

text \<open>The timer event: the map of timers first, then the handler.\<close>

definition server_timer_event :: "(nat \<Rightarrow> bool) \<Rightarrow> int \<Rightarrow> server \<Rightarrow> server option" where
  "server_timer_event mounted tid v = (case sv_timers v of
     None \<Rightarrow> None
   | Some T \<Rightarrow> (case timer_cb tid T of
       None \<Rightarrow> None
     | Some (j, T1) \<Rightarrow> Some (server_onTimer_Timer mounted j (v\<lparr>sv_timers := Some T1\<rparr>))))"

section \<open>Which clients a server keeps\<close>

text \<open>
  The states of a server with two sets beside them: the clients accepted so far, and those of
  them that have closed or failed since. A new controller is not at an address that is still held.
\<close>

inductive server_reachable :: "server \<Rightarrow> nat set \<Rightarrow> nat set \<Rightarrow> bool" where
  init: "server_reachable newServer {} {}"
| hooked: "server_reachable v acc cl \<Longrightarrow>
    server_reachable (onConnectionListener_Accept True a s v) acc cl"
| refused: "server_reachable v acc cl \<Longrightarrow>
    server_reachable (onConnectionListener_Accept False None s v) acc cl"
| accept: "server_reachable v acc cl \<Longrightarrow> c \<notin> set (sv_clients v) \<union> set (sv_delay v) \<union> set (sv_deferred v) \<Longrightarrow>
    server_reachable (onConnectionListener_Accept False (Some c) s v) (insert c acc) (cl - {c})"
| failed: "server_reachable v acc cl \<Longrightarrow> server_reachable (onConnectionListener_Error e v) acc cl"
| closed: "server_reachable v acc cl \<Longrightarrow> server_reachable (server_ClosedConnection c e v) acc (insert c cl)"
| error: "server_reachable v acc cl \<Longrightarrow> server_reachable (server_OccuredError c e v) acc (insert c cl)"
| timer: "server_reachable v acc cl \<Longrightarrow> server_timer_event mounted tid v = Some v' \<Longrightarrow>
    server_reachable v' acc cl"
| user_set: "server_reachable v acc cl \<Longrightarrow>
    server_reachable (v\<lparr>sv_timers := BaseController_setTimer i msec rep (sv_timers v)\<rparr>) acc cl"
| user_kill: "server_reachable v acc cl \<Longrightarrow>
    server_reachable (v\<lparr>sv_timers := BaseController_killTimer i (sv_timers v)\<rparr>) acc cl"
| removal: "server_reachable v acc cl \<Longrightarrow> sv_deferred v = c # rest \<Longrightarrow>
    server_reachable (onDelayedClientRemove c (v\<lparr>sv_deferred := rest\<rparr>)) acc cl"

definition server_inv :: "server \<Rightarrow> nat set \<Rightarrow> nat set \<Rightarrow> bool" where
  "server_inv v acc cl \<longleftrightarrow>
     set (sv_clients v) \<subseteq> acc \<and> acc - cl \<subseteq> set (sv_clients v)
     \<and> set (sv_clients v) \<inter> cl \<subseteq> set (sv_delay v) \<union> set (sv_deferred v)
     \<and> set (sv_delay v) \<union> set (sv_deferred v) \<subseteq> cl
     \<and> (sv_delay v \<noteq> [] \<longrightarrow> (\<exists>T. sv_timers v = Some T \<and> active T TIMERID_DELAYED_REMOVE = Some False))
     \<and> (\<forall>T. sv_timers v = Some T \<longrightarrow> timers_ok T \<and> active T TIMERID_DELAYED_REMOVE \<noteq> Some True)"

lemma sv_emit_fields [simp]:
  "sv_clients (sv_emit es v) = sv_clients v" "sv_delay (sv_emit es v) = sv_delay v"
  "sv_timers (sv_emit es v) = sv_timers v" "sv_deferred (sv_emit es v) = sv_deferred v"
  by (simp_all add: sv_emit_def)

lemma remove_loop_fields:
  "set (sv_clients (remove_loop mounted l v)) = set (sv_clients v) - {c \<in> set l. mounted c}"
  "set (sv_deferred (remove_loop mounted l v)) = set (sv_deferred v) \<union> {c \<in> set l. c \<in> set (sv_clients v) \<and> \<not> mounted c}"
  "sv_timers (remove_loop mounted l v) = sv_timers v"
  by (induction mounted l v rule: remove_loop.induct) auto

lemma server_inv_closed:
  "server_inv v acc cl \<Longrightarrow> server_inv (server_ClosedConnection c e v) acc (insert c cl)"
  by (auto simp: server_inv_def server_ClosedConnection_def Let_def timers_ok_set split: option.splits)

lemma inv_timer:
  assumes inv: "server_inv v acc cl" and ev: "server_timer_event mounted tid v = Some v'"
  shows "server_inv v' acc cl"
proof -
  obtain T where T: "sv_timers v = Some T" and ok: "timers_ok T"
    and once: "active T TIMERID_DELAYED_REMOVE \<noteq> Some True"
    using inv ev by (auto simp: server_timer_event_def server_inv_def split: option.splits)
  obtain j T1 where cb: "timer_cb tid T = Some (j, T1)"
    and v': "v' = server_onTimer_Timer mounted j (v\<lparr>sv_timers := Some T1\<rparr>)"
    using ev T by (auto simp: server_timer_event_def split: option.splits)
  have j: "j = tid" and T1: "T1 = T \<or> T1 = killTimer tid T"
    using timer_cb_iff [OF ok, THEN iffD1, OF cb] by auto
  have ok1: "timers_ok T1" by (rule timers_ok_cb [OF ok cb])
  have act: "active T1 TIMERID_DELAYED_REMOVE \<noteq> Some True"
    "tid \<noteq> TIMERID_DELAYED_REMOVE \<Longrightarrow> active T1 TIMERID_DELAYED_REMOVE = active T TIMERID_DELAYED_REMOVE"
    using T1 once by (auto split: if_splits)
  show ?thesis
  proof (cases "tid = TIMERID_DELAYED_REMOVE")
    case True
    then show ?thesis using inv ok1 act(1)
      by (auto simp: v' j server_onTimer_Timer_def processDelayedRemoveClientFromSet_def
          remove_loop_fields server_inv_def)
  next
    case False
    then show ?thesis using inv ok1 act T
      by (auto simp: v' j server_onTimer_Timer_def server_inv_def)
  qed
qed

lemma inv_user_timer:
  assumes "server_inv v acc cl"
  shows "server_inv (v\<lparr>sv_timers := BaseController_setTimer i msec rep (sv_timers v)\<rparr>) acc cl"
    and "server_inv (v\<lparr>sv_timers := BaseController_killTimer i (sv_timers v)\<rparr>) acc cl"
proof -
  have "uint i \<noteq> TIMERID_DELAYED_REMOVE" using uint_lt2p [of i] by (auto simp: TIMERID_DELAYED_REMOVE_def)
  then show "server_inv (v\<lparr>sv_timers := BaseController_setTimer i msec rep (sv_timers v)\<rparr>) acc cl"
    "server_inv (v\<lparr>sv_timers := BaseController_killTimer i (sv_timers v)\<rparr>) acc cl"
    using assms by (auto simp: server_inv_def BaseController_setTimer_def BaseController_killTimer_def
        timers_ok_set timers_ok_kill active_None split: option.splits)
qed

lemma server_reachable_inv: "server_reachable v acc cl \<Longrightarrow> server_inv v acc cl"
proof (induction rule: server_reachable.induct)
  case (timer v acc cl mounted tid v')
  then show ?case by (blast intro: inv_timer)
next
  case (closed v acc cl c e)
  then show ?case by (blast intro: server_inv_closed)
next
  case (error v acc cl c e)
  then show ?case by (simp add: server_OccuredError_def server_inv_closed)
next
  case (user_set v acc cl i msec rep)
  then show ?case by (blast intro: inv_user_timer)
next
  case (user_kill v acc cl i)
  then show ?case by (blast intro: inv_user_timer)
next
  case (removal v acc cl c rest)
  then show ?case by (auto simp: server_inv_def onDelayedClientRemove_def)
qed (auto simp: server_inv_def newServer_def onConnectionListener_Accept_def onConnectionListener_Error_def)

text \<open>The deferred removals run on the clients' threads.\<close>

definition run_removals :: "server \<Rightarrow> server" where
  "run_removals v = fold onDelayedClientRemove (sv_deferred v) (v\<lparr>sv_deferred := []\<rparr>)"

lemma fold_removals:
  "set (sv_clients (fold onDelayedClientRemove l v)) = set (sv_clients v) - set l"
  by (induction l arbitrary: v) (auto simp: onDelayedClientRemove_def)

text \<open>
  C16: A server keeps every client that has not closed, and drops every client that has: while
  some are to be dropped the removal timer is set, and once it has fired and the removals it has
  deferred to the clients' threads have run, exactly the accepted clients that have not closed
  are left.
\<close>

theorem server_keeps_open_clients:
  assumes "server_reachable v acc cl"
  shows "acc - cl \<subseteq> set (sv_clients v)
    \<and> (sv_delay v \<noteq> [] \<longrightarrow> server_timer_event mounted TIMERID_DELAYED_REMOVE v \<noteq> None)
    \<and> (\<forall>v'. server_timer_event mounted TIMERID_DELAYED_REMOVE v = Some v' \<longrightarrow>
        set (sv_clients (run_removals v')) = acc - cl)"
proof -
  note inv = server_reachable_inv [OF assms]
  have "server_timer_event mounted TIMERID_DELAYED_REMOVE v \<noteq> None" if d: "sv_delay v \<noteq> []"
  proof -
    obtain T where T: "sv_timers v = Some T" "active T TIMERID_DELAYED_REMOVE = Some False" "timers_ok T"
      using inv d unfolding server_inv_def by blast
    then have "timer_cb TIMERID_DELAYED_REMOVE T = Some (TIMERID_DELAYED_REMOVE, killTimer TIMERID_DELAYED_REMOVE T)"
      by (auto simp: timer_cb_iff active_def)
    then show ?thesis using T by (simp add: server_timer_event_def)
  qed
  moreover have "set (sv_clients (run_removals v')) = acc - cl"
    if "server_timer_event mounted TIMERID_DELAYED_REMOVE v = Some v'" for v'
  proof -
    note inv' = inv_timer [OF inv that]
    have "sv_delay v' = []" using that
      by (auto simp: server_timer_event_def timer_cb_def fire_onTimer_def server_onTimer_Timer_def
          processDelayedRemoveClientFromSet_def Let_def split: option.splits if_splits)
    then show ?thesis using inv' by (auto simp: run_removals_def fold_removals server_inv_def)
  qed
  ultimately show ?thesis using inv by (auto simp: server_inv_def)
qed

theorem server_keeps_open_clients_witness:
  "set (sv_clients (run_removals (the (server_timer_event (\<lambda>_. False) TIMERID_DELAYED_REMOVE
     (server_ClosedConnection 4 0 (onConnectionListener_Accept False (Some 9) 1
       (onConnectionListener_Accept False (Some 4) 0 newServer))))))) = {9}"
proof -
  let ?v = "server_ClosedConnection 4 0 (onConnectionListener_Accept False (Some 9) 1
       (onConnectionListener_Accept False (Some 4) 0 newServer))"
  have r: "server_reachable ?v (insert 9 (insert 4 {})) (insert 4 (({} - {4}) - {9}))"
    by (intro server_reachable.intros)
      (simp_all add: newServer_def onConnectionListener_Accept_def set_insert_def)
  have d: "sv_delay ?v \<noteq> []"
    by (simp add: server_ClosedConnection_def Let_def onConnectionListener_Accept_def newServer_def set_insert_def)
  from server_keeps_open_clients [OF r, of "\<lambda>_. False"] d
  obtain v' where "server_timer_event (\<lambda>_. False) TIMERID_DELAYED_REMOVE ?v = Some v'"
    "set (sv_clients (run_removals v')) = insert 9 (insert 4 {}) - insert 4 (({} - {4}) - {9})"
    by auto
  then show ?thesis by (simp add: insert_Diff_if)
qed

end
