(* ===== verification/Deferred.thy ===== *)
theory Deferred
  imports Prelude
begin

text \<open>
  Deferred calls: \<^verbatim>\<open>DeferredCallerImpl.h\<close> with \<^verbatim>\<open>LibeventDeferredCallerImpl.h\<close>, and the
  same queue in \<^verbatim>\<open>IOServiceImpl.h\<close> with \<^verbatim>\<open>LibeventIOServiceImpl.h\<close>, whose life cycle is
  modelled too. A method is a value; what calling it does to the rest of the program, and
  which methods it defers on the same caller meanwhile, is the argument \<open>run\<close>. The queue is
  walked by index while it grows, so the loop need not end: the result is an option.
  \<open>df_active\<close> is whether the libevent event has been activated and not yet run.
\<close>

type_synonym ('m, 's) runner = "'m \<Rightarrow> 's \<Rightarrow> 's \<times> 'm list"

record 'm deferred =
  df_methods :: "'m list"
  df_handle :: bool
  df_active :: bool

definition newDeferred :: "'m deferred" where
  "newDeferred = \<lparr>df_methods = [], df_handle = False, df_active = False\<rparr>"

definition df_createHandle :: "'m deferred \<Rightarrow> 'm deferred" where
  "df_createHandle d = d\<lparr>df_handle := True\<rparr>"

definition setIOService :: "'m deferred \<Rightarrow> 'm deferred" where
  "setIOService d = df_createHandle d"

definition df_destroyHandle :: "'m deferred \<Rightarrow> 'm deferred" where
  "df_destroyHandle d = (if df_handle d then d\<lparr>df_handle := False, df_active := False\<rparr> else d)"

definition triggerDeferredEvent :: "'m deferred \<Rightarrow> (unit, 'm deferred) res" where
  "triggerDeferredEvent d = (if df_handle d then (Inr (), d\<lparr>df_active := True\<rparr>)
     else (Inl (Undef ''event_active on NULL''), d))"

definition deferredCall :: "'m \<Rightarrow> 'm deferred \<Rightarrow> (unit, 'm deferred) res" where
  "deferredCall m d = triggerDeferredEvent (d\<lparr>df_methods := df_methods d @ [m]\<rparr>)"

text \<open>The loop of \<open>fireDeferredEvent\<close>; the flag is whether a method has triggered the event.\<close>

partial_function (option) fire_loop ::
  "('m, 's) runner \<Rightarrow> nat \<Rightarrow> 'm list \<Rightarrow> 's \<Rightarrow> bool \<Rightarrow> ('s \<times> bool) option" where
  "fire_loop run i ms s act = (if i < length ms
     then fire_loop run (Suc i) (ms @ snd (run (ms ! i) s)) (fst (run (ms ! i) s))
            (act \<or> snd (run (ms ! i) s) \<noteq> [])
     else Some (s, act))"

declare fire_loop.simps [code]

definition fireDeferredEvent :: "('m, 's) runner \<Rightarrow> 'm deferred \<Rightarrow> 's \<Rightarrow> ('m deferred \<times> 's) option" where
  "fireDeferredEvent run d s = (case fire_loop run 0 (df_methods d) s (df_active d) of
     None \<Rightarrow> None
   | Some (s', act) \<Rightarrow> Some (d\<lparr>df_methods := [], df_active := act\<rparr>, s'))"

text \<open>libevent runs the callback of an active event, which is then not active any more.\<close>

definition cb_func :: "('m, 's) runner \<Rightarrow> 'm deferred \<Rightarrow> 's \<Rightarrow> ('m deferred \<times> 's) option" where
  "cb_func run d s = fireDeferredEvent run (d\<lparr>df_active := False\<rparr>) s"

section \<open>The order of the calls\<close>

text \<open>The reference: all the methods deferred so far, then all those they have deferred, and so on.\<close>

fun generation :: "('m, 's) runner \<Rightarrow> 'm list \<Rightarrow> 's \<Rightarrow> 's \<times> 'm list" where
  "generation run [] s = (s, [])"
| "generation run (m # ms) s =
    (case run m s of (s1, new) \<Rightarrow> case generation run ms s1 of (s2, new') \<Rightarrow> (s2, new @ new'))"

partial_function (option) by_generation :: "('m, 's) runner \<Rightarrow> 'm list \<Rightarrow> 's \<Rightarrow> 's option" where
  "by_generation run ms s = (if ms = [] then Some s
     else by_generation run (snd (generation run ms s)) (fst (generation run ms s)))"

partial_function (option) queue_loop :: "('m, 's) runner \<Rightarrow> 'm list \<Rightarrow> 's \<Rightarrow> 's option" where
  "queue_loop run q s = (if q = [] then Some s
     else queue_loop run (tl q @ snd (run (hd q) s)) (fst (run (hd q) s)))"

declare by_generation.simps [code] queue_loop.simps [code]

lemma queue_loop_Nil [simp]: "queue_loop run [] s = Some s"
  by (subst queue_loop.simps) simp

lemma queue_loop_Cons:
  "queue_loop run (m # q) s = queue_loop run (q @ snd (run m s)) (fst (run m s))"
  by (subst queue_loop.simps) simp

lemma fire_loop_queue:
  assumes "fire_loop run i ms s act = Some r"
  shows "queue_loop run (drop i ms) s = Some (fst r)"
proof (rule fire_loop.raw_induct [where P = "\<lambda>run i ms s act r. queue_loop run (drop i ms) s = Some (fst r)",
    OF _ assms], goal_cases)
  case (1 fl run i ms s act r)
  show ?case
  proof (cases "i < length ms")
    case True
    let ?new = "snd (run (ms ! i) s)"
    have "fl run (Suc i) (ms @ ?new) (fst (run (ms ! i) s)) (act \<or> ?new \<noteq> []) = Some r"
      using 1(2) True by simp
    from 1(1) [OF this] True
    have "queue_loop run (drop (Suc i) ms @ ?new) (fst (run (ms ! i) s)) = Some (fst r)" by simp
    then show ?thesis using True by (simp add: Cons_nth_drop_Suc [symmetric] queue_loop_Cons)
  next
    case False
    then show ?thesis using 1(2) by auto
  qed
qed

lemma queue_loop_fire:
  assumes "queue_loop run q s = Some r"
  shows "q = drop i ms \<Longrightarrow> \<exists>act'. fire_loop run i ms s act = Some (r, act')"
proof -
  have "\<forall>i ms act. q = drop i ms \<longrightarrow> (\<exists>act'. fire_loop run i ms s act = Some (r, act'))"
  proof (rule queue_loop.raw_induct [where P = "\<lambda>run q s r. \<forall>i ms act. q = drop i ms \<longrightarrow>
      (\<exists>act'. fire_loop run i ms s act = Some (r, act'))", OF _ assms], intro allI impI, goal_cases)
    case (1 ql run q s r i ms act)
    show ?case
    proof (cases "i < length ms")
      case True
      then have q: "q = ms ! i # drop (Suc i) ms" using 1(3) by (simp add: Cons_nth_drop_Suc)
      let ?new = "snd (run (ms ! i) s)"
      have "ql run (drop (Suc i) ms @ ?new) (fst (run (ms ! i) s)) = Some r" using 1(2) q by simp
      from 1(1) [OF this] True
      have "\<exists>act'. fire_loop run (Suc i) (ms @ ?new) (fst (run (ms ! i) s)) (act \<or> ?new \<noteq> []) = Some (r, act')"
        by simp
      then show ?thesis using True by (subst fire_loop.simps) simp
    next
      case False
      then show ?thesis using 1 by (subst fire_loop.simps) auto
    qed
  qed
  then show "q = drop i ms \<Longrightarrow> \<exists>act'. fire_loop run i ms s act = Some (r, act')" by blast
qed

lemma queue_loop_generation:
  "queue_loop run (ms @ acc) s = queue_loop run (acc @ snd (generation run ms s)) (fst (generation run ms s))"
proof (induction ms arbitrary: acc s)
  case (Cons m ms)
  then show ?case by (simp add: queue_loop_Cons Cons.IH [of "acc @ _"] split: prod.split)
qed simp

lemma by_generation_queue:
  assumes "by_generation run ms s = Some r"
  shows "queue_loop run ms s = Some r"
proof (rule by_generation.raw_induct [where P = "\<lambda>run ms s r. queue_loop run ms s = Some r", OF _ assms],
    goal_cases)
  case (1 bg run ms s r)
  then show ?case using queue_loop_generation [of run ms "[]" s] by (cases "ms = []") auto
qed

lemma by_generation_step:
  "by_generation run ms s = by_generation run (snd (generation run ms s)) (fst (generation run ms s))"
proof (cases "ms = []")
  case False
  then show ?thesis by (subst by_generation.simps) simp
qed simp

lemma generation_Cons:
  "generation run (m # ms) s = (fst (generation run ms (fst (run m s))),
     snd (run m s) @ snd (generation run ms (fst (run m s))))"
  by (simp split: prod.splits)

lemma queue_by_generation:
  assumes "queue_loop run q s = Some r"
  shows "by_generation run q s = Some r"
proof -
  have "\<forall>q1 q2. q = q1 @ q2 \<longrightarrow>
      by_generation run (q2 @ snd (generation run q1 s)) (fst (generation run q1 s)) = Some r"
  proof (rule queue_loop.raw_induct [where P = "\<lambda>run q s r. \<forall>q1 q2. q = q1 @ q2 \<longrightarrow>
      by_generation run (q2 @ snd (generation run q1 s)) (fst (generation run q1 s)) = Some r", OF _ assms],
      intro allI impI, goal_cases)
    case (1 ql run q s r q1 q2)
    have IH: "by_generation run (q2' @ snd (generation run q1' s')) (fst (generation run q1' s')) = Some r"
      if "q = m # q'" "s' = fst (run m s)" "q' @ snd (run m s) = q1' @ q2'" for m q' s' q1' q2'
    proof -
      have "ql run (q' @ snd (run m s)) s' = Some r" using 1(2) that by simp
      from 1(1) [OF this] that(3) show ?thesis by blast
    qed
    show ?case
    proof (cases q1)
      case (Cons m q1')
      then have "q = m # q1' @ q2" using 1(3) by simp
      from IH [OF this refl, of q1' "q2 @ snd (run m s)"] show ?thesis
        by (simp add: Cons generation_Cons del: generation.simps)
    next
      case Nil
      show ?thesis
      proof (cases q2)
        case (Cons m q2')
        then have "q = m # q2'" using 1(3) Nil by simp
        from IH [OF this refl, of q2' "snd (run m s)"]
        have "by_generation run (snd (generation run (m # q2') s)) (fst (generation run (m # q2') s)) = Some r"
          by (simp add: generation_Cons del: generation.simps)
        then show ?thesis using by_generation_step [of run "m # q2'" s] by (simp add: Nil Cons)
      qed (use 1 Nil in \<open>subst by_generation.simps, simp\<close>)
    qed
  qed
  from this [rule_format, of "[]" q] show ?thesis by simp
qed

lemma queue_generations: "queue_loop run q s = by_generation run q s"
proof (cases "by_generation run q s")
  case None
  then show ?thesis using queue_by_generation [of run q s] by (cases "queue_loop run q s") auto
next
  case (Some r)
  then show ?thesis using by_generation_queue by metis
qed

text \<open>
  C21: Firing the event calls every method deferred so far in the order in which they were
  deferred, then those these have deferred, and so on, each exactly once, and leaves the queue
  empty; it does not return exactly if the generations do not end.
\<close>

theorem deferred_by_generations:
  "map_option (\<lambda>(d', s'). (df_methods d', s')) (fireDeferredEvent run d s)
   = map_option (\<lambda>s'. ([], s')) (by_generation run (df_methods d) s)"
proof -
  have "map_option fst (fire_loop run 0 (df_methods d) s (df_active d)) = queue_loop run (df_methods d) s"
  proof (cases "queue_loop run (df_methods d) s")
    case None
    then show ?thesis using fire_loop_queue [of run 0 "df_methods d" s "df_active d"]
      by (cases "fire_loop run 0 (df_methods d) s (df_active d)") auto
  next
    case (Some r)
    from queue_loop_fire [OF this, of 0 "df_methods d" "df_active d"] show ?thesis using Some by auto
  qed
  then have "by_generation run (df_methods d) s
      = map_option fst (fire_loop run 0 (df_methods d) s (df_active d))"
    by (simp add: queue_generations)
  then show ?thesis
    by (cases "fire_loop run 0 (df_methods d) s (df_active d)") (auto simp: fireDeferredEvent_def)
qed

section \<open>When firing returns\<close>

lemma set_generation: "set (snd (generation run ms s)) \<subseteq> {m'. \<exists>m\<in>set ms. \<exists>s. m' \<in> set (snd (run m s))}"
proof (induction ms arbitrary: s)
  case (Cons m ms)
  then show ?case by (auto simp: generation_Cons simp del: generation.simps)
qed simp

lemma by_generation_returns:
  assumes "\<And>m s m'. m' \<in> set (snd (run m s)) \<Longrightarrow> rank m' < (rank m :: nat)"
  shows "\<forall>m\<in>set ms. rank m < n \<Longrightarrow> \<exists>r. by_generation run ms s = Some r"
proof (induction n arbitrary: ms s)
  case 0
  then have "ms = []" by simp
  then show ?case by (subst by_generation.simps) simp
next
  case (Suc n)
  have "\<forall>m\<in>set (snd (generation run ms s)). rank m < n"
    using set_generation [of run ms s] assms Suc.prems by fastforce
  from Suc.IH [OF this, of "fst (generation run ms s)"] show ?case
    by (subst by_generation_step)
qed

text \<open>
  If no chain of methods that defer one another goes on for ever, the event handler returns,
  and nothing is left in the queue.
\<close>

theorem deferred_returns:
  assumes "\<And>m s m'. m' \<in> set (snd (run m s)) \<Longrightarrow> rank m' < (rank m :: nat)"
  shows "\<exists>d' s'. fireDeferredEvent run d s = Some (d', s') \<and> df_methods d' = []"
proof -
  have bound: "\<forall>m\<in>set (df_methods d). rank m < Suc (Max (rank ` set (df_methods d)))"
    by (simp add: less_Suc_eq_le)
  have "\<exists>r. by_generation run (df_methods d) s = Some r"
    by (rule by_generation_returns [where rank = rank, OF _ bound]) (rule assms)
  then obtain r where "by_generation run (df_methods d) s = Some r" by blast
  then have "queue_loop run (df_methods d) s = Some r" by (rule by_generation_queue)
  from queue_loop_fire [OF this, of 0 "df_methods d" "df_active d"] show ?thesis
    by (auto simp: fireDeferredEvent_def)
qed

definition countdown :: "(nat, nat list) runner" where
  "countdown m s = (s @ [m], if m = 0 then [] else [m - 1])"

theorem deferred_returns_witness:
  "\<exists>d' s'. fireDeferredEvent countdown \<lparr>df_methods = [2, 5], df_handle = True, df_active = False\<rparr> [] = Some (d', s')
    \<and> df_methods d' = []"
  by (rule deferred_returns [where rank = id]) (auto simp: countdown_def split: if_splits)

text \<open>A method that defers itself again keeps the event handler, and the thread, for ever.\<close>

theorem deferred_self_never_returns:
  assumes m: "\<And>s. m \<in> set (snd (run m s))" "m \<in> set (df_methods d)"
  shows "fireDeferredEvent run d s = None"
proof -
  have gen: "m \<in> set (snd (generation run ms s))" if "m \<in> set ms" for ms s
    using that by (induction ms arbitrary: s) (auto simp: generation_Cons m(1) simp del: generation.simps)
  have "m \<in> set ms \<Longrightarrow> by_generation run ms s = Some r \<Longrightarrow> False" for ms s r
  proof -
    assume a: "m \<in> set ms" "by_generation run ms s = Some r"
    show False
      using by_generation.raw_induct [where P = "\<lambda>run' ms s r. run' = run \<longrightarrow> m \<notin> set ms", OF _ a(2)] a(1) gen
      by (metis empty_iff empty_set)
  qed
  then have "by_generation run (df_methods d) s = None" using m(2) by fastforce
  then have "queue_loop run (df_methods d) s = None" by (simp add: queue_generations)
  then show ?thesis using fire_loop_queue [of run 0 "df_methods d" s "df_active d"]
    by (cases "fire_loop run 0 (df_methods d) s (df_active d)") (auto simp: fireDeferredEvent_def)
qed

section \<open>No call is forgotten\<close>

datatype 'm deferred_op = Call 'm | Run_Event

inductive deferred_run :: "('m, 's) runner \<Rightarrow> 'm deferred \<times> 's \<Rightarrow> bool" for run where
  start: "deferred_run run (setIOService newDeferred, s)"
| call: "deferred_run run (d, s) \<Longrightarrow> deferredCall m d = (Inr (), d') \<Longrightarrow> deferred_run run (d', s)"
| event: "deferred_run run (d, s) \<Longrightarrow> df_active d \<Longrightarrow> cb_func run d s = Some (d', s') \<Longrightarrow>
    deferred_run run (d', s')"
| world: "deferred_run run (d, s) \<Longrightarrow> deferred_run run (d, s')"

text \<open>
  Between the event handlers, whatever has been deferred and called so far, a method that is
  still in the queue has its event active: it will be called when the event loop goes on. A call
  after the service was set never fails.
\<close>

theorem deferred_no_call_lost:
  assumes "deferred_run run (d, s)"
  shows "(df_methods d \<noteq> [] \<longrightarrow> df_active d) \<and> fst (deferredCall m d) = Inr ()
    \<and> m \<in> set (df_methods (snd (deferredCall m d))) \<and> df_active (snd (deferredCall m d))"
  using assms
proof (induction "(d, s)" arbitrary: d s rule: deferred_run.induct)
  case (event d s d' s')
  then show ?case
    by (auto simp: cb_func_def fireDeferredEvent_def deferredCall_def triggerDeferredEvent_def
        split: option.splits if_splits)
qed (auto simp: deferredCall_def triggerDeferredEvent_def setIOService_def df_createHandle_def
    newDeferred_def split: if_splits)

theorem deferred_no_call_lost_witness:
  "df_active (snd (deferredCall (3::nat) (setIOService newDeferred)))"
  using deferred_no_call_lost [OF deferred_run.start [of countdown "[]"], of 3] by simp

section \<open>The event loop of a service\<close>

record io_service =
  io_id :: int
  multithread :: bool
  finalizedFlag :: bool
  joinedThreadFlag :: bool
  loopExitFlag :: bool
  io_base :: bool
  io_event :: bool
  io_log :: "string list"

definition newIOService :: "int \<Rightarrow> bool \<Rightarrow> io_service" where
  "newIOService i threadMode = \<lparr>io_id = i, multithread = threadMode, finalizedFlag = False,
    joinedThreadFlag = False, loopExitFlag = False, io_base = False, io_event = False, io_log = []\<rparr>"

definition io_emit :: "string \<Rightarrow> io_service \<Rightarrow> io_service" where
  "io_emit e x = x\<lparr>io_log := io_log x @ [e]\<rparr>"

definition io_createHandle :: "io_service \<Rightarrow> io_service" where
  "io_createHandle x = x\<lparr>io_base := True, io_event := True\<rparr>"

definition io_initialize :: "io_service \<Rightarrow> io_service" where
  "io_initialize x = io_createHandle x"

definition destoryHandle :: "io_service \<Rightarrow> io_service" where
  "destoryHandle x =
    (let x1 = (if io_event x then io_emit ''event_free'' x\<lparr>io_event := False\<rparr> else x)
     in if io_base x1 then io_emit ''event_base_free'' x1\<lparr>io_base := False\<rparr> else x1)"

definition io_stop :: "io_service \<Rightarrow> io_service" where
  "io_stop x = (if \<not> loopExitFlag x then io_emit ''event_base_loopexit'' x\<lparr>loopExitFlag := True\<rparr> else x)"

definition joinThread :: "io_service \<Rightarrow> io_service" where
  "joinThread x = (if multithread x \<and> \<not> joinedThreadFlag x
     then (io_emit ''join'' x)\<lparr>joinedThreadFlag := True\<rparr> else x)"

definition startEventLoopInThread :: "io_service \<Rightarrow> io_service" where
  "startEventLoopInThread x = io_emit ''thread'' x"

definition startEventLoopBlock :: "io_service \<Rightarrow> io_service" where
  "startEventLoopBlock x = io_emit ''event_base_dispatch'' x"

definition io_run_service :: "io_service \<Rightarrow> io_service" where
  "io_run_service x = (if multithread x then joinThread (startEventLoopInThread x) else startEventLoopBlock x)"

definition finalize :: "io_service \<Rightarrow> io_service" where
  "finalize x = (if finalizedFlag x then x
     else destoryHandle (joinThread (io_stop (x\<lparr>finalizedFlag := True\<rparr>))))"

end
