(* ===== verification/Container.thy ===== *)
theory Container
  imports Deferred "HOL-Library.Multiset"
begin

text \<open>
  The container of services, \<^verbatim>\<open>IOServiceContainer.cpp\<close>, and the key maker of
  \<^verbatim>\<open>IOService.cpp\<close>. The static counter of \<open>ioServiceByRoundRobin\<close> is a 32-bit word that
  is passed along; \<open>atomicIncreaseInt32\<close> gives the value after the increment. Which services
  the current thread is mounted on is an argument. The Windows branches are left out.
\<close>

section \<open>Keys\<close>

function key_loop :: "int list \<Rightarrow> int \<Rightarrow> int" where
  "key_loop keys i = (if i \<notin> set keys then i else key_loop keys (i + 1))"
  by pat_completeness auto
termination
proof (relation "measure (\<lambda>(keys, i). card {k \<in> set keys. i \<le> k})")
  fix keys :: "int list" and i :: int
  assume "\<not> i \<notin> set keys"
  then have "i \<in> {k \<in> set keys. i \<le> k}" "i \<notin> {k \<in> set keys. i + 1 \<le> k}" by simp_all
  moreover have "{k \<in> set keys. i + 1 \<le> k} \<subseteq> {k \<in> set keys. i \<le> k}" by auto
  ultimately have "{k \<in> set keys. i + 1 \<le> k} \<subset> {k \<in> set keys. i \<le> k}" by blast
  then show "((keys, i + 1), keys, i) \<in> measure (\<lambda>(keys, i). card {k \<in> set keys. i \<le> k})"
    by (simp add: psubset_card_mono)
qed simp

declare key_loop.simps [simp del]

definition makeKey :: "int list \<Rightarrow> int \<times> int list" where
  "makeKey keys = (key_loop keys 0, keys)"

section \<open>The container\<close>

record container =
  threadCount :: int
  ioservices :: "io_service list"
  ct_multithread :: bool
  ct_keys :: "int list"

definition newContainer :: "int \<Rightarrow> container" where
  "newContainer n = \<lparr>threadCount = n, ioservices = [], ct_multithread = False, ct_keys = []\<rparr>"

definition add_service :: "bool \<Rightarrow> container \<Rightarrow> container" where
  "add_service threadMode c = (case makeKey (ct_keys c) of
     (key, keys) \<Rightarrow> c\<lparr>ct_keys := keys, ioservices := ioservices c @ [io_initialize (newIOService key threadMode)]\<rparr>)"

fun add_services :: "nat \<Rightarrow> container \<Rightarrow> container" where
  "add_services 0 c = c"
| "add_services (Suc n) c = add_services n (add_service True c)"

definition container_initialize :: "container \<Rightarrow> container" where
  "container_initialize c = (if threadCount c > 0
     then add_services (nat (threadCount c)) (c\<lparr>ct_multithread := True\<rparr>)
     else add_service False c)"

definition ioServiceCount :: "container \<Rightarrow> nat" where
  "ioServiceCount c = length (ioservices c)"

definition round_robin :: "nat \<Rightarrow> 32 word \<Rightarrow> (exn + nat) \<times> 32 word" where
  "round_robin n s_index = (let s = s_index + 1 in
     if n = 0 then (Inl (Undef ''division by zero''), s) else (Inr (unat s mod n), s))"

definition ioServiceByRoundRobin :: "container \<Rightarrow> 32 word \<Rightarrow> (exn + io_service) \<times> 32 word" where
  "ioServiceByRoundRobin c s_index = (case round_robin (length (ioservices c)) s_index of
     (Inl e, s) \<Rightarrow> (Inl e, s) | (Inr i, s) \<Rightarrow> (Inr (ioservices c ! i), s))"

definition ioServiceByIndex :: "nat \<Rightarrow> container \<Rightarrow> exn + io_service" where
  "ioServiceByIndex index c = (if index \<ge> length (ioservices c) then Inl IllegalArgumentException
     else Inr (ioservices c ! index))"

definition ioServiceOfCurrentThread :: "(io_service \<Rightarrow> bool) \<Rightarrow> container \<Rightarrow> io_service option" where
  "ioServiceOfCurrentThread mounted c = List.find mounted (ioservices c)"

definition container_run :: "container \<Rightarrow> (unit, container) res" where
  "container_run c =
    (if length (ioservices c) \<le> 0
     then (Inl (GenericException ''initialize() method must be called before run()''), c)
     else if threadCount c > 0
     then (Inr (), c\<lparr>ioservices := map joinThread (map startEventLoopInThread (ioservices c))\<rparr>)
     else if length (ioservices c) \<noteq> 1
     then (Inl (GenericException ''unexpacted case! thread mode is false, but io service's count is not 1..''), c)
     else (Inr (), c\<lparr>ioservices := [io_run_service (hd (ioservices c))]\<rparr>))"

definition container_stop :: "container \<Rightarrow> container" where
  "container_stop c = c\<lparr>ioservices := map io_stop (ioservices c)\<rparr>"

section \<open>Dealing out\<close>

text \<open>The services that \<open>m\<close> calls choose, by their index.\<close>

fun deal :: "nat \<Rightarrow> nat \<Rightarrow> 32 word \<Rightarrow> nat list" where
  "deal 0 n s = []"
| "deal (Suc m) n s = (case round_robin n s of (Inl e, s') \<Rightarrow> deal m n s' | (Inr i, s') \<Rightarrow> i # deal m n s')"

lemma deal_eq:
  "0 < n \<Longrightarrow> unat s + m < 2 ^ 32 \<Longrightarrow> deal m n s = map (\<lambda>j. (unat s + 1 + j) mod n) [0..<m]"
proof (induction m arbitrary: s)
  case (Suc m)
  have u: "unat (s + 1) = unat s + 1"
    using Suc.prems(2) by (intro unat_add_lem [THEN iffD1, THEN trans]) simp_all
  have "deal (Suc m) n s = (unat s + 1) mod n # map (\<lambda>j. (unat s + 2 + j) mod n) [0..<m]"
    using Suc by (simp add: round_robin_def Let_def u)
  also have "\<dots> = map (\<lambda>j. (unat s + 1 + j) mod n) (0 # map Suc [0..<m])"
    by (simp add: comp_def)
  also have "0 # map Suc [0..<m] = [0..<Suc m]" by (simp add: map_Suc_upt upt_conv_Cons del: upt_Suc)
  finally show ?case .
qed simp

lemma mod_block_inj: "0 < n \<Longrightarrow> inj_on (\<lambda>j. (a + j) mod n) {0..<n::nat}"
proof (rule linorder_inj_onI)
  fix i j assume ij: "i < j" "i \<in> {0..<n}" "j \<in> {0..<n}"
  show "(a + i) mod n \<noteq> (a + j) mod n"
  proof
    assume "(a + i) mod n = (a + j) mod n"
    then have "n dvd (a + j) - (a + i)" using ij(1) by (metis less_imp_le mod_eq_dvd_iff_nat nat_add_left_cancel_le)
    then show False using ij by (auto dest: dvd_imp_le)
  qed
qed auto

lemma mod_block: "0 < n \<Longrightarrow> mset (map (\<lambda>j. (a + j) mod n) [0..<n]) = mset [0..<n]"
proof -
  assume n: "0 < (n::nat)"
  have "(\<lambda>j. (a + j) mod n) ` {0..<n} = {0..<n}"
    by (rule endo_inj_surj [OF _ _ mod_block_inj [OF n]]) (use n in auto)
  then show ?thesis using mod_block_inj [OF n, of a] n
    by (intro set_eq_iff_mset_eq_distinct [THEN iffD1]) (auto simp: distinct_map)
qed

lemma mod_blocks:
  assumes "0 < n"
  shows "mset (map (\<lambda>j. (a + j) mod n) [0..<k * n]) = repeat_mset k (mset [0..<n])"
proof (induction k)
  case (Suc k)
  have "[0..<Suc k * n] = [0..<n] @ map (\<lambda>j. j + n) [0..<k * n]"
    by (simp add: map_add_upt upt_add_eq_append [of 0 n "k * n", symmetric] add.commute)
  moreover have "(a + (j + n)) mod n = (a + j) mod n" for j by (simp flip: add.assoc)
  ultimately have "mset (map (\<lambda>j. (a + j) mod n) [0..<Suc k * n])
      = mset (map (\<lambda>j. (a + j) mod n) [0..<n]) + mset (map (\<lambda>j. (a + j) mod n) [0..<k * n])"
    by (simp only: map_append mset_append map_map comp_def)
  then show ?case using mod_block [OF assms] Suc by simp
qed simp

text \<open>
  The container deals new clients out evenly: until its counter wraps around, any number of
  whole rounds gives every service the same number of clients.
\<close>

theorem round_robin_fair:
  assumes "0 < n" "unat s + k * n < 2 ^ 32" "i < n"
  shows "count_list (deal (k * n) n s) i = k"
proof -
  have "mset (deal (k * n) n s) = repeat_mset k (mset [0..<n])"
    using mod_blocks [OF assms(1), of "unat s + 1" k] assms by (simp add: deal_eq)
  then have "count (mset (deal (k * n) n s)) i = k * count (mset [0..<n]) i" by simp
  moreover have "count (mset [0..<n]) i = 1" using assms(3) distinct_count_atmost_1 [of "[0..<n]"] by simp
  ultimately show ?thesis by (simp add: count_mset count_list_eq_length_filter)
qed

theorem round_robin_fair_witness: "count_list (deal (2 * 3) 3 (4 :: 32 word)) 1 = 2"
  using round_robin_fair [of 3 "4 :: 32 word" 2 1] by simp

text \<open>No key is ever entered, so that every service has the id 0.\<close>

theorem all_service_ids_0:
  "\<forall>x\<in>set (ioservices (container_initialize (newContainer n))). io_id x = 0"
proof -
  have key: "makeKey [] = (0, [])" by (simp add: makeKey_def key_loop.simps)
  have add: "ct_keys c = [] \<Longrightarrow> \<forall>x\<in>set (ioservices c). io_id x = 0 \<Longrightarrow>
      ct_keys (add_service b c) = [] \<and> (\<forall>x\<in>set (ioservices (add_service b c)). io_id x = 0)" for b c
    by (auto simp: add_service_def key io_initialize_def io_createHandle_def newIOService_def)
  have adds: "ct_keys c = [] \<Longrightarrow> \<forall>x\<in>set (ioservices c). io_id x = 0 \<Longrightarrow>
      \<forall>x\<in>set (ioservices (add_services m c)). io_id x = 0" for m c
  proof (induction m arbitrary: c)
    case (Suc m)
    note a = add [OF Suc.prems, of True]
    from Suc.IH [OF a [THEN conjunct1] a [THEN conjunct2]] show ?case by (simp only: add_services.simps)
  qed simp
  have new: "ct_keys (newContainer n) = []" "ioservices (newContainer n) = []"
    "ct_keys (newContainer n\<lparr>ct_multithread := True\<rparr>) = []"
    "ioservices (newContainer n\<lparr>ct_multithread := True\<rparr>) = []"
    by (simp_all add: newContainer_def)
  show ?thesis
  proof (cases "threadCount (newContainer n) > 0")
    case True
    show ?thesis unfolding container_initialize_def if_P [OF True] by (rule adds) (simp_all only: new list.set ball_simps)
  next
    case False
    show ?thesis unfolding container_initialize_def if_not_P [OF False]
      by (rule add [THEN conjunct2]) (simp_all only: new list.set ball_simps)
  qed
qed

end
