(* ===== verification/EndToEnd.thy ===== *)
theory EndToEnd
  imports Controllers TcpSpec
begin

text \<open>
  Two peers and the wire between them: the frame controller of one end writes frames to its
  open socket on events, which queues them and hands them to \<open>write(2)\<close> piece by piece; the
  bytes that \<open>write(2)\<close> took are read, again piece by piece, by the client controller of the
  other end. Each end is the model of its own component; what is added here is the order of
  the events and the wire, a byte stream that neither loses nor reorders.
\<close>

section \<open>The link\<close>

text \<open>
  \<open>lk_received\<close> counts the bytes the receiver has read; the bytes in flight are those the
  sender's socket has sent behind them.
\<close>

record link =
  lk_store :: store
  lk_tcp :: tcp
  lk_received :: nat
  lk_peer :: tcp
  lk_client :: client

definition in_flight :: "link \<Rightarrow> bytes" where
  "in_flight l = drop (lk_received l) (sent (lk_tcp l))"

datatype link_step =
    LkSend frame_header bytes
  | LkWriteable "bytes \<Rightarrow> int \<times> int"
  | LkReadable nat

text \<open>\<open>read(2)\<close> with at most \<open>k\<close> bytes there: none at all is \<open>-1\<close> with \<open>EAGAIN\<close>.\<close>

definition read_answer :: "bytes \<Rightarrow> nat \<Rightarrow> nat \<Rightarrow> int \<times> bytes \<times> int" where
  "read_answer fl k n =
     (let d = take (min k n) fl in if d = [] then (-1, [], EAGAIN) else (int (length d), d, 0))"

fun do_link_step :: "bool \<Rightarrow> link_step \<Rightarrow> link \<Rightarrow> (unit, link) res option" where
  "do_link_step le (LkSend h p) l =
     (case writeFramePayload le tcp_write h p (lk_store l) (lk_tcp l) of
        (r, (st, t)) \<Rightarrow> Some (r, l\<lparr>lk_store := st, lk_tcp := t\<rparr>))"
| "do_link_step le (LkWriteable wr) l =
     (case onWriteEvent wr (lk_tcp l) of (r, t) \<Rightarrow> Some (r, l\<lparr>lk_tcp := t\<rparr>))"
| "do_link_step le (LkReadable k) l =
     (case tcp_read (read_answer (in_flight l) k) IOBUF_LEN (tcp_onReadEvent (lk_peer l)) of
        (Inl e, t) \<Rightarrow> Some (Inl e, l\<lparr>lk_peer := t\<rparr>)
      | (Inr (n, d), t) \<Rightarrow>
          map_option (\<lambda>(r, c). (r, l\<lparr>lk_peer := t, lk_client := c, lk_received := lk_received l + length d\<rparr>))
            (onSocket_ReadEvent le FrameProtocolFactory (Inr (n, d)) (lk_client l)))"

text \<open>An exception or a handler that does not return ends the run.\<close>

fun link_run :: "bool \<Rightarrow> link_step list \<Rightarrow> link \<Rightarrow> (unit, link) res option" where
  "link_run le [] l = Some (Inr (), l)"
| "link_run le (s # ss) l =
     (case do_link_step le s l of Some (Inr _, l) \<Rightarrow> link_run le ss l | r \<Rightarrow> r)"

fun sent_frames :: "link_step list \<Rightarrow> (frame_header \<times> bytes) list" where
  "sent_frames [] = []"
| "sent_frames (LkSend h p # ss) = (h, p) # sent_frames ss"
| "sent_frames (_ # ss) = sent_frames ss"

lemma sent_frames_append [simp]: "sent_frames (xs @ ys) = sent_frames xs @ sent_frames ys"
  by (induction xs rule: sent_frames.induct) auto

lemma link_run_append:
  "link_run le xs l = Some (Inr (), l1) \<Longrightarrow> link_run le (xs @ ys) l = link_run le ys l1"
  by (induction xs arbitrary: l) (auto split: option.splits prod.splits sum.splits)

section \<open>The sending end\<close>

lemma write_buffer_takes_all:
  assumes "ref_ok i st" "ref_rest i st = bs" "bs \<noteq> []" "length bs < 2147483648"
    and "wr bs t = (Inr (int (length bs)), t')"
  shows "write_buffer wr True i st t = (Inr True, (ref_adv i (length bs) st, t'))"
proof -
  have ok: "bt_ok (bufs st i)" "bt_rest (bufs st i) = bs"
    using assms(1,2) by (simp_all add: ref_ok_def ref_rest_def)
  have "unat (word_of_int (int (length bs)) :: 32 word) = length bs"
    using assms(4) unat_of_length [of "length bs"] by simp
  moreover have "on_buf i (bt_fastforward (length bs)) st = (Inr (), ref_adv i (length bs) st)"
    using ok by (intro on_buf_upd [where g = "bt_advance (length bs)", folded ref_adv_def])
      (simp add: bt_fastforward_ok)
  ultimately show ?thesis
    using ok assms(3-5) by (simp add: write_buffer_def bt_remainingSize_ok bt_mem_current)
qed

lemma frame_serialize_any:
  assumes "16 + length p < 2147483648" "fr_payload f = p"
  shows "\<exists>f'. processSerialize le 0 (FrameProtocol b f None) st =
     (Inr True, (FrameProtocol b f' None,
                 ref_put (writeBuffer b) (frame_bytes le (fr_header f) p) (resetWritingBuffer b st)))"
proof (cases "p = []")
  case True
  then show ?thesis
    using assms by (simp add: frame_serialize_header_def header_serialize_ok frame_bytes_def Let_def)
qed (use assms frame_serialize_payload in auto)

text \<open>A transport that takes all it is offered is offered the frame in one piece.\<close>

lemma writeFramePayload_takes_all:
  assumes "16 + length p < 2147483648"
    and "wr (frame_bytes le h p) t = (Inr (int (length (frame_bytes le h p))), t')"
  shows "\<exists>st'. writeFramePayload le wr h p st t = (Inr (), (st', t'))"
proof -
  obtain q st1 where fac: "newFrameProtocol st = (q, st1)" by fastforce
  obtain b where b: "q = FrameProtocol b newFrame None" "turnOnWrite b"
    using newFrameProtocol_buffers [OF fac] by auto
  let ?f = "newFrame\<lparr>fr_header := h, fr_payload := p, fr_state := Complete\<rparr>"
  let ?fb = "frame_bytes le h p"
  obtain f' where ser: "processSerialize le 0 (FrameProtocol b ?f None) st1
      = (Inr True, (FrameProtocol b f' None, ref_put (writeBuffer b) ?fb (resetWritingBuffer b st1)))"
    using frame_serialize_any [OF assms(1), of ?f le b st1] by (auto simp del: processSerialize.simps)
  have fb: "length ?fb < 2147483648" using assms(1) by simp
  show ?thesis
    using fac b ser
      write_buffer_takes_all [OF buf_cleared_put(1,2) [OF resetWritingBuffer_cleared fb]
        frame_bytes_not_Nil fb, where wr = wr and t = t and t' = t'] assms(2)
    by (simp add: writeFramePayload_def FrameProtocolFactory_def serialize_and_write_def setFramePayload_def)
qed

lemma tcp_write_queued:
  assumes "ev_holds s q" "d \<noteq> []" "length q + length d < 2147483648"
  shows "\<exists>s'. tcp_write d s = (Inr (int (length d)), s') \<and> ev_holds s' (q @ d) \<and> sent s' = sent s
       \<and> ts_expired s' = ts_expired s"
proof -
  obtain b where b: "ts_kbuffer s = Some b" "kb_rel b q" using assms(1) by (auto simp: ev_holds_def)
  from pending_add_ok [OF b assms(2,3)] assms(1,2) show ?thesis
    by (auto simp: tcp_write_def ev_holds_def split: option.splits)
qed

section \<open>Positions in a growing stream\<close>

lemma frame_offset_more:
  "n \<le> length (stream le fs) \<Longrightarrow> frame_offset (fs @ gs) n = frame_offset fs n"
proof (induction fs arbitrary: n)
  case Nil
  then show ?case by (cases gs) auto
qed (auto split: prod.splits)

lemma incomplete_more:
  "incomplete le acc gs \<Longrightarrow> incomplete le acc (gs @ hs)"
  by (cases gs; cases hs) (auto simp: strict_prefix_def frame_bytes_not_Nil [symmetric])

section \<open>The invariant\<close>

text \<open>
  With the frames \<open>fs\<close> written so far: what was sent and what is queued is their stream; the
  receiver has delivered the frames \<open>fs1\<close> it has received completely, and the bytes \<open>acc\<close> of
  the next one are pending in its protocol.
\<close>

definition link_inv :: "bool \<Rightarrow> link \<Rightarrow> (frame_header \<times> bytes) list \<Rightarrow> link \<Rightarrow> bool" where
  "link_inv le l0 fs l \<longleftrightarrow>
     (\<exists>q fs1 gs acc. ev_holds (lk_tcp l) q \<and> \<not> ts_expired (lk_tcp l)
       \<and> sent (lk_tcp l) @ q = stream le fs \<and> lk_received l \<le> length (sent (lk_tcp l))
       \<and> ts_bev (lk_peer l) = None \<and> cl_factory (lk_client l)
       \<and> fs = fs1 @ gs \<and> take (lk_received l) (sent (lk_tcp l)) = stream le fs1 @ acc
       \<and> incomplete le acc gs \<and> pending le (lk_client l) acc
       \<and> delivered (lk_client l) = delivered (lk_client l0) @ map sent_view fs1)"

definition link_open :: "link \<Rightarrow> bool" where
  "link_open l \<longleftrightarrow> ev_holds (lk_tcp l) [] \<and> \<not> ts_expired (lk_tcp l) \<and> sent (lk_tcp l) = []
     \<and> ts_bev (lk_peer l) = None \<and> lk_received l = 0
     \<and> cl_factory (lk_client l) \<and> cl_protocol (lk_client l) = None"

lemma link_inv_open: "link_open l \<Longrightarrow> link_inv le l [] l"
  by (simp add: link_open_def link_inv_def pending_def)

lemma link_inv_send:
  assumes "link_inv le l0 fs l" "length (stream le (fs @ [(h, p)])) < 2147483648"
  shows "\<exists>l'. do_link_step le (LkSend h p) l = Some (Inr (), l') \<and> link_inv le l0 (fs @ [(h, p)]) l'"
proof -
  let ?fb = "frame_bytes le h p"
  obtain q fs1 gs acc where inv: "ev_holds (lk_tcp l) q" "\<not> ts_expired (lk_tcp l)"
    "sent (lk_tcp l) @ q = stream le fs" "lk_received l \<le> length (sent (lk_tcp l))"
    "ts_bev (lk_peer l) = None" "cl_factory (lk_client l)" "fs = fs1 @ gs"
    "take (lk_received l) (sent (lk_tcp l)) = stream le fs1 @ acc" "incomplete le acc gs"
    "pending le (lk_client l) acc" "delivered (lk_client l) = delivered (lk_client l0) @ map sent_view fs1"
    using assms(1) by (auto simp: link_inv_def)
  have len: "length q + length ?fb < 2147483648" "16 + length p < 2147483648"
    using assms(2) arg_cong [OF inv(3), of length] by simp_all
  obtain t' where t': "tcp_write ?fb (lk_tcp l) = (Inr (int (length ?fb)), t')" "ev_holds t' (q @ ?fb)"
    "sent t' = sent (lk_tcp l)" "ts_expired t' = ts_expired (lk_tcp l)"
    using tcp_write_queued [OF inv(1) frame_bytes_not_Nil len(1)] by blast
  obtain st' where st': "writeFramePayload le tcp_write h p (lk_store l) (lk_tcp l) = (Inr (), (st', t'))"
    using writeFramePayload_takes_all [where wr = tcp_write, OF len(2) t'(1)] by blast
  have "link_inv le l0 (fs @ [(h, p)]) (l\<lparr>lk_store := st', lk_tcp := t'\<rparr>)"
    unfolding link_inv_def
    using inv t' incomplete_more [OF inv(9), of "[(h, p)]"]
    by (intro exI [of _ "q @ ?fb"] exI [of _ fs1] exI [of _ "gs @ [(h, p)]"] exI [of _ acc])
      (simp flip: append_assoc)
  then show ?thesis using st' by simp
qed

lemma link_inv_writeable:
  assumes "link_inv le l0 fs l" "write_goes_on wr"
  shows "\<exists>l'. do_link_step le (LkWriteable wr) l = Some (Inr (), l') \<and> link_inv le l0 fs l'"
proof -
  obtain q fs1 gs acc where inv: "ev_holds (lk_tcp l) q" "\<not> ts_expired (lk_tcp l)"
    "sent (lk_tcp l) @ q = stream le fs" "lk_received l \<le> length (sent (lk_tcp l))"
    "ts_bev (lk_peer l) = None" "cl_factory (lk_client l)" "fs = fs1 @ gs"
    "take (lk_received l) (sent (lk_tcp l)) = stream le fs1 @ acc" "incomplete le acc gs"
    "pending le (lk_client l) acc" "delivered (lk_client l) = delivered (lk_client l0) @ map sent_view fs1"
    using assms(1) by (auto simp: link_inv_def)
  obtain t' n where t': "onWriteEvent wr (lk_tcp l) = (Inr (), t')" "ev_holds t' (drop n q)"
    "sent t' = sent (lk_tcp l) @ take n q" "ts_expired t' = ts_expired (lk_tcp l)"
    using writeable_holds [OF inv(1) assms(2)] inv(2) by auto
  have "sent t' @ drop n q = stream le fs" using t'(3) inv(3) by simp
  then have "link_inv le l0 fs (l\<lparr>lk_tcp := t'\<rparr>)"
    unfolding link_inv_def
    using inv t' by (intro exI [of _ "drop n q"] exI [of _ fs1] exI [of _ gs] exI [of _ acc]) simp
  then show ?thesis using t'(1) by simp
qed

lemma link_inv_received:
  assumes "link_inv le l0 fs l"
  shows "lk_received l \<le> length (stream le fs)"
  using assms by (auto simp: link_inv_def dest!: arg_cong [where f = length])

lemma peer_reads:
  assumes "ts_bev t = None"
  shows "\<exists>t' n. tcp_read (read_answer fl k) IOBUF_LEN (tcp_onReadEvent t)
            = (Inr (n, take (min k IOBUF_LEN) fl), t') \<and> ts_bev t' = None
       \<and> (take (min k IOBUF_LEN) fl = [] \<longrightarrow> n = -1)
       \<and> (take (min k IOBUF_LEN) fl \<noteq> [] \<longrightarrow> n = int (length (take (min k IOBUF_LEN) fl)))"
  using assms
  by (auto simp: tcp_read_def tcp_onReadEvent_def read_answer_def checkResponseSocket_def
      EAGAIN_def EINTR_def Let_def fire_def split: if_splits)

lemma link_inv_readable:
  assumes "link_inv le l0 fs l" "length (stream le fs) < 2147483648"
    and "good_cut (frame_offset fs (lk_received l))"
  shows "\<exists>l'. do_link_step le (LkReadable k) l = Some (Inr (), l') \<and> link_inv le l0 fs l'"
proof -
  let ?c = "lk_client l" and ?n = "lk_received l" and ?out = "sent (lk_tcp l)"
  obtain q fs1 gs acc where inv: "ev_holds (lk_tcp l) q" "\<not> ts_expired (lk_tcp l)"
    "?out @ q = stream le fs" "?n \<le> length ?out"
    "ts_bev (lk_peer l) = None" "cl_factory ?c" "fs = fs1 @ gs"
    "take ?n ?out = stream le fs1 @ acc" "incomplete le acc gs"
    "pending le ?c acc" "delivered ?c = delivered (lk_client l0) @ map sent_view fs1"
    using assms(1) by (auto simp: link_inv_def)
  define d where "d = take (min k IOBUF_LEN) (in_flight l)"
  obtain t' n where t': "tcp_read (read_answer (in_flight l) k) IOBUF_LEN (tcp_onReadEvent (lk_peer l))
      = (Inr (n, d), t')" "ts_bev t' = None" "d = [] \<longrightarrow> n = -1" "d \<noteq> [] \<longrightarrow> n = int (length d)"
    using peer_reads [OF inv(5), of "in_flight l" k] by (auto simp: d_def)
  have len: "lk_received l = length (stream le fs1) + length acc"
    using arg_cong [OF inv(8), of length] inv(4) by simp
  show ?thesis
  proof (cases "d = []")
    case True
    then have "do_link_step le (LkReadable k) l = Some (Inr (), l\<lparr>lk_peer := t', lk_client := ?c, lk_received := ?n\<rparr>)"
      using t' inv(6) by (simp add: onSocket_ReadEvent_def)
    moreover have "link_inv le l0 fs (l\<lparr>lk_peer := t', lk_client := ?c, lk_received := ?n\<rparr>)"
      unfolding link_inv_def using inv t'(2)
      by (intro exI [of _ q] exI [of _ fs1] exI [of _ gs] exI [of _ acc]) simp
    ultimately show ?thesis by blast
  next
    case False
    have more: "take (?n + length d) ?out = take ?n ?out @ d"
      by (simp add: d_def in_flight_def take_add min_def)
    have le: "?n + length d \<le> length ?out" using inv(4) by (auto simp: d_def in_flight_def)
    have acc_d: "stream le fs1 @ acc @ d = take (?n + length d) (stream le fs)"
      using more inv(3,8) le by (metis append_assoc take_append diff_is_0_eq take0 append_Nil2)
    have "prefix (acc @ d) (stream le gs)"
    proof -
      have "prefix (stream le fs1 @ acc @ d) (stream le fs1 @ stream le gs)"
        using acc_d inv(7) by (metis stream_append take_is_prefix)
      then show ?thesis by simp
    qed
    from stream_prefix [OF this] obtain fs2 hs acc' where sp: "gs = fs2 @ hs"
      "acc @ d = stream le fs2 @ acc'" "incomplete le acc' hs" by blast
    have bound: "length (acc @ d) < 2147483648"
      using arg_cong [OF acc_d, of length] assms(2) by simp
    have frames: "\<forall>(h, p) \<in> set hs. 16 + length p < 2147483648"
    proof (intro ballI, clarify)
      fix h p assume "(h, p) \<in> set hs"
      then obtain xs ys where "hs = xs @ (h, p) # ys" by (auto dest: split_list)
      then show "16 + length p < 2147483648" using assms(2) inv(7) sp(1) by simp
    qed
    have "frame_offset fs ?n = frame_offset gs (length acc)"
      by (simp add: inv(7) len frame_offset_stream)
    moreover have "frame_offset gs (length acc) = length acc"
      using inv(9) by (cases gs) (auto dest!: strict_prefix_take)
    ultimately have good: "good_cut (length acc)" using assms(3) by simp
    obtain c' where c': "onSocket_ReadEvent le newFrameProtocol (Inr (int (length d), d)) ?c = Some (Inr (), c')"
      "delivered c' = delivered ?c @ map sent_view fs2" "pending le c' acc'" "cl_factory c'"
      using read_event_frames [OF inv(10,6) False good sp(2) bound sp(3) frames] by blast
    let ?l = "l\<lparr>lk_peer := t', lk_client := c', lk_received := ?n + length d\<rparr>"
    have "do_link_step le (LkReadable k) l = Some (Inr (), ?l)"
      using t' False c'(1) by (simp add: FrameProtocolFactory_def)
    moreover have "link_inv le l0 fs ?l"
      unfolding link_inv_def
      using inv t'(2) le c' sp more
      by (intro exI [of _ q] exI [of _ "fs1 @ fs2"] exI [of _ hs] exI [of _ acc']) simp
    ultimately show ?thesis by blast
  qed
qed


lemma link_run_inv:
  assumes "link_open l"
    and "length (stream le (sent_frames ss)) < 2147483648"
    and "\<forall>wr. LkWriteable wr \<in> set ss \<longrightarrow> write_goes_on wr"
    and "\<forall>k \<le> length ss. \<forall>l'. link_run le (take k ss) l = Some (Inr (), l') \<longrightarrow>
           good_cut (frame_offset (sent_frames ss) (lk_received l'))"
  shows "\<exists>l'. link_run le ss l = Some (Inr (), l') \<and> link_inv le l (sent_frames ss) l'"
proof -
  have "\<exists>l'. link_run le (take k ss) l = Some (Inr (), l') \<and> link_inv le l (sent_frames (take k ss)) l'"
    if "k \<le> length ss" for k
    using that
  proof (induction k)
    case 0
    then show ?case using link_inv_open [OF assms(1)] by simp
  next
    case (Suc k)
    let ?fs = "sent_frames (take k ss)"
    obtain l1 where l1: "link_run le (take k ss) l = Some (Inr (), l1)" "link_inv le l ?fs l1"
      using Suc by auto
    have split: "sent_frames ss = ?fs @ sent_frames (drop k ss)"
      by (metis append_take_drop_id sent_frames_append)
    have next_k: "drop k ss = ss ! k # drop (Suc k) ss" using Suc.prems by (simp add: Cons_nth_drop_Suc)
    have "good_cut (frame_offset (sent_frames ss) (lk_received l1))"
      using assms(4) [rule_format, OF _ l1(1)] Suc.prems by simp
    then have good: "good_cut (frame_offset ?fs (lk_received l1))"
      using frame_offset_more [OF link_inv_received [OF l1(2)]] by (simp add: split)
    have short: "length (stream le ?fs) < 2147483648" using assms(2) by (simp add: split)
    have "\<exists>l'. do_link_step le (ss ! k) l1 = Some (Inr (), l')
             \<and> link_inv le l (?fs @ sent_frames [ss ! k]) l'"
    proof (cases "ss ! k")
      case (LkSend h p)
      have "length (stream le (?fs @ [(h, p)])) < 2147483648"
        using assms(2) next_k LkSend by (simp add: split)
      from link_inv_send [OF l1(2) this] show ?thesis using LkSend by simp
    next
      case (LkWriteable wr)
      have "write_goes_on wr" using assms(3) LkWriteable Suc.prems by (metis Suc_le_lessD nth_mem)
      from link_inv_writeable [OF l1(2) this] show ?thesis using LkWriteable by simp
    next
      case (LkReadable n)
      then show ?thesis using link_inv_readable [OF l1(2) short good] by simp
    qed
    then show ?case
      using link_run_append [OF l1(1), of "[ss ! k]"] Suc.prems
      by (auto simp: take_Suc_conv_app_nth Suc_le_eq)
  qed
  from this [of "length ss"] show ?thesis by simp
qed

section \<open>Properties\<close>

text \<open>
  C1: End to end, on a link that is open and empty: one controller writes frames, of less than 2 GB
  in all, to its event-driven socket; its writeable events and the readable events of the peer
  interleave with the writes in any way, and each moves as few bytes as it likes. If \<open>write(2)\<close>
  always takes some bytes or answers \<open>EAGAIN\<close>, and no read of the peer ends inside one of the
  four fields of a header (where its parser loses the bytes before the cut),
  then no handler throws, and at the end of every such run the peer has delivered exactly the
  frames of which it has received the last byte, once, in order and as they were written; when
  it has received everything that was written, that is all of them.
\<close>

theorem frames_end_to_end:
  assumes "link_open l"
    and "length (stream le (sent_frames ss)) < 2147483648"
    and "\<forall>wr. LkWriteable wr \<in> set ss \<longrightarrow> write_goes_on wr"
    and "\<forall>k \<le> length ss. \<forall>l'. link_run le (take k ss) l = Some (Inr (), l') \<longrightarrow>
           good_cut (frame_offset (sent_frames ss) (lk_received l'))"
  shows "\<exists>l' fs gs. link_run le ss l = Some (Inr (), l') \<and> sent_frames ss = fs @ gs
       \<and> delivered (lk_client l') = delivered (lk_client l) @ map sent_view fs
       \<and> lk_received l' = length (stream le fs) + frame_offset (sent_frames ss) (lk_received l')
       \<and> (lk_received l' = length (stream le (sent_frames ss)) \<longrightarrow> gs = [])"
proof -
  obtain l' where run: "link_run le ss l = Some (Inr (), l')" and "link_inv le l (sent_frames ss) l'"
    using link_run_inv [OF assms] by blast
  then obtain q fs gs acc where inv: "lk_received l' \<le> length (sent (lk_tcp l'))"
    "sent_frames ss = fs @ gs" "take (lk_received l') (sent (lk_tcp l')) = stream le fs @ acc"
    "incomplete le acc gs" "delivered (lk_client l') = delivered (lk_client l) @ map sent_view fs"
    by (auto simp: link_inv_def)
  have len: "lk_received l' = length (stream le fs) + length acc"
    using arg_cong [OF inv(3), of length] inv(1) by simp
  moreover have "frame_offset gs (length acc) = length acc" "length acc = length (stream le gs) \<Longrightarrow> gs = []"
    using inv(4) by (cases gs; auto dest!: strict_prefix_take)+
  ultimately show ?thesis
    using run inv(2,5) by (intro exI [of _ l'] exI [of _ fs] exI [of _ gs]) (simp add: frame_offset_stream)
qed

definition openLink :: link where
  "openLink = \<lparr>lk_store = emptyStore, lk_tcp = snd (attachSocketHandle True newTcp), lk_received = 0,
     lk_peer = snd (attachSocketHandle True newTcp), lk_client = newClient\<lparr>cl_factory := True\<rparr>\<rparr>"

lemma link_open_openLink: "link_open openLink"
proof -
  have "ts_bev (snd (attachSocketHandle True newTcp)) = None"
    by (simp add: attachSocketHandle_def throwExceptionIfNotInitState_def newTcp_def createEvent_def
        install_def fire_def ensure_kbuffer_def)
  then show ?thesis
    using attached_holds attached_simps by (simp add: link_open_def openLink_def newClient_def)
qed


text \<open>
  A frame that the socket sends in pieces of 12 and 5 bytes, each read as it comes.
\<close>

definition exampleRun :: "link_step list" where
  "exampleRun = [LkSend (newFrameHeader 7 9) [5], LkWriteable (\<lambda>d. (min 12 (int (length d)), 0)),
     LkReadable 100, LkWriteable (\<lambda>d. (int (length d), 0)), LkReadable 100]"

definition link_at :: "link_step list \<Rightarrow> nat \<Rightarrow> nat \<Rightarrow> bool" where
  "link_at ss n m =
     (case link_run True ss openLink of
        None \<Rightarrow> False
      | Some (r, l) \<Rightarrow>
          (case r of Inl _ \<Rightarrow> False
           | Inr _ \<Rightarrow> lk_received l = n \<and> length (in_flight l) = m \<and> Option.is_none (ts_bev (lk_peer l))))"

lemma exampleRun_at2: "link_at (take 2 exampleRun) 0 12"
  by code_simp

lemma exampleRun_at4: "link_at (take 4 exampleRun) 12 5"
  by code_simp

lemma link_atD:
  "link_at ss n m \<Longrightarrow> \<exists>l. link_run True ss openLink = Some (Inr (), l) \<and> lk_received l = n
     \<and> length (in_flight l) = m \<and> ts_bev (lk_peer l) = None"
  by (auto simp: link_at_def Option.is_none_def split: option.splits prod.splits sum.splits)

lemma link_step_received:
  assumes "do_link_step le (LkReadable k) l = Some (Inr (), l')" "ts_bev (lk_peer l) = None"
  shows "lk_received l' = lk_received l + min (min k IOBUF_LEN) (length (in_flight l))"
proof -
  obtain t' n where "tcp_read (read_answer (in_flight l) k) IOBUF_LEN (tcp_onReadEvent (lk_peer l))
      = (Inr (n, take (min k IOBUF_LEN) (in_flight l)), t')"
    using peer_reads [OF assms(2), of "in_flight l" k] by auto
  then show ?thesis using assms(1) by auto
qed

text \<open>Only a read changes the number of bytes received.\<close>

lemma link_run_snoc:
  assumes "link_run le (ss @ [s]) l0 = Some (Inr (), l')"
  shows "\<exists>l. link_run le ss l0 = Some (Inr (), l) \<and> do_link_step le s l = Some (Inr (), l')"
  using assms
  by (induction ss arbitrary: l0)
    (auto split: option.splits prod.splits sum.splits simp del: do_link_step.simps)

lemma link_step_position:
  "do_link_step le (LkSend h p) l = Some (r, l') \<Longrightarrow> lk_received l' = lk_received l"
  "do_link_step le (LkWriteable wr) l = Some (r, l') \<Longrightarrow> lk_received l' = lk_received l"
  by (auto split: prod.splits)

lemma exampleRun_positions:
  assumes "k \<le> 5" "link_run True (take k exampleRun) openLink = Some (Inr (), l')"
  shows "lk_received l' = [0, 0, 0, 12, 12, 17] ! k"
proof -
  have take_k: "take 1 exampleRun = [] @ [exampleRun ! 0]" "take 3 exampleRun = take 2 exampleRun @ [exampleRun ! 2]"
    "take 5 exampleRun = take 4 exampleRun @ [exampleRun ! 4]"
    "exampleRun ! 0 = LkSend (newFrameHeader 7 9) [5]" "exampleRun ! 2 = LkReadable 100"
    "exampleRun ! 4 = LkReadable 100"
    by (simp_all add: exampleRun_def)
  have read: "lk_received l' = n + m"
    if at: "link_at ss n m" and run: "link_run True (ss @ [LkReadable 100]) openLink = Some (Inr (), l')"
      and "m \<le> 100" for ss n m
  proof -
    obtain l where l: "link_run True ss openLink = Some (Inr (), l)"
      "do_link_step True (LkReadable 100) l = Some (Inr (), l')"
      using link_run_snoc [OF run] by blast
    with link_atD [OF at] link_step_received [OF l(2)] \<open>m \<le> 100\<close> show ?thesis
      by (auto simp: IOBUF_LEN_def)
  qed
  consider "k = 0" | "k = 1" | "k = 2" | "k = 3" | "k = 4" | "k = 5" using assms(1) by linarith
  then show ?thesis
  proof cases
    case 2
    then obtain l where "link_run True [] openLink = Some (Inr (), l)"
      "do_link_step True (LkSend (newFrameHeader 7 9) [5]) l = Some (Inr (), l')"
      using assms(2) link_run_snoc [of True "[]"] take_k(1,4) by (metis append_Nil)
    then show ?thesis using link_step_position(1) 2 by (fastforce simp: openLink_def)
  next
    case 4
    then show ?thesis using assms(2) read [OF exampleRun_at2] take_k(2,5) by simp
  next
    case 6
    then show ?thesis using assms(2) read [OF exampleRun_at4] take_k(3,6) by simp
  qed (use assms(2) link_atD [OF exampleRun_at2] link_atD [OF exampleRun_at4] in \<open>auto simp: openLink_def\<close>)
qed

theorem frames_end_to_end_witness:
  "\<exists>l'. link_run True exampleRun openLink = Some (Inr (), l')
     \<and> delivered (lk_client l') = [Some (7, 9, Inr [5])]"
proof -
  have fs: "sent_frames exampleRun = [(newFrameHeader 7 9, [5])]" "length exampleRun = 5"
    by (simp_all add: exampleRun_def)
  have "good_cut (frame_offset (sent_frames exampleRun) (lk_received l'))"
    if "k \<le> length exampleRun" "link_run True (take k exampleRun) openLink = Some (Inr (), l')" for k l'
  proof -
    have "k \<in> {0, 1, 2, 3, 4, 5}" using that(1) fs(2) by auto
    then have "[0, 0, 0, 12, 12, 17] ! k \<in> {0, 12, 17 :: nat}" by auto
    moreover have "good_cut (frame_offset (sent_frames exampleRun) n)" if "n \<in> {0, 12, 17}" for n
      using that by (auto simp: fs(1) good_cut_def)
    ultimately show ?thesis using exampleRun_positions [OF _ that(2)] that(1) fs(2) by simp
  qed
  moreover have "write_goes_on wr" if "LkWriteable wr \<in> set exampleRun" for wr
  proof -
    have "wr = (\<lambda>d. (min 12 (int (length d)), 0)) \<or> wr = (\<lambda>d. (int (length d), 0))"
      using that by (auto simp: exampleRun_def)
    then show ?thesis by (auto simp: write_goes_on_def write_answer_ok_def)
  qed
  moreover have "length (stream True (sent_frames exampleRun)) = 17" by (simp add: fs)
  ultimately obtain l' gs where r: "link_run True exampleRun openLink = Some (Inr (), l')"
    "lk_received l' = length (stream True (sent_frames exampleRun)) \<Longrightarrow> gs = []"
    "\<exists>fs. sent_frames exampleRun = fs @ gs
       \<and> delivered (lk_client l') = delivered (lk_client openLink) @ map sent_view fs"
    using frames_end_to_end [OF link_open_openLink, of True exampleRun] by fastforce
  have "lk_received l' = 17" using exampleRun_positions [of 5] r(1) fs(2) by simp
  then have "gs = []" using r(2) by (simp add: fs)
  then show ?thesis
    using r(1,3) by (auto simp: fs openLink_def newClient_def delivered_def sent_view_def newFrameHeader_def)
qed

end
