(* ===== verification/Wiring.thy ===== *)
theory Wiring
  imports EndToEnd
begin

text \<open>
  A client controller and its socket as one node: what the socket's state machine tells its owner
  (\<open>TcpSocket\<close>) reaches the controller's handlers (\<open>ClientController\<close>) through the dispatch of
  \<^verbatim>\<open>BaseSocket.cpp\<close>, and the controller's reconnect timer starts a new attempt on the socket;
  and the functions of \<^verbatim>\<open>NetworkHelper.cpp\<close> that put such nodes together.

  The handlers run inside the operation of the socket that calls them. None of them calls the
  socket but the reconnect timer, so the controller may be told after the operation, in the
  order of the calls; read events, whose handler reads, are in \<open>EndToEnd\<close>.
\<close>

section \<open>Dispatch\<close>

text \<open>
  The class of a controller: whether its \<open>_onPreInitialized\<close> sets a protocol factory, as that of
  the frame, line, descriptor and JSON controllers does; and the text for an error number.
\<close>

record kind =
  kd_factory :: bool
  kd_strerror :: "int \<Rightarrow> string"

definition onPreInitialized :: "kind \<Rightarrow> client \<Rightarrow> client" where
  "onPreInitialized kd c = emit [OnInitialized] (if kd_factory kd then c\<lparr>cl_factory := True\<rparr> else c)"

definition fire_initialized :: "kind \<Rightarrow> client \<Rightarrow> client" where
  "fire_initialized kd c =
     (if \<not> cl_initFlag c then onPreInitialized kd (c\<lparr>cl_initFlag := True\<rparr>) else c)"

text \<open>
  \<open>BaseSocket::fire_onSocket_*\<close>: an event reaches the handler if there is one and the service
  has not been stopped.
\<close>

definition fire_handler :: "bool \<Rightarrow> bool \<Rightarrow> kind \<Rightarrow> socket_event \<Rightarrow> client \<Rightarrow> client" where
  "fire_handler handler stopped kd e c =
     (if handler \<and> \<not> stopped then
        (case e of
           FireInitialized \<Rightarrow> fire_initialized kd c
         | FireConnected \<Rightarrow> onSocket_Connected c
         | FireError err \<Rightarrow> onSocket_Error err (kd_strerror kd err) c
         | FireClose \<Rightarrow> onSocket_Close c
         | _ \<Rightarrow> c)
      else c)"

record node =
  nd_client :: client
  nd_tcp :: tcp
  nd_handler :: bool
  nd_stopped :: bool

definition newNode :: "client \<Rightarrow> node" where
  "newNode c = \<lparr>nd_client = c, nd_tcp = newTcp, nd_handler = False, nd_stopped = False\<rparr>"

text \<open>An operation of the socket, and what it tells the controller.\<close>

definition on_socket :: "kind \<Rightarrow> (tcp \<Rightarrow> ('a, tcp) res) \<Rightarrow> node \<Rightarrow> ('a, node) res" where
  "on_socket kd f n =
     (case f (nd_tcp n) of (r, t) \<Rightarrow>
        (r, n\<lparr>nd_tcp := t,
             nd_client := fold (fire_handler (nd_handler n) (nd_stopped n) kd)
                            (drop (length (ts_log (nd_tcp n))) (ts_log t)) (nd_client n)\<rparr>))"

section \<open>Putting a node together\<close>

text \<open>\<open>setEventHandler\<close> of the new socket and \<open>setSocket\<close> of the controller.\<close>

definition give_socket :: "node \<Rightarrow> node" where
  "give_socket n = n\<lparr>nd_tcp := newTcp, nd_handler := True\<rparr>"

definition NetworkHelper_connectTcp :: "kind \<Rightarrow> answers \<Rightarrow> int \<Rightarrow> node \<Rightarrow> (unit, node) res" where
  "NetworkHelper_connectTcp kd a timeout n = on_socket kd (connectHost a timeout) (give_socket n)"

definition NetworkHelper_connectUnix :: "kind \<Rightarrow> answers \<Rightarrow> string \<Rightarrow> int \<Rightarrow> node \<Rightarrow> (unit, node) res" where
  "NetworkHelper_connectUnix kd a path timeout n = on_socket kd (connectUnix a path timeout) (give_socket n)"

definition NetworkHelper_attachTcp :: "kind \<Rightarrow> node \<Rightarrow> (unit, node) res" where
  "NetworkHelper_attachTcp kd n =
     (let n = give_socket n;
          n = n\<lparr>nd_client := setReconnectable False (nd_client n)\<rparr>
      in on_socket kd (attachSocketHandle True) n)"

section \<open>The life of a node\<close>

text \<open>
  The reconnect timer: \<open>tcpSocket()->connect()\<close> inside \<open>onTimer_Timer\<close>. What the attempt tells
  the controller (that the socket is initialised) comes before the timer is killed.
\<close>

definition node_timer :: "kind \<Rightarrow> answers \<Rightarrow> node \<Rightarrow> node" where
  "node_timer kd a n =
     (case on_socket kd (connect a) n of (r, n) \<Rightarrow>
        n\<lparr>nd_client := onTimer_Timer (isl r) TIMERID_RECONNECT (nd_client n)\<rparr>)"

datatype node_step =
    NdSocket tcp_op
  | NdTimer answers
  | NdSetReconnectable bool

fun node_do :: "kind \<Rightarrow> node_step \<Rightarrow> node \<Rightarrow> (unit, node) res" where
  "node_do kd (NdSocket op) n = on_socket kd (tcp_do op) n"
| "node_do kd (NdTimer a) n = (Inr (), node_timer kd a n)"
| "node_do kd (NdSetReconnectable b) n = (Inr (), n\<lparr>nd_client := setReconnectable b (nd_client n)\<rparr>)"

text \<open>
  The timer fires when it is set. A controller whose socket is down is not made reconnectable
  again: nothing would set its timer.
\<close>

fun node_enabled :: "node_step \<Rightarrow> node \<Rightarrow> bool" where
  "node_enabled (NdSocket op) n \<longleftrightarrow> tcp_enabled op (nd_tcp n)"
| "node_enabled (NdTimer a) n \<longleftrightarrow> reconnecting (nd_client n)"
| "node_enabled (NdSetReconnectable b) n \<longleftrightarrow> b \<longrightarrow> ts_state (nd_tcp n) \<noteq> Disconnected"

inductive node_reachable :: "kind \<Rightarrow> node \<Rightarrow> bool" for kd where
  node_up: "tcp_reachable (nd_tcp n) \<Longrightarrow> ts_state (nd_tcp n) \<noteq> Disconnected \<Longrightarrow> nd_handler n \<Longrightarrow>
     \<not> nd_stopped n \<Longrightarrow> node_reachable kd n"
| node_step: "node_reachable kd n \<Longrightarrow> node_enabled st n \<Longrightarrow> node_do kd st n = (r, n') \<Longrightarrow>
     \<forall>u. r \<noteq> Inl (Undef u) \<Longrightarrow> node_reachable kd n'"

text \<open>Every way down fires: no operation takes a socket down in silence.\<close>

definition tells :: "socket_event list \<Rightarrow> bool" where
  "tells es \<longleftrightarrow> FireClose \<in> set es \<or> (\<exists>err. FireError err \<in> set es)"

definition op_tells :: "tcp \<Rightarrow> tcp \<Rightarrow> bool" where
  "op_tells s s' \<longleftrightarrow> (\<exists>es. ts_log s' = ts_log s @ es
      \<and> (ts_state s' = Disconnected \<longrightarrow> ts_state s = Disconnected \<or> tells es))"

lemma op_tells_refl: "ts_log s' = ts_log s \<Longrightarrow> ts_state s' = ts_state s \<Longrightarrow> op_tells s s'"
  by (simp add: op_tells_def)

lemma op_tells_trans:
  assumes "op_tells s t" "op_tells t u"
  shows "op_tells s u"
proof -
  obtain es fs where "ts_log t = ts_log s @ es" "ts_log u = ts_log t @ fs"
    "ts_state t = Disconnected \<longrightarrow> ts_state s = Disconnected \<or> tells es"
    "ts_state u = Disconnected \<longrightarrow> ts_state t = Disconnected \<or> tells fs"
    using assms by (auto simp: op_tells_def)
  then show ?thesis unfolding op_tells_def by (intro exI [of _ "es @ fs"]) (auto simp: tells_def)
qed

lemma deleteTimer_log: "ts_log (deleteTimer s) = ts_log s @ (if ts_timer s then [DeleteTimer] else [])"
  by (simp add: deleteTimer_def)

lemma op_tells_close: "op_tells s (fire_onSocket_Close s)" "op_tells s (tcp_close s)"
  by (auto simp: op_tells_def tells_def fire_onSocket_Close_def tcp_close_def deleteTimer_log)

lemma op_tells_error: "fire_onSocket_Error e s = (r, s') \<Longrightarrow> op_tells s s'"
  by (auto simp: op_tells_def tells_def fire_onSocket_Error_def Let_def split: if_splits)

lemma op_tells_connected: "op_tells s (fire_onSocket_Connected s)"
  by (auto simp: op_tells_def fire_onSocket_Connected_def Let_def deleteTimer_log)

lemma op_tells_check: "checkResponseSocket k e s = (r, s') \<Longrightarrow> op_tells s s'"
  using op_tells_close(1) op_tells_error op_tells_refl
  by (auto simp: checkResponseSocket_def split: if_splits)

text \<open>A chain of appended events.\<close>

definition log_grows :: "tcp \<Rightarrow> tcp \<Rightarrow> bool" where
  "log_grows s s' \<longleftrightarrow> (\<exists>es. ts_log s' = ts_log s @ es)"

lemma log_grows_fire [intro]: "log_grows s t \<Longrightarrow> log_grows s (fire e t)"
  by (auto simp: log_grows_def)

lemma log_grows_same: "ts_log t = ts_log s \<Longrightarrow> log_grows s t"
  by (simp add: log_grows_def)

lemma log_grows_trans: "log_grows s t \<Longrightarrow> log_grows t u \<Longrightarrow> log_grows s u"
  by (auto simp: log_grows_def)

lemma log_grows_install: "log_grows s (install s)"
  by (auto simp: install_def Let_def log_grows_def split: option.splits)

lemma log_grows_create: "log_grows s (createEvent s)" "log_grows s (createBufferEvent s)"
  by (auto simp: createEvent_def createBufferEvent_def log_grows_def)

lemma op_tells_from_down: "log_grows s s' \<Longrightarrow> ts_state s = Disconnected \<Longrightarrow> op_tells s s'"
  by (auto simp: log_grows_def op_tells_def)

lemma op_tells_stays_up: "log_grows s s' \<Longrightarrow> ts_state s' \<noteq> Disconnected \<Longrightarrow> op_tells s s'"
  by (auto simp: log_grows_def op_tells_def)

lemma log_grows_connect:
  assumes "connect a s = (r, s')"
  shows "log_grows s s'"
proof -
  have 1: "log_grows s s1 \<Longrightarrow> connectUnixDomain a s1 = (r1, s2) \<Longrightarrow> log_grows s s2" for s1 r1 s2
    using log_grows_create(1) [of s1]
    by (auto simp: connectUnixDomain_def Let_def intro: log_grows_trans log_grows_same split: if_splits)
      (auto simp: log_grows_def)
  have 2: "log_grows s s1 \<Longrightarrow> connectTcp a s1 = (r1, s2) \<Longrightarrow> log_grows s s2" for s1 r1 s2
    using log_grows_create(2) [of s1]
    by (auto simp: connectTcp_def Let_def intro: log_grows_trans split: if_splits)
      (auto simp: log_grows_def)
  let ?s = "\<lambda>s. tcp_close_handles (s\<lparr>ts_errorDetected := False, ts_state := Connecting\<rparr>)"
  let ?t = "if 0 < ts_timeout s then fire (ConnectTimer (ts_timeout s * 1000)) (s\<lparr>ts_timer := True\<rparr>) else s"
  have 3: "log_grows s (?s ?t)" by (auto simp: log_grows_def)
  show ?thesis
  proof (cases "ts_state s \<noteq> Disconnected \<or> ts_ev s \<noteq> None \<or> ts_bev s \<noteq> None")
    case True
    then show ?thesis using assms by (auto simp: connect_def throwExceptionIfNotInitState_def log_grows_def)
  next
    case False
    obtain r1 s2 where c: "(if ts_path ?t \<noteq> '''' then connectUnixDomain a (?s ?t) else connectTcp a (?s ?t)) = (r1, s2)"
      by fastforce
    then have "log_grows s s2" using 1 [OF 3] 2 [OF 3] by (auto split: if_splits)
    then show ?thesis
      using assms False c log_grows_install [of s2]
      by (cases r1) (auto simp: connect_def throwExceptionIfNotInitState_def Let_def intro: log_grows_trans split: if_splits)
  qed
qed

lemma op_tells_connect:
  assumes "connect a s = (r, s')"
  shows "op_tells s s'"
proof (cases "ts_state s = Disconnected")
  case True
  then show ?thesis using log_grows_connect [OF assms] op_tells_from_down by blast
next
  case False
  then have "s' = s" using assms by (auto simp: connect_def throwExceptionIfNotInitState_def)
  then show ?thesis by (simp add: op_tells_refl)
qed

lemma op_tells_attach:
  assumes "attachSocketHandle i s = (r, s')"
  shows "op_tells s s'"
proof -
  have "log_grows s ((createEvent s)\<lparr>ts_state := Connected\<rparr>)"
    using log_grows_create(1) [of s] by (simp add: log_grows_def)
  moreover have "log_grows s (install ((createEvent s)\<lparr>ts_state := Connected\<rparr>))"
    using calculation log_grows_install by (blast intro: log_grows_trans)
  moreover have "ts_state (install t) = ts_state t" for t by (simp add: install_def Let_def split: option.splits)
  ultimately show ?thesis
    using assms op_tells_stays_up op_tells_refl [of s s]
    by (auto simp: attachSocketHandle_def throwExceptionIfNotInitState_def Let_def split: if_splits)
qed

lemma snd_bindR_keeps:
  "P (snd m) \<Longrightarrow> (\<And>a. P (snd m) \<Longrightarrow> P (snd (f a (snd m)))) \<Longrightarrow> P (snd (bindR m f))"
  by (cases m; cases "fst m") auto

definition quiet :: "tcp \<Rightarrow> tcp \<Rightarrow> bool" where
  "quiet s t \<longleftrightarrow> ts_log t = ts_log s \<and> ts_state t = ts_state s"

lemma quiet_pending: "quiet s t \<Longrightarrow> quiet s (snd (pending_add d t))"
  by (auto simp: pending_add_def quiet_def split: option.split prod.split)

lemma quiet_write: "quiet s (snd (tcp_write d s))"
proof -
  have q: "quiet s s" by (simp add: quiet_def)
  have 1: "quiet s (snd (if ts_state s \<noteq> Connected then pending_add d s else (Inr (-1), s)))"
    using q quiet_pending [OF q] by simp
  have 2: "quiet s (snd (case ts_bev t of
          Some be \<Rightarrow> (Inr (to_int32 (int (length d))), t\<lparr>ts_bev := Some (be\<lparr>be_output := be_output be @ d\<rparr>)\<rparr>)
        | None \<Rightarrow> (case ts_ev t of
               None \<Rightarrow> (Inr ret, t)
             | Some e \<Rightarrow> bindR (pending_add d t) (\<lambda>ret t. (Inr ret, t\<lparr>ts_ev := Some (e\<lparr>ev_writeAdded := True\<rparr>)\<rparr>)))))"
    if "quiet s t" for t ret
    using that quiet_pending [OF that, of d]
    by (auto split: option.split intro!: snd_bindR_keeps [where P = "quiet s"]) (auto simp: quiet_def)
  have 3: "P (snd (if b then x else y))" if "P (snd x)" "P (snd y)" for P b and x y :: "(int, tcp) res"
    using that by simp
  show ?thesis
    unfolding tcp_write_def
    by (rule 3, simp add: q, rule 3, simp add: q, rule snd_bindR_keeps [where P = "quiet s", OF 1 2])
qed

lemma op_tells_quiet: "quiet s t \<Longrightarrow> op_tells s t"
  by (simp add: quiet_def op_tells_refl)

lemma op_tells_flush:
  assumes "flush_kbuffer wr b s = (r, s')"
  shows "op_tells s s'"
proof -
  have drop: "op_tells s (drop_writeEvent s)" by (simp add: drop_writeEvent_def op_tells_refl)
  have "op_tells s (fire (Sent d) (s\<lparr>ts_kbuffer := b'\<rparr>))" "op_tells s (s\<lparr>ts_kbuffer := b'\<rparr>)" for d b'
    by (auto simp: op_tells_def)
  then show ?thesis
    using assms drop op_tells_trans [OF drop op_tells_close(2)] op_tells_close(2) [of s] op_tells_refl [of s s]
    by (auto simp: flush_kbuffer_def Let_def split: if_splits sum.splits prod.splits option.splits)
qed

lemma op_tells_writeEvent:
  assumes "onWriteEvent wr s = (r, s')"
  shows "op_tells s s'"
proof -
  have drop: "op_tells s (drop_writeEvent s)" by (simp add: drop_writeEvent_def op_tells_refl)
  show ?thesis
    using assms op_tells_flush op_tells_trans [OF drop op_tells_connected] op_tells_refl [of s s]
    by (auto simp: onWriteEvent_def split: if_splits option.splits)
qed

lemma op_tells_checkOutput: "op_tells s (checkOutpuBufferAndClose s)"
  using op_tells_close(2) [of s] op_tells_refl [of s s]
  by (auto simp: checkOutpuBufferAndClose_def split: option.splits)

lemma op_tells_do:
  assumes "tcp_do op s = (r, s')"
  shows "op_tells s s'"
proof -
  have same: "op_tells s (s\<lparr>ts_timeout := t, ts_path := p\<rparr>)" "op_tells s (s\<lparr>ts_path := p, ts_timeout := t\<rparr>)"
    "op_tells s (s\<lparr>ts_expired := True\<rparr>)" "op_tells s (s\<lparr>ts_bev := be\<rparr>)" "op_tells s s"
    "op_tells s (s\<lparr>ts_expired := True, ts_ev := e\<rparr>)" for t p be e
    by (simp_all add: op_tells_refl)
  show ?thesis
  proof (cases op)
    case (OpConnect a)
    then show ?thesis using assms op_tells_connect by simp
  next
    case (OpConnectHost a t)
    then show ?thesis using assms op_tells_trans [OF same(1) op_tells_connect] by (simp add: connectHost_def)
  next
    case (OpConnectUnix a p t)
    then show ?thesis using assms op_tells_trans [OF same(2) op_tells_connect] by (simp add: connectUnix_def)
  next
    case (OpAttach i)
    then show ?thesis using assms op_tells_attach by simp
  next
    case OpInstall
    have "ts_state (install s) = ts_state s" by (simp add: install_def Let_def split: option.splits)
    then show ?thesis
      using assms OpInstall log_grows_install [of s] by (auto simp: log_grows_def op_tells_def)
  next
    case (OpWrite d)
    then have "s' = snd (tcp_write d s)" using assms by (cases "tcp_write d s"; cases "fst (tcp_write d s)") auto
    then show ?thesis using op_tells_quiet [OF quiet_write] by simp
  next
    case (OpRead rd n)
    have "op_tells s (snd (tcp_read rd n s))"
      using op_tells_check same(4,5)
      by (auto simp: tcp_read_def Let_def split: option.split prod.split
          intro!: snd_bindR_keeps [where P = "op_tells s"]) (metis prod.collapse)+
    moreover have "s' = snd (tcp_read rd n s)"
      using assms OpRead by (cases "tcp_read rd n s"; cases "fst (tcp_read rd n s)") auto
    ultimately show ?thesis by simp
  next
    case (OpWriteEvent wr)
    then show ?thesis using assms op_tells_writeEvent by simp
  next
    case (OpBufEvent e)
    then show ?thesis
      using assms op_tells_error op_tells_connected op_tells_close(1)
      by (cases e) (auto simp: bufevent_cb_def)
  next
    case OpTimer
    then show ?thesis using assms op_tells_error by (simp add: tcp_onTimer_Timer_def)
  next
    case OpCloseAfterAllSent
    then show ?thesis
      using assms op_tells_trans [OF same(3) op_tells_checkOutput] same(3,6)
      by (auto simp: closeAfterAllSent_def Let_def split: option.splits if_splits)
  next
    case (OpFlushed n)
    then show ?thesis using assms op_tells_trans [OF same(4) op_tells_checkOutput] by auto
  qed (use assms same op_tells_close in \<open>auto simp: tcp_onReadEvent_def op_tells_def\<close>)
qed

section \<open>What the controller makes of it\<close>

lemma reconnecting_fire:
  "reconnecting c \<Longrightarrow> reconnecting (fire_handler h b kd e c)"
  "cl_reconnectable (fire_handler h b kd e c) = cl_reconnectable c"
  by (auto simp: fire_handler_def fire_initialized_def onPreInitialized_def onSocket_Connected_def
      onSocket_Error_def onSocket_Close_def processReconnect_def makeTimer_def reconnecting_def emit_def
      split: socket_event.split)

lemma reconnecting_fold:
  "reconnecting c \<Longrightarrow> reconnecting (fold (fire_handler h b kd) es c)"
  "cl_reconnectable (fold (fire_handler h b kd) es c) = cl_reconnectable c"
  by (induction es arbitrary: c) (auto simp: reconnecting_fire)

lemma reconnecting_told:
  assumes "tells es" "cl_reconnectable c"
  shows "reconnecting (fold (fire_handler True False kd) es c)"
proof -
  obtain xs e ys where es: "es = xs @ e # ys" "e = FireClose \<or> (\<exists>err. e = FireError err)"
    using assms(1) by (auto simp: tells_def dest!: split_list)
  let ?c = "fold (fire_handler True False kd) xs c"
  have "cl_reconnectable ?c" using assms(2) by (simp add: reconnecting_fold)
  then have "reconnecting (fire_handler True False kd e ?c)"
    using es(2) by (auto simp: fire_handler_def onSocket_Error_def onSocket_Close_def processReconnect_def)
  then show ?thesis by (simp add: es(1) reconnecting_fold)
qed

definition node_inv :: "node \<Rightarrow> bool" where
  "node_inv n \<longleftrightarrow> tcp_inv (nd_tcp n) \<and> nd_handler n \<and> \<not> nd_stopped n
     \<and> (ts_state (nd_tcp n) = Disconnected \<longrightarrow> cl_reconnectable (nd_client n) \<longrightarrow> reconnecting (nd_client n))"

lemma on_socket_inv:
  assumes "node_inv n" "on_socket kd f n = (r, n')" "f (nd_tcp n) = (r, t)" "op_tells (nd_tcp n) t" "tcp_inv t"
  shows "node_inv n'" "reconnecting (nd_client n) \<Longrightarrow> reconnecting (nd_client n')" "nd_tcp n' = t"
    "cl_reconnectable (nd_client n') = cl_reconnectable (nd_client n)"
proof -
  obtain es where es: "ts_log t = ts_log (nd_tcp n) @ es"
    "ts_state t = Disconnected \<longrightarrow> ts_state (nd_tcp n) = Disconnected \<or> tells es"
    using assms(4) by (auto simp: op_tells_def)
  have n': "nd_tcp n' = t" "nd_client n' = fold (fire_handler True False kd) es (nd_client n)"
    "nd_handler n'" "\<not> nd_stopped n'"
    using assms(1-3) es(1) by (auto simp: on_socket_def node_inv_def)
  show "nd_tcp n' = t" "cl_reconnectable (nd_client n') = cl_reconnectable (nd_client n)"
    "reconnecting (nd_client n) \<Longrightarrow> reconnecting (nd_client n')"
    by (simp_all add: n' reconnecting_fold)
  show "node_inv n'"
    using assms(1,5) es(2) n' by (auto simp: node_inv_def reconnecting_fold reconnecting_told)
qed

lemma connect_up:
  assumes "connect a s = (Inr x, s')"
  shows "ts_state s' \<noteq> Disconnected"
  using assms
  by (auto simp: connect_def throwExceptionIfNotInitState_def connectTcp_def connectUnixDomain_def Let_def
      createEvent_def createBufferEvent_def install_def ensure_kbuffer_def split: if_splits option.splits)

lemma node_step_inv:
  assumes "node_inv n" "node_enabled st n" "node_do kd st n = (r, n')"
  shows "node_inv n'"
proof (cases st)
  case (NdSocket op)
  obtain r1 t where op: "tcp_do op (nd_tcp n) = (r1, t)" by fastforce
  have "tcp_inv t" using inv_step [of "nd_tcp n" op r1 t] assms(1,2) op NdSocket by (simp add: node_inv_def)
  moreover have "r1 = r" using assms(3) op NdSocket by (auto simp: on_socket_def)
  ultimately show ?thesis
    using on_socket_inv(1) [of n kd "tcp_do op" r n' t] assms(1,3) op op_tells_do [OF op] NdSocket by simp
next
  case (NdTimer a)
  obtain r1 t where op: "connect a (nd_tcp n) = (r1, t)" by fastforce
  obtain n1 where n1: "on_socket kd (connect a) n = (r1, n1)" using op by (auto simp: on_socket_def)
  have "tcp_inv t" using inv_connect [of "nd_tcp n" a r1 t] assms(1) op by (simp add: node_inv_def)
  note inv = on_socket_inv [OF assms(1) n1 op op_tells_connect [OF op] this]
  have n': "n' = n1\<lparr>nd_client := onTimer_Timer (isl r1) TIMERID_RECONNECT (nd_client n1)\<rparr>"
    using assms(3) NdTimer n1 by (simp add: node_timer_def)
  have rc: "reconnecting (nd_client n1)" using inv(2) assms(2) NdTimer by simp
  have "isl r1 \<Longrightarrow> reconnecting (onTimer_Timer (isl r1) TIMERID_RECONNECT (nd_client n1))"
    using rc by (simp add: onTimer_Timer_def Let_def)
  moreover have "\<not> isl r1 \<Longrightarrow> ts_state t \<noteq> Disconnected"
    using op connect_up by (cases r1) auto
  ultimately show ?thesis using inv(1,3) by (cases "isl r1") (auto simp: node_inv_def n')
next
  case (NdSetReconnectable b)
  then show ?thesis
    using assms by (auto simp: node_inv_def setReconnectable_def Let_def)
qed

lemma node_reachable_inv: "node_reachable kd n \<Longrightarrow> node_inv n"
proof (induction rule: node_reachable.induct)
  case (node_up n)
  then show ?case by (simp add: node_inv_def reachable_inv)
next
  case (node_step n st r n')
  then show ?case using node_step_inv by blast
qed

lemma connect_granted:
  assumes "connect a s = (r, t)" "ts_state s = Disconnected" "ts_ev s = None" "ts_bev s = None"
    and "an_hostname a = 0" "an_socket a" "an_connect a"
  shows "r = Inr () \<and> ts_state t = Connecting"
  using assms
  by (auto simp: connect_def throwExceptionIfNotInitState_def connectTcp_def connectUnixDomain_def Let_def
      createEvent_def createBufferEvent_def install_def ensure_kbuffer_def split: if_splits option.splits)

section \<open>Properties\<close>

text \<open>
  C18: A node that is down is on its way up again: however its socket has come down (an error, a
  close by either end, a failed attempt, the connect timer), a reconnectable controller has
  its reconnect timer set; and when the timer fires and the system grants the connection, the
  socket is connecting and the timer is off.
\<close>

theorem node_down_reconnects:
  assumes "node_reachable kd n" "cl_reconnectable (nd_client n)" "ts_state (nd_tcp n) = Disconnected"
    and "an_hostname a = 0" "an_socket a" "an_connect a"
  shows "reconnecting (nd_client n)
    \<and> ts_state (nd_tcp (node_timer kd a n)) = Connecting
    \<and> \<not> reconnecting (nd_client (node_timer kd a n))"
proof -
  have inv: "node_inv n" using node_reachable_inv [OF assms(1)] .
  then have free: "ts_ev (nd_tcp n) = None" "ts_bev (nd_tcp n) = None"
    using assms(3) by (auto simp: node_inv_def tcp_inv_def)
  obtain r t where c: "connect a (nd_tcp n) = (r, t)" by fastforce
  then have t: "connect a (nd_tcp n) = (Inr (), t)" "ts_state t = Connecting"
    using connect_granted [OF c assms(3) free assms(4-6)] by auto
  obtain n1 where n1: "on_socket kd (connect a) n = (Inr (), n1)" "nd_tcp n1 = t"
    using t(1) by (auto simp: on_socket_def)
  have "node_timer kd a n = n1\<lparr>nd_client := onTimer_Timer False TIMERID_RECONNECT (nd_client n1)\<rparr>"
    using n1(1) by (simp add: node_timer_def)
  then show ?thesis
    using inv assms(2,3) t(2) n1(2) by (simp add: node_inv_def onTimer_Timer_def Let_def)
qed

definition granted :: answers where
  "granted = \<lparr>an_hostname = 0, an_socket = True, an_connect = True\<rparr>"

definition exampleKind :: kind where
  "exampleKind = \<lparr>kd_factory = True, kd_strerror = (\<lambda>_. ''error'')\<rparr>"

text \<open>A node that connected by name and was then cut off by its peer.\<close>

definition exampleNode :: node where
  "exampleNode = snd (on_socket exampleKind (bufevent_cb BEV_EOF)
     (snd (NetworkHelper_connectTcp exampleKind granted 0 (newNode newClient))))"

theorem node_down_reconnects_witness:
  "ts_state (nd_tcp (node_timer exampleKind granted exampleNode)) = Connecting"
proof -
  let ?n = "snd (NetworkHelper_connectTcp exampleKind granted 0 (newNode newClient))"
  have "tcp_do (OpConnectHost granted 0) newTcp = (Inr (), snd (connectHost granted 0 newTcp))"
    by (simp add: connectHost_def connect_def throwExceptionIfNotInitState_def connectTcp_def Let_def
        createBufferEvent_def granted_def newTcp_def)
  from reach_do [OF reach_new _ this] have "tcp_reachable (snd (connectHost granted 0 newTcp))" by simp
  moreover have n: "nd_tcp ?n = snd (connectHost granted 0 newTcp)" "nd_handler ?n" "\<not> nd_stopped ?n"
    by (simp_all add: NetworkHelper_connectTcp_def on_socket_def give_socket_def newNode_def split: prod.split)
  moreover have up: "ts_state (snd (connectHost granted 0 newTcp)) = Connecting"
    "ts_bev (snd (connectHost granted 0 newTcp)) \<noteq> None"
    by (simp_all add: connectHost_def connect_def throwExceptionIfNotInitState_def connectTcp_def Let_def
        createBufferEvent_def granted_def newTcp_def install_def ensure_kbuffer_def)
  ultimately have "node_reachable exampleKind ?n" by (intro node_up) simp_all
  moreover have "node_do exampleKind (NdSocket (OpBufEvent BEV_EOF)) ?n = (Inr (), exampleNode)"
    by (simp add: exampleNode_def on_socket_def bufevent_cb_def)
  ultimately have r: "node_reachable exampleKind exampleNode"
    using node_step [of exampleKind ?n "NdSocket (OpBufEvent BEV_EOF)" "Inr ()"] n(1) up(2) by simp
  have "ts_state (nd_tcp exampleNode) = Disconnected"
    by (simp add: exampleNode_def on_socket_def bufevent_cb_def)
  moreover have "cl_reconnectable (nd_client exampleNode)"
    by (simp add: exampleNode_def on_socket_def reconnecting_fold NetworkHelper_connectTcp_def give_socket_def
        newNode_def newClient_def split: prod.split)
  ultimately show ?thesis
    using node_down_reconnects [OF r, of granted] by (simp add: granted_def)
qed

text \<open>
  What \<open>attachTcp\<close> makes of a pair of descriptors and two frame controllers is an open link: their
  frames travel as \<open>EndToEnd\<close> says; neither end reconnects.
\<close>

lemma attachTcp_open:
  assumes "kd_factory kd"
  shows "\<exists>n. NetworkHelper_attachTcp kd (newNode newClient) = (Inr (), n)
     \<and> ev_holds (nd_tcp n) [] \<and> \<not> ts_expired (nd_tcp n) \<and> sent (nd_tcp n) = [] \<and> ts_bev (nd_tcp n) = None
     \<and> cl_factory (nd_client n) \<and> cl_protocol (nd_client n) = None \<and> \<not> cl_reconnectable (nd_client n)"
proof -
  obtain t where t: "attachSocketHandle True newTcp = (Inr (), t)" "ts_log t = [FireInitialized]"
    by (simp add: attachSocketHandle_def throwExceptionIfNotInitState_def newTcp_def createEvent_def
        install_def fire_def ensure_kbuffer_def)
  then have "ev_holds t []" "\<not> ts_expired t" "sent t = []" using attached_holds attached_simps by simp_all
  moreover from this have "ts_bev t = None" by (simp add: ev_holds_def)
  moreover have "ts_log newTcp = []" by (simp add: newTcp_def)
  ultimately show ?thesis
    using assms t
    by (simp add: NetworkHelper_attachTcp_def give_socket_def newNode_def on_socket_def fire_handler_def
        fire_initialized_def onPreInitialized_def setReconnectable_def newClient_def emit_def Let_def)
qed

lemma attached_peers_linked:
  assumes "kd_factory kd"
    and "NetworkHelper_attachTcp kd (newNode newClient) = (r1, n1)"
    and "NetworkHelper_attachTcp kd (newNode newClient) = (r2, n2)"
  shows "link_open \<lparr>lk_store = st, lk_tcp = nd_tcp n1, lk_received = 0, lk_peer = nd_tcp n2,
           lk_client = nd_client n2\<rparr>"
  using attachTcp_open [OF assms(1)] assms(2,3) by (auto simp: link_open_def)

end
