(* ===== verification/Udp.thy ===== *)
theory Udp
  imports Prelude
begin

text \<open>
  UDP sockets and the resolver they use: \<^verbatim>\<open>LibeventUdpSocketImpl.h\<close> and
  \<^verbatim>\<open>LibeventDNSResolverImpl.h\<close>; \<^verbatim>\<open>UdpSocket.cpp\<close> and \<^verbatim>\<open>DNSResolver.cpp\<close> only forward to
  them. And the listener of a server, \<^verbatim>\<open>LibeventConnectionListenerImpl.h\<close>.

  The contexts the code allocates with \<open>malloc\<close> live in two heaps, maps from addresses; using
  or freeing a context that is not allocated is undefined. What the system calls and libevent's
  resolver answer are arguments, and so is \<open>rand\<close>. The socket is the only user of its resolver.
\<close>

section \<open>State\<close>

type_synonym sockaddr_in = "int \<times> 16 word"

datatype addrinfo = Ai_inet int | Ai_inet6 | Ai_other

record write_context =
  wc_data :: bytes
  wc_port :: int

record dns_context =
  dc_host :: string
  dc_ptr :: nat

record dns =
  dn_base :: bool
  dn_gotResult :: bool
  dn_mapcontext :: "string \<rightharpoonup> nat"
  dn_heap :: "nat \<rightharpoonup> dns_context"
  dn_next :: nat

definition newDns :: dns where
  "newDns = \<lparr>dn_base = False, dn_gotResult = False, dn_mapcontext = Map.empty, dn_heap = Map.empty, dn_next = 0\<rparr>"

datatype udp_event =
    UdpSend bytes sockaddr_in
  | UdpInitialized
  | UdpReadFrom bytes int sockaddr_in
  | UdpCloseSocket int

record udp =
  ud_ev :: "int option"
  ud_port :: int
  ud_lastclient :: "sockaddr_in option"
  ud_sin :: "sockaddr_in option"
  ud_dns :: "dns option"
  ud_heap :: "nat \<rightharpoonup> write_context"
  ud_next :: nat
  ud_log :: "udp_event list"

definition newUdp :: "int \<Rightarrow> udp" where
  "newUdp port = \<lparr>ud_ev = None, ud_port = port, ud_lastclient = None, ud_sin = None,
    ud_dns = None, ud_heap = Map.empty, ud_next = 0, ud_log = []\<rparr>"

definition ud_emit :: "udp_event \<Rightarrow> udp \<Rightarrow> udp" where
  "ud_emit e u = u\<lparr>ud_log := ud_log u @ [e]\<rparr>"

section \<open>The socket\<close>

definition udp_socketFD :: "udp \<Rightarrow> int" where
  "udp_socketFD u = (case ud_ev u of Some fd \<Rightarrow> fd | None \<Rightarrow> -1)"

text \<open>\<open>connect\<close> wants the event object to be missing, and then asks it for its descriptor.\<close>

definition udp_connect :: "udp \<Rightarrow> (unit, udp) res" where
  "udp_connect u = (if ud_ev u \<noteq> None
     then (Inl (IllegalStateException ''already event object is created''), u)
     else (Inl (Undef ''event_get_fd(NULL)''), u))"

text \<open>The arguments: what \<open>socket\<close>, \<open>setsockopt\<close> and \<open>bind\<close> return.\<close>

definition udp_bind :: "int \<Rightarrow> int \<Rightarrow> int \<Rightarrow> udp \<Rightarrow> (unit, udp) res" where
  "udp_bind sock opt_ret bind_ret u =
    (let u = u\<lparr>ud_sin := Some (0, word_of_int (ud_port u))\<rparr> in
     if sock < 0 then (Inl (SocketException ''Error creating datagram socket''), u)
     else if opt_ret < 0 then (Inl (SocketException ''Error setting datagram socket option''), u)
     else if ud_port u \<noteq> 0 \<and> bind_ret < 0 then (Inl (SocketException ''Error binding datagram socket''), u)
     else (Inr (), ud_emit UdpInitialized (u\<lparr>ud_ev := Some sock\<rparr>)))"

definition udp_close :: "udp \<Rightarrow> udp" where
  "udp_close u = (case ud_ev u of
     Some fd \<Rightarrow> ud_emit (UdpCloseSocket fd) (u\<lparr>ud_ev := None\<rparr>) | None \<Rightarrow> u)"

definition udp_checkResponseSocket :: "bool \<Rightarrow> int \<Rightarrow> udp \<Rightarrow> udp" where
  "udp_checkResponseSocket retriable ret u =
    (if ret = -1 then (if \<not> retriable then udp_close u else u)
     else if ret = 0 then udp_close u else u)"

definition udp_writeTo :: "bytes \<Rightarrow> sockaddr_in \<Rightarrow> udp \<Rightarrow> (unit, udp) res" where
  "udp_writeTo data sin u = (if ud_ev u = None
     then (Inl (Undef ''assert: socket is not initailized''), u)
     else (Inr (), ud_emit (UdpSend data sin) u))"

definition udp_write :: "bytes \<Rightarrow> udp \<Rightarrow> (unit, udp) res" where
  "udp_write data u = (if ud_ev u = None
     then (Inl (Undef ''assert: socket is not initailized''), u)
     else case ud_lastclient u of
       None \<Rightarrow> (Inl (Undef ''lastclient_sin_ is not initialized''), u)
     | Some sin \<Rightarrow> (Inr (), ud_emit (UdpSend data sin) u))"

text \<open>A datagram, with the length \<open>recvfrom\<close> returns, which is handed on as it is.\<close>

definition udp_event_cb :: "bool \<Rightarrow> bool \<Rightarrow> bytes \<Rightarrow> int \<Rightarrow> sockaddr_in \<Rightarrow> udp \<Rightarrow> udp" where
  "udp_event_cb stopped readable buf len sin u = (if stopped then u
     else if readable then ud_emit (UdpReadFrom buf len sin) (u\<lparr>ud_lastclient := Some sin\<rparr>)
     else u)"

section \<open>Host names\<close>

definition free_write_context :: "nat \<Rightarrow> udp \<Rightarrow> (unit, udp) res" where
  "free_write_context a u = (case ud_heap u a of
     None \<Rightarrow> (Inl (Undef ''free''), u) | Some _ \<Rightarrow> (Inr (), u\<lparr>ud_heap := (ud_heap u)(a := None)\<rparr>))"

definition udp_onDnsResolveResult :: "int \<Rightarrow> addrinfo list \<Rightarrow> nat \<Rightarrow> nat \<Rightarrow> udp \<Rightarrow> (unit, udp) res" where
  "udp_onDnsResolveResult errcode addr rand a u =
    bindR (case ud_heap u a of
        None \<Rightarrow> (Inl (Undef ''freed context''), u)
      | Some c \<Rightarrow>
          if errcode \<noteq> 0 then (Inr (), u)
          else if length addr = 0 then (Inl (Undef ''division by zero''), u)
          else (case addr ! (rand mod length addr) of
              Ai_inet ip \<Rightarrow> udp_writeTo (wc_data c) (ip, word_of_int (wc_port c)) u
            | _ \<Rightarrow> (Inr (), u)))
      (\<lambda>_ u. free_write_context a u)"

definition on_dns :: "(dns \<Rightarrow> dns) \<Rightarrow> udp \<Rightarrow> udp" where
  "on_dns f u = u\<lparr>ud_dns := map_option f (ud_dns u)\<rparr>"

definition freeContext :: "nat \<Rightarrow> udp \<Rightarrow> (unit, udp) res" where
  "freeContext k u = (case ud_dns u of
     None \<Rightarrow> (Inl (Undef ''no resolver''), u)
   | Some d \<Rightarrow> (case dn_heap d k of
       None \<Rightarrow> (Inl (Undef ''free''), u)
     | Some _ \<Rightarrow> (Inr (), on_dns (\<lambda>d. d\<lparr>dn_heap := (dn_heap d)(k := None)\<rparr>) u)))"

text \<open>The callback of the resolver, and \<open>fire_onDnsResolveResult\<close> in it.\<close>

definition dns_callback :: "int \<Rightarrow> addrinfo list \<Rightarrow> nat \<Rightarrow> nat \<Rightarrow> udp \<Rightarrow> (unit, udp) res" where
  "dns_callback errcode addr rand k u = (case ud_dns u of
     None \<Rightarrow> (Inl (Undef ''no resolver''), u)
   | Some d \<Rightarrow> (case dn_heap d k of
       None \<Rightarrow> (Inl (Undef ''freed context''), u)
     | Some c \<Rightarrow>
        bindR (udp_onDnsResolveResult errcode addr rand (dc_ptr c) (on_dns (\<lambda>d. d\<lparr>dn_gotResult := True\<rparr>) u))
          (\<lambda>_ u. freeContext k
             (on_dns (\<lambda>d. d\<lparr>dn_mapcontext := (dn_mapcontext d)(dc_host c := None)\<rparr>) u))))"

datatype getaddrinfo = Ga_pending | Ga_called int "addrinfo list" | Ga_failed

definition dns_resolve :: "string \<Rightarrow> nat \<Rightarrow> getaddrinfo \<Rightarrow> nat \<Rightarrow> udp \<Rightarrow> (bool, udp) res" where
  "dns_resolve host a ga rand u = (case ud_dns u of
     None \<Rightarrow> (Inl (Undef ''no resolver''), u)
   | Some d \<Rightarrow>
      (let u = on_dns (\<lambda>d. d\<lparr>dn_base := True\<rparr>) u in
       if dn_mapcontext d host \<noteq> None then (Inr False, u)
       else
         (let k = dn_next d;
              u = on_dns (\<lambda>d. d\<lparr>dn_heap := (dn_heap d)(k \<mapsto> \<lparr>dc_host = host, dc_ptr = a\<rparr>),
                                 dn_next := Suc k, dn_gotResult := False\<rparr>) u
          in case ga of
               Ga_called errcode addr \<Rightarrow> bindR (dns_callback errcode addr rand k u) (\<lambda>_ u. (Inr True, u))
             | Ga_failed \<Rightarrow> bindR (freeContext k u) (\<lambda>_ u. (Inr True, u))
             | Ga_pending \<Rightarrow>
                 (Inr True, on_dns (\<lambda>d. d\<lparr>dn_mapcontext := (dn_mapcontext d)(host \<mapsto> k)\<rparr>) u))))"

definition udp_writeToHost ::
  "(string \<Rightarrow> int option) \<Rightarrow> bytes \<Rightarrow> string \<Rightarrow> int \<Rightarrow> getaddrinfo \<Rightarrow> nat \<Rightarrow> udp \<Rightarrow> (int, udp) res" where
  "udp_writeToHost pton data host port ga rand u = (if ud_ev u = None
     then (Inl (Undef ''assert: socket is not initailized''), u)
     else case pton host of
       Some ip \<Rightarrow> bindR (udp_writeTo data (ip, word_of_int port) u) (\<lambda>_ u. (Inr 0, u))
     | None \<Rightarrow>
        (let u = (if ud_dns u = None then u\<lparr>ud_dns := Some newDns\<rparr> else u);
             a = ud_next u;
             u = u\<lparr>ud_heap := (ud_heap u)(a \<mapsto> \<lparr>wc_data = data, wc_port = port\<rparr>), ud_next := Suc a\<rparr>
         in bindR (dns_resolve host a ga rand u) (\<lambda>b u.
              if b = False then bindR (free_write_context a u) (\<lambda>_ u. (Inr (-1), u))
              else (Inr 0, u))))"

text \<open>\<open>cleanUp\<close> frees the contexts of the map; libevent drops the requests without a callback.\<close>

definition dns_cleanUp :: "dns \<Rightarrow> dns" where
  "dns_cleanUp d = d\<lparr>dn_base := False, dn_heap := (dn_heap d) |` (- ran (dn_mapcontext d)), dn_mapcontext := Map.empty\<rparr>"

definition udp_destroy :: "udp \<Rightarrow> udp" where
  "udp_destroy u = (let u = udp_close u in on_dns dns_cleanUp u)"

section \<open>The listener\<close>

record listener =
  ls_handle :: bool
  ls_path :: string
  ls_port :: int

datatype listen_event = Unlink string | BindInet "16 word" | BindUnix string | AcceptHandler int | ErrorHandler int

definition newListener :: listener where
  "newListener = \<lparr>ls_handle = False, ls_path = [], ls_port = 0\<rparr>"

definition listener_initialize :: "int \<Rightarrow> listener \<Rightarrow> listener" where
  "listener_initialize port l = l\<lparr>ls_port := port\<rparr>"

definition listener_initialize_path :: "string \<Rightarrow> listener \<Rightarrow> listener" where
  "listener_initialize_path path l = l\<lparr>ls_path := path\<rparr>"

definition isUnixDomainListenMode :: "listener \<Rightarrow> bool" where
  "isUnixDomainListenMode l = (length (ls_path l) > 0)"

text \<open>A \<open>sun_path\<close> has 108 bytes, one of them for the NUL.\<close>

definition listen :: "bool \<Rightarrow> listener \<Rightarrow> (unit, listener \<times> listen_event list) res" where
  "listen created l =
    (if ls_handle l then (Inl (IllegalStateException ''Already listener created''), l, [])
     else if isUnixDomainListenMode l \<and> length (ls_path l) \<ge> 108
     then (Inl (Undef ''strcpy beyond sun_path''), l, [Unlink (ls_path l)])
     else
       (let es = (if \<not> isUnixDomainListenMode l then [BindInet (word_of_int (ls_port l))]
                  else [Unlink (ls_path l), BindUnix (ls_path l)])
        in if \<not> created then (Inl (SocketException ''Couldn't create listener''), l, es)
           else (Inr (), l\<lparr>ls_handle := True\<rparr>, es)))"

definition accept_conn_cb :: "int \<Rightarrow> listen_event list" where
  "accept_conn_cb fd = [AcceptHandler fd]"

definition accept_error_cb :: "int \<Rightarrow> listen_event list" where
  "accept_error_cb err = [ErrorHandler err]"

end
