(* ===== verification/Front.thy ===== *)
theory Front
  imports Server Container Wiring Udp
begin

text \<open>
  The front of a server: its listener, the container it takes services from, and the sockets of
  the clients it accepts, put together as \<^verbatim>\<open>NetworkHelper.cpp\<close> and
  \<^verbatim>\<open>ServerController::onConnectionListener_Accept\<close> do it. The controller's own state is the
  record of \<open>Server\<close>; here each accepted client also gets the service the container's counter
  chooses and a socket of its own.

  A service is its index in the container. \<open>fr_unowned\<close> are the accepted descriptors that no
  socket holds.
\<close>

record front =
  fr_container :: container
  fr_index :: "32 word"
  fr_server :: server
  fr_listener :: "listener option"
  fr_initialized :: bool
  fr_sockets :: "nat \<rightharpoonup> tcp"
  fr_homes :: "(nat \<times> nat) list"
  fr_unowned :: "int list"

definition newFront :: "container \<Rightarrow> 32 word \<Rightarrow> front" where
  "newFront c s = \<lparr>fr_container = c, fr_index = s, fr_server = newServer, fr_listener = None,
     fr_initialized = False, fr_sockets = Map.empty, fr_homes = [], fr_unowned = []\<rparr>"

definition front_size :: "front \<Rightarrow> nat" where
  "front_size f = length (ioservices (fr_container f))"

section \<open>Listening\<close>

text \<open>The listener is the server's; \<open>_onPreInitialized\<close> makes the deferred caller and calls \<open>onInitialized\<close>.\<close>

definition setConnectionListener :: "listener \<Rightarrow> front \<Rightarrow> front" where
  "setConnectionListener l f = f\<lparr>fr_listener := Some l, fr_initialized := True\<rparr>"

definition listen_with :: "bool \<Rightarrow> listener \<Rightarrow> front \<Rightarrow> (unit, front) res" where
  "listen_with created l f =
     (case round_robin (front_size f) (fr_index f) of
        (Inl e, s) \<Rightarrow> (Inl e, f\<lparr>fr_index := s\<rparr>)
      | (Inr i, s) \<Rightarrow>
          (case listen created l of
             (r, (l', es)) \<Rightarrow> (r, (setConnectionListener l (f\<lparr>fr_index := s\<rparr>))\<lparr>fr_listener := Some l'\<rparr>)))"

definition NetworkHelper_listenTcp :: "bool \<Rightarrow> int \<Rightarrow> front \<Rightarrow> (unit, front) res" where
  "NetworkHelper_listenTcp created port f = listen_with created (listener_initialize port newListener) f"

definition NetworkHelper_listenUnix :: "bool \<Rightarrow> string \<Rightarrow> front \<Rightarrow> (unit, front) res" where
  "NetworkHelper_listenUnix created path f = listen_with created (listener_initialize_path path newListener) f"

text \<open>
  A controller on a datagram socket: the socket is on the service the counter chooses and is the
  controller's before it is bound. Its events go to the controller's handlers. The three numbers
  are what \<open>socket\<close>, \<open>setsockopt\<close> and \<open>bind\<close> return.
\<close>

record udp_wiring =
  uw_service :: "nat option"
  uw_socket :: "udp option"
  uw_index :: "32 word"

definition NetworkHelper_bindUdp ::
  "nat \<Rightarrow> int \<Rightarrow> int \<Rightarrow> int \<Rightarrow> int \<Rightarrow> udp_wiring \<Rightarrow> (unit, udp_wiring) res" where
  "NetworkHelper_bindUdp services sock opt_ret bind_ret port w =
     (case round_robin services (uw_index w) of
        (Inl e, s) \<Rightarrow> (Inl e, w\<lparr>uw_index := s\<rparr>)
      | (Inr i, s) \<Rightarrow>
          (let w = w\<lparr>uw_index := s, uw_service := Some i, uw_socket := Some (newUdp port)\<rparr> in
           case udp_bind sock opt_ret bind_ret (newUdp port) of
             (r, u) \<Rightarrow> (r, w\<lparr>uw_socket := Some u\<rparr>)))"

text \<open>
  A client's socket, which has port 0, is not bound: whatever \<open>bind\<close> would return, it is open as
  soon as the system makes it.
\<close>

lemma bindUdp_client_opens:
  assumes "0 < services" "0 \<le> sock" "0 \<le> opt_ret"
  shows "\<exists>w' u. NetworkHelper_bindUdp services sock opt_ret bind_ret 0 w = (Inr (), w')
     \<and> uw_socket w' = Some u \<and> ud_ev u = Some sock \<and> ud_log u = [UdpInitialized]
     \<and> uw_service w' = Some (unat (uw_index w + 1) mod services)"
  using assms by (simp add: NetworkHelper_bindUdp_def round_robin_def Let_def udp_bind_def newUdp_def ud_emit_def)

section \<open>Accepting\<close>

definition front_accept :: "bool \<Rightarrow> nat option \<Rightarrow> int \<Rightarrow> front \<Rightarrow> (unit, front) res" where
  "front_accept hooked accepted newSocket f =
     (if hooked then (Inr (), f)
      else
        (case round_robin (front_size f) (fr_index f) of
           (Inl e, s) \<Rightarrow> (Inl e, f\<lparr>fr_index := s\<rparr>)
         | (Inr i, s) \<Rightarrow>
             (let f = f\<lparr>fr_index := s\<rparr> in
              case accepted of
                None \<Rightarrow> (Inr (), f\<lparr>fr_unowned := fr_unowned f @ [newSocket]\<rparr>)
              | Some c \<Rightarrow>
                  (case attachSocketHandle False newTcp of
                     (r, t) \<Rightarrow>
                       (r, f\<lparr>fr_server := onConnectionListener_Accept False (Some c) newSocket (fr_server f),
                            fr_sockets := (fr_sockets f)(c \<mapsto> (case r of Inl e \<Rightarrow> t | Inr _ \<Rightarrow> install t)),
                            fr_homes := fr_homes f @ [(c, i)]\<rparr>)))))"

fun accept_all :: "(nat \<times> int) list \<Rightarrow> front \<Rightarrow> (unit, front) res" where
  "accept_all [] f = (Inr (), f)"
| "accept_all ((c, fd) # cs) f = bindR (front_accept False (Some c) fd f) (\<lambda>_. accept_all cs)"

section \<open>How the clients are spread\<close>

lemma count_residues:
  assumes "0 < n" "i < n"
  shows "count_list (map (\<lambda>j. (a + j) mod n) [0..<m]) i \<in> {m div n, Suc (m div n)}"
proof -
  let ?k = "m div n" and ?r = "m mod n" and ?f = "\<lambda>j. (a + j) mod n"
  have "[0..<m] = [0..<?k * n] @ map (\<lambda>j. j + ?k * n) [0..<?r]"
    using upt_add_eq_append [of 0 "?k * n" ?r] by (simp add: map_add_upt add.commute)
  then have "map ?f [0..<m] = map ?f [0..<?k * n] @ map (\<lambda>j. ?f (j + ?k * n)) [0..<?r]"
    by (simp add: comp_def)
  moreover have "?f (j + ?k * n) = ?f j" for j by (simp flip: add.assoc)
  ultimately have split: "map ?f [0..<m] = map ?f [0..<?k * n] @ map ?f [0..<?r]" by simp
  have "count (mset (map ?f [0..<?k * n])) i = ?k * count (mset [0..<n]) i"
    by (simp only: mod_blocks [OF assms(1)] count_repeat_mset)
  moreover have "count (mset [0..<n]) i = 1" using assms(2) distinct_count_atmost_1 [of "[0..<n]"] by simp
  ultimately have first: "count_list (map ?f [0..<?k * n]) i = ?k"
    by (simp add: count_mset count_list_eq_length_filter del: mset_map)
  have "?r < n" using assms(1) by simp
  then have "distinct (map ?f [0..<?r])"
    using inj_on_subset [OF mod_block_inj [OF assms(1), of a], of "{0..<?r}"] by (simp add: distinct_map)
  then have "count_list (map ?f [0..<?r]) i \<le> 1"
  proof -
    have "distinct ys \<Longrightarrow> count_list ys i \<le> 1" for ys
      by (induction ys) (auto simp: count_list_0_iff)
    then show ?thesis using \<open>distinct (map ?f [0..<?r])\<close> by blast
  qed
  then show ?thesis unfolding split using first by auto
qed

lemma attached_uninstalled:
  "attachSocketHandle False newTcp = (Inr (), snd (attachSocketHandle False newTcp))"
  "install (snd (attachSocketHandle False newTcp)) = snd (attachSocketHandle True newTcp)"
  by (simp_all add: attachSocketHandle_def throwExceptionIfNotInitState_def newTcp_def)

lemma accept_one:
  assumes "0 < front_size f"
  shows "\<exists>f'. front_accept False (Some c) fd f = (Inr (), f')
     \<and> fr_index f' = fr_index f + 1 \<and> fr_container f' = fr_container f
     \<and> fr_homes f' = fr_homes f @ [(c, unat (fr_index f + 1) mod front_size f)]
     \<and> fr_sockets f' = (fr_sockets f)(c \<mapsto> snd (attachSocketHandle True newTcp))
     \<and> fr_server f' = onConnectionListener_Accept False (Some c) fd (fr_server f)
     \<and> fr_unowned f' = fr_unowned f"
  using assms attached_uninstalled(2)
  by (subst front_accept_def, subst attached_uninstalled(1)) (simp add: round_robin_def Let_def)

lemma accept_all_homes:
  assumes "0 < front_size f"
  shows "\<exists>f'. accept_all cs f = (Inr (), f') \<and> fr_container f' = fr_container f
     \<and> map snd (fr_homes f') = map snd (fr_homes f) @ deal (length cs) (front_size f) (fr_index f)
     \<and> (\<forall>c. fr_sockets f' c = (if c \<in> fst ` set cs then Some (snd (attachSocketHandle True newTcp))
                                 else fr_sockets f c))
     \<and> set (sv_clients (fr_server f')) = set (sv_clients (fr_server f)) \<union> fst ` set cs
     \<and> fr_unowned f' = fr_unowned f"
  using assms
proof (induction cs arbitrary: f)
  case (Cons cfd cs)
  obtain c fd where cfd: "cfd = (c, fd)" by (cases cfd)
  obtain f1 where f1: "front_accept False (Some c) fd f = (Inr (), f1)" "fr_index f1 = fr_index f + 1"
    "fr_container f1 = fr_container f" "fr_homes f1 = fr_homes f @ [(c, unat (fr_index f + 1) mod front_size f)]"
    "fr_sockets f1 = (fr_sockets f)(c \<mapsto> snd (attachSocketHandle True newTcp))"
    "fr_server f1 = onConnectionListener_Accept False (Some c) fd (fr_server f)"
    "fr_unowned f1 = fr_unowned f"
    using accept_one [OF Cons.prems] by blast
  have size: "front_size f1 = front_size f" by (simp add: front_size_def f1(3))
  then have "0 < front_size f1" using Cons.prems by simp
  from Cons.IH [OF this] obtain f' where f': "accept_all cs f1 = (Inr (), f')" "fr_container f' = fr_container f1"
    "map snd (fr_homes f') = map snd (fr_homes f1) @ deal (length cs) (front_size f1) (fr_index f1)"
    "\<forall>c. fr_sockets f' c = (if c \<in> fst ` set cs then Some (snd (attachSocketHandle True newTcp)) else fr_sockets f1 c)"
    "set (sv_clients (fr_server f')) = set (sv_clients (fr_server f1)) \<union> fst ` set cs"
    "fr_unowned f' = fr_unowned f1" by blast
  show ?case
    using f' f1 size Cons.prems cfd
    by (intro exI [of _ f']) (auto simp: round_robin_def Let_def onConnectionListener_Accept_def)
qed simp

text \<open>
  C19: A server that accepts connections one after the other, declining none, spreads its clients
  evenly as long as the container's 32-bit counter does not wrap around meanwhile: the numbers of
  clients on any two services differ by at most one. Every accepted client is kept, with a
  socket that is open and empty and reports what arrives. (A declined connection also moves the
  counter on, see \<open>declined_connection_leaks\<close>.)
\<close>

theorem accepted_clients_balanced:
  assumes "0 < front_size f" "fr_homes f = []" "unat (fr_index f) + length cs < 2 ^ 32"
  shows "\<exists>f'. accept_all cs f = (Inr (), f')
     \<and> (\<forall>i j. i < front_size f \<longrightarrow> j < front_size f \<longrightarrow>
          count_list (map snd (fr_homes f')) i \<le> count_list (map snd (fr_homes f')) j + 1)
     \<and> (\<forall>c \<in> fst ` set cs. c \<in> set (sv_clients (fr_server f'))
          \<and> (\<exists>t e. fr_sockets f' c = Some t \<and> ev_holds t [] \<and> ts_ev t = Some e \<and> ev_readAdded e))"
proof -
  obtain f' where f': "accept_all cs f = (Inr (), f')"
    "map snd (fr_homes f') = deal (length cs) (front_size f) (fr_index f)"
    "\<forall>c \<in> fst ` set cs. fr_sockets f' c = Some (snd (attachSocketHandle True newTcp))"
    "fst ` set cs \<subseteq> set (sv_clients (fr_server f'))"
    using accept_all_homes [OF assms(1), of cs] assms(2) by auto
  have cnt: "count_list (map snd (fr_homes f')) i \<in> {length cs div front_size f, Suc (length cs div front_size f)}"
    if "i < front_size f" for i
    using count_residues [OF assms(1) that, of "unat (fr_index f) + 1" "length cs"]
      deal_eq [OF assms(1,3)] by (simp add: f'(2))
  have "count_list (map snd (fr_homes f')) i \<le> count_list (map snd (fr_homes f')) j + 1"
    if "i < front_size f" "j < front_size f" for i j
    using cnt [OF that(1)] cnt [OF that(2)] by auto
  moreover have "\<exists>e. ts_ev (snd (attachSocketHandle True newTcp)) = Some e \<and> ev_readAdded e"
    by (simp add: attachSocketHandle_def throwExceptionIfNotInitState_def newTcp_def createEvent_def
        install_def fire_def ensure_kbuffer_def)
  ultimately show ?thesis using f'(1,3,4) attached_holds by (intro exI [of _ f']) auto
qed

theorem accepted_clients_balanced_witness:
  "\<exists>f'. accept_all [(10, 5), (11, 6), (12, 7), (13, 8), (14, 9)]
       (newFront (container_initialize (newContainer 3)) 4) = (Inr (), f')
     \<and> 14 \<in> set (sv_clients (fr_server f'))
     \<and> count_list (map snd (fr_homes f')) 0 \<le> count_list (map snd (fr_homes f')) 1 + 1"
proof -
  let ?f = "newFront (container_initialize (newContainer 3)) 4"
  have "front_size ?f = 3"
    by (simp add: newFront_def front_size_def container_initialize_def newContainer_def numeral_3_eq_3
        add_service_def makeKey_def split: prod.split)
  moreover have "fr_homes ?f = []" "fr_index ?f = 4" by (simp_all add: newFront_def)
  ultimately show ?thesis
    using accepted_clients_balanced [of ?f "[(10, 5), (11, 6), (12, 7), (13, 8), (14, 9)]"] by fastforce
qed

text \<open>
  A connection the user declines stays open: its descriptor belongs to no socket, and the
  counter has moved on all the same.
\<close>

theorem declined_connection_leaks:
  assumes "0 < front_size f"
  shows "\<exists>f'. front_accept False None fd f = (Inr (), f') \<and> fd \<in> set (fr_unowned f')
     \<and> fr_sockets f' = fr_sockets f \<and> fr_server f' = fr_server f \<and> fr_index f' = fr_index f + 1"
  using assms by (simp add: front_accept_def round_robin_def Let_def)

theorem declined_connection_leaks_witness:
  "\<exists>f'. front_accept False None 17 (newFront (container_initialize (newContainer 1)) 0) = (Inr (), f')
     \<and> fr_unowned f' = [17]"
proof -
  let ?f = "newFront (container_initialize (newContainer 1)) 0"
  have "0 < front_size ?f"
    by (simp add: newFront_def front_size_def container_initialize_def newContainer_def add_service_def split: prod.split)
  from declined_connection_leaks [OF this, of 17] show ?thesis
    by (auto simp: front_accept_def round_robin_def Let_def newFront_def front_size_def split: if_splits)
qed

end
