(* ===== verification/Redis.thy ===== *)
theory Redis
  imports Timers Strings
begin

text \<open>
  The Redis client, \<^verbatim>\<open>RedisRequest.cpp\<close> and \<^verbatim>\<open>RedisResponse.cpp\<close>. The record \<open>redis\<close>
  has the members of \<open>RedisRequestImpl\<close>; \<open>rd_ticket\<close> is the static counter of
  \<open>issueTicket\<close> and \<open>rd_log\<close> records the calls to hiredis, with what they answer, and to the
  handlers. A handler is known by its ticket, and does not call the client in its turn. The
  map of callbacks is an association list in the order of its keys. What hiredis answer_count,
  whether the thread is the service's, and whether the service has been stopped are arguments.
\<close>

section \<open>Responses\<close>

definition REDIS_REPLY_ARRAY :: int where "REDIS_REPLY_ARRAY = 2"
definition REDIS_OK :: int where "REDIS_OK = 0"
definition REDIS_ERR_OTHER :: int where "REDIS_ERR_OTHER = 2"

datatype redisReply = Reply (rp_type: int) (rp_integer: int) (rp_str: string) (rp_elements: "redisReply list")

record RedisReplyData =
  rr_type :: int
  bigIntValue :: int
  intValue :: int
  strValue :: string

definition reply_data :: "redisReply \<Rightarrow> int \<Rightarrow> RedisReplyData" where
  "reply_data r big = \<lparr>rr_type = rp_type r, bigIntValue = big, intValue = to_int32 (rp_integer r), strValue = rp_str r\<rparr>"

definition load_reply :: "redisReply \<Rightarrow> RedisReplyData list" where
  "load_reply r = (if rp_type r \<noteq> REDIS_REPLY_ARRAY then [reply_data r (rp_integer r)]
     else map (\<lambda>e. reply_data e (rp_integer r)) (rp_elements r))"

record RedisResponse =
  rs_results :: "RedisReplyData list"
  rs_ticket :: int
  rs_err :: int
  rs_errmsg :: string

definition replyResponse :: "redisReply \<Rightarrow> int \<Rightarrow> RedisResponse" where
  "replyResponse r ticket = \<lparr>rs_results = load_reply r, rs_ticket = to_int32 ticket, rs_err = 0, rs_errmsg = []\<rparr>"

definition errorResponse :: "int \<Rightarrow> string \<Rightarrow> int \<Rightarrow> RedisResponse" where
  "errorResponse err errmsg ticket =
    \<lparr>rs_results = [], rs_ticket = to_int32 ticket, rs_err = err, rs_errmsg = errmsg\<rparr>"

definition resultDataCount :: "RedisResponse \<Rightarrow> nat" where
  "resultDataCount r = length (rs_results r)"

definition resultData :: "RedisResponse \<Rightarrow> RedisReplyData option" where
  "resultData r = (if length (rs_results r) > 0 then Some (rs_results r ! 0) else None)"

definition resultDataOf :: "nat \<Rightarrow> RedisResponse \<Rightarrow> exn + RedisReplyData" where
  "resultDataOf index r = (if index \<ge> length (rs_results r) then Inl IllegalArgumentException
     else Inr (rs_results r ! index))"

section \<open>State\<close>

datatype RedisRequestState =
    REDISREQUEST_INIT
  | REDISREQUEST_CONNECTING
  | REDISREQUEST_CONNECTED
  | REDISREQUEST_CONNECTFAILED
  | REDISREQUEST_CLOSED
  | REDISREQUEST_RECONECTREADY

definition TIMER_ID_RECONNECT :: int where "TIMER_ID_RECONNECT = 1"
definition TIMER_ID_CONNECTION_TIMEOUT :: int where "TIMER_ID_CONNECTION_TIMEOUT = 3"
definition TIMER_ID_COMMAND_TTL :: int where "TIMER_ID_COMMAND_TTL = 5"
definition DEFAULT_RECONNECT_TIMEOUT :: nat where "DEFAULT_RECONNECT_TIMEOUT = 1000"
definition DEFAULT_CONNECT_TIMEOUT :: nat where "DEFAULT_CONNECT_TIMEOUT = 2000"

lemmas redis_timer_ids = TIMER_ID_RECONNECT_def TIMER_ID_CONNECTION_TIMEOUT_def TIMER_ID_COMMAND_TTL_def

record requestContext =
  rq_ticket :: int
  rq_args :: "string list"
  rq_ttl :: int

record redisContext =
  rx_err :: int

datatype redis_event =
    AsyncConnect
  | AsyncFree bool
  | AsyncDisconnect
  | AsyncCommand int "string list" int
  | CallHandler int RedisResponse

record redis =
  rd_context :: "redisContext option"
  rd_state :: RedisRequestState
  rd_callbacks :: "(int \<times> requestContext) list"
  rd_timers :: timers
  rd_reserved :: "(int \<times> string list) list"
  rd_deferred :: "(int \<times> string list) list"
  rd_ticket :: "32 word"
  rd_log :: "redis_event list"

definition newRedis :: "32 word \<Rightarrow> redis" where
  "newRedis ticket = \<lparr>rd_context = None, rd_state = REDISREQUEST_INIT, rd_callbacks = [],
    rd_timers = Map.empty, rd_reserved = [], rd_deferred = [], rd_ticket = ticket, rd_log = []\<rparr>"

definition rd_emit :: "redis_event \<Rightarrow> redis \<Rightarrow> redis" where
  "rd_emit e r = r\<lparr>rd_log := rd_log r @ [e]\<rparr>"

definition on_timers :: "(timers \<Rightarrow> timers) \<Rightarrow> redis \<Rightarrow> redis" where
  "on_timers f r = r\<lparr>rd_timers := f (rd_timers r)\<rparr>"

definition issueTicket :: "redis \<Rightarrow> int \<times> redis" where
  "issueTicket r = (uint (rd_ticket r + 1), r\<lparr>rd_ticket := rd_ticket r + 1\<rparr>)"

section \<open>The connection\<close>

text \<open>
  \<open>AsyncFree\<close> records whether the connection's callbacks are still set when it is freed: hiredis
  then calls them, which is a step of its own here.
\<close>

definition redis_close :: "bool \<Rightarrow> redis \<Rightarrow> redis" where
  "redis_close callback r = (case rd_context r of
     None \<Rightarrow> r | Some _ \<Rightarrow> rd_emit (AsyncFree (\<not> callback)) (r\<lparr>rd_context := None\<rparr>))\<lparr>rd_state := REDISREQUEST_CLOSED\<rparr>"

definition redis_reconnect :: "bool \<Rightarrow> redis \<Rightarrow> redis" where
  "redis_reconnect stopped r = (if stopped then r
     else on_timers (setTimer TIMER_ID_RECONNECT DEFAULT_RECONNECT_TIMEOUT False)
            (r\<lparr>rd_state := REDISREQUEST_RECONECTREADY\<rparr>))"

definition redis_connect :: "int \<Rightarrow> redis \<Rightarrow> (unit, redis) res" where
  "redis_connect err r = (if rd_context r \<noteq> None
     then (Inl (IllegalStateException ''Error redisContext already created''), r)
     else (Inr (), on_timers (setTimer TIMER_ID_CONNECTION_TIMEOUT DEFAULT_CONNECT_TIMEOUT False)
            (rd_emit AsyncConnect
              (r\<lparr>rd_state := (if err \<noteq> 0 then REDISREQUEST_CONNECTFAILED else REDISREQUEST_CONNECTING),
                 rd_context := Some \<lparr>rx_err = err\<rparr>\<rparr>))))"

section \<open>Commands\<close>

text \<open>
  The words of a command line: \<open>find\<close> and \<open>substr\<close> up to the next blank, the other white
  space trimmed off both ends, and on from the next character that is no blank.
\<close>

definition TRIM_SPACE :: string where
  "TRIM_SPACE = [CHR '' '', CHR 0x09, CHR 0x0D, CHR 0x0A, CHR 0x0B]"

definition trim_space :: "string \<Rightarrow> string" where
  "trim_space str = dropWhile (\<lambda>c. c \<in> set TRIM_SPACE) (rev (dropWhile (\<lambda>c. c \<in> set TRIM_SPACE) (rev str)))"

definition find_first_not_blank :: "string \<Rightarrow> nat \<Rightarrow> nat option" where
  "find_first_not_blank s pos = List.find (\<lambda>i. s ! i \<noteq> CHR '' '') [pos..<length s]"

lemma find_first_not_blank_Some:
  "find_first_not_blank s pos = Some j \<longleftrightarrow> pos \<le> j \<and> j < length s \<and> s ! j \<noteq> CHR '' ''
     \<and> (\<forall>k. pos \<le> k \<and> k < j \<longrightarrow> s ! k = CHR '' '')"
  by (auto simp: find_first_not_blank_def find_upt_Some)

function args_loop :: "string \<Rightarrow> nat \<Rightarrow> string list" where
  "args_loop args pos =
    (let pos2 = str_find args '' '' pos;
         str = trim_space (case pos2 of None \<Rightarrow> drop pos args | Some p \<Rightarrow> take (p - pos) (drop pos args));
         out = (if str \<noteq> [] then [str] else [])
     in case pos2 of
          None \<Rightarrow> out
        | Some p \<Rightarrow> (case find_first_not_blank args p of
             None \<Rightarrow> out
           | Some q \<Rightarrow> out @ args_loop args q))"
  by pat_completeness auto
termination
proof (relation "measure (\<lambda>(args, pos). length args - pos)")
  fix args pos x xa xb p q
  assume x: "x = str_find args '' '' pos" "x = Some p" and q: "find_first_not_blank args p = Some q"
  from x have "str_find args '' '' pos = Some p" by simp
  with q have "pos \<le> p" "occurs_at '' '' args p" "p \<le> q" "q < length args" "args ! q \<noteq> CHR '' ''"
    by (auto simp: str_find_Some find_first_not_blank_Some)
  moreover from this(2) have "args ! p = CHR '' ''" using occurs_at_char by fastforce
  ultimately have "pos < q" "q < length args" by (cases "p = q"; simp)+
  then show "((args, q), args, pos) \<in> measure (\<lambda>(args, pos). length args - pos)" by simp
qed simp

declare args_loop.simps [simp del]

definition command_words :: "string \<Rightarrow> string \<Rightarrow> string list" where
  "command_words cmd args = cmd # args_loop args 0"

text \<open>\<open>std::map\<close> in the order of its keys; \<open>insert\<close> leaves a key that is there alone.\<close>

definition cb_insert :: "int \<Rightarrow> requestContext \<Rightarrow> (int \<times> requestContext) list \<Rightarrow> (int \<times> requestContext) list" where
  "cb_insert t c m = (if t \<in> fst ` set m then m else insort_key fst (t, c) m)"

definition findRequestContext :: "int \<Rightarrow> redis \<Rightarrow> requestContext option" where
  "findRequestContext t r = map_of (rd_callbacks r) t"

fun erase_ticket :: "int \<Rightarrow> (int \<times> string list) list \<Rightarrow> (int \<times> string list) list" where
  "erase_ticket t [] = []"
| "erase_ticket t (x # xs) = (if fst x = t then xs else x # erase_ticket t xs)"

definition removeContext :: "int \<Rightarrow> redis \<Rightarrow> redis" where
  "removeContext t r = r\<lparr>rd_callbacks := filter (\<lambda>x. fst x \<noteq> t) (rd_callbacks r),
    rd_reserved := erase_ticket t (rd_reserved r)\<rparr>"

definition redis_cancel :: "int \<Rightarrow> redis \<Rightarrow> redis" where
  "redis_cancel t r = removeContext t r"

definition doCommand :: "(int \<Rightarrow> int) \<Rightarrow> int \<Rightarrow> string list \<Rightarrow> redis \<Rightarrow> (unit, redis) res" where
  "doCommand ret t args r = (case rd_context r of
     None \<Rightarrow> (Inl (Undef ''redisContext_ is NULL''), r)
   | Some _ \<Rightarrow>
      (let r1 = rd_emit (AsyncCommand t args (ret t)) r in
       if ret t \<noteq> REDIS_OK
       then (Inl (RedisException (ret t) ''Redis get command failed''), redis_cancel t r1)
       else (Inr (), r1)))"

definition redis_command_now :: "(int \<Rightarrow> int) \<Rightarrow> int \<Rightarrow> string list \<Rightarrow> redis \<Rightarrow> (unit, redis) res" where
  "redis_command_now ret t args r = (if rd_state r \<noteq> REDISREQUEST_CONNECTED
     then (Inr (), r\<lparr>rd_reserved := rd_reserved r @ [(t, args)]\<rparr>)
     else if args = [] then (Inl (Undef ''&tempArgs[0] of an empty vector''), r)
     else doCommand ret t args r)"

definition redis_command :: "bool \<Rightarrow> (int \<Rightarrow> int) \<Rightarrow> string list \<Rightarrow> int \<Rightarrow> redis \<Rightarrow> (int, redis) res" where
  "redis_command mounted ret args timeout r =
    (case issueTicket r of (ticket, r1) \<Rightarrow>
       let r2 = (if timeout > 0 then on_timers (setTimer TIMER_ID_COMMAND_TTL 1000 True) r1 else r1);
           ctx = \<lparr>rq_ticket = ticket, rq_args = args, rq_ttl = (if timeout > 0 then timeout else -1)\<rparr>;
           r3 = r2\<lparr>rd_callbacks := cb_insert ticket ctx (rd_callbacks r2)\<rparr>
       in if \<not> mounted then (Inr ticket, r3\<lparr>rd_deferred := rd_deferred r3 @ [(ticket, args)]\<rparr>)
          else bindR (redis_command_now ret ticket args r3) (\<lambda>_ r4. (Inr ticket, r4)))"

definition redis_command_line :: "bool \<Rightarrow> (int \<Rightarrow> int) \<Rightarrow> string \<Rightarrow> string \<Rightarrow> int \<Rightarrow> redis \<Rightarrow> (int, redis) res" where
  "redis_command_line mounted ret cmd args timeout r =
    redis_command mounted ret (command_words cmd args) timeout r"

section \<open>Callbacks\<close>

definition redis_fire_Error :: "int \<Rightarrow> string \<Rightarrow> int \<Rightarrow> redis \<Rightarrow> redis" where
  "redis_fire_Error err msg t r = (if t \<noteq> 0 then
     (case findRequestContext t r of
        None \<Rightarrow> r
      | Some _ \<Rightarrow> removeContext t (rd_emit (CallHandler t (errorResponse err msg t)) r)) else r)"

definition fire_Response :: "redisReply \<Rightarrow> int \<Rightarrow> redis \<Rightarrow> redis" where
  "fire_Response reply t r = (case findRequestContext t r of
     None \<Rightarrow> r
   | Some _ \<Rightarrow> removeContext t (rd_emit (CallHandler t (replyResponse reply t)) r))"

fun reserved_loop :: "(int \<Rightarrow> int) \<Rightarrow> (int \<times> string list) list \<Rightarrow> redis \<Rightarrow> (unit, redis) res" where
  "reserved_loop ret [] r = (Inr (), r)"
| "reserved_loop ret ((t, args) # rest) r =
    bindR (redis_command_now ret t args r) (\<lambda>_ r. reserved_loop ret rest r)"

definition fire_Connected :: "(int \<Rightarrow> int) \<Rightarrow> redis \<Rightarrow> (unit, redis) res" where
  "fire_Connected ret r =
    reserved_loop ret (rd_reserved r)
      (on_timers (killTimer TIMER_ID_CONNECTION_TIMEOUT) (r\<lparr>rd_state := REDISREQUEST_CONNECTED\<rparr>))"

definition fire_ConnectFailed :: "bool \<Rightarrow> redis \<Rightarrow> (unit, redis) res" where
  "fire_ConnectFailed stopped r =
    (let r1 = on_timers (killTimer TIMER_ID_CONNECTION_TIMEOUT) (r\<lparr>rd_state := REDISREQUEST_CONNECTFAILED\<rparr>) in
     case rd_context r of
       None \<Rightarrow> (Inl (Undef ''redisContext_ is NULL''), r1)
     | Some _ \<Rightarrow> (Inr (), redis_reconnect stopped (r1\<lparr>rd_context := None\<rparr>)))"

definition fire_Closed :: "bool \<Rightarrow> redis \<Rightarrow> redis" where
  "fire_Closed stopped r = redis_reconnect stopped (r\<lparr>rd_state := REDISREQUEST_CLOSED, rd_context := None\<rparr>)"

definition connectCallback :: "int \<Rightarrow> bool \<Rightarrow> (int \<Rightarrow> int) \<Rightarrow> redis \<Rightarrow> (unit, redis) res" where
  "connectCallback st stopped ret r = (if st \<noteq> REDIS_OK then fire_ConnectFailed stopped r else fire_Connected ret r)"

definition disconnectCallback :: "bool \<Rightarrow> redis \<Rightarrow> redis" where
  "disconnectCallback stopped r = fire_Closed stopped r"

definition getCallback :: "int \<Rightarrow> string \<Rightarrow> redisReply option \<Rightarrow> int \<Rightarrow> redis \<Rightarrow> redis" where
  "getCallback err msg reply t r = (case reply of
     None \<Rightarrow> redis_fire_Error err msg t r | Some rep \<Rightarrow> fire_Response rep t r)"

section \<open>Timers\<close>

text \<open>
  The walk over the map counts the commands' time to live down; its value is the list of those
  to be cancelled and whether the timer is still needed.
\<close>

fun ttl_walk :: "(int \<times> requestContext) list \<Rightarrow> (int \<times> requestContext) list \<times> int list \<times> bool" where
  "ttl_walk [] = ([], [], False)"
| "ttl_walk ((t, c) # m) = (case ttl_walk m of (m', cancelList, need) \<Rightarrow>
     if rq_ttl c > 0
     then ((t, c\<lparr>rq_ttl := rq_ttl c - 1\<rparr>) # m',
           (if rq_ttl c - 1 \<le> 0 then rq_ticket c # cancelList else cancelList), True)
     else ((t, c) # m', cancelList, need))"

definition ttl_timer :: "redis \<Rightarrow> redis" where
  "ttl_timer r = (case ttl_walk (rd_callbacks r) of (m, cancelList, need) \<Rightarrow>
     let r1 = r\<lparr>rd_callbacks := m\<rparr>;
         r2 = (if \<not> need then on_timers (killTimer TIMER_ID_COMMAND_TTL) r1 else r1)
     in fold (\<lambda>t r. redis_cancel t (redis_fire_Error REDIS_ERR_OTHER ''timeout'' t r)) cancelList r2)"

definition redis_onTimer :: "int \<Rightarrow> int \<Rightarrow> bool \<Rightarrow> redis \<Rightarrow> (unit, redis) res" where
  "redis_onTimer tid err stopped r =
    (if tid = TIMER_ID_CONNECTION_TIMEOUT then
       (Inr (), case rd_context r of
          Some _ \<Rightarrow> redis_reconnect stopped
             ((rd_emit AsyncDisconnect r)\<lparr>rd_context := None, rd_state := REDISREQUEST_CLOSED\<rparr>)
        | None \<Rightarrow> redis_reconnect stopped r)
     else if tid = TIMER_ID_RECONNECT then
       (if rd_context r \<noteq> None then (Inl (Undef ''assert: redisContext_ MUST be freed before reconnect()''), r)
        else redis_connect err r)
     else if tid = TIMER_ID_COMMAND_TTL then (Inr (), ttl_timer r)
     else (Inr (), r))"

definition redis_timer_event :: "int \<Rightarrow> int \<Rightarrow> bool \<Rightarrow> redis \<Rightarrow> (unit, redis) res option" where
  "redis_timer_event tid err stopped r = (case timer_cb tid (rd_timers r) of
     None \<Rightarrow> None
   | Some (j, T) \<Rightarrow> Some (redis_onTimer j err stopped (r\<lparr>rd_timers := T\<rparr>)))"

text \<open>A command that another thread has deferred, run on the thread of the service.\<close>

definition run_deferred_command :: "(int \<Rightarrow> int) \<Rightarrow> redis \<Rightarrow> (unit, redis) res option" where
  "run_deferred_command ret r = (case rd_deferred r of
     [] \<Rightarrow> None
   | (t, args) # rest \<Rightarrow> Some (redis_command_now ret t args (r\<lparr>rd_deferred := rest\<rparr>)))"

end
