(* ===== verification/RedisSpec.thy ===== *)
theory RedisSpec
  imports Redis
begin

text \<open>
  What the Redis client promises: the words of a command line, the answers to its commands,
  and their time to live.
\<close>

section \<open>Command lines\<close>

text \<open>The reference: split at every blank, trim, and leave out what is empty.\<close>

fun split_blank :: "string \<Rightarrow> string list" where
  "split_blank [] = [[]]"
| "split_blank (c # s) = (if c = CHR '' '' then [] # split_blank s
     else (c # hd (split_blank s)) # tl (split_blank s))"

definition words_of :: "string \<Rightarrow> string list" where
  "words_of s = filter (\<lambda>w. w \<noteq> []) (map trim_space (split_blank s))"

lemma split_blank_nonempty [simp]: "split_blank s \<noteq> []"
  by (cases s) auto

lemma split_blank_no_blank: "CHR '' '' \<notin> set w \<Longrightarrow> split_blank w = [w]"
  by (induction w) auto

lemma split_blank_append:
  "CHR '' '' \<notin> set w \<Longrightarrow> split_blank (w @ CHR '' '' # t) = w # split_blank t"
  by (induction w) auto

lemma trim_space_Nil [simp]: "trim_space [] = []"
  by (simp add: trim_space_def)

lemma words_of_Nil [simp]: "words_of [] = []"
  by (simp add: words_of_def)

lemma words_of_blank [simp]: "words_of (CHR '' '' # s) = words_of s"
  by (simp add: words_of_def)

lemma words_of_word:
  "CHR '' '' \<notin> set w \<Longrightarrow>
    words_of (w @ CHR '' '' # t) = (if trim_space w \<noteq> [] then [trim_space w] else []) @ words_of t"
  by (simp add: words_of_def split_blank_append)

lemma words_of_last: "CHR '' '' \<notin> set w \<Longrightarrow> words_of w = (if trim_space w \<noteq> [] then [trim_space w] else [])"
  by (simp add: words_of_def split_blank_no_blank)

lemma words_of_replicate: "words_of (replicate n (CHR '' '') @ s) = words_of s"
  by (induction n) auto

lemma words_of_skip:
  assumes "\<forall>k. p \<le> k \<and> k < q \<longrightarrow> s ! k = CHR '' ''" "p \<le> q" "q \<le> length s"
  shows "words_of (drop p s) = words_of (drop q s)"
proof -
  have "drop p s = take (q - p) (drop p s) @ drop (q - p) (drop p s)"
    by (rule append_take_drop_id [symmetric])
  also have "take (q - p) (drop p s) = replicate (q - p) (CHR '' '')"
    by (rule nth_equalityI) (use assms in auto)
  finally show ?thesis using assms(2) by (metis words_of_replicate drop_drop le_add_diff_inverse2)
qed

lemma occurs_at_blank: "occurs_at '' '' s k \<longleftrightarrow> k < length s \<and> s ! k = CHR '' ''"
  by (cases "k < length s") (auto simp: occurs_at_def take_Suc hd_drop_conv_nth Suc_le_eq)

lemma blank_None: "str_find s '' '' pos = None \<Longrightarrow> CHR '' '' \<notin> set (drop pos s)"
  by (auto simp: str_find_None occurs_at_blank in_set_conv_nth)

lemma blank_Some:
  assumes "str_find s '' '' pos = Some p"
  shows "CHR '' '' \<notin> set (take (p - pos) (drop pos s))"
    "drop pos s = take (p - pos) (drop pos s) @ CHR '' '' # drop (Suc p) s"
    "drop p s = CHR '' '' # drop (Suc p) s"
proof -
  from assms have p: "pos \<le> p" "p < length s" "s ! p = CHR '' ''"
    and none: "\<And>k. pos \<le> k \<Longrightarrow> k < p \<Longrightarrow> s ! k \<noteq> CHR '' ''"
    by (auto simp: str_find_Some occurs_at_blank)
  show "CHR '' '' \<notin> set (take (p - pos) (drop pos s))"
    using none p by (auto simp: in_set_conv_nth)
  show d: "drop p s = CHR '' '' # drop (Suc p) s"
    using p by (metis Cons_nth_drop_Suc)
  have "drop pos s = take (p - pos) (drop pos s) @ drop (p - pos) (drop pos s)"
    by (rule append_take_drop_id [symmetric])
  then show "drop pos s = take (p - pos) (drop pos s) @ CHR '' '' # drop (Suc p) s"
    using p(1) d by simp
qed

lemma args_loop_words: "args_loop args pos = words_of (drop pos args)"
proof (induction args pos rule: args_loop.induct)
  case (1 args pos)
  show ?case
  proof (cases "str_find args '' '' pos")
    case None
    then show ?thesis using words_of_last [OF blank_None [OF None]]
      by (subst args_loop.simps) simp
  next
    case (Some p)
    note w = words_of_word [OF blank_Some(1) [OF Some], of "drop (Suc p) args", folded blank_Some(2) [OF Some]]
    have p: "p < length args" using Some by (simp add: str_find_Some occurs_at_blank)
    show ?thesis
    proof (cases "find_first_not_blank args p")
      case None
      then have "\<forall>k. p \<le> k \<and> k < length args \<longrightarrow> args ! k = CHR '' ''"
        by (auto simp: find_first_not_blank_def find_upt_None)
      from words_of_skip [OF this] p have "words_of (drop (Suc p) args) = []"
        using blank_Some(3) [OF Some] by simp
      then show ?thesis using None Some w by (subst args_loop.simps) simp
    next
      case q: (Some q)
      from q have "words_of (drop p args) = words_of (drop q args)"
        by (intro words_of_skip) (auto simp: find_first_not_blank_Some)
      then have "words_of (drop (Suc p) args) = words_of (drop q args)"
        using blank_Some(3) [OF Some] by simp
      moreover have "args_loop args q = words_of (drop q args)"
        by (rule 1) (use Some q in simp_all)
      ultimately show ?thesis using q Some w by (subst args_loop.simps) simp
    qed
  qed
qed

text \<open>
  The words of a command line are the command and then the pieces of the arguments between
  the blanks, trimmed of white space, those that are empty left out, however many blanks there are.
\<close>

theorem redis_command_words:
  "command_words cmd args = cmd # filter (\<lambda>w. w \<noteq> []) (map trim_space (split_blank args))"
  by (simp add: command_words_def args_loop_words words_of_def)

section \<open>Answers\<close>

text \<open>
  What can happen to a client, in any order: the calls of its user, the callbacks of hiredis,
  the firing of its timers, and the calls deferred by other threads. An operation that throws
  leaves the state as it was when it threw.
\<close>

datatype redis_op =
    Op_command bool "int \<Rightarrow> int" "string list" int
  | Op_cancel int
  | Op_connect int
  | Op_close bool
  | Op_connected int bool "int \<Rightarrow> int"
  | Op_disconnected bool
  | Op_reply int string "redisReply option" int
  | Op_timer int int bool
  | Op_deferred "int \<Rightarrow> int"

definition redis_apply :: "redis_op \<Rightarrow> redis \<Rightarrow> redis" where
  "redis_apply op r = (case op of
     Op_command mounted ret args timeout \<Rightarrow> snd (redis_command mounted ret args timeout r)
   | Op_cancel t \<Rightarrow> redis_cancel t r
   | Op_connect err \<Rightarrow> snd (redis_connect err r)
   | Op_close callback \<Rightarrow> redis_close callback r
   | Op_connected st stopped ret \<Rightarrow> snd (connectCallback st stopped ret r)
   | Op_disconnected stopped \<Rightarrow> disconnectCallback stopped r
   | Op_reply err msg reply t \<Rightarrow> getCallback err msg reply t r
   | Op_timer tid err stopped \<Rightarrow> (case redis_timer_event tid err stopped r of None \<Rightarrow> r | Some x \<Rightarrow> snd x)
   | Op_deferred ret \<Rightarrow> (case run_deferred_command ret r of None \<Rightarrow> r | Some x \<Rightarrow> snd x))"

definition redis_run :: "redis_op list \<Rightarrow> redis \<Rightarrow> redis" where
  "redis_run ops r = fold redis_apply ops r"

fun is_command :: "redis_op \<Rightarrow> bool" where
  "is_command (Op_command mounted ret args timeout) \<longleftrightarrow> True"
| "is_command _ \<longleftrightarrow> False"

definition answer_count :: "int \<Rightarrow> redis \<Rightarrow> nat" where
  "answer_count t r = length (filter (\<lambda>e. case e of CallHandler u res \<Rightarrow> u = t | _ \<Rightarrow> False) (rd_log r))"

definition refused :: "int \<Rightarrow> redis \<Rightarrow> bool" where
  "refused t r \<longleftrightarrow> (\<exists>e\<in>set (rd_log r). case e of AsyncCommand u args ret \<Rightarrow> u = t \<and> ret \<noteq> REDIS_OK | _ \<Rightarrow> False)"

definition waiting :: "int \<Rightarrow> redis \<Rightarrow> bool" where
  "waiting t r \<longleftrightarrow> t \<in> fst ` set (rd_callbacks r)"

lemma waiting_find: "findRequestContext t r = None \<longleftrightarrow> \<not> waiting t r"
  by (simp add: findRequestContext_def waiting_def map_of_eq_None_iff)

text \<open>
  A ghost: the client with the set of the tickets that have been given up, by a cancellation or
  a refusal of hiredis. The invariant relates it to the answers.
\<close>

definition cb_ok :: "redis \<Rightarrow> bool" where
  "cb_ok r \<longleftrightarrow> distinct (map fst (rd_callbacks r))
    \<and> (\<forall>(t, c) \<in> set (rd_callbacks r). rq_ticket c = t \<and> 1 < t \<and> t \<le> uint (rd_ticket r))"

definition answers_ok :: "int set \<Rightarrow> redis \<Rightarrow> bool" where
  "answers_ok C r \<longleftrightarrow> cb_ok r
    \<and> (\<forall>t. waiting t r \<longrightarrow> answer_count t r = 0)
    \<and> (\<forall>t. answer_count t r \<le> 1)
    \<and> (\<forall>t. answer_count t r > 0 \<longrightarrow> 1 < t \<and> t \<le> uint (rd_ticket r))
    \<and> (\<forall>t. 1 < t \<and> t \<le> uint (rd_ticket r) \<and> \<not> waiting t r \<longrightarrow> answer_count t r = 1 \<or> t \<in> C \<or> refused t r)"

text \<open>Two states with the same view satisfy the invariant alike.\<close>

definition same_view :: "redis \<Rightarrow> redis \<Rightarrow> bool" where
  "same_view r r' \<longleftrightarrow>
    map (\<lambda>x. (fst x, rq_ticket (snd x))) (rd_callbacks r') = map (\<lambda>x. (fst x, rq_ticket (snd x))) (rd_callbacks r)
    \<and> rd_ticket r' = rd_ticket r
    \<and> (\<forall>t. answer_count t r' = answer_count t r) \<and> (\<forall>t. refused t r \<longrightarrow> refused t r')"

lemma same_view_refl [simp]: "same_view r r"
  by (simp add: same_view_def)

lemma same_view_trans: "same_view r r' \<Longrightarrow> same_view r' r'' \<Longrightarrow> same_view r r''"
  by (simp add: same_view_def)

lemma cb_ok_alt:
  "cb_ok r \<longleftrightarrow> distinct (map fst (map (\<lambda>x. (fst x, rq_ticket (snd x))) (rd_callbacks r)))
    \<and> (\<forall>x \<in> set (map (\<lambda>x. (fst x, rq_ticket (snd x))) (rd_callbacks r)).
          snd x = fst x \<and> 1 < fst x \<and> fst x \<le> uint (rd_ticket r))"
  by (auto simp: cb_ok_def o_def)

lemma waiting_alt: "waiting t r \<longleftrightarrow> t \<in> fst ` set (map (\<lambda>x. (fst x, rq_ticket (snd x))) (rd_callbacks r))"
  by (simp add: waiting_def image_image)

lemma same_view_waiting: "same_view r r' \<Longrightarrow> waiting t r' = waiting t r"
  by (simp add: waiting_alt same_view_def)

lemma same_view_ok:
  assumes "answers_ok C r" "same_view r r'"
  shows "answers_ok C r'"
proof -
  have "cb_ok r' = cb_ok r" "rd_ticket r' = rd_ticket r" "\<And>t. answer_count t r' = answer_count t r"
    "\<And>t. refused t r \<Longrightarrow> refused t r'"
    using assms(2) by (simp_all add: same_view_def cb_ok_alt)
  then show ?thesis using assms(1) same_view_waiting [OF assms(2)] unfolding answers_ok_def by metis
qed

lemma answers_emit: "answer_count t (rd_emit e r) = answer_count t r + (case e of CallHandler u res \<Rightarrow> of_bool (u = t) | _ \<Rightarrow> 0)"
  by (cases e) (auto simp: answer_count_def rd_emit_def)

lemma refused_emit:
  "refused t (rd_emit e r) \<longleftrightarrow> refused t r \<or> (case e of AsyncCommand u args ret \<Rightarrow> u = t \<and> ret \<noteq> REDIS_OK | _ \<Rightarrow> False)"
  by (auto simp: refused_def rd_emit_def)

lemma view_updates [simp]:
  "answer_count t (r\<lparr>rd_state := s\<rparr>) = answer_count t r" "answer_count t (r\<lparr>rd_context := x\<rparr>) = answer_count t r"
  "answer_count t (r\<lparr>rd_timers := T\<rparr>) = answer_count t r" "answer_count t (r\<lparr>rd_reserved := q\<rparr>) = answer_count t r"
  "answer_count t (r\<lparr>rd_deferred := d\<rparr>) = answer_count t r" "answer_count t (r\<lparr>rd_callbacks := m\<rparr>) = answer_count t r"
  "answer_count t (r\<lparr>rd_ticket := w\<rparr>) = answer_count t r"
  "refused t (r\<lparr>rd_state := s\<rparr>) = refused t r" "refused t (r\<lparr>rd_context := x\<rparr>) = refused t r"
  "refused t (r\<lparr>rd_timers := T\<rparr>) = refused t r" "refused t (r\<lparr>rd_reserved := q\<rparr>) = refused t r"
  "refused t (r\<lparr>rd_deferred := d\<rparr>) = refused t r" "refused t (r\<lparr>rd_callbacks := m\<rparr>) = refused t r"
  "refused t (r\<lparr>rd_ticket := w\<rparr>) = refused t r"
  by (simp_all add: answer_count_def refused_def)

lemma emit_fields [simp]:
  "rd_callbacks (rd_emit e r) = rd_callbacks r" "rd_ticket (rd_emit e r) = rd_ticket r"
  "rd_context (rd_emit e r) = rd_context r" "rd_state (rd_emit e r) = rd_state r"
  "rd_timers (rd_emit e r) = rd_timers r" "rd_reserved (rd_emit e r) = rd_reserved r"
  "rd_deferred (rd_emit e r) = rd_deferred r"
  by (simp_all add: rd_emit_def)

lemmas view_simps = same_view_def answers_emit refused_emit on_timers_def

lemma same_view_reconnect: "same_view r (redis_reconnect stopped r)"
  by (simp add: redis_reconnect_def view_simps)

lemma same_view_connect: "same_view r (snd (redis_connect err r))"
  by (simp add: redis_connect_def view_simps)

lemma same_view_close: "same_view r (redis_close callback r)"
  by (simp add: redis_close_def view_simps split: option.splits)

lemma removeContext_callbacks [simp]:
  "rd_callbacks (removeContext t r) = filter (\<lambda>x. fst x \<noteq> t) (rd_callbacks r)"
  "rd_ticket (removeContext t r) = rd_ticket r"
  "answer_count u (removeContext t r) = answer_count u r" "refused u (removeContext t r) = refused u r"
  "waiting u (removeContext t r) \<longleftrightarrow> u \<noteq> t \<and> waiting u r"
  by (auto simp: removeContext_def waiting_def)

lemma same_view_remove:
  assumes "\<not> waiting t r"
  shows "same_view r (removeContext t r)"
proof -
  have "filter (\<lambda>x. fst x \<noteq> t) (rd_callbacks r) = rd_callbacks r"
    using assms by (intro filter_True) (auto simp: waiting_def)
  then show ?thesis by (simp add: same_view_def)
qed

lemma cb_ok_remove: "cb_ok r \<Longrightarrow> cb_ok (removeContext t r)"
  by (auto simp: cb_ok_def distinct_map inj_on_def)

lemma remove_ok:
  assumes "answers_ok C r" "t \<in> C \<or> refused t r"
  shows "answers_ok C (removeContext t r)"
  using assms by (auto simp: answers_ok_def cb_ok_remove)

lemma answers_ok_mono: "answers_ok C r \<Longrightarrow> C \<subseteq> D \<Longrightarrow> answers_ok D r"
  by (auto simp: answers_ok_def)

lemma answer_ok:
  assumes "answers_ok C r" "waiting t r"
  shows "answers_ok C (removeContext t (rd_emit (CallHandler t res) r))"
proof -
  have "1 < t" "t \<le> uint (rd_ticket r)" using assms by (auto simp: answers_ok_def cb_ok_def waiting_def)
  moreover have "cb_ok (rd_emit (CallHandler t res) r)" using assms(1) by (simp add: answers_ok_def cb_ok_def)
  moreover have "waiting u (rd_emit (CallHandler t res) r) = waiting u r" for u by (simp add: waiting_def)
  ultimately show ?thesis using assms
    by (auto simp: answers_ok_def cb_ok_remove answers_emit refused_emit of_bool_def)
qed

lemma fire_Error_ok: "answers_ok C r \<Longrightarrow> answers_ok C (redis_fire_Error err msg t r)"
  using waiting_find [of t r] by (auto simp: redis_fire_Error_def answer_ok split: option.splits)

lemma fire_Response_ok: "answers_ok C r \<Longrightarrow> answers_ok C (fire_Response reply t r)"
  using waiting_find [of t r] by (auto simp: fire_Response_def answer_ok split: option.splits)

lemma fire_Error_waiting: "t \<noteq> 0 \<Longrightarrow> \<not> waiting t (redis_fire_Error err msg t r)"
  using waiting_find [of t r] by (auto simp: redis_fire_Error_def split: option.splits)

lemma command_now_ok:
  assumes "answers_ok C r"
  shows "answers_ok C (snd (redis_command_now ret t args r))"
proof (cases "rd_state r \<noteq> REDISREQUEST_CONNECTED")
  case True
  then show ?thesis using assms
    by (auto simp: redis_command_now_def view_simps intro: same_view_ok)
next
  case False
  have sv: "same_view r (rd_emit (AsyncCommand t args (ret t)) r)" by (simp add: view_simps)
  have "answers_ok C (removeContext t (rd_emit (AsyncCommand t args (ret t)) r))" if "ret t \<noteq> REDIS_OK"
    by (rule remove_ok [OF same_view_ok [OF assms sv]]) (use that in \<open>simp add: refused_emit\<close>)
  then show ?thesis using False assms same_view_ok [OF assms sv]
    by (auto simp: redis_command_now_def doCommand_def redis_cancel_def Let_def split: option.splits)
qed

lemma snd_bindR: "snd (bindR m f) = (case m of (Inl e, s) \<Rightarrow> s | (Inr x, s) \<Rightarrow> snd (f x s))"
  by (cases "(m, f)" rule: bindR.cases) auto

lemma reserved_loop_ok: "answers_ok C r \<Longrightarrow> answers_ok C (snd (reserved_loop ret cs r))"
proof (induction ret cs r rule: reserved_loop.induct)
  case (2 ret t args rest r)
  then show ?case using command_now_ok [OF 2(2), of ret t args]
    by (auto simp: snd_bindR split: prod.splits sum.splits)
qed simp

lemma fire_Connected_ok:
  assumes "answers_ok C r"
  shows "answers_ok C (snd (fire_Connected ret r))"
proof -
  have "same_view r (on_timers (killTimer TIMER_ID_CONNECTION_TIMEOUT) (r\<lparr>rd_state := REDISREQUEST_CONNECTED\<rparr>))"
    by (simp add: view_simps)
  from reserved_loop_ok [OF same_view_ok [OF assms this]] show ?thesis by (simp add: fire_Connected_def)
qed

lemma same_view_ConnectFailed: "same_view r (snd (fire_ConnectFailed stopped r))"
proof -
  let ?r = "(on_timers (killTimer TIMER_ID_CONNECTION_TIMEOUT) (r\<lparr>rd_state := REDISREQUEST_CONNECTFAILED\<rparr>))"
  have a: "same_view r ?r" "same_view r (?r\<lparr>rd_context := None\<rparr>)" by (simp_all add: view_simps)
  show ?thesis using a same_view_trans [OF a(2) same_view_reconnect]
    by (auto simp: fire_ConnectFailed_def Let_def split: option.splits)
qed

lemma same_view_Closed: "same_view r (disconnectCallback stopped r)"
proof -
  have "same_view r (r\<lparr>rd_state := REDISREQUEST_CLOSED, rd_context := None\<rparr>)" by (simp add: view_simps)
  from same_view_trans [OF this same_view_reconnect] show ?thesis
    by (simp add: disconnectCallback_def fire_Closed_def)
qed

text \<open>The walk over the map keeps its keys and lists tickets of it.\<close>

lemma ttl_walk_view:
  "ttl_walk m = (m', cl, need) \<Longrightarrow>
    map (\<lambda>x. (fst x, rq_ticket (snd x))) m' = map (\<lambda>x. (fst x, rq_ticket (snd x))) m
    \<and> set cl \<subseteq> rq_ticket ` snd ` set m"
  by (induction m arbitrary: m' cl need rule: ttl_walk.induct) (auto split: prod.splits if_splits)

lemma ttl_fold_ok:
  "answers_ok C r \<Longrightarrow> \<forall>t\<in>set cl. t \<noteq> 0 \<Longrightarrow>
    answers_ok C (fold (\<lambda>t r. redis_cancel t (redis_fire_Error err msg t r)) cl r)"
proof (induction cl arbitrary: r)
  case (Cons t cl)
  have "answers_ok C (redis_cancel t (redis_fire_Error err msg t r))"
    unfolding redis_cancel_def
    by (rule same_view_ok [OF fire_Error_ok [OF Cons.prems(1), of err msg t]])
      (use Cons.prems(2) in \<open>simp add: same_view_remove fire_Error_waiting\<close>)
  then show ?case using Cons by simp
qed simp

lemma ttl_timer_ok:
  assumes "answers_ok C r"
  shows "answers_ok C (ttl_timer r)"
proof -
  obtain m cl need where w: "ttl_walk (rd_callbacks r) = (m, cl, need)" by (metis prod_cases3)
  let ?r = "r\<lparr>rd_callbacks := m\<rparr>"
  have v: "same_view r ?r" "same_view r (on_timers (killTimer TIMER_ID_COMMAND_TTL) ?r)"
    using ttl_walk_view [OF w] by (simp_all add: view_simps)
  have "\<forall>t\<in>set cl. t \<noteq> 0"
    using ttl_walk_view [OF w] assms by (fastforce simp: answers_ok_def cb_ok_def)
  then show ?thesis using same_view_ok [OF assms v(1)] same_view_ok [OF assms v(2)]
    by (auto simp: ttl_timer_def w Let_def ttl_fold_ok)
qed

lemma onTimer_ok:
  assumes "answers_ok C r"
  shows "answers_ok C (snd (redis_onTimer tid err stopped r))"
proof -
  have "same_view r ((rd_emit AsyncDisconnect r)\<lparr>rd_context := None, rd_state := REDISREQUEST_CLOSED\<rparr>)"
    by (simp add: view_simps)
  note d = same_view_ok [OF assms same_view_trans [OF this same_view_reconnect]]
  show ?thesis using assms d same_view_ok [OF assms same_view_reconnect] same_view_ok [OF assms same_view_connect]
    by (auto simp: redis_onTimer_def ttl_timer_ok split: option.splits)
qed

lemma timer_event_ok:
  assumes "answers_ok C r" "redis_timer_event tid err stopped r = Some x"
  shows "answers_ok C (snd x)"
proof -
  obtain j T where x: "x = redis_onTimer j err stopped (r\<lparr>rd_timers := T\<rparr>)"
    using assms(2) by (auto simp: redis_timer_event_def split: option.splits)
  have "same_view r (r\<lparr>rd_timers := T\<rparr>)" by (simp add: view_simps)
  from onTimer_ok [OF same_view_ok [OF assms(1) this]] show ?thesis by (simp add: x)
qed

lemma deferred_ok:
  assumes "answers_ok C r" "run_deferred_command ret r = Some x"
  shows "answers_ok C (snd x)"
proof -
  obtain t args rest where x: "x = redis_command_now ret t args (r\<lparr>rd_deferred := rest\<rparr>)"
    using assms(2) by (auto simp: run_deferred_command_def split: list.splits)
  have "same_view r (r\<lparr>rd_deferred := rest\<rparr>)" by (simp add: view_simps)
  from command_now_ok [OF same_view_ok [OF assms(1) this]] show ?thesis by (simp add: x)
qed

section \<open>New commands\<close>

definition add_command :: "requestContext \<Rightarrow> redis \<Rightarrow> redis" where
  "add_command c r = r\<lparr>rd_ticket := rd_ticket r + 1, rd_callbacks := cb_insert (rq_ticket c) c (rd_callbacks r)\<rparr>"

lemma uint_succ:
  fixes w :: "32 word"
  assumes "uint w + 1 < 2 ^ 32"
  shows "uint (w + 1) = uint w + 1"
  using assms by (simp add: uint_word_ariths)

lemma cb_insert_new:
  assumes "cb_ok r" "t = uint (rd_ticket r) + 1"
  shows "cb_insert t c (rd_callbacks r) = insort_key fst (t, c) (rd_callbacks r)"
  using assms by (auto simp: cb_insert_def cb_ok_def)

lemma add_command_ok:
  assumes "answers_ok C r" "uint (rd_ticket r) + 1 < 2 ^ 32" "0 < uint (rd_ticket r)"
    and "rq_ticket c = uint (rd_ticket r) + 1"
  shows "answers_ok C (add_command c r)"
proof -
  have cb: "cb_ok r" using assms(1) by (simp add: answers_ok_def)
  note new = cb_insert_new [OF cb assms(4), of c] cb_insert_new [OF cb refl, of c]
  have fresh: "rq_ticket c \<notin> fst ` set (rd_callbacks r)" using cb assms(4) by (auto simp: cb_ok_def)
  have w: "waiting t (add_command c r) \<longleftrightarrow> t = rq_ticket c \<or> waiting t r" for t
    by (simp add: waiting_def add_command_def new set_insort_key)
  have tk: "uint (rd_ticket (add_command c r)) = uint (rd_ticket r) + 1"
    using uint_succ [OF assms(2)] by (simp add: add_command_def)
  have v: "answer_count t (add_command c r) = answer_count t r" "refused t (add_command c r) = refused t r" for t
    by (simp_all add: add_command_def answer_count_def refused_def)
  have "distinct (map fst (insort_key fst (rq_ticket c, c) (rd_callbacks r)))"
    using cb fresh by (simp add: cb_ok_def distinct_insort_key)
  moreover have "\<forall>x\<in>set (rd_callbacks r). rq_ticket (snd x) = fst x \<and> 1 < fst x \<and> fst x \<le> uint (rd_ticket r)"
    using cb by (auto simp: cb_ok_def)
  ultimately have cbn: "cb_ok (add_command c r)"
    using assms(3,4) tk by (auto simp: cb_ok_def add_command_def new set_insort_key)
  have a0: "answer_count (rq_ticket c) r = 0" using assms(1,4) by (fastforce simp: answers_ok_def)
  have b: "1 < t \<and> t \<le> uint (rd_ticket r) + 1" if "0 < answer_count t r" for t
  proof -
    have "1 < t \<and> t \<le> uint (rd_ticket r)" using assms(1) that by (simp add: answers_ok_def)
    then show ?thesis by linarith
  qed
  show ?thesis
    unfolding answers_ok_def w tk v
    using cbn a0 assms(1,4) b by (auto simp: answers_ok_def)
qed

lemma command_shape:
  "\<exists>T. redis_command mounted ret args timeout r =
    (let t = uint (rd_ticket r + 1);
         r' = (add_command \<lparr>rq_ticket = t, rq_args = args, rq_ttl = (if timeout > 0 then timeout else -1)\<rparr> r)
           \<lparr>rd_timers := T\<rparr>
     in if \<not> mounted then (Inr t, r'\<lparr>rd_deferred := rd_deferred r @ [(t, args)]\<rparr>)
        else bindR (redis_command_now ret t args r') (\<lambda>_ r4. (Inr t, r4)))"
  by (rule exI [of _ "if timeout > 0 then setTimer TIMER_ID_COMMAND_TTL 1000 True (rd_timers r) else rd_timers r"])
    (cases r, simp add: redis_command_def issueTicket_def Let_def on_timers_def add_command_def)

lemma command_ok:
  assumes "answers_ok C r" "uint (rd_ticket r) + 1 < 2 ^ 32" "0 < uint (rd_ticket r)"
  shows "answers_ok C (snd (redis_command mounted ret args timeout r))"
proof -
  define t where "t = uint (rd_ticket r + 1)"
  define c where "c = \<lparr>rq_ticket = t, rq_args = args, rq_ttl = (if timeout > 0 then timeout else -1)\<rparr>"
  obtain T where shape: "redis_command mounted ret args timeout r =
      (if \<not> mounted then (Inr t, ((add_command c r)\<lparr>rd_timers := T\<rparr>)\<lparr>rd_deferred := rd_deferred r @ [(t, args)]\<rparr>)
       else bindR (redis_command_now ret t args ((add_command c r)\<lparr>rd_timers := T\<rparr>)) (\<lambda>_ r4. (Inr t, r4)))"
    using command_shape [of mounted ret args timeout r] unfolding Let_def c_def t_def by blast
  have "rq_ticket c = uint (rd_ticket r) + 1" using uint_succ [OF assms(2)] by (simp add: c_def t_def)
  from add_command_ok [OF assms this] have ok: "answers_ok C ((add_command c r)\<lparr>rd_timers := T\<rparr>)"
    by (rule same_view_ok) (simp add: view_simps)
  then have "answers_ok C ((add_command c r)\<lparr>rd_timers := T, rd_deferred := rd_deferred r @ [(t, args)]\<rparr>)"
    by (rule same_view_ok) (simp add: view_simps)
  then show ?thesis using command_now_ok [OF ok, of ret t args]
    by (auto simp: shape snd_bindR split: prod.splits sum.splits)
qed

text \<open>The other operations issue no ticket.\<close>

lemma ticket_reconnect [simp]: "rd_ticket (redis_reconnect stopped r) = rd_ticket r"
  by (simp add: redis_reconnect_def on_timers_def)

lemma ticket_command_now [simp]: "rd_ticket (snd (redis_command_now ret t args r)) = rd_ticket r"
  by (simp add: redis_command_now_def doCommand_def redis_cancel_def Let_def split: option.splits)

lemma ticket_command_now_dest:
  "redis_command_now ret t args r = (x, r') \<Longrightarrow> rd_ticket r' = rd_ticket r"
  using ticket_command_now [of ret t args r] by simp

lemma ticket_reserved_loop [simp]: "rd_ticket (snd (reserved_loop ret cs r)) = rd_ticket r"
proof (induction ret cs r rule: reserved_loop.induct)
  case (2 ret t args rest r)
  then show ?case by (auto simp: snd_bindR dest: ticket_command_now_dest split: prod.splits sum.splits)
qed simp

lemma ticket_fire_Error [simp]: "rd_ticket (redis_fire_Error err msg t r) = rd_ticket r"
  by (simp add: redis_fire_Error_def split: option.splits)

lemma ticket_fold [simp]:
  "rd_ticket (fold (\<lambda>t r. redis_cancel t (redis_fire_Error err msg t r)) cl r) = rd_ticket r"
  by (induction cl arbitrary: r) (simp_all add: redis_cancel_def)

lemma ticket_onTimer [simp]: "rd_ticket (snd (redis_onTimer tid err stopped r)) = rd_ticket r"
  by (auto simp: redis_onTimer_def redis_connect_def ttl_timer_def on_timers_def Let_def
      split: option.splits prod.splits)

lemma ticket_onTimer_dest: "redis_onTimer tid err stopped r = (x, r') \<Longrightarrow> rd_ticket r' = rd_ticket r"
  using ticket_onTimer [of tid err stopped r] by simp

lemma ticket_command: "rd_ticket (snd (redis_command mounted ret args timeout r)) = rd_ticket r + 1"
  by (auto simp: redis_command_def issueTicket_def Let_def on_timers_def snd_bindR
      split: prod.splits sum.splits dest: ticket_command_now_dest)

lemma redis_apply_ticket:
  "rd_ticket (redis_apply op r) = (if is_command op then rd_ticket r + 1 else rd_ticket r)"
  by (cases op)
    (auto simp: redis_apply_def ticket_command redis_cancel_def redis_connect_def redis_close_def on_timers_def
      connectCallback_def fire_ConnectFailed_def fire_Connected_def disconnectCallback_def fire_Closed_def
      getCallback_def fire_Response_def redis_timer_event_def run_deferred_command_def Let_def
      dest: ticket_command_now_dest ticket_onTimer_dest
      split: option.splits list.splits prod.splits)

lemma redis_apply_ok:
  assumes "answers_ok C r" "0 < uint (rd_ticket r)"
    and "is_command op \<longrightarrow> uint (rd_ticket r) + 1 < 2 ^ 32" "\<forall>t. op = Op_cancel t \<longrightarrow> t \<in> C"
  shows "answers_ok C (redis_apply op r)"
proof (cases op)
  case (Op_command mounted ret args timeout)
  then show ?thesis using assms command_ok by (simp add: redis_apply_def)
next
  case (Op_cancel t)
  then show ?thesis using assms remove_ok by (simp add: redis_apply_def redis_cancel_def)
next
  case (Op_connected st stopped ret)
  then show ?thesis using assms(1) fire_Connected_ok same_view_ok [OF assms(1) same_view_ConnectFailed]
    by (simp add: redis_apply_def connectCallback_def)
next
  case (Op_reply err msg reply t)
  then show ?thesis using assms(1)
    by (simp add: redis_apply_def getCallback_def fire_Error_ok fire_Response_ok split: option.splits)
next
  case (Op_timer tid err stopped)
  then show ?thesis using assms(1) timer_event_ok by (auto simp: redis_apply_def split: option.splits)
next
  case (Op_deferred ret)
  then show ?thesis using assms(1) deferred_ok by (auto simp: redis_apply_def split: option.splits)
qed (simp_all add: redis_apply_def same_view_ok [OF assms(1)] same_view_connect same_view_close same_view_Closed)

lemma redis_run_ok:
  "answers_ok C r \<Longrightarrow> 0 < uint (rd_ticket r) \<Longrightarrow>
    uint (rd_ticket r) + int (length (filter is_command ops)) < 2 ^ 32 \<Longrightarrow> \<forall>t. Op_cancel t \<in> set ops \<longrightarrow> t \<in> C \<Longrightarrow>
    answers_ok C (redis_run ops r)
    \<and> uint (rd_ticket (redis_run ops r)) = uint (rd_ticket r) + int (length (filter is_command ops))"
proof (induction ops arbitrary: r)
  case Nil then show ?case by (simp add: redis_run_def)
next
  case (Cons op ops)
  have u: "uint (rd_ticket (redis_apply op r)) = uint (rd_ticket r) + of_bool (is_command op)"
    using Cons.prems(3) uint_succ [of "rd_ticket r"] by (cases "is_command op") (simp_all add: redis_apply_ticket)
  have "answers_ok C (redis_apply op r)"
    by (rule redis_apply_ok) (use Cons.prems in auto)
  then have "answers_ok C (redis_run ops (redis_apply op r)) \<and> uint (rd_ticket (redis_run ops (redis_apply op r)))
      = uint (rd_ticket (redis_apply op r)) + int (length (filter is_command ops))"
    by (rule Cons.IH) (use Cons.prems u in \<open>auto split: if_splits\<close>)
  then show ?case using u by (simp add: redis_run_def)
qed

lemma newRedis_ok: "answers_ok C (newRedis 1)"
  by (auto simp: answers_ok_def cb_ok_def newRedis_def waiting_def answer_count_def)

text \<open>
  C14: Whatever the user, hiredis, the timers and the other threads do and in whatever order, no
  command is answered twice; one that is still waiting has not been answered; and one that is
  not waiting any more has been answered exactly once, or its user has cancelled it, or hiredis
  refused it. This holds while the ticket counter does not wrap.
\<close>

theorem redis_answers_once:
  assumes "int (length (filter is_command ops)) + 1 < 2 ^ 32" "r = redis_run ops (newRedis 1)"
    and "1 < t" "t \<le> 1 + int (length (filter is_command ops))"
  shows "answer_count t r \<le> 1 \<and> (waiting t r \<longrightarrow> answer_count t r = 0)
    \<and> (\<not> waiting t r \<longrightarrow> answer_count t r = 1 \<or> Op_cancel t \<in> set ops \<or> refused t r)"
proof -
  have "answers_ok {t. Op_cancel t \<in> set ops} r \<and> uint (rd_ticket r) = 1 + int (length (filter is_command ops))"
    using redis_run_ok [OF newRedis_ok, of ops "{t. Op_cancel t \<in> set ops}"] assms(1,2)
    by (simp add: newRedis_def)
  then show ?thesis using assms(3,4) by (simp add: answers_ok_def)
qed

theorem redis_answers_once_witness:
  "answer_count 2 (redis_run [Op_connect 0, Op_command True (\<lambda>_. 0) [''GET'', ''k''] 0, Op_connected 0 False (\<lambda>_. 0),
     Op_reply 0 [] (Some (Reply 1 0 ''v'' [])) 2, Op_reply 0 [] (Some (Reply 1 0 ''v'' [])) 2] (newRedis 1)) \<le> 1"
  using redis_answers_once [of "[Op_connect 0, Op_command True (\<lambda>_. 0) [''GET'', ''k''] 0, Op_connected 0 False (\<lambda>_. 0),
     Op_reply 0 [] (Some (Reply 1 0 ''v'' [])) 2, Op_reply 0 [] (Some (Reply 1 0 ''v'' [])) 2]", OF _ refl, of 2]
  by simp

section \<open>Time to live\<close>

definition ttl_dec :: "requestContext \<Rightarrow> requestContext" where
  "ttl_dec c = (if rq_ttl c > 0 then c\<lparr>rq_ttl := rq_ttl c - 1\<rparr> else c)"

lemma ttl_walk_eq:
  "ttl_walk m = (map (\<lambda>x. (fst x, ttl_dec (snd x))) m,
     map (\<lambda>x. rq_ticket (snd x)) (filter (\<lambda>x. rq_ttl (snd x) > 0 \<and> rq_ttl (snd x) - 1 \<le> 0) m),
     \<exists>x\<in>set m. rq_ttl (snd x) > 0)"
  by (induction m rule: ttl_walk.induct) (auto simp: ttl_dec_def)

lemma map_of_dec: "map_of (map (\<lambda>x. (fst x, ttl_dec (snd x))) m) t = map_option ttl_dec (map_of m t)"
  by (induction m) auto

lemma ttl_dec_ticket [simp]: "rq_ticket (ttl_dec c) = rq_ticket c"
  by (simp add: ttl_dec_def)

definition ttl_cancel :: "int \<Rightarrow> redis \<Rightarrow> redis" where
  "ttl_cancel t r = redis_cancel t (redis_fire_Error REDIS_ERR_OTHER ''timeout'' t r)"

lemma ttl_cancel_other:
  "u \<noteq> t \<Longrightarrow> findRequestContext t (ttl_cancel u r) = findRequestContext t r"
  "u \<noteq> t \<Longrightarrow> answer_count t (ttl_cancel u r) = answer_count t r"
proof -
  have f: "map_of (filter (\<lambda>x. fst x \<noteq> u) m) t = map_of m t" if "u \<noteq> t" for m :: "(int \<times> requestContext) list"
    using that by (induction m) auto
  show "u \<noteq> t \<Longrightarrow> findRequestContext t (ttl_cancel u r) = findRequestContext t r"
    by (auto simp: ttl_cancel_def redis_cancel_def redis_fire_Error_def findRequestContext_def f split: option.splits)
  show "u \<noteq> t \<Longrightarrow> answer_count t (ttl_cancel u r) = answer_count t r"
    by (auto simp: ttl_cancel_def redis_cancel_def redis_fire_Error_def answers_emit split: option.splits)
qed

lemma rd_log_removeContext [simp]: "rd_log (removeContext t r) = rd_log r" "rd_timers (removeContext t r) = rd_timers r"
  by (simp_all add: removeContext_def)

lemma ttl_cancel_keeps:
  "set (rd_log r) \<subseteq> set (rd_log (ttl_cancel u r))" "rd_timers (ttl_cancel u r) = rd_timers r"
  "\<not> waiting t r \<Longrightarrow> \<not> waiting t (ttl_cancel u r)" "cb_ok r \<Longrightarrow> cb_ok (ttl_cancel u r)"
proof -
  have e: "cb_ok (rd_emit e r) = cb_ok r" "waiting t (rd_emit e r) = waiting t r" for e
    by (simp_all add: cb_ok_def waiting_def)
  show "set (rd_log r) \<subseteq> set (rd_log (ttl_cancel u r))" "rd_timers (ttl_cancel u r) = rd_timers r"
    "\<not> waiting t r \<Longrightarrow> \<not> waiting t (ttl_cancel u r)" "cb_ok r \<Longrightarrow> cb_ok (ttl_cancel u r)"
    by (auto simp: ttl_cancel_def redis_cancel_def redis_fire_Error_def e cb_ok_remove rd_emit_def [of _ r] split: option.splits)
      (auto simp: rd_emit_def [symmetric] e cb_ok_remove)
qed

lemma ttl_fold_keeps:
  "set (rd_log r) \<subseteq> set (rd_log (fold ttl_cancel cl r)) \<and> rd_timers (fold ttl_cancel cl r) = rd_timers r
    \<and> (\<not> waiting t r \<longrightarrow> \<not> waiting t (fold ttl_cancel cl r)) \<and> (cb_ok r \<longrightarrow> cb_ok (fold ttl_cancel cl r))"
proof (induction cl arbitrary: r)
  case (Cons u cl)
  show ?case using Cons [of "ttl_cancel u r"] ttl_cancel_keeps [where r = r and u = u] by auto
qed simp

lemma ttl_fold_other:
  "t \<notin> set cl \<Longrightarrow> findRequestContext t (fold ttl_cancel cl r) = findRequestContext t r
    \<and> answer_count t (fold ttl_cancel cl r) = answer_count t r"
  by (induction cl arbitrary: r) (auto simp: ttl_cancel_other)

definition timeout_answer :: "int \<Rightarrow> redis_event" where
  "timeout_answer t = CallHandler t (errorResponse REDIS_ERR_OTHER ''timeout'' t)"

lemma ttl_cancel_answers:
  assumes "waiting t r" "t \<noteq> 0"
  shows "\<not> waiting t (ttl_cancel t r) \<and> timeout_answer t \<in> set (rd_log (ttl_cancel t r))"
proof -
  obtain c where "findRequestContext t r = Some c" using assms(1) waiting_find [of t r] by auto
  then show ?thesis using assms(2)
    by (simp add: ttl_cancel_def redis_cancel_def redis_fire_Error_def timeout_answer_def rd_emit_def)
qed

lemma ttl_fold_answers:
  assumes "t \<in> set cl" "waiting t r" "t \<noteq> 0"
  shows "\<not> waiting t (fold ttl_cancel cl r) \<and> timeout_answer t \<in> set (rd_log (fold ttl_cancel cl r))"
proof -
  obtain xs ys where cl: "cl = xs @ t # ys" "t \<notin> set xs" using split_list_first [OF assms(1)] by blast
  let ?r = "fold ttl_cancel xs r"
  have "waiting t ?r" using ttl_fold_other [OF cl(2), of r] assms(2) waiting_find by metis
  from ttl_cancel_answers [OF this assms(3)] ttl_fold_keeps [of "ttl_cancel t ?r" ys t]
  show ?thesis by (auto simp: cl(1))
qed

lemma ttl_timer_fold:
  "ttl_timer r = fold ttl_cancel
     (map (\<lambda>x. rq_ticket (snd x)) (filter (\<lambda>x. rq_ttl (snd x) > 0 \<and> rq_ttl (snd x) - 1 \<le> 0) (rd_callbacks r)))
     (if \<exists>x\<in>set (rd_callbacks r). rq_ttl (snd x) > 0
      then r\<lparr>rd_callbacks := map (\<lambda>x. (fst x, ttl_dec (snd x))) (rd_callbacks r)\<rparr>
      else on_timers (killTimer TIMER_ID_COMMAND_TTL)
        (r\<lparr>rd_callbacks := map (\<lambda>x. (fst x, ttl_dec (snd x))) (rd_callbacks r)\<rparr>))"
  by (simp add: ttl_timer_def ttl_walk_eq Let_def ttl_cancel_def [abs_def])

definition ttl_armed :: "redis \<Rightarrow> bool" where
  "ttl_armed r \<longleftrightarrow> (\<exists>x. rd_timers r TIMER_ID_COMMAND_TTL = Some x \<and> tm_repeat x \<and> tm_pending x)"

lemma cb_ok_ticket: "cb_ok r \<Longrightarrow> findRequestContext t r = Some c \<Longrightarrow> rq_ticket c = t \<and> 1 < t"
  by (auto simp: cb_ok_def findRequestContext_def dest!: map_of_SomeD)

lemma cancel_list_iff:
  assumes "cb_ok r" "findRequestContext t r = Some c"
  shows "t \<in> set (map (\<lambda>x. rq_ticket (snd x)) (filter (\<lambda>x. P (snd x)) (rd_callbacks r))) \<longleftrightarrow> P c"
proof -
  have d: "distinct (map fst (rd_callbacks r))" using assms(1) by (simp add: cb_ok_def)
  have "x = (t, c)" if "x \<in> set (rd_callbacks r)" "rq_ticket (snd x) = t" for x
  proof -
    have "fst x = t" using that assms(1) by (auto simp: cb_ok_def)
    moreover have "map_of (rd_callbacks r) (fst x) = Some (snd x)" by (rule map_of_is_SomeI [OF d]) (use that in simp)
    ultimately show ?thesis using assms(2) by (cases x) (simp add: findRequestContext_def)
  qed
  moreover have "(t, c) \<in> set (rd_callbacks r)" "rq_ticket c = t"
    using assms cb_ok_ticket [OF assms] by (auto simp: findRequestContext_def dest: map_of_SomeD)
  ultimately show ?thesis by force
qed

text \<open>One second.\<close>

lemma ttl_tick:
  assumes "cb_ok r" "findRequestContext t r = Some c" "rq_ttl c > 0" "ttl_armed r"
  shows "\<exists>r'. redis_timer_event TIMER_ID_COMMAND_TTL err stopped r = Some (Inr (), r') \<and> cb_ok r' \<and> ttl_armed r'
    \<and> (if rq_ttl c > 1 then findRequestContext t r' = Some (c\<lparr>rq_ttl := rq_ttl c - 1\<rparr>) \<and> answer_count t r' = answer_count t r
       else \<not> waiting t r' \<and> timeout_answer t \<in> set (rd_log r'))"
proof -
  from assms(4) obtain x where x: "rd_timers r TIMER_ID_COMMAND_TTL = Some x" "tm_repeat x" "tm_pending x"
    by (auto simp: ttl_armed_def)
  then have "(rd_timers r)(TIMER_ID_COMMAND_TTL \<mapsto> x) = rd_timers r" by (simp add: fun_upd_idem)
  then have ev: "redis_timer_event TIMER_ID_COMMAND_TTL err stopped r = Some (Inr (), ttl_timer r)"
    using x by (cases x, cases r)
      (simp add: redis_timer_event_def timer_cb_def fire_onTimer_def redis_onTimer_def redis_timer_ids)
  let ?cl = "map (\<lambda>x. rq_ticket (snd x)) (filter (\<lambda>x. rq_ttl (snd x) > 0 \<and> rq_ttl (snd x) - 1 \<le> 0) (rd_callbacks r))"
  let ?m = "map (\<lambda>x. (fst x, ttl_dec (snd x))) (rd_callbacks r)"
  let ?r = "r\<lparr>rd_callbacks := ?m\<rparr>"
  have "(t, c) \<in> set (rd_callbacks r)" using assms(2) by (auto simp: findRequestContext_def dest: map_of_SomeD)
  with assms(3) have "\<exists>x\<in>set (rd_callbacks r). rq_ttl (snd x) > 0" by force
  then have tt: "ttl_timer r = fold ttl_cancel ?cl ?r" by (simp add: ttl_timer_fold)
  have cb: "cb_ok ?r" using assms(1) by (auto simp: cb_ok_def o_def)
  have f: "findRequestContext t ?r = Some (c\<lparr>rq_ttl := rq_ttl c - 1\<rparr>)"
    using assms(2,3) map_of_dec [of "rd_callbacks r" t] by (simp add: findRequestContext_def) (simp add: ttl_dec_def)
  then have w: "waiting t ?r" using waiting_find [of t ?r] by simp
  have "t \<noteq> 0" using cb_ok_ticket [OF assms(1,2)] by simp
  have in_cl: "t \<in> set ?cl \<longleftrightarrow> rq_ttl c \<le> 1"
    using cancel_list_iff [OF assms(1,2), of "\<lambda>c. rq_ttl c > 0 \<and> rq_ttl c - 1 \<le> 0"] assms(3) by auto
  have keep: "cb_ok (fold ttl_cancel ?cl ?r)" "ttl_armed (fold ttl_cancel ?cl ?r)"
    using ttl_fold_keeps [of ?r ?cl] cb x by (auto simp: ttl_armed_def)
  show ?thesis
  proof (cases "rq_ttl c > 1")
    case True
    then have "t \<notin> set ?cl" using in_cl by simp
    then show ?thesis using True ev keep f ttl_fold_other [of t ?cl ?r] by (simp add: tt)
  next
    case False
    then have "t \<in> set ?cl" using in_cl by simp
    then show ?thesis using False ev keep ttl_fold_answers [OF _ w \<open>t \<noteq> 0\<close>] by (simp add: tt)
  qed
qed

definition ttl_second :: "redis \<Rightarrow> redis" where
  "ttl_second r = (case redis_timer_event TIMER_ID_COMMAND_TTL 0 False r of None \<Rightarrow> r | Some x \<Rightarrow> snd x)"

lemma ttl_second_Some: "redis_timer_event TIMER_ID_COMMAND_TTL 0 False r = Some x \<Longrightarrow> ttl_second r = snd x"
  by (simp add: ttl_second_def)

lemma ttl_seconds:
  assumes "cb_ok r" "findRequestContext t r = Some c" "rq_ttl c = int n" "ttl_armed r" "k < n"
  shows "cb_ok ((ttl_second ^^ k) r) \<and> ttl_armed ((ttl_second ^^ k) r)
    \<and> findRequestContext t ((ttl_second ^^ k) r) = Some (c\<lparr>rq_ttl := int (n - k)\<rparr>)
    \<and> answer_count t ((ttl_second ^^ k) r) = answer_count t r"
  using assms(5)
proof (induction k)
  case 0
  have "c\<lparr>rq_ttl := int n\<rparr> = c" using assms(3) by (cases c) simp
  then show ?case using assms by simp
next
  case (Suc k)
  let ?r = "(ttl_second ^^ k) r"
  from Suc have ih: "cb_ok ?r" "ttl_armed ?r" "findRequestContext t ?r = Some (c\<lparr>rq_ttl := int (n - k)\<rparr>)"
    "answer_count t ?r = answer_count t r" by auto
  have gt: "1 < int (n - k)" "int (n - k) - 1 = int (n - Suc k)" using Suc.prems by auto
  obtain r' where "redis_timer_event TIMER_ID_COMMAND_TTL 0 False ?r = Some (Inr (), r')" "cb_ok r'" "ttl_armed r'"
    "findRequestContext t r' = Some (c\<lparr>rq_ttl := int (n - Suc k)\<rparr>) \<and> answer_count t r' = answer_count t r"
    using ttl_tick [OF ih(1,3) _ ih(2), of 0 False] gt ih(4) by auto
  moreover from this(1) have "(ttl_second ^^ Suc k) r = r'" by (simp add: ttl_second_Some)
  ultimately show ?case by simp
qed

lemma ttl_last_second:
  assumes "cb_ok r" "findRequestContext t r = Some c" "rq_ttl c = int n" "0 < n" "ttl_armed r"
  shows "\<not> waiting t ((ttl_second ^^ n) r) \<and> timeout_answer t \<in> set (rd_log ((ttl_second ^^ n) r))"
proof -
  let ?r = "(ttl_second ^^ (n - 1)) r"
  have k: "cb_ok ?r" "ttl_armed ?r" "findRequestContext t ?r = Some (c\<lparr>rq_ttl := int 1\<rparr>)"
    using ttl_seconds [OF assms(1-3,5), of "n - 1"] assms(4) by (auto simp: Suc_leI of_nat_diff)
  obtain r' where "redis_timer_event TIMER_ID_COMMAND_TTL 0 False ?r = Some (Inr (), r')"
    "\<not> waiting t r'" "timeout_answer t \<in> set (rd_log r')"
    using ttl_tick [OF k(1,3) _ k(2), of 0 False] by auto
  moreover from this(1) have "ttl_second ?r = r'" by (simp add: ttl_second_Some)
  moreover have "(ttl_second ^^ n) r = ttl_second ?r" using assms(4) by (cases n) simp_all
  ultimately show ?thesis by simp
qed

lemma command_now_keeps:
  "redis_command_now ret t args r = (Inr x, r') \<Longrightarrow> rd_callbacks r' = rd_callbacks r \<and> rd_timers r' = rd_timers r"
  by (auto simp: redis_command_now_def doCommand_def Let_def split: if_splits option.splits)

lemma command_ttl:
  assumes "answers_ok C r0" "uint (rd_ticket r0) + 1 < 2 ^ 32" "0 < uint (rd_ticket r0)"
    and "redis_command mounted ret args timeout r0 = (Inr t, r)" "0 < timeout"
  shows "cb_ok r \<and> ttl_armed r \<and> t = uint (rd_ticket r0) + 1
    \<and> findRequestContext t r = Some \<lparr>rq_ticket = t, rq_args = args, rq_ttl = timeout\<rparr>"
proof -
  have "answers_ok C r" using command_ok [OF assms(1-3), of mounted ret args timeout] assms(4) by simp
  then have cb: "cb_ok r" by (simp add: answers_ok_def)
  have "t = uint (rd_ticket r0 + 1) \<and> rd_timers r = setTimer TIMER_ID_COMMAND_TTL 1000 True (rd_timers r0)
      \<and> rd_callbacks r = cb_insert t \<lparr>rq_ticket = t, rq_args = args, rq_ttl = timeout\<rparr> (rd_callbacks r0)"
    using assms(4,5) by (auto simp: redis_command_def issueTicket_def Let_def on_timers_def bindR_Inr_iff
        dest!: command_now_keeps split: if_splits)
  then have r: "t = uint (rd_ticket r0) + 1" "rd_timers r = setTimer TIMER_ID_COMMAND_TTL 1000 True (rd_timers r0)"
    "rd_callbacks r = cb_insert t \<lparr>rq_ticket = t, rq_args = args, rq_ttl = timeout\<rparr> (rd_callbacks r0)"
    using uint_succ [OF assms(2)] by auto
  have "cb_ok r0" using assms(1) by (simp add: answers_ok_def)
  from cb_insert_new [OF this r(1)] r(3)
  have "(t, \<lparr>rq_ticket = t, rq_args = args, rq_ttl = timeout\<rparr>) \<in> set (rd_callbacks r)" by (simp add: set_insort_key)
  then have "findRequestContext t r = Some \<lparr>rq_ticket = t, rq_args = args, rq_ttl = timeout\<rparr>"
    unfolding findRequestContext_def by (rule map_of_is_SomeI [rotated]) (use cb in \<open>simp add: cb_ok_def\<close>)
  moreover have "ttl_armed r"
    by (auto simp: ttl_armed_def r(2) setTimer_def Let_def split: option.splits)
  ultimately show ?thesis using cb r(1) by simp
qed

text \<open>
  C23: A command with a time limit of n seconds that is accepted, in any state the client can be
  in, and hears nothing, waits through the first n - 1 ticks of the timer without being
  answered and is answered with a time-out at the n-th, whatever the limits of the other commands.
\<close>

theorem redis_ttl:
  assumes "r0 = redis_run ops (newRedis 1)" "int (length (filter is_command ops)) + 2 < 2 ^ 32"
    and "redis_command mounted ret args (int n) r0 = (Inr t, r)" "0 < n"
  shows "(\<forall>k<n. waiting t ((ttl_second ^^ k) r) \<and> answer_count t ((ttl_second ^^ k) r) = answer_count t r)
    \<and> \<not> waiting t ((ttl_second ^^ n) r)
    \<and> CallHandler t (errorResponse REDIS_ERR_OTHER ''timeout'' t) \<in> set (rd_log ((ttl_second ^^ n) r))"
proof -
  let ?C = "{t. Op_cancel t \<in> set ops}"
  have run: "answers_ok ?C r0" "uint (rd_ticket r0) = 1 + int (length (filter is_command ops))"
    using redis_run_ok [OF newRedis_ok, of ops ?C] assms(1,2) by (simp_all add: newRedis_def)
  from assms(2) run(2) have "uint (rd_ticket r0) + 1 < 2 ^ 32" "0 < uint (rd_ticket r0)" by simp_all
  from command_ttl [OF run(1) this assms(3)] assms(4)
  have c: "cb_ok r" "ttl_armed r" "findRequestContext t r = Some \<lparr>rq_ticket = t, rq_args = args, rq_ttl = int n\<rparr>"
    by auto
  have "waiting t ((ttl_second ^^ k) r) \<and> answer_count t ((ttl_second ^^ k) r) = answer_count t r" if "k < n" for k
    using ttl_seconds [OF c(1,3) _ c(2) that] waiting_find [of t "(ttl_second ^^ k) r"] by simp
  then show ?thesis using ttl_last_second [OF c(1,3) _ assms(4) c(2)] by (simp add: timeout_answer_def)
qed

theorem redis_ttl_witness:
  "CallHandler 2 (errorResponse REDIS_ERR_OTHER ''timeout'' 2)
    \<in> set (rd_log ((ttl_second ^^ 3) (snd (redis_command True (\<lambda>_. 0) [''GET'', ''k''] 3 (redis_run [] (newRedis 1))))))"
proof -
  have "redis_command True (\<lambda>_. 0) [''GET'', ''k''] (int 3) (redis_run [] (newRedis 1))
      = (Inr 2, snd (redis_command True (\<lambda>_. 0) [''GET'', ''k''] 3 (redis_run [] (newRedis 1))))"
    by (simp add: redis_command_def redis_run_def newRedis_def issueTicket_def redis_command_now_def on_timers_def Let_def)
  from redis_ttl [OF refl _ this] show ?thesis by simp
qed

end
