(* ===== verification/JsonScan.thy ===== *)
theory JsonScan
  imports Prelude
begin

text \<open>
  How libjson finds where a part of a JSON text ends: the scan that \<^verbatim>\<open>JSONStream.cpp\<close> and
  \<^verbatim>\<open>JSONWorker.cpp\<close> share. It steps over strings, and over brackets with what is in them. A
  pointer into the text is the rest of the text from there on, and a NUL ends the text for the
  C string functions.
\<close>

section \<open>The scan\<close>

abbreviation "Quote \<equiv> (34 :: byte)"
abbreviation "LBracket \<equiv> (91 :: byte)"
abbreviation "RBracket \<equiv> (93 :: byte)"
abbreviation "LBrace \<equiv> (123 :: byte)"
abbreviation "RBrace \<equiv> (125 :: byte)"

text \<open>\<open>QUOTECASE_STREAM\<close>: what follows the closing quote.\<close>

fun quote_scan :: "bytes \<Rightarrow> bytes option" where
  "quote_scan [] = None"
| "quote_scan (c # s) = (if c = Quote then Some s else if c = 0 then None else quote_scan s)"

lemma quote_scan_length: "quote_scan s = Some t \<Longrightarrow> length t < length s"
  by (induction s rule: quote_scan.induct) (auto split: if_splits)

text \<open>\<open>BRACKET_STREAM\<close>: what follows the bracket that closes the \<open>brac\<close> open ones.\<close>

function bracket_scan :: "byte \<Rightarrow> byte \<Rightarrow> nat \<Rightarrow> bytes \<Rightarrow> bytes option" where
  "bracket_scan l r brac s = (if brac = 0 then Some s else case s of
     [] \<Rightarrow> None
   | c # s' \<Rightarrow>
       if c = r then bracket_scan l r (brac - 1) s'
       else if c = l then bracket_scan l r (brac + 1) s'
       else if c = Quote then (case quote_scan s' of None \<Rightarrow> None | Some t \<Rightarrow> bracket_scan l r brac t)
       else if c = 0 then None
       else bracket_scan l r brac s')"
  by pat_completeness auto
termination
  by (relation "measure (\<lambda>(l, r, brac, s). length s)") (auto dest: quote_scan_length)

declare bracket_scan.simps [simp del]

lemma bracket_scan_simps [simp]:
  "bracket_scan l r 0 s = Some s"
  "bracket_scan l r (Suc b) [] = None"
  "bracket_scan l r (Suc b) (c # s) =
    (if c = r then bracket_scan l r b s
     else if c = l then bracket_scan l r (Suc (Suc b)) s
     else if c = Quote then (case quote_scan s of None \<Rightarrow> None | Some t \<Rightarrow> bracket_scan l r (Suc b) t)
     else if c = 0 then None
     else bracket_scan l r (Suc b) s)"
  by (subst bracket_scan.simps, simp)+

lemma bracket_scan_length: "bracket_scan l r b s = Some t \<Longrightarrow> length t \<le> length s"
proof (induction s arbitrary: b rule: measure_induct_rule [where f = length])
  case (less s)
  have le: "length t \<le> length s'" if "length s' < length s" "bracket_scan l r b' s' = Some t" for s' b'
    by (rule less.IH [OF that])
  show ?case
  proof (cases b)
    case (Suc b')
    then obtain c s' where s: "s = c # s'" using less.prems by (cases s) auto
    have "bracket_scan l r b'' s' = Some t \<Longrightarrow> length t \<le> length s" for b''
      using le [of s' b''] s by simp
    moreover have "quote_scan s' = Some u \<Longrightarrow> bracket_scan l r b'' u = Some t \<Longrightarrow> length t \<le> length s" for u b''
      using le [of u b''] quote_scan_length [of s' u] s by simp
    ultimately show ?thesis using less.prems unfolding s Suc
      by (auto split: if_splits option.splits simp del: length_Cons)
  qed (use less.prems in simp)
qed

function find_next :: "byte \<Rightarrow> bytes \<Rightarrow> bytes option" where
  "find_next ch s = (case s of
     [] \<Rightarrow> None
   | c # s' \<Rightarrow>
       if c = 0 then None
       else if c = ch then Some s'
       else if c = LBracket then
         (case bracket_scan LBracket RBracket 1 s' of None \<Rightarrow> None | Some t \<Rightarrow> find_next ch t)
       else if c = RBracket then None
       else if c = LBrace then
         (case bracket_scan LBrace RBrace 1 s' of None \<Rightarrow> None | Some t \<Rightarrow> find_next ch t)
       else if c = RBrace then None
       else if c = Quote then (case quote_scan s' of None \<Rightarrow> None | Some t \<Rightarrow> find_next ch t)
       else find_next ch s')"
  by pat_completeness auto
termination
  by (relation "measure (\<lambda>(ch, s). length s)") (auto dest: quote_scan_length bracket_scan_length)

declare find_next.simps [simp del]

lemma find_next_simps [simp]:
  "find_next ch [] = None"
  "find_next ch (c # s) =
    (if c = 0 then None
     else if c = ch then Some s
     else if c = LBracket then (case bracket_scan LBracket RBracket 1 s of None \<Rightarrow> None | Some t \<Rightarrow> find_next ch t)
     else if c = RBracket then None
     else if c = LBrace then (case bracket_scan LBrace RBrace 1 s of None \<Rightarrow> None | Some t \<Rightarrow> find_next ch t)
     else if c = RBrace then None
     else if c = Quote then (case quote_scan s of None \<Rightarrow> None | Some t \<Rightarrow> find_next ch t)
     else find_next ch s)"
  by (subst find_next.simps, simp)+

lemma find_next_length: "find_next ch s = Some t \<Longrightarrow> length t < length s"
proof (induction s rule: measure_induct_rule [where f = length])
  case (less s)
  then obtain c s' where s: "s = c # s'" by (cases s) auto
  have "find_next ch s' = Some t \<Longrightarrow> length t < length s" using less.IH [of s'] s by simp
  moreover have "quote_scan s' = Some u \<Longrightarrow> find_next ch u = Some t \<Longrightarrow> length t < length s" for u
    using less.IH [of u] quote_scan_length [of s' u] s by simp
  moreover have "bracket_scan l r b s' = Some u \<Longrightarrow> find_next ch u = Some t \<Longrightarrow> length t < length s" for l r b u
    using less.IH [of u] bracket_scan_length [of l r b s' u] s by simp
  ultimately show ?case using less.prems unfolding s
    by (auto split: if_splits option.splits simp del: length_Cons)
qed

end
