(* ===== verification/JsonText.thy ===== *)
theory JsonText
  imports JsonScan
begin

text \<open>
  The text functions of libjson, \<^verbatim>\<open>JSONWorker.cpp\<close> and \<^verbatim>\<open>NumberToString.h\<close>, as coconut
  builds it (\<^verbatim>\<open>JSONOptions.h\<close>: \<open>JSON_SAFE\<close>, \<open>JSON_COMMENTS\<close> and \<open>JSON_ESCAPE_WRITES\<close>, not
  \<open>JSON_STRICT\<close>, \<open>JSON_UNICODE\<close> or \<open>JSON_DEBUG\<close>). A pointer into a C string is the text
  from there to its end: \<open>[]\<close> is the NUL at the end, and reading behind it is undefined.
\<close>

abbreviation "Backslash \<equiv> (92 :: byte)"
abbreviation "Slash \<equiv> (47 :: byte)"
abbreviation "Star \<equiv> (42 :: byte)"
abbreviation "Hash \<equiv> (35 :: byte)"
abbreviation "Comma \<equiv> (44 :: byte)"
abbreviation "Colon \<equiv> (58 :: byte)"
abbreviation "Tab \<equiv> (9 :: byte)"
abbreviation "Newline \<equiv> (10 :: byte)"
abbreviation "Return \<equiv> (13 :: byte)"
abbreviation "Blank \<equiv> (32 :: byte)"

text \<open>\<open>JSON_TEMP_COMMENT_IDENTIFIER\<close>, and what stands for an escaped quote.\<close>

abbreviation "CommentMark \<equiv> Hash"
abbreviation "AsciiOne \<equiv> (1 :: byte)"

definition text_of :: "string \<Rightarrow> bytes" where
  "text_of s = map of_char s"

fun c_text :: "bytes \<Rightarrow> bytes" where
  "c_text [] = []"
| "c_text (c # s) = (if c = 0 then [] else c # c_text s)"

lemma c_text_id: "0 \<notin> set s \<Longrightarrow> c_text s = s"
  by (induction s) auto

definition slice :: "nat \<Rightarrow> nat \<Rightarrow> bytes \<Rightarrow> bytes" where
  "slice a b s = take (b - a) (drop a s)"

section \<open>Removing white space\<close>

text \<open>
  What is still to be written to the result, with whether \<open>ascii_one\<close> has been called on the
  way; the exceptions thrown inside the function end the text.
\<close>

type_synonym written_text = "exn + bytes \<times> bool"

fun put_text :: "bytes \<Rightarrow> bool \<Rightarrow> written_text \<Rightarrow> written_text" where
  "put_text out u (Inl e) = Inl e"
| "put_text out u (Inr (s, v)) = Inr (out @ s, u \<or> v)"

text \<open>
  The loop of \<open>RemoveWhiteSpace\<close> with the loops inside it: \<open>ws_line\<close> is \<open>SingleLineComment\<close>, which
  leaves the pointer on the newline or on the final NUL, \<open>ws_multi\<close> the loop over a comment of C,
  and \<open>ws_quote\<close> the one over a string.
\<close>

fun ws_loop :: "bool \<Rightarrow> bytes \<Rightarrow> written_text"
  and ws_line :: "bool \<Rightarrow> bytes \<Rightarrow> written_text"
  and ws_multi :: "bool \<Rightarrow> bytes \<Rightarrow> written_text"
  and ws_quote :: "bool \<Rightarrow> bytes \<Rightarrow> written_text" where
  "ws_loop esc [] = Inr ([], False)"
| "ws_loop esc (c # s) =
    (if c = Blank \<or> c = Tab \<or> c = Newline \<or> c = Return then ws_loop esc s
     else if c = Slash then
       (case s of
          [] \<Rightarrow> Inr ([], False)
        | d # s' \<Rightarrow>
            if d = Star then put_text [CommentMark] False (ws_multi esc s')
            else if d \<noteq> Slash then Inr ([], False)
            else put_text [CommentMark] False (ws_line esc s'))
     else if c = Hash then put_text [CommentMark] False (ws_line esc s)
     else if c = Quote then put_text [Quote] False (ws_quote esc s)
     else if c < 32 \<or> 126 < c then Inr ([], False)
     else put_text [c] False (ws_loop esc s))"
| "ws_line esc [] = Inl (Undef ''read behind the text'')"
| "ws_line esc (c # s) =
    (if c = Newline then put_text [CommentMark] False (ws_loop esc s)
     else put_text [c] False (ws_line esc s))"
| "ws_multi esc [] = Inr ([CommentMark], False)"
| "ws_multi esc (c # s) =
    (case s of
       [] \<Rightarrow> put_text [c] False (ws_multi esc s)
     | d # s' \<Rightarrow>
         if c = Star \<and> d = Slash then put_text [CommentMark] False (ws_loop esc s')
         else put_text [c] False (ws_multi esc s))"
| "ws_quote esc [] = Inr ([], False)"
| "ws_quote esc (c # s) =
    (if c = Quote then put_text [Quote] False (ws_loop esc s)
     else if c = Backslash then
       (if esc then
          (case s of
             [] \<Rightarrow> Inl (Undef ''read behind the text'')
           | d # s' \<Rightarrow> put_text [Backslash, if d = Quote then AsciiOne else d] (d = Quote) (ws_quote esc s'))
        else put_text [Backslash] False (ws_quote esc s))
     else put_text [c] False (ws_quote esc s))"

text \<open>With \<open>JSON_SAFE\<close> the last character is handed out: for an empty result it is in front of the buffer.\<close>

definition RemoveWhiteSpace :: "bool \<Rightarrow> bytes \<Rightarrow> exn + bytes \<times> byte \<times> bool" where
  "RemoveWhiteSpace escapeQuotes value =
    (case ws_loop escapeQuotes (c_text value) of
       Inl e \<Rightarrow> Inl e
     | Inr (s, u) \<Rightarrow> if s = [] then Inl (Undef ''read in front of the text'') else Inr (s, last s, u))"

section \<open>Finding where a value ends\<close>

text \<open>
  \<open>JSONWorker::FindNextRelevant\<close>: the macros behind it differ from those of the stream only in
  how they are written, so it is the stream's scan with positions.
\<close>

definition FindNextRelevant :: "byte \<Rightarrow> bytes \<Rightarrow> nat \<Rightarrow> nat option" where
  "FindNextRelevant ch value pos =
    (case find_next ch (drop pos value) of
       None \<Rightarrow> None
     | Some rest \<Rightarrow> Some (length value - length rest - 1))"

section \<open>Escapes\<close>

text \<open>\<open>Hex\<close>: the arithmetic is that of an unsigned char.\<close>

definition hex_value :: "byte \<Rightarrow> byte" where
  "hex_value c = (let h = c - 48 in if 48 < h then h - 39 else if 9 < h then h - 7 else h)"

definition Hex :: "byte \<Rightarrow> byte \<Rightarrow> byte" where
  "Hex hi lo = or (push_bit 4 (hex_value hi)) (hex_value lo)"

definition FromOctal :: "byte \<Rightarrow> byte \<Rightarrow> byte \<Rightarrow> byte" where
  "FromOctal a b c = or (or (push_bit 6 (a - 48)) (push_bit 3 (b - 48))) (c - 48)"

text \<open>
  \<open>SpecialChar\<close> on the character behind a backslash: what is added, and the text behind what
  belongs to the escape. The first two digits behind \<open>u\<close> are stepped over.
\<close>

fun SpecialChar :: "bytes \<Rightarrow> exn + byte \<times> bytes" where
  "SpecialChar [] = Inl (Undef ''read behind the text'')"
| "SpecialChar (c # s) =
    (if c = AsciiOne then Inr (Quote, s)
     else if c = 116 then Inr (Tab, s)
     else if c = 110 then Inr (Newline, s)
     else if c = 114 then Inr (Return, s)
     else if c = Backslash then Inr (Backslash, s)
     else if c = Slash then Inr (Slash, s)
     else if c = 98 then Inr (8, s)
     else if c = 102 then Inr (12, s)
     else if c = 118 then Inr (11, s)
     else if c = 117 then
       (case s of
          _ # _ # h # l # s' \<Rightarrow> Inr (Hex h l, s')
        | _ \<Rightarrow> Inl (Undef ''read behind the text''))
     else if c = 120 then
       (case s of h # l # s' \<Rightarrow> Inr (Hex h l, s') | _ \<Rightarrow> Inl (Undef ''read behind the text''))
     else if 48 \<le> c \<and> c \<le> 55 then
       (case s of d # e # s' \<Rightarrow> Inr (FromOctal c d e, s') | _ \<Rightarrow> Inl (Undef ''read behind the text''))
     else Inr (c, s))"

lemma SpecialChar_length: "SpecialChar s = Inr (c, t) \<Longrightarrow> length t < length s"
  by (cases s) (auto split: if_splits list.splits)

text \<open>The loop of \<open>FixString\<close>, with whether there was an escape.\<close>

function fix_loop :: "bytes \<Rightarrow> exn + bytes \<times> bool" where
  "fix_loop [] = Inr ([], False)"
| "fix_loop (c # s) =
    (if c = Backslash then
       (case SpecialChar s of
          Inl e \<Rightarrow> Inl e
        | Inr (d, t) \<Rightarrow> (case fix_loop t of Inl e \<Rightarrow> Inl e | Inr (r, _) \<Rightarrow> Inr (d # r, True)))
     else (case fix_loop s of Inl e \<Rightarrow> Inl e | Inr (r, f) \<Rightarrow> Inr (c # r, f)))"
  by pat_completeness auto
termination by (relation "measure length") (auto dest: SpecialChar_length)

definition FixString :: "bytes \<Rightarrow> exn + bytes \<times> bool" where
  "FixString value = fix_loop (c_text value)"

definition hex_upper :: "byte \<Rightarrow> byte" where
  "hex_upper d = (let h = d + 48 in if 57 < h then h + 7 else h)"

definition toUTF8 :: "byte \<Rightarrow> bytes" where
  "toUTF8 p = [Backslash, 117, 48, 48, hex_upper (drop_bit 4 p), hex_upper (and p 15)]"

definition escape_char :: "byte \<Rightarrow> bytes" where
  "escape_char c =
    (if c = Quote then [Backslash, Quote]
     else if c = Backslash then [Backslash, Backslash]
     else if c = Tab then [Backslash, 116]
     else if c = Newline then [Backslash, 110]
     else if c = Return then [Backslash, 114]
     else if c = Slash then [Backslash, Slash]
     else if c = 8 then [Backslash, 98]
     else if c = 12 then [Backslash, 102]
     else if c < 32 \<or> 126 < c then toUTF8 c
     else [c])"

definition UnfixString :: "bytes \<Rightarrow> bool \<Rightarrow> bytes" where
  "UnfixString value flag = (if \<not> flag then value else concat (map escape_char (c_text value)))"

section \<open>Numbers\<close>

definition is_digit :: "byte \<Rightarrow> bool" where
  "is_digit c \<longleftrightarrow> 48 \<le> c \<and> c \<le> 57"

definition starts_exponent :: "bytes \<Rightarrow> bool" where
  "starts_exponent s = (case s of [] \<Rightarrow> False | c # _ \<Rightarrow> c = 45 \<or> c = 43 \<or> is_digit c)"

text \<open>The loop over the \<open>next digits\<close>: \<open>decimal\<close> and \<open>scientific\<close> are what has been seen.\<close>

fun num_loop :: "bool \<Rightarrow> bool \<Rightarrow> bytes \<Rightarrow> bool" where
  "num_loop decimal scientific [] = True"
| "num_loop decimal scientific (c # s) =
    (if c = 46 then \<not> decimal \<and> \<not> scientific \<and> num_loop True scientific s
     else if c = 101 \<or> c = 69 then \<not> scientific \<and> starts_exponent s \<and> num_loop decimal True (tl s)
     else is_digit c \<and> num_loop decimal scientific s)"

definition isNumeric :: "bytes \<Rightarrow> bool" where
  "isNumeric str =
    (case c_text str of
       [] \<Rightarrow> False
     | c # s \<Rightarrow>
         if c = 46 then num_loop True False s
         else if c = 43 \<or> c = 45 \<or> 49 \<le> c \<and> c \<le> 57 then num_loop False False s
         else if c = 48 then
           (case s of
              [] \<Rightarrow> True
            | d # t \<Rightarrow>
                if d = 46 then num_loop True False t
                else if d = 101 \<or> d = 69 then starts_exponent t \<and> num_loop False True (tl t)
                else if d = 120 then list_all (\<lambda>x. x \<in> set (text_of ''0123456789ABCDEFabcdef'')) (drop 2 str)
                else if 49 \<le> d \<and> d \<le> 55 then list_all (\<lambda>x. x \<in> set (text_of ''01234567'')) (drop 1 str)
                else False)
         else False)"

text \<open>The digits of \<open>_itoa\<close> are written from the last one.\<close>

fun digit_loop :: "nat \<Rightarrow> bytes \<Rightarrow> bytes" where
  "digit_loop value res =
    (let res = (word_of_nat (value mod 10) + 48) # res
     in if value div 10 = 0 then res else digit_loop (value div 10) res)"

declare digit_loop.simps [simp del]

text \<open>The smallest number has no positive counterpart: its negation is undefined.\<close>

definition itoa :: "int \<Rightarrow> exn + bytes" where
  "itoa val =
    (if val = - 9223372036854775808 then Inl (Undef ''negation of LONG_MIN'')
     else if val < 0 then Inr (45 # digit_loop (nat (- val)) [])
     else Inr (digit_loop (nat val) []))"

section \<open>Escapes come back\<close>

lemma less_16_cases: "d < 16 \<Longrightarrow> d \<in> {0, 1, 2, 3, 4, 5, 6, 7, 8, 9, 10, 11, 12, 13, 14, 15 :: byte}"
proof -
  assume "d < 16"
  then have "unat d < 16" by (simp add: word_less_nat_alt)
  then have "unat d \<in> set [0..<16]" by simp
  then have "word_of_nat (unat d) \<in> (word_of_nat :: nat \<Rightarrow> byte) ` set [0..<16]" by blast
  then show ?thesis by (simp add: upt_rec)
qed

lemma hex_value_upper: "d < 16 \<Longrightarrow> hex_value (hex_upper d) = d"
  by (drule less_16_cases) (auto simp: hex_value_def hex_upper_def Let_def)

lemma nibbles: "drop_bit 4 (c :: byte) < 16" "and c 15 < 16" "or (push_bit 4 (drop_bit 4 c)) (and c 15) = c"
proof -
  have m: "(15 :: byte) = mask 4" by (simp add: mask_eq_exp_minus_1)
  have u: "unat c < 256" using unsigned_less [of c] by simp
  show "drop_bit 4 c < 16" using u by (simp add: word_less_nat_alt drop_bit_eq_div unat_div)
  have "unat (and c 15) = unat c mod 16"
    unfolding m by (simp flip: take_bit_eq_mask add: unsigned_take_bit_eq) (simp add: take_bit_eq_mod)
  then show "and c 15 < 16" by (simp add: word_less_nat_alt)
  show "or (push_bit 4 (drop_bit 4 c)) (and c 15) = c"
    unfolding m by (rule bit_eqI) (auto simp: bit_simps)
qed

lemma Hex_toUTF8: "Hex (hex_upper (drop_bit 4 c)) (hex_upper (and c 15)) = c"
  by (simp add: Hex_def hex_value_upper nibbles)

definition plain_char :: "byte \<Rightarrow> bool" where
  "plain_char c \<longleftrightarrow> 32 \<le> c \<and> c \<le> 126 \<and> c \<noteq> Quote \<and> c \<noteq> Backslash"

lemma hex_upper_plain: "d < 16 \<Longrightarrow> plain_char (hex_upper d)"
  by (drule less_16_cases) (auto simp: plain_char_def hex_upper_def Let_def)


text \<open>What \<open>RemoveWhiteSpace\<close> makes of an escaped character.\<close>

definition stripped_char :: "byte \<Rightarrow> bytes" where
  "stripped_char c = (if c = Quote then [Backslash, AsciiOne] else escape_char c)"

lemma put_text_put [simp]: "put_text a u (put_text b v r) = put_text (a @ b) (u \<or> v) r"
  by (cases r) (auto simp: split_paired_all)

lemma plain_scan: "list_all plain_char s \<Longrightarrow> ws_quote esc (s @ t) = put_text s False (ws_quote esc t)"
proof (induction s)
  case Nil
  then show ?case by (cases "ws_quote esc t") auto
qed (auto simp: plain_char_def)

lemma ws_quote_escape:
  "c \<noteq> 0 \<Longrightarrow> ws_quote True (escape_char c @ t) = put_text (stripped_char c) (c = Quote) (ws_quote True t)"
  using hex_upper_plain [OF nibbles(1) [of c]] hex_upper_plain [OF nibbles(2) [of c]]
  by (auto simp: escape_char_def stripped_char_def toUTF8_def plain_char_def)

lemma ws_quote_escapes:
  "0 \<notin> set s \<Longrightarrow> ws_quote True (concat (map escape_char s) @ t)
    = put_text (concat (map stripped_char s)) (Quote \<in> set s) (ws_quote True t)"
proof (induction s)
  case Nil
  then show ?case by (cases "ws_quote True t") auto
qed (auto simp: ws_quote_escape)

lemma fix_loop_stripped:
  "c \<noteq> 0 \<Longrightarrow> fix_loop (stripped_char c @ t)
    = (case fix_loop t of Inl e \<Rightarrow> Inl e | Inr (r, f) \<Rightarrow> Inr (c # r, f \<or> length (stripped_char c) > 1))"
  using Hex_toUTF8 [of c]
  by (auto simp: stripped_char_def escape_char_def toUTF8_def split: sum.splits)

lemma fix_loop_escapes: "0 \<notin> set s \<Longrightarrow> \<exists>f. fix_loop (concat (map stripped_char s)) = Inr (s, f)"
  by (induction s) (auto simp: fix_loop_stripped)

end
