(* ===== verification/JsonNode.thy ===== *)
theory JsonNode
  imports JsonText
begin

text \<open>
  libjson's nodes: \<^verbatim>\<open>internalJSONNode.cpp\<close>, \<^verbatim>\<open>JSONWorker.cpp\<close>, \<^verbatim>\<open>JSONWriter.cpp\<close> and the part
  of \<^verbatim>\<open>JSONNode.h\<close> in front of them. A node read from text keeps its text until its value is
  asked for: \<open>Fetch\<close> then splits it into children, which keep theirs. \<open>JSONNode\<close> shares its
  internal node by a reference count and copies it before it is changed, so that it is a
  value here. A number is the text \<open>atof\<close> reads it from; the global \<open>used_ascii_one\<close> is an
  argument of the writer.
\<close>

datatype json_type = JSON_NULL | JSON_STRING | JSON_NUMBER | JSON_BOOL | JSON_ARRAY | JSON_NODE

record json_data =
  jd_type :: json_type
  jd_name :: bytes
  jd_name_encoded :: bool
  jd_string :: bytes
  jd_string_encoded :: bool
  jd_bool :: bool
  jd_number :: "bytes option"
  jd_fetched :: bool
  jd_comment :: bytes

datatype jnode = JNode (jn_data: json_data) (jn_children: "jnode list")

abbreviation "jn_type n \<equiv> jd_type (jn_data n)"

definition on_data :: "(json_data \<Rightarrow> json_data) \<Rightarrow> jnode \<Rightarrow> jnode" where
  "on_data f n = JNode (f (jn_data n)) (jn_children n)"

lemma on_data_simps [simp]:
  "jn_data (on_data f n) = f (jn_data n)" "jn_children (on_data f n) = jn_children n"
  by (simp_all add: on_data_def)

definition isContainer :: "jnode \<Rightarrow> bool" where
  "isContainer n \<longleftrightarrow> jn_type n = JSON_NODE \<or> jn_type n = JSON_ARRAY"

definition newInternal :: "json_type \<Rightarrow> jnode" where
  "newInternal mytype = JNode \<lparr>jd_type = mytype, jd_name = [], jd_name_encoded = False, jd_string = [],
     jd_string_encoded = False, jd_bool = False, jd_number = None, jd_fetched = True, jd_comment = []\<rparr> []"

definition nullified :: "json_data \<Rightarrow> json_data" where
  "nullified d = d\<lparr>jd_type := JSON_NULL, jd_string := text_of ''null'', jd_fetched := True\<rparr>"

definition Nullify :: "jnode \<Rightarrow> jnode" where
  "Nullify n = on_data nullified n"

section \<open>Nodes from text\<close>

text \<open>The root can only be an array or a node.\<close>

definition newInternal_root :: "bytes \<Rightarrow> jnode" where
  "newInternal_root unparsed =
    (let d = (jn_data (newInternal JSON_NULL))\<lparr>jd_string := unparsed, jd_fetched := False\<rparr> in
     case unparsed of
       [] \<Rightarrow> JNode (nullified d) []
     | c # _ \<Rightarrow>
         if c = LBrace then JNode (d\<lparr>jd_type := JSON_NODE\<rparr>) []
         else if c = LBracket then JNode (d\<lparr>jd_type := JSON_ARRAY\<rparr>) []
         else JNode (nullified d) [])"

text \<open>The type of a value that is not empty, from its first character.\<close>

definition value_data :: "bytes \<Rightarrow> json_data \<Rightarrow> json_data" where
  "value_data value d =
    (let d = d\<lparr>jd_string := value\<rparr>; firstchar = hd value; lastchar = last value in
     if firstchar = Quote then
       (if lastchar \<noteq> Quote then nullified d else d\<lparr>jd_type := JSON_STRING, jd_fetched := False\<rparr>)
     else if firstchar = LBrace then
       (if lastchar \<noteq> RBrace then nullified d else d\<lparr>jd_type := JSON_NODE, jd_fetched := False\<rparr>)
     else if firstchar = LBracket then
       (if lastchar \<noteq> RBracket then nullified d else d\<lparr>jd_type := JSON_ARRAY, jd_fetched := False\<rparr>)
     else if firstchar = 116 \<or> firstchar = 84 then
       (if value \<noteq> text_of ''true'' then nullified d
        else d\<lparr>jd_bool := True, jd_type := JSON_BOOL, jd_fetched := True\<rparr>)
     else if firstchar = 102 \<or> firstchar = 70 then
       (if value \<noteq> text_of ''false'' then nullified d
        else d\<lparr>jd_bool := False, jd_type := JSON_BOOL, jd_fetched := True\<rparr>)
     else if firstchar = 110 \<or> firstchar = 78 then
       (if value \<noteq> text_of ''null'' then nullified d
        else d\<lparr>jd_type := JSON_NULL, jd_fetched := True\<rparr>)
     else if \<not> isNumeric value then nullified d
     else d\<lparr>jd_type := JSON_NUMBER, jd_fetched := False\<rparr>)"

definition newInternal_value :: "bytes \<Rightarrow> bytes \<Rightarrow> exn + jnode" where
  "newInternal_value name value =
    (case FixString name of
       Inl e \<Rightarrow> Inl e
     | Inr (nm, enc) \<Rightarrow>
         (let d = (jn_data (newInternal JSON_NULL))\<lparr>jd_name := nm, jd_name_encoded := enc, jd_fetched := False\<rparr> in
          if value = [] then Inr (JNode (d\<lparr>jd_type := JSON_NULL, jd_fetched := True\<rparr>) [])
          else Inr (JNode (value_data value d) [])))"

text \<open>
  \<open>NewNode\<close>: the comments in front of the name of a member, or of an element of an array, are
  between marks; without a closing mark the text is read behind its end.
\<close>

fun comment_loop :: "bytes \<Rightarrow> exn + bytes \<times> bytes" where
  "comment_loop [] = Inl (Undef ''read behind the text'')"
| "comment_loop (c # s) =
    (if c = CommentMark then
       (case s of
          [] \<Rightarrow> Inr ([], s)
        | d # s' \<Rightarrow>
            if d = CommentMark then map_sum id (\<lambda>(k, r). (Newline # k, r)) (comment_loop s')
            else Inr ([], s))
     else map_sum id (\<lambda>(k, r). (c # k, r)) (comment_loop s))"

definition strip_comment :: "bytes \<Rightarrow> exn + bytes \<times> bytes" where
  "strip_comment runner =
    (case runner of [] \<Rightarrow> Inr ([], []) | c # s \<Rightarrow> if c = CommentMark then comment_loop s else Inr ([], runner))"

definition NewNode :: "jnode \<Rightarrow> bytes \<Rightarrow> bytes \<Rightarrow> bool \<Rightarrow> exn + jnode" where
  "NewNode parent name value array =
    (case strip_comment (c_text (if array then value else name)) of
       Inl e \<Rightarrow> Inl e
     | Inr (comment, runner) \<Rightarrow>
         (case (if array then newInternal_value name runner
                else if runner = [] then Inl (Undef ''read behind the text'')
                else newInternal_value (tl runner) value) of
            Inl e \<Rightarrow> Inl e
          | Inr child \<Rightarrow>
              Inr (JNode (jn_data parent) (jn_children parent @ [on_data (jd_comment_update (\<lambda>_. comment)) child]))))"

section \<open>Splitting a container\<close>

lemma FindNextRelevant_bounds:
  "FindNextRelevant ch value pos = Some e \<Longrightarrow> pos \<le> e \<and> e < length value"
  using find_next_length [of ch "drop pos value"]
  by (fastforce simp: FindNextRelevant_def split: option.splits)

function array_loop :: "bytes \<Rightarrow> nat \<Rightarrow> jnode \<Rightarrow> exn + jnode" where
  "array_loop value starting parent =
    (case FindNextRelevant Comma value starting of
       None \<Rightarrow>
         (let newValue = slice starting (length value - 1) value in
          if FindNextRelevant Colon newValue 0 \<noteq> None then Inr (Nullify parent)
          else NewNode parent [] newValue True)
     | Some ending \<Rightarrow>
         (let newValue = slice starting ending value in
          if FindNextRelevant Colon newValue 0 \<noteq> None then Inr (Nullify parent)
          else
            (case NewNode parent [] newValue True of
               Inl e \<Rightarrow> Inl e
             | Inr parent \<Rightarrow> array_loop value (ending + 1) parent)))"
  by pat_completeness auto
termination
  by (relation "measure (\<lambda>(value, starting, parent). length value - starting)")
    (auto dest!: FindNextRelevant_bounds)

definition DoArray :: "jnode \<Rightarrow> bytes \<Rightarrow> exn + jnode" where
  "DoArray parent value =
    (if hd value \<noteq> LBracket then Inr (Nullify parent)
     else if length value \<le> 2 then Inr parent
     else array_loop value 1 parent)"

text \<open>A name ends in front of its closing quote; a range with its end before its start is undefined.\<close>

definition member_name :: "bytes \<Rightarrow> nat \<Rightarrow> nat \<Rightarrow> exn + bytes" where
  "member_name value name_starting name_ending =
    (if name_ending \<le> name_starting then Inl (Undef ''range of a negative length'')
     else Inr (slice name_starting (name_ending - 1) value))"

function node_loop :: "bytes \<Rightarrow> bytes \<Rightarrow> nat \<Rightarrow> jnode \<Rightarrow> exn + jnode" where
  "node_loop value name name_ending parent =
    (case FindNextRelevant Comma value name_ending of
       None \<Rightarrow> NewNode parent name (slice (name_ending + 1) (length value - 1) value) False
     | Some value_ending \<Rightarrow>
         (case NewNode parent name (slice (name_ending + 1) value_ending value) False of
            Inl e \<Rightarrow> Inl e
          | Inr parent \<Rightarrow>
              (case FindNextRelevant Colon value (value_ending + 1) of
                 None \<Rightarrow> Inr (Nullify parent)
               | Some name_ending \<Rightarrow>
                   (case member_name value (value_ending + 1) name_ending of
                      Inl e \<Rightarrow> Inl e
                    | Inr name \<Rightarrow> node_loop value name name_ending parent))))"
  by pat_completeness auto
termination
  by (relation "measure (\<lambda>(value, name, name_ending, parent). length value - name_ending)")
    (auto dest!: FindNextRelevant_bounds)

declare array_loop.simps [simp del] node_loop.simps [simp del]

definition DoNode :: "jnode \<Rightarrow> bytes \<Rightarrow> exn + jnode" where
  "DoNode parent value =
    (if hd value \<noteq> LBrace then Inr (Nullify parent)
     else if length value \<le> 2 then Inr parent
     else
       (case FindNextRelevant Colon value 1 of
          None \<Rightarrow> Inr (Nullify parent)
        | Some name_ending \<Rightarrow>
            (case member_name value 1 name_ending of
               Inl e \<Rightarrow> Inl e
             | Inr name \<Rightarrow> node_loop value name name_ending parent)))"

section \<open>Fetching\<close>

definition FetchString :: "jnode \<Rightarrow> exn + jnode" where
  "FetchString n =
    (let s = jd_string (jn_data n) in
     if s = [] \<or> hd s \<noteq> Quote \<or> last s \<noteq> Quote then Inr (Nullify n)
     else if length s = 1 then Inl (Undef ''range of a negative length'')
     else
       (case FixString (slice 1 (length s - 1) s) of
          Inl e \<Rightarrow> Inl e
        | Inr (t, enc) \<Rightarrow> Inr (on_data (\<lambda>d. d\<lparr>jd_string := t, jd_string_encoded := enc\<rparr>) n)))"

definition clear_text :: "exn + jnode \<Rightarrow> exn + jnode" where
  "clear_text r = map_sum id (on_data (\<lambda>d. d\<lparr>jd_string := []\<rparr>)) r"

definition FetchNode :: "jnode \<Rightarrow> exn + jnode" where
  "FetchNode n =
    (let s = jd_string (jn_data n) in
     if s = [] \<or> hd s \<noteq> LBrace \<or> last s \<noteq> RBrace then Inr (Nullify n)
     else clear_text (DoNode n s))"

definition FetchArray :: "jnode \<Rightarrow> exn + jnode" where
  "FetchArray n =
    (let s = jd_string (jn_data n) in
     if s = [] \<or> hd s \<noteq> LBracket \<or> last s \<noteq> RBracket then Inr (Nullify n)
     else clear_text (DoArray n s))"

definition FetchNumber :: "jnode \<Rightarrow> jnode" where
  "FetchNumber n = on_data (\<lambda>d. d\<lparr>jd_number := Some (c_text (jd_string d))\<rparr>) n"

definition Fetch :: "jnode \<Rightarrow> exn + jnode" where
  "Fetch n =
    (if jd_fetched (jn_data n) then Inr n
     else map_sum id (on_data (\<lambda>d. d\<lparr>jd_fetched := True\<rparr>))
       (case jn_type n of
          JSON_STRING \<Rightarrow> FetchString n
        | JSON_NODE \<Rightarrow> FetchNode n
        | JSON_ARRAY \<Rightarrow> FetchArray n
        | JSON_NUMBER \<Rightarrow> Inr (FetchNumber n)
        | _ \<Rightarrow> Inr (Nullify n)))"

text \<open>
  Fetching ends: the text of the children is shorter than that of the node. An unfetched node
  weighs twice its text, so that a node weighs more than its children together.
\<close>

fun weight :: "jnode \<Rightarrow> nat" where
  "weight (JNode d cs) = 1 + (if jd_fetched d then 0 else 2 * length (jd_string d)) + sum_list (map weight cs)"

abbreviation "weights cs \<equiv> sum_list (map weight cs)"

lemma weight_pos: "0 < weight n"
  by (cases n) simp

lemma weight_node: "weight n = 1 + (if jd_fetched (jn_data n) then 0 else 2 * length (jd_string (jn_data n))) + weights (jn_children n)"
  by (cases n) simp

lemma children_Nullify [simp]: "jn_children (Nullify n) = jn_children n"
  by (simp add: Nullify_def)

lemma comment_loop_length: "comment_loop s = Inr (k, r) \<Longrightarrow> length r \<le> length s"
  by (induction s arbitrary: k r rule: comment_loop.induct) (fastforce split: if_splits list.splits sum.splits simp: map_sum_def)+

lemma strip_comment_length: "strip_comment s = Inr (k, r) \<Longrightarrow> length r \<le> length s"
  by (auto simp: strip_comment_def dest!: comment_loop_length split: list.splits if_splits)

lemma length_c_text: "length (c_text s) \<le> length s"
  by (induction s) auto

lemma value_data_text: "jd_fetched (value_data v d) \<or> jd_string (value_data v d) = v"
  unfolding value_data_def Let_def
  by (intro if_case [where P = "\<lambda>d. jd_fetched d \<or> jd_string d = v"]) (simp_all add: nullified_def)

lemma value_data_weight: "weight (JNode (value_data v d) []) \<le> 1 + 2 * length v"
  using value_data_text [of v d] by auto

lemma newInternal_weight: "newInternal_value name v = Inr n \<Longrightarrow> weight n \<le> 1 + 2 * length v"
  using value_data_weight
  by (auto simp: newInternal_value_def Let_def split: sum.splits if_splits simp del: weight.simps) simp

lemma NewNode_weight:
  assumes "NewNode parent name v array = Inr p"
  shows "weights (jn_children p) \<le> weights (jn_children parent) + 1 + 2 * length v"
proof -
  obtain k r child where c: "strip_comment (c_text (if array then v else name)) = Inr (k, r)"
    "newInternal_value (if array then name else tl r) (if array then r else v) = Inr child"
    "p = JNode (jn_data parent) (jn_children parent @ [on_data (jd_comment_update (\<lambda>_. k)) child])"
    using assms by (auto simp: NewNode_def split: sum.splits prod.splits if_splits)
  have "length (if array then r else v) \<le> length v"
    using strip_comment_length [OF c(1)] length_c_text [of v] by auto
  then have "weight child \<le> 1 + 2 * length v" using newInternal_weight [OF c(2)] by linarith
  moreover have "weight (on_data (jd_comment_update (\<lambda>_. k)) child) = weight child"
    by (simp add: weight_node [of child]) (simp add: weight_node)
  ultimately show ?thesis by (simp add: c(3))
qed

lemma length_slice: "length (slice a b s) \<le> b - a"
  by (simp add: slice_def)

lemma array_loop_weight:
  "array_loop v starting parent = Inr p \<Longrightarrow> starting < length v \<Longrightarrow>
    weights (jn_children p) \<le> weights (jn_children parent) + 2 * (length v - starting)"
proof (induction v starting parent rule: array_loop.induct)
  case (1 v starting parent)
  show ?case
  proof (cases "FindNextRelevant Comma v starting")
    case None
    let ?w = "slice starting (length v - 1) v"
    have "length ?w < length v - starting" using length_slice [of starting "length v - 1" v] 1(3) by linarith
    then show ?thesis using 1(2) None NewNode_weight [of parent "[]" ?w True p]
      by (auto simp: array_loop.simps [of v starting] Let_def split: if_splits)
  next
    case (Some ending)
    let ?w = "slice starting ending v"
    note b = FindNextRelevant_bounds [OF Some]
    have len: "length ?w \<le> ending - starting" by (rule length_slice)
    show ?thesis
    proof (cases "FindNextRelevant Colon ?w 0")
      case None
      then obtain q where q: "NewNode parent [] ?w True = Inr q" "array_loop v (ending + 1) q = Inr p"
        using 1(2) Some by (auto simp: array_loop.simps [of v starting] Let_def split: sum.splits)
      have w: "weights (jn_children q) \<le> weights (jn_children parent) + 1 + 2 * length ?w"
        by (rule NewNode_weight [OF q(1)])
      show ?thesis
      proof (cases "ending + 1 < length v")
        case True
        then show ?thesis using "1.IH" [OF Some refl _ q(1,2)] None w len b by auto
      next
        case False
        then have l: "length v = ending + 1" using b by simp
        then have e: "FindNextRelevant Comma v (ending + 1) = None" by (simp add: FindNextRelevant_def)
        have v: "slice (ending + 1) (length v - 1) v = []" by (simp add: slice_def l)
        have "FindNextRelevant Colon [] 0 = None" by (simp add: FindNextRelevant_def)
        then have "NewNode q [] [] True = Inr p"
          using q(2) e v by (simp add: array_loop.simps [of v "Suc ending"])
        from NewNode_weight [OF this] show ?thesis using w len b l by simp
      qed
    next
      case (Some x)
      then show ?thesis using 1(2) \<open>FindNextRelevant Comma v starting = Some ending\<close>
        by (auto simp: array_loop.simps [of v starting] Let_def)
    qed
  qed
qed

lemma node_loop_weight:
  "node_loop v name name_ending parent = Inr p \<Longrightarrow> name_ending < length v \<Longrightarrow>
    weights (jn_children p) \<le> weights (jn_children parent) + 2 * (length v - name_ending)"
proof (induction v name name_ending parent rule: node_loop.induct)
  case (1 v name name_ending parent)
  show ?case
  proof (cases "FindNextRelevant Comma v name_ending")
    case None
    let ?w = "slice (name_ending + 1) (length v - 1) v"
    have "length ?w \<le> length v - 1 - (name_ending + 1)" by (rule length_slice)
    moreover have "NewNode parent name ?w False = Inr p"
      using 1(2) None by (simp add: node_loop.simps [of v name name_ending])
    ultimately show ?thesis using NewNode_weight 1(3) by fastforce
  next
    case (Some ve)
    let ?w = "slice (name_ending + 1) ve v"
    have b: "name_ending \<le> ve" "ve < length v" using FindNextRelevant_bounds [OF Some] by auto
    have len: "length ?w \<le> ve - (name_ending + 1)" by (rule length_slice)
    obtain q where q: "NewNode parent name ?w False = Inr q"
      using 1(2) Some by (auto simp: node_loop.simps [of v name name_ending] split: sum.splits)
    have w: "weights (jn_children q) \<le> weights (jn_children parent) + 1 + 2 * length ?w"
      by (rule NewNode_weight [OF q])
    show ?thesis
    proof (cases "FindNextRelevant Colon v (ve + 1)")
      case None
      then have "p = Nullify q"
        using 1(2) Some q by (auto simp: node_loop.simps [of v name name_ending])
      then show ?thesis using w len b by (cases "ve = name_ending") auto
    next
      case ne: (Some ne)
      note b2 = FindNextRelevant_bounds [OF ne]
      obtain name' where n: "member_name v (ve + 1) ne = Inr name'" "node_loop v name' ne q = Inr p"
        using 1(2) Some q ne by (auto simp: node_loop.simps [of v name name_ending] split: sum.splits)
      show ?thesis using "1.IH" [OF Some q ne n(1) n(2)] b2 w len b by (cases "ve = name_ending") auto
    qed
  qed
qed

lemma children_clear_text: "clear_text r = Inr n \<Longrightarrow> \<exists>m. r = Inr m \<and> jn_children n = jn_children m"
  by (cases r) (auto simp: clear_text_def)

lemma DoArray_weight:
  assumes "DoArray n s = Inr m" "s \<noteq> []"
  shows "weights (jn_children m) < weights (jn_children n) + 2 * length s"
proof (cases "hd s \<noteq> LBracket \<or> length s \<le> 2")
  case True
  then show ?thesis using assms by (auto simp: DoArray_def split: if_splits)
next
  case False
  then have "weights (jn_children m) \<le> weights (jn_children n) + 2 * (length s - 1)"
    using assms array_loop_weight [of s 1 n m] by (simp add: DoArray_def)
  then show ?thesis using False by linarith
qed

lemma DoNode_weight:
  assumes "DoNode n s = Inr m" "s \<noteq> []"
  shows "weights (jn_children m) < weights (jn_children n) + 2 * length s"
proof (cases "hd s \<noteq> LBrace \<or> length s \<le> 2 \<or> FindNextRelevant Colon s 1 = None")
  case True
  then show ?thesis using assms by (auto simp: DoNode_def split: if_splits)
next
  case False
  then obtain ne where ne: "FindNextRelevant Colon s 1 = Some ne" by auto
  then obtain name where "node_loop s name ne n = Inr m"
    using assms False by (auto simp: DoNode_def split: sum.splits)
  then have "weights (jn_children m) \<le> weights (jn_children n) + 2 * (length s - ne)"
    using node_loop_weight FindNextRelevant_bounds [OF ne] by blast
  then show ?thesis using FindNextRelevant_bounds [OF ne] by linarith
qed

lemma Fetch_weight:
  assumes "Fetch n = Inr m"
  shows "weights (jn_children m) < weight n"
proof (cases "jd_fetched (jn_data n)")
  case True
  then show ?thesis using assms weight_node [of m] by (simp add: Fetch_def)
next
  case False
  then obtain k where k: "jn_children m = jn_children k"
    "(case jn_type n of JSON_STRING \<Rightarrow> FetchString n | JSON_NODE \<Rightarrow> FetchNode n | JSON_ARRAY \<Rightarrow> FetchArray n
        | JSON_NUMBER \<Rightarrow> Inr (FetchNumber n) | _ \<Rightarrow> Inr (Nullify n)) = Inr k"
    using assms by (auto simp: Fetch_def map_sum_def split: sum.splits)
  have w: "weight n = 1 + 2 * length (jd_string (jn_data n)) + weights (jn_children n)"
    using False by (simp add: weight_node [of n])
  have a: "weights (jn_children m) < weight n"
    if "clear_text (f n (jd_string (jn_data n))) = Inr m" "jd_string (jn_data n) \<noteq> []"
      and "\<And>m. f n (jd_string (jn_data n)) = Inr m \<Longrightarrow>
        weights (jn_children m) < weights (jn_children n) + 2 * length (jd_string (jn_data n))" for f m
    using children_clear_text [OF that(1)] that(3) w by fastforce
  have same: "weights (jn_children k) < weight n" if "jn_children k = jn_children n"
    using that w by simp
  show ?thesis
  proof (cases "jn_type n")
    case JSON_STRING
    then show ?thesis using k same by (auto simp: FetchString_def Let_def split: if_splits sum.splits)
  next
    case JSON_NODE
    then show ?thesis using k same a [of DoNode k] DoNode_weight
      by (auto simp: FetchNode_def Let_def split: if_splits)
  next
    case JSON_ARRAY
    then show ?thesis using k same a [of DoArray k] DoArray_weight
      by (auto simp: FetchArray_def Let_def split: if_splits)
  qed (use k same in \<open>auto simp: FetchNumber_def\<close>)
qed

text \<open>\<open>preparse\<close> fetches a whole tree.\<close>

function (sequential) preparse :: "jnode \<Rightarrow> exn + jnode"
  and preparse_list :: "jnode list \<Rightarrow> exn + jnode list" where
  "preparse n =
    (case Fetch n of
       Inl e \<Rightarrow> Inl e
     | Inr m \<Rightarrow>
         if isContainer m then map_sum id (JNode (jn_data m)) (preparse_list (jn_children m)) else Inr m)"
| "preparse_list [] = Inr []"
| "preparse_list (c # cs) =
    (case preparse c of
       Inl e \<Rightarrow> Inl e
     | Inr c' \<Rightarrow> map_sum id ((#) c') (preparse_list cs))"
  by pat_completeness auto
termination
  by (relation "measure (case_sum (\<lambda>n. 2 * weight n) (\<lambda>cs. 2 * weights cs + 1))")
    (auto dest: Fetch_weight simp: weight_pos)

declare preparse.simps [simp del]

section \<open>Writing\<close>

text \<open>The indentation is \<open>None\<close> for \<open>0xFFFFFFFF\<close>, which stands for text without any.\<close>

definition makeIndent :: "nat \<Rightarrow> bytes" where
  "makeIndent amount = replicate amount Tab"

definition WriteName :: "bool \<Rightarrow> bool \<Rightarrow> json_data \<Rightarrow> bytes" where
  "WriteName formatted arrayChild d =
    (if arrayChild then []
     else [Quote] @ UnfixString (jd_name d) (jd_name_encoded d)
       @ (if formatted then [Quote, Blank, Colon, Blank] else [Quote, Colon]))"

text \<open>
  The loop of \<open>WriteComment\<close> over the lines of a comment: \<open>pos\<close> is where the next newline is,
  a return in front of it is left out.
\<close>

definition find_newline :: "bytes \<Rightarrow> nat \<Rightarrow> nat option" where
  "find_newline s pos = List.find (\<lambda>i. s ! i = Newline) [pos..<length s]"

function comment_lines :: "bytes \<Rightarrow> bytes \<Rightarrow> nat \<Rightarrow> bytes" where
  "comment_lines sep comment old =
    (case find_newline comment old of
       None \<Rightarrow> drop old comment
     | Some pos \<Rightarrow>
         (let cut = (if pos \<noteq> 0 \<and> comment ! (pos - 1) = Return then pos - 1 else pos) in
          slice old cut comment @ sep @ comment_lines sep comment (pos + 1)))"
  by pat_completeness auto
termination
  by (relation "measure (\<lambda>(sep, comment, old). length comment - old)")
    (auto simp: find_newline_def find_Some_iff)

definition WriteComment :: "nat option \<Rightarrow> bytes \<Rightarrow> bytes" where
  "WriteComment indent comment =
    (case indent of
       None \<Rightarrow> []
     | Some i \<Rightarrow>
         if comment = [] then []
         else
           (let current_indent = Newline # makeIndent i in
            if find_newline comment 0 = None
            then current_indent @ [Slash, Slash] @ comment @ current_indent
            else
              (let plus_one = Newline # makeIndent (i + 1) in
               current_indent @ [Slash, Star] @ plus_one @ comment_lines plus_one comment 0
                 @ current_indent @ [Star, Slash] @ current_indent)))"

text \<open>
  A node that is not fetched is written as the text it came from; \<open>used\<close> is whether any escaped
  quote has been read so far. Formatted text is written from fetched nodes, but a string and a
  number are not fetched for it.
\<close>

definition unmark :: "bool \<Rightarrow> bytes \<Rightarrow> bytes" where
  "unmark used s = (if used then map (\<lambda>c. if c = AsciiOne then Quote else c) s else s)"

function (sequential) write_node :: "bool \<Rightarrow> nat option \<Rightarrow> bool \<Rightarrow> jnode \<Rightarrow> exn + bytes"
  and write_list :: "bool \<Rightarrow> nat option \<Rightarrow> bool \<Rightarrow> jnode list \<Rightarrow> exn + bytes" where
  "write_node used indent arrayChild n =
    (let d = jn_data n;
         formatted = (indent \<noteq> None);
         front = WriteComment indent (jd_comment d) @ WriteName formatted arrayChild d
     in
     if \<not> (formatted \<or> jd_fetched d) then Inr (front @ unmark used (jd_string d))
     else
       (case jd_type d of
          JSON_NODE \<Rightarrow>
            (case Fetch n of
               Inl e \<Rightarrow> Inl e
             | Inr m \<Rightarrow>
                 map_sum id (\<lambda>cs. front @ [LBrace] @ cs @ [RBrace])
                   (if jn_children m = [] then Inr []
                    else map_sum id (\<lambda>cs. cs @ (case indent of None \<Rightarrow> [] | Some i \<Rightarrow> Newline # makeIndent i))
                           (write_list used (map_option Suc indent) (jn_type m = JSON_ARRAY) (jn_children m))))
        | JSON_ARRAY \<Rightarrow>
            (case Fetch n of
               Inl e \<Rightarrow> Inl e
             | Inr m \<Rightarrow>
                 map_sum id (\<lambda>cs. front @ [LBracket] @ cs @ [RBracket])
                   (if jn_children m = [] then Inr []
                    else map_sum id (\<lambda>cs. cs @ (case indent of None \<Rightarrow> [] | Some i \<Rightarrow> Newline # makeIndent i))
                           (write_list used (map_option Suc indent) (jn_type m = JSON_ARRAY) (jn_children m))))
        | JSON_STRING \<Rightarrow>
            Inr (front @ (if jd_fetched d then [Quote] @ UnfixString (jd_string d) (jd_string_encoded d) @ [Quote]
                          else jd_string d))
        | _ \<Rightarrow> Inr (front @ jd_string d)))"
| "write_list used indent arrayChild [] = Inr []"
| "write_list used indent arrayChild (c # cs) =
    (case write_node used indent arrayChild c of
       Inl e \<Rightarrow> Inl e
     | Inr s \<Rightarrow>
         map_sum id (\<lambda>r. (case indent of None \<Rightarrow> [] | Some i \<Rightarrow> Newline # makeIndent i) @ s
             @ (if cs \<noteq> [] then [Comma] else []) @ r)
           (write_list used indent arrayChild cs))"
  by pat_completeness auto
termination
  by (relation "measure (case_sum (\<lambda>(used, indent, arrayChild, n). 2 * weight n)
      (\<lambda>(used, indent, arrayChild, cs). 2 * weights cs + 1))")
    (auto dest: Fetch_weight simp: weight_pos)

declare write_node.simps [simp del] comment_lines.simps [simp del]

definition json_write :: "bool \<Rightarrow> jnode \<Rightarrow> exn + bytes" where
  "json_write used n = (if \<not> isContainer n then Inr [] else write_node used None True n)"

definition json_write_formatted :: "bool \<Rightarrow> jnode \<Rightarrow> exn + bytes" where
  "json_write_formatted used n = (if \<not> isContainer n then Inr [] else write_node used (Some 0) True n)"

section \<open>Parsing\<close>

text \<open>
  \<open>_parse_unformatted\<close>: when the last character does not fit the first the exception is thrown
  behind the \<open>switch\<close>.
\<close>

definition parse_stripped :: "bytes \<Rightarrow> byte \<Rightarrow> exn + jnode" where
  "parse_stripped json lastchar =
    (case strip_comment json of
       Inl e \<Rightarrow> Inl e
     | Inr (comment, runner) \<Rightarrow>
         if runner \<noteq> [] \<and> (hd runner = LBracket \<and> lastchar = RBracket \<or> hd runner = LBrace \<and> lastchar = RBrace)
         then Inr (on_data (jd_comment_update (\<lambda>_. comment)) (newInternal_root runner))
         else Inl StdInvalidArgument)"

definition json_parse :: "bytes \<Rightarrow> exn + jnode \<times> bool" where
  "json_parse json =
    (case RemoveWhiteSpace True json of
       Inl e \<Rightarrow> Inl e
     | Inr (s, lastchar, u) \<Rightarrow> map_sum id (\<lambda>n. (n, u)) (parse_stripped (c_text s) lastchar))"

definition parse_unformatted :: "bytes \<Rightarrow> exn + jnode" where
  "parse_unformatted json =
    (if json = [] \<or> hd json \<noteq> LBrace \<and> hd json \<noteq> LBracket then Inl StdInvalidArgument
     else parse_stripped (c_text json) (if hd json = LBrace then RBrace else RBracket))"

section \<open>Building nodes\<close>

definition Set_string :: "bytes \<Rightarrow> jnode \<Rightarrow> jnode" where
  "Set_string val = on_data (\<lambda>d. d\<lparr>jd_type := JSON_STRING, jd_string := val, jd_string_encoded := True,
     jd_fetched := True\<rparr>)"

definition Set_int :: "int \<Rightarrow> jnode \<Rightarrow> exn + jnode" where
  "Set_int val n =
    (case itoa val of
       Inl e \<Rightarrow> Inl e
     | Inr s \<Rightarrow> Inr (on_data (\<lambda>d. d\<lparr>jd_type := JSON_NUMBER, jd_number := Some s, jd_string := s,
                   jd_fetched := True\<rparr>) n))"

definition Set_bool :: "bool \<Rightarrow> jnode \<Rightarrow> jnode" where
  "Set_bool val = on_data (\<lambda>d. d\<lparr>jd_type := JSON_BOOL, jd_bool := val,
     jd_string := text_of (if val then ''true'' else ''false''), jd_fetched := True\<rparr>)"

definition setname :: "bytes \<Rightarrow> jnode \<Rightarrow> jnode" where
  "setname newname = on_data (\<lambda>d. d\<lparr>jd_name := newname, jd_name_encoded := True\<rparr>)"

text \<open>The children of a node that is not fetched are not there yet when one is added.\<close>

definition json_push_back :: "jnode \<Rightarrow> jnode \<Rightarrow> jnode" where
  "json_push_back child n = (if \<not> isContainer n then n else JNode (jn_data n) (jn_children n @ [child]))"

definition json_push_front :: "jnode \<Rightarrow> jnode \<Rightarrow> jnode" where
  "json_push_front child n = (if \<not> isContainer n then n else JNode (jn_data n) (child # jn_children n))"

section \<open>Reading nodes\<close>

text \<open>These fetch the node they are asked about: the result is with the node as it is then.\<close>

definition json_size :: "jnode \<Rightarrow> exn + nat \<times> jnode" where
  "json_size n = (if \<not> isContainer n then Inr (0, n)
     else map_sum id (\<lambda>m. (length (jn_children m), m)) (Fetch n))"

definition json_empty :: "jnode \<Rightarrow> exn + bool \<times> jnode" where
  "json_empty n = (if \<not> isContainer n then Inr (True, n)
     else map_sum id (\<lambda>m. (jn_children m = [], m)) (Fetch n))"

definition json_clear :: "jnode \<Rightarrow> exn + jnode" where
  "json_clear n =
    (case json_empty n of
       Inl e \<Rightarrow> Inl e
     | Inr (e, m) \<Rightarrow> Inr (if e then m else JNode (jn_data m) []))"

definition json_as_string :: "jnode \<Rightarrow> exn + bytes \<times> jnode" where
  "json_as_string n = map_sum id (\<lambda>m. (jd_string (jn_data m), m)) (Fetch n)"

text \<open>\<open>at\<close> with a position throws outside of the children; with a name it finds the first one.\<close>

definition json_at :: "nat \<Rightarrow> jnode \<Rightarrow> exn + jnode \<times> jnode" where
  "json_at pos n =
    (case json_size n of
       Inl e \<Rightarrow> Inl e
     | Inr (k, m) \<Rightarrow> if k \<le> pos then Inl StdOutOfRange else Inr (jn_children m ! pos, m))"

definition child_of_name :: "bytes \<Rightarrow> jnode \<Rightarrow> nat option" where
  "child_of_name name m = List.find (\<lambda>i. jd_name (jn_data (jn_children m ! i)) = name) [0..<length (jn_children m)]"

definition json_at_name :: "bytes \<Rightarrow> jnode \<Rightarrow> exn + jnode \<times> jnode" where
  "json_at_name name n =
    (if \<not> isContainer n then Inl StdOutOfRange
     else
       (case Fetch n of
          Inl e \<Rightarrow> Inl e
        | Inr m \<Rightarrow>
            (case child_of_name name m of
               None \<Rightarrow> Inl StdOutOfRange
             | Some i \<Rightarrow> Inr (jn_children m ! i, m))))"

definition json_pop_back :: "nat \<Rightarrow> jnode \<Rightarrow> exn + jnode \<times> jnode" where
  "json_pop_back pos n =
    (case json_size n of
       Inl e \<Rightarrow> Inl e
     | Inr (k, m) \<Rightarrow>
         if k \<le> pos then Inl StdOutOfRange
         else Inr (jn_children m ! pos, JNode (jn_data m) (take pos (jn_children m) @ drop (pos + 1) (jn_children m))))"

definition json_pop_back_name :: "bytes \<Rightarrow> jnode \<Rightarrow> exn + jnode \<times> jnode" where
  "json_pop_back_name name n =
    (if \<not> isContainer n then Inl StdOutOfRange
     else
       (case Fetch n of
          Inl e \<Rightarrow> Inl e
        | Inr m \<Rightarrow>
            (case child_of_name name m of
               None \<Rightarrow> Inl StdOutOfRange
             | Some i \<Rightarrow>
                 Inr (jn_children m ! i, JNode (jn_data m) (take i (jn_children m) @ drop (i + 1) (jn_children m))))))"

end
