(* ===== verification/JsonValidator.thy ===== *)
theory JsonValidator
  imports JsonText
begin

text \<open>
  \<^verbatim>\<open>JSONValidator.cpp\<close>: whether a text without white space is a JSON document. The functions
  move a pointer along the text; it is the text from there on, and \<open>None\<close> when it is behind the
  final NUL, where reading is undefined. They answer whether the part is valid, with the pointer
  as they leave it. Nesting is limited to 128.
\<close>

type_synonym verdict = "bool \<times> bytes option"

definition JSON_SECURITY_MAX_NEST_LEVEL :: nat where "JSON_SECURITY_MAX_NEST_LEVEL = 128"

definition isHex :: "byte \<Rightarrow> bool" where
  "isHex c \<longleftrightarrow> 48 \<le> c \<and> c \<le> 57 \<or> 65 \<le> c \<and> c \<le> 70 \<or> 97 \<le> c \<and> c \<le> 102"

definition isOctal :: "byte \<Rightarrow> bool" where
  "isOctal c \<longleftrightarrow> 48 \<le> c \<and> c \<le> 55"

definition is_sign :: "byte \<Rightarrow> bool" where
  "is_sign c \<longleftrightarrow> c = 45 \<or> c = 43"

definition is_exp :: "byte \<Rightarrow> bool" where
  "is_exp c \<longleftrightarrow> c = 101 \<or> c = 69"

section \<open>Numbers, words and strings\<close>

text \<open>The digits behind the first character of a number.\<close>

fun number_digits :: "bool \<Rightarrow> bool \<Rightarrow> bytes \<Rightarrow> bool \<times> bytes" where
  "number_digits decimal scientific [] = (True, [])"
| "number_digits decimal scientific (c # s) =
    (if c = 46 then (if decimal \<or> scientific then (False, c # s) else number_digits True scientific s)
     else if is_exp c then
       (if scientific then (False, c # s)
        else (case s of
          [] \<Rightarrow> (False, [])
        | d # s' \<Rightarrow> if is_sign d \<or> is_digit d then number_digits decimal True s' else (False, s)))
     else if is_digit c then number_digits decimal scientific s
     else (True, c # s))"

text \<open>A number that starts with a zero, from behind it.\<close>

definition zero_case :: "bytes \<Rightarrow> bool \<times> bytes" where
  "zero_case s =
    (case s of
       [] \<Rightarrow> (True, [])
     | d # s' \<Rightarrow>
         if d = 46 then number_digits True False s'
         else if is_exp d then
           (case s' of
              [] \<Rightarrow> (False, [])
            | e # s'' \<Rightarrow> if is_sign e \<or> is_digit e then number_digits False True s'' else (False, s'))
         else if d = 120 then (True, dropWhile isHex s')
         else if is_digit d then number_digits False False s'
         else (True, s))"

definition isValidNumber :: "bytes \<Rightarrow> bool \<times> bytes" where
  "isValidNumber s =
    (case s of
       [] \<Rightarrow> (False, [])
     | c # s' \<Rightarrow>
         if c = 46 then number_digits True False s'
         else if c = 48 then zero_case s'
         else if is_sign c \<or> is_digit c then number_digits False False s'
         else (False, s))"

text \<open>The characters behind the one the pointer is on; it is left on the last of them, or on the first that does not fit.\<close>

fun expects :: "(byte \<Rightarrow> bool) list \<Rightarrow> bytes \<Rightarrow> bool \<times> bytes" where
  "expects [] s = (True, s)"
| "expects (p # ps) s =
    (case tl s of
       [] \<Rightarrow> (False, [])
     | d # s' \<Rightarrow> if p d then expects ps (d # s') else (False, d # s'))"

definition either :: "byte \<Rightarrow> byte \<Rightarrow> byte \<Rightarrow> bool" where
  "either x y c \<longleftrightarrow> c = x \<or> c = y"

definition word_case :: "(byte \<Rightarrow> bool) list \<Rightarrow> bytes \<Rightarrow> bool \<times> bytes" where
  "word_case ps s = (case expects ps s of (False, r) \<Rightarrow> (False, r) | (True, r) \<Rightarrow> (True, tl r))"

text \<open>What has to follow the character behind a backslash.\<close>

definition escape_case :: "byte \<Rightarrow> (byte \<Rightarrow> bool) list option" where
  "escape_case d =
    (if d \<in> {Quote, Backslash, Slash, 98, 102, 110, 114, 116} then Some []
     else if d = 117 then Some [isHex, isHex, isHex, isHex]
     else if d = 120 then Some [isHex, isHex]
     else if isOctal d then Some [isOctal, isOctal]
     else None)"

lemma expects_length: "length (snd (expects ps s)) \<le> length s"
proof (induction ps s rule: expects.induct)
  case (2 p ps s)
  show ?case
  proof (cases "tl s")
    case (Cons d s')
    then have "length (d # s') \<le> length s" by (metis length_tl diff_le_self)
    then show ?thesis using 2 Cons by fastforce
  qed simp
qed simp

function isValidString :: "bytes \<Rightarrow> bool \<times> bytes" where
  "isValidString s =
    (case s of
       [] \<Rightarrow> (False, [])
     | c # s' \<Rightarrow>
         if c = Backslash then
           (case s' of
              [] \<Rightarrow> (False, [])
            | d # _ \<Rightarrow>
                (case escape_case d of
                   None \<Rightarrow> (False, s')
                 | Some ps \<Rightarrow>
                     (case expects ps s' of
                        (False, r) \<Rightarrow> (False, r)
                      | (True, r) \<Rightarrow> isValidString (tl r))))
         else if c = Quote then (True, s')
         else isValidString s')"
  by pat_completeness auto
termination
proof (relation "measure length")
  fix s :: bytes and c s' d v ps b r
  assume "s = c # s'" "(b, r) = expects ps s'"
  moreover from this(2) have "length r \<le> length s'" using expects_length [of ps s'] by (metis snd_conv)
  ultimately show "(tl r, s) \<in> measure length" by simp
qed simp_all

declare isValidString.simps [simp del]

section \<open>Arrays and objects\<close>

text \<open>
  The parts of a container are shorter than it, which is what makes the recursion end. Only in
  \<open>isValidNamedObject\<close> the pointer is moved without looking at what it is on.
\<close>

function (sequential) isValidMember :: "bytes \<Rightarrow> nat \<Rightarrow> exn + verdict"
  and isValidNamedObject :: "bytes \<Rightarrow> nat \<Rightarrow> exn + verdict"
  and isValidObject :: "bytes \<Rightarrow> nat \<Rightarrow> exn + verdict"
  and isValidArray :: "bytes \<Rightarrow> nat \<Rightarrow> exn + verdict" where
  "isValidMember s depth =
    (case s of
       [] \<Rightarrow> Inr (False, Some [])
     | c # s' \<Rightarrow>
         if c = Quote then Inr (apsnd Some (isValidString s'))
         else if c = LBrace then
           (if JSON_SECURITY_MAX_NEST_LEVEL < depth + 1 then Inr (False, Some s)
            else isValidObject s' (depth + 1))
         else if c = LBracket then
           (if JSON_SECURITY_MAX_NEST_LEVEL < depth + 1 then Inr (False, Some s)
            else isValidArray s' (depth + 1))
         else if either 116 84 c then Inr (apsnd Some (word_case [either 114 82, either 117 85, either 101 69] s))
         else if either 102 70 c then
           Inr (apsnd Some (word_case [either 97 65, either 108 76, either 115 83, either 101 69] s))
         else if either 110 78 c then Inr (apsnd Some (word_case [either 117 85, either 108 76, either 108 76] s))
         else if c = RBrace \<or> c = RBracket \<or> c = Comma then Inr (True, Some s)
         else Inr (apsnd Some (isValidNumber s)))"
| "isValidNamedObject s depth =
    (case s of
       [] \<Rightarrow> Inl (Undef ''read behind the text'')
     | _ # s' \<Rightarrow>
         (case isValidString s' of
            (False, r) \<Rightarrow> Inr (False, Some r)
          | (True, []) \<Rightarrow> Inr (False, None)
          | (True, d # r) \<Rightarrow>
              if d \<noteq> Colon then Inr (False, Some r)
              else
                (case isValidMember r depth of
                   Inr (True, Some (e # r')) \<Rightarrow>
                     if e = Comma then isValidNamedObject r' depth
                     else Inr (if e = RBrace then (True, Some r') else (False, Some (e # r')))
                 | Inr (True, Some []) \<Rightarrow> Inr (False, Some [])
                 | x \<Rightarrow> x)))"
| "isValidObject s depth =
    (case s of
       [] \<Rightarrow> Inr (False, Some [])
     | d # s' \<Rightarrow>
         if d = Quote then isValidNamedObject s depth
         else Inr (if d = RBrace then (True, Some s') else (False, Some s)))"
| "isValidArray s depth =
    (case s of
       [] \<Rightarrow> isValidMember s depth
     | c # s' \<Rightarrow>
         if c = RBracket then Inr (True, Some s')
         else
           (case isValidMember s depth of
              Inr (True, Some (e # r)) \<Rightarrow>
                if e = Comma then (if r = [] then Inr (False, Some []) else isValidArray r depth)
                else Inr (if e = RBracket then (True, Some r) else (False, Some (e # r)))
            | Inr (True, Some []) \<Rightarrow> Inr (False, Some [])
            | x \<Rightarrow> x))"
  by pat_completeness auto


lemma isValidString_length: "length (snd (isValidString s)) \<le> length s"
proof (induction s rule: isValidString.induct)
  case (1 s)
  show ?case
  proof (cases s)
    case Nil
    then show ?thesis by (simp add: isValidString.simps [of "[]"])
  next
    case (Cons c s')
    have "length (snd (isValidString (tl r))) \<le> length s"
      if "s' = d # u" "c = Backslash" "escape_case d = Some ps" "expects ps s' = (True, r)" for d u ps r
    proof -
      have "length (snd (isValidString (tl r))) \<le> length (tl r)"
        using 1(1) [OF Cons that(2,1,3) that(4) [symmetric]] by blast
      moreover have "length r \<le> length s'" using expects_length [of ps s'] that(4) by simp
      ultimately show ?thesis using Cons by (metis diff_le_self le_SucI le_trans length_Cons length_tl)
    qed
    moreover have "length r \<le> length s" if "expects ps s' = (b, r)" for ps b r
      using expects_length [of ps s'] that Cons by simp
    moreover have "length (snd (isValidString s')) \<le> length s" if "c \<noteq> Backslash" "c \<noteq> Quote"
      using 1(2) [OF Cons that] Cons by simp
    ultimately show ?thesis
      unfolding isValidString.simps [of s]
      by (simp add: Cons split: list.splits option.splits prod.splits bool.splits) force
  qed
qed

lemma number_digits_length: "length (snd (number_digits dec sci s)) \<le> length s"
proof (induction dec sci s rule: number_digits.induct)
  case (2 dec sci c s)
  have e: "length (snd (case s of [] \<Rightarrow> (False, [])
      | d # s' \<Rightarrow> if is_sign d \<or> is_digit d then number_digits dec True s' else (False, s))) \<le> length (c # s)"
    if "c \<noteq> 46" "is_exp c" "\<not> sci"
    using 2(2) [OF that] by (cases s) (auto simp: le_SucI)
  show ?case
    unfolding number_digits.simps
    by (intro if_case [where P = "\<lambda>x. length (snd x) \<le> length (c # s)"] e) (use 2(1,3) in \<open>auto simp: le_SucI\<close>)
qed simp

lemma number_digits_short: "length r \<le> n \<Longrightarrow> length (snd (number_digits dec sci r)) \<le> n"
  using number_digits_length le_trans by blast

lemma zero_case_length: "length (snd (zero_case s)) \<le> length s"
proof (cases s)
  case (Cons d s')
  have e: "length (snd (case s' of [] \<Rightarrow> (False, [])
      | e # s'' \<Rightarrow> if is_sign e \<or> is_digit e then number_digits False True s'' else (False, s'))) \<le> length s"
    using Cons by (cases s') (auto intro!: number_digits_short)
  show ?thesis
    unfolding zero_case_def Cons list.case
    by (intro if_case [where P = "\<lambda>x. length (snd x) \<le> length (d # s')"] e [unfolded Cons] number_digits_short)
      (simp_all add: le_SucI length_dropWhile_le)
qed (simp add: zero_case_def)

lemma isValidNumber_length: "length (snd (isValidNumber s)) \<le> length s"
proof (cases s)
  case (Cons c s')
  show ?thesis
    using zero_case_length [of s'] unfolding isValidNumber_def Cons list.case
    by (intro if_case [where P = "\<lambda>x. length (snd x) \<le> length (c # s')"] number_digits_short) (simp_all add: le_SucI)
qed (simp add: isValidNumber_def)

lemma word_case_length: "length (snd (word_case ps s)) \<le> length s"
  using expects_length [of ps s] by (auto simp: word_case_def split: prod.splits bool.splits)

definition short :: "bytes \<Rightarrow> exn + verdict \<Rightarrow> bool" where
  "short s v \<longleftrightarrow> (\<forall>b r. v = Inr (b, Some r) \<longrightarrow> length r \<le> length s)"


lemma short_pairs [simp]:
  "short s (Inl e)" "short s (Inr (b, None))" "short s (Inr (b, Some r)) \<longleftrightarrow> length r \<le> length s"
  by (simp_all add: short_def)

lemma short_apsnd: "short s (Inr (apsnd Some v)) \<longleftrightarrow> length (snd v) \<le> length s"
  by (cases v) simp

lemma short_Suc: "short s v \<Longrightarrow> short (c # s) v"
  by (auto simp: short_def le_SucI)

lemma short_Member: "isValidMember_isValidNamedObject_isValidObject_isValidArray_dom (Inl (Inl (s, d))) \<Longrightarrow> short s (isValidMember s d)"
  and short_Named: "isValidMember_isValidNamedObject_isValidObject_isValidArray_dom (Inl (Inr (s, d))) \<Longrightarrow> short s (isValidNamedObject s d)"
  and short_Object: "isValidMember_isValidNamedObject_isValidObject_isValidArray_dom (Inr (Inl (s, d))) \<Longrightarrow> short s (isValidObject s d)"
  and short_Array: "isValidMember_isValidNamedObject_isValidObject_isValidArray_dom (Inr (Inr (s, d))) \<Longrightarrow> short s (isValidArray s d)"
proof (induction s d and s d and s d and s d rule: isValidMember_isValidNamedObject_isValidObject_isValidArray.pinduct)
  case (1 s depth)
  show ?case
  proof (cases s)
    case (Cons c s')
    have w: "length (snd (word_case ps s)) \<le> length s" "length (snd (isValidNumber s)) \<le> length s"
      "length (snd (isValidString s')) \<le> length s" for ps
      by (rule word_case_length isValidNumber_length, rule word_case_length isValidNumber_length)
        (use isValidString_length [of s'] Cons in simp)
    show ?thesis
      by (subst isValidMember.psimps [OF 1(1)], unfold Cons list.case, intro if_case [where P = "short (c # s')"])
        (use w 1(2,3) [OF Cons] Cons in \<open>auto simp: short_apsnd intro: short_Suc\<close>)
  qed (subst isValidMember.psimps [OF 1(1)], simp)
next
  case (2 s depth)
  show ?case
  proof (cases s)
    case (Cons c s')
    obtain b r where v: "isValidString s' = (b, r)" by fastforce
    have l: "length r \<le> length s'" using isValidString_length [of s'] v by simp
    have m: "short r' (isValidMember r' depth)" if "b" "r = Colon # r'" for r'
      using 2(2) [OF Cons v [symmetric]] that by simp
    have n: "short r'' (isValidNamedObject r'' depth)" 
       if "b" "r = Colon # r'" "isValidMember r' depth = Inr (True, Some (Comma # r''))" for r' r''
      using 2(3) [OF Cons v [symmetric]] that by simp
    consider "\<not> b" | "b" "r = []" | d r' where "b" "r = d # r'" "d \<noteq> Colon" | r' where "b" "r = Colon # r'"
      by (cases b; cases r) auto
    then show ?thesis
    proof cases
      case (4 r')
      have r': "length r' \<le> length s" using l 4 Cons by simp
      consider u where "isValidMember r' depth = Inr (True, Some (Comma # u))"
        | "\<nexists>u. isValidMember r' depth = Inr (True, Some (Comma # u))" by blast
      then show ?thesis
      proof cases
        case (1 u)
        then have "length u \<le> length s" using m [OF 4] r' by simp
        then have "short s (isValidNamedObject u depth)" using n [OF 4 1] by (auto simp: short_def)
        then show ?thesis using 1 4 by (subst isValidNamedObject.psimps [OF 2(1)]) (simp add: Cons v)
      next
        case 2
        then show ?thesis using m [OF 4] r' 4 \<open>isValidMember_isValidNamedObject_isValidObject_isValidArray_dom (Inl (Inr (s, depth)))\<close>
          by (subst isValidNamedObject.psimps) (auto simp: Cons v short_def split: sum.splits bool.splits option.splits list.splits)
      qed
    qed (subst isValidNamedObject.psimps [OF 2(1)], use l in \<open>simp add: Cons v\<close>)+
  qed (subst isValidNamedObject.psimps [OF 2(1)], simp)
next
  case (3 s depth)
  then show ?case by (subst isValidObject.psimps [OF 3(1)]) (auto split: list.splits)
next
  case (4 s depth)
  show ?case
  proof (cases "s = [] \<or> hd s = RBracket")
    case True
    then show ?thesis using 4(2) by (subst isValidArray.psimps [OF 4(1)]) (auto split: list.splits)
  next
    case False
    then obtain c s' where s: "s = c # s'" "c \<noteq> RBracket" by (cases s) auto
    have m: "short s (isValidMember s depth)" by (rule 4(3) [OF s])
    consider u where "isValidMember s depth = Inr (True, Some (Comma # u))" "u \<noteq> []"
      | "\<nexists>u. isValidMember s depth = Inr (True, Some (Comma # u)) \<and> u \<noteq> []" by blast
    then show ?thesis
    proof cases
      case (1 u)
      then have "length u \<le> length s" using m by simp
      moreover have "short u (isValidArray u depth)" using 4(4) [OF s 1(1)] 1(2) by simp
      ultimately have "short s (isValidArray u depth)" by (auto simp: short_def)
      then show ?thesis using 1 s(2) by (subst isValidArray.psimps [OF 4(1)]) (simp add: s(1))
    next
      case 2
      then show ?thesis using m s(2)
        by (subst isValidArray.psimps [OF 4(1)])
          (auto simp: s(1) short_def split: sum.splits bool.splits option.splits list.splits)
    qed
  qed
qed

lemma string_end: "(b, c # r) = isValidString s \<Longrightarrow> length r < length s"
  using isValidString_length [of s] by (metis Suc_le_eq length_Cons snd_conv)

lemma member_end:
  "isValidMember_isValidNamedObject_isValidObject_isValidArray_dom (Inl (Inl (s, d))) \<Longrightarrow>
    isValidMember s d = Inr (b, Some (c # r)) \<Longrightarrow> length r < length s"
  by (drule short_Member) (simp add: Suc_le_eq)

termination isValidMember
  by (relation "measure (case_sum
    (case_sum (\<lambda>(s, d). 2 * length s) (\<lambda>(s, d). 2 * length s))
    (case_sum (\<lambda>(s, d). 2 * length s + 1) (\<lambda>(s, d). 2 * length s + 1)))")
    (auto dest!: string_end member_end)

declare isValidMember.simps [simp del] isValidNamedObject.simps [simp del] isValidObject.simps [simp del]
  isValidArray.simps [simp del]

text \<open>\<open>isValidRoot\<close>, and what the stream asks of the beginning of a document.\<close>

definition isValidRoot :: "bytes \<Rightarrow> exn + bool" where
  "isValidRoot json =
    (case json of
       [] \<Rightarrow> Inr False
     | c # s \<Rightarrow>
         if c = LBrace \<or> c = LBracket then
           map_sum id (\<lambda>(b, r). b \<and> r = Some []) (if c = LBrace then isValidObject s 1 else isValidArray s 1)
         else Inr False)"

definition isValidPartialRoot :: "bytes \<Rightarrow> exn + bool" where
  "isValidPartialRoot json =
    (case json of
       [] \<Rightarrow> Inr False
     | c # s \<Rightarrow>
         if c = LBrace \<or> c = LBracket then
           (case (if c = LBrace then isValidObject s 1 else isValidArray s 1) of
              Inl e \<Rightarrow> Inl e
            | Inr (b, None) \<Rightarrow> Inl (Undef ''read behind the text'')
            | Inr (b, Some r) \<Rightarrow> Inr (r = []))
         else Inr False)"

end
