(* ===== verification/Json.thy ===== *)
theory Json
  imports TransportHelper JsonNode JsonValidator
begin

text \<open>
  JSON documents: \<^verbatim>\<open>JSONProtocol.cpp\<close>, \<^verbatim>\<open>JSONController.cpp\<close> and libjson's stream,
  \<^verbatim>\<open>JSONStream.cpp\<close>, between them and the parser. The protocol is the one of the JSON
  controller, which has no parent; its reading buffer is the transport it reads from. Whether
  the process has read an escaped quote before is the argument \<open>used\<close>.
\<close>

section \<open>The stream\<close>

text \<open>A function declared \<open>throw()\<close> ends the process when an exception would leave it.\<close>

fun nothrow :: "exn + 'a \<Rightarrow> exn + 'a" where
  "nothrow (Inl StdInvalidArgument) = Inl (Terminated ''std::invalid_argument out of a throw() function'')"
| "nothrow r = r"

text \<open>What has come of a document is checked as far as it goes.\<close>

definition partial_check :: "bytes \<Rightarrow> exn + bool" where
  "partial_check text =
    (case RemoveWhiteSpace False text of
       Inl e \<Rightarrow> Inl e
     | Inr (s, _) \<Rightarrow> isValidPartialRoot s)"

text \<open>
  \<open>JSONStream::parse\<close>: the callback gets the node of the document and the number of bytes
  behind it, and says whether to go on with these.
\<close>

definition find_first_open :: "bytes \<Rightarrow> nat option" where
  "find_first_open s = List.find (\<lambda>i. s ! i = LBrace \<or> s ! i = LBracket) [0..<length s]"

function stream_parse :: "(jnode \<times> bool \<Rightarrow> nat \<Rightarrow> 's \<Rightarrow> exn + bool \<times> 's) \<Rightarrow> ('s \<Rightarrow> 's) \<Rightarrow> bytes \<Rightarrow> 's
    \<Rightarrow> exn + bytes \<times> 's" where
  "stream_parse call err_call buffer s = (case find_first_open buffer of
     None \<Rightarrow> Inr (buffer, s)
   | Some pos \<Rightarrow>
      (case find_next (if buffer ! pos = LBracket then RBracket else RBrace) (drop (pos + 1) buffer) of
         None \<Rightarrow>
           (case partial_check (drop pos buffer) of
              Inl e \<Rightarrow> Inl e
            | Inr valid \<Rightarrow> Inr (buffer, if valid then s else err_call s))
       | Some rest \<Rightarrow>
          (case nothrow (json_parse (take (length buffer - pos - length rest) (drop pos buffer))) of
             Inl e \<Rightarrow> Inl e
           | Inr temp \<Rightarrow>
              (case call temp (length rest) s of
                 Inl e \<Rightarrow> Inl e
               | Inr (retry, s') \<Rightarrow> if retry then stream_parse call err_call rest s' else Inr (rest, s')))))"
  by pat_completeness auto
termination
proof (relation "measure (\<lambda>(call, err_call, buffer, s). length buffer)")
  fix call :: "jnode \<times> bool \<Rightarrow> nat \<Rightarrow> 's \<Rightarrow> exn + bool \<times> 's" and err_call buffer pos rest temp r s' s b
  assume "find_next (if buffer ! pos = LBracket then RBracket else RBrace) (drop (pos + 1) buffer) = Some rest"
  from find_next_length [OF this]
  show "((call, err_call, rest, s'), call, err_call, buffer, s) \<in> measure (\<lambda>(call, err_call, buffer, s). length buffer)"
    by simp
qed simp

declare stream_parse.simps [simp del]

section \<open>The protocol\<close>

record json =
  js_readBuffer :: buffered_transport
  js_writebuffer :: buffered_transport
  js_turnOnWrite :: bool
  js_readComplete :: bool
  js_internal :: bytes
  js_stream :: "bytes option"
  js_remain :: nat

definition newJSONProtocol :: json where
  "newJSONProtocol = \<lparr>js_readBuffer = newBufferedTransport, js_writebuffer = newBufferedTransport,
    js_turnOnWrite = True, js_readComplete = False, js_internal = [], js_stream = None, js_remain = 0\<rparr>"

definition parsingSucc :: "bytes \<Rightarrow> nat \<Rightarrow> json \<Rightarrow> json" where
  "parsingSucc text remainSize j =
    j\<lparr>js_remain := remainSize, js_internal := text, js_readComplete := True\<rparr>"

text \<open>The text is the one the node is written as; the callback stops the stream. An error is not looked at.\<close>

definition json_callback :: "bool \<Rightarrow> jnode \<times> bool \<Rightarrow> nat \<Rightarrow> json \<Rightarrow> exn + bool \<times> json" where
  "json_callback used temp remainpos j =
    map_sum id (\<lambda>text. (False, parsingSucc text remainpos j)) (json_write (used \<or> snd temp) (fst temp))"

definition errorCallback :: "json \<Rightarrow> json" where
  "errorCallback j = j"

definition makeStream :: "json \<Rightarrow> json" where
  "makeStream j = (case js_stream j of None \<Rightarrow> j\<lparr>js_stream := Some []\<rparr> | Some _ \<Rightarrow> j)"

definition stream_push :: "bool \<Rightarrow> bytes \<Rightarrow> json \<Rightarrow> (unit, json) res" where
  "stream_push used data j = (case js_stream j of
     None \<Rightarrow> (Inl (Undef ''stream_ is NULL''), j)
   | Some buffer \<Rightarrow> (case stream_parse (json_callback used) errorCallback (buffer @ data) j of
       Inl e \<Rightarrow> (Inl e, j)
     | Inr (buffer', j') \<Rightarrow> (Inr (), j'\<lparr>js_stream := Some buffer'\<rparr>)))"

definition JSON_STREAM_SIZE :: nat where "JSON_STREAM_SIZE = 1024"

partial_function (option) json_read_loop :: "bool \<Rightarrow> json \<Rightarrow> (bool, json) res option" where
  "json_read_loop used j = (case bt_peekPtr JSON_STREAM_SIZE (js_readBuffer j) of (ptr, nread) \<Rightarrow>
     if nread \<le> 0 then Some (Inr False, j)
     else (case bt_mem (js_readBuffer j) ptr nread of
        Inl e \<Rightarrow> Some (Inl e, j)
      | Inr data \<Rightarrow>
         (case stream_push used data j of
            (Inl e, j) \<Rightarrow> Some (Inl e, j)
          | (Inr _, j) \<Rightarrow>
             (case bt_throwAway (to_size (int nread - int (js_remain j))) (js_readBuffer j) of
                (Inl e, t) \<Rightarrow> Some (Inl e, j\<lparr>js_readBuffer := t\<rparr>)
              | (Inr _, t) \<Rightarrow>
                  (let j = j\<lparr>js_readBuffer := t\<rparr> in
                   if js_readComplete j then Some (Inr True, j) else json_read_loop used j)))))"

declare json_read_loop.simps [code]

definition json_catch :: "(bool, json) res \<Rightarrow> (bool, json) res" where
  "json_catch r = (case r of (Inl e, j) \<Rightarrow> if caught_read e then (Inr False, j) else (Inl e, j) | _ \<Rightarrow> r)"

definition json_processRead :: "bool \<Rightarrow> json \<Rightarrow> (bool, json) res option" where
  "json_processRead used j = map_option json_catch (json_read_loop used (makeStream j))"

text \<open>What is left over: the size, and the bytes the pointer points to.\<close>

definition json_remainingBufferSize :: "json \<Rightarrow> nat" where
  "json_remainingBufferSize j = (if js_readComplete j then js_remain j
     else bt_remainingSize (js_readBuffer j))"

definition json_remainingBufferPtr :: "json \<Rightarrow> int" where
  "json_remainingBufferPtr j = (if js_readComplete j
     then bt_currentPtr (js_readBuffer j) - int (js_remain j) else bt_currentPtr (js_readBuffer j))"

definition json_addToReadingBuffer :: "bytes \<Rightarrow> json \<Rightarrow> json" where
  "json_addToReadingBuffer data j = j\<lparr>js_readBuffer := snd (bt_write data (js_readBuffer j))\<rparr>"

section \<open>Writing\<close>

definition setJSON :: "bytes \<Rightarrow> json \<Rightarrow> json" where
  "setJSON buffer j = j\<lparr>js_internal := buffer\<rparr>"

definition json_processSerialize :: "json \<Rightarrow> (bool, json) res" where
  "json_processSerialize j =
    (case vth_writeBinary bt_write (js_internal j) (bt_clear (js_writebuffer j)) of
       (Inl e, t) \<Rightarrow> (Inl e, j\<lparr>js_writebuffer := t\<rparr>)
     | (Inr _, t) \<Rightarrow> (Inr True, j\<lparr>js_writebuffer := t\<rparr>))"

definition json_processWrite :: "'t writer \<Rightarrow> json \<Rightarrow> 't \<Rightarrow> (bool, json \<times> 't) res" where
  "json_processWrite wr j t =
    (let n = bt_remainingSize (js_writebuffer j) in
     if js_turnOnWrite j \<and> n > 0 then
       (case bt_mem (js_writebuffer j) (bt_currentPtr (js_writebuffer j)) n of
          Inl e \<Rightarrow> (Inl e, j, t)
        | Inr data \<Rightarrow>
           (case wr data t of
              (Inl e, t') \<Rightarrow> (Inl e, j, t')
            | (Inr k, t') \<Rightarrow>
               (if to_size (uint (word_of_int k :: 32 word)) \<noteq> n
                then (Inl (ProtocolException ''processWrite not write all buffer to transport''), j, t')
                else (case bt_fastforward (nat (uint (word_of_int k :: 32 word))) (js_writebuffer j) of
                   (Inl e, b) \<Rightarrow> (Inl e, j\<lparr>js_writebuffer := b\<rparr>, t')
                 | (Inr _, b) \<Rightarrow> (Inr True, j\<lparr>js_writebuffer := b\<rparr>, t')))))
     else (Inr True, j, t))"

definition writeJSON :: "'t writer \<Rightarrow> bytes \<Rightarrow> 't \<Rightarrow> (unit, 't) res" where
  "writeJSON wr text t =
    (case json_processSerialize (setJSON text newJSONProtocol) of
       (Inl e, j) \<Rightarrow> (Inl e, t)
     | (Inr _, j) \<Rightarrow> (case json_processWrite wr j t of
         (Inl e, j, t') \<Rightarrow> (Inl e, t') | (Inr _, j, t') \<Rightarrow> (Inr (), t')))"

end
