(* ===== verification/JsonSpec.thy ===== *)
theory JsonSpec
  imports Json
begin

text \<open>
  What the JSON protocol promises: a document that is written is received, in whatever pieces
  it arrives, and what becomes of a second document that arrives with the first.
\<close>

section \<open>Documents\<close>

text \<open>
  The documents the theorems speak about: brackets and braces are balanced outside of strings,
  and a string holds no quote, escaped or not, and no NUL.
\<close>

inductive json_inside :: "bytes \<Rightarrow> bool" where
  inside_Nil: "json_inside []"
| inside_plain: "c \<notin> {0, Quote, LBracket, RBracket, LBrace, RBrace} \<Longrightarrow> json_inside u \<Longrightarrow> json_inside (c # u)"
| inside_string: "0 \<notin> set q \<Longrightarrow> Quote \<notin> set q \<Longrightarrow> json_inside u \<Longrightarrow> json_inside (Quote # q @ Quote # u)"
| inside_array: "json_inside v \<Longrightarrow> json_inside u \<Longrightarrow> json_inside (LBracket # v @ RBracket # u)"
| inside_object: "json_inside v \<Longrightarrow> json_inside u \<Longrightarrow> json_inside (LBrace # v @ RBrace # u)"

inductive json_doc :: "bytes \<Rightarrow> bool" where
  doc_array: "json_inside u \<Longrightarrow> json_doc (LBracket # u @ [RBracket])"
| doc_object: "json_inside u \<Longrightarrow> json_doc (LBrace # u @ [RBrace])"

inductive_simps json_doc_iff: "json_doc d"

lemma quote_scan_string: "0 \<notin> set q \<Longrightarrow> Quote \<notin> set q \<Longrightarrow> quote_scan (q @ Quote # y) = Some y"
  by (induction q) auto

lemma bracket_scan_inside:
  "json_inside u \<Longrightarrow> (l, r) \<in> {(LBracket, RBracket), (LBrace, RBrace)} \<Longrightarrow>
    bracket_scan l r (Suc b) (u @ y) = bracket_scan l r (Suc b) y"
  by (induction arbitrary: b y rule: json_inside.induct) (auto simp: quote_scan_string)

lemma find_next_inside:
  "json_inside u \<Longrightarrow> ch \<in> {RBracket, RBrace} \<Longrightarrow> find_next ch (u @ y) = find_next ch y"
  by (induction arbitrary: y rule: json_inside.induct)
    (auto simp: quote_scan_string bracket_scan_inside)

text \<open>A longer text does not change where a scan ends.\<close>

lemma quote_scan_append: "quote_scan s = Some t \<Longrightarrow> quote_scan (s @ v) = Some (t @ v)"
  by (induction s rule: quote_scan.induct) (auto split: if_splits)

lemma bracket_scan_append: "bracket_scan l r b s = Some t \<Longrightarrow> bracket_scan l r b (s @ v) = Some (t @ v)"
proof (induction s arbitrary: b rule: measure_induct_rule [where f = length])
  case (less s)
  show ?case
  proof (cases b)
    case (Suc b')
    then obtain c s' where s: "s = c # s'" using less.prems by (cases s) auto
    have "bracket_scan l r b'' s' = Some t \<Longrightarrow> bracket_scan l r b'' (s' @ v) = Some (t @ v)" for b''
      using less.IH [of s' b''] s by simp
    moreover have "quote_scan s' = Some u \<Longrightarrow> bracket_scan l r b'' u = Some t \<Longrightarrow>
        bracket_scan l r b'' (u @ v) = Some (t @ v)" for u b''
      using less.IH [of u b''] quote_scan_length [of s' u] s by simp
    ultimately show ?thesis using less.prems quote_scan_append [of s' _ v] unfolding s Suc
      by (auto split: if_splits option.splits)
  qed (use less.prems in simp)
qed

lemma find_next_append: "find_next ch s = Some t \<Longrightarrow> find_next ch (s @ v) = Some (t @ v)"
proof (induction s rule: measure_induct_rule [where f = length])
  case (less s)
  then obtain c s' where s: "s = c # s'" by (cases s) auto
  have "find_next ch s' = Some t \<Longrightarrow> find_next ch (s' @ v) = Some (t @ v)" using less.IH [of s'] s by simp
  moreover have "quote_scan s' = Some u \<Longrightarrow> find_next ch u = Some t \<Longrightarrow> find_next ch (u @ v) = Some (t @ v)" for u
    using less.IH [of u] quote_scan_length [of s' u] s by simp
  moreover have "bracket_scan l r b s' = Some u \<Longrightarrow> find_next ch u = Some t \<Longrightarrow>
      find_next ch (u @ v) = Some (t @ v)" for l r b u
    using less.IH [of u] bracket_scan_length [of l r b s' u] s by simp
  ultimately show ?case using less.prems quote_scan_append [of s' _ v] bracket_scan_append [of _ _ _ s' _ v]
    unfolding s by (auto split: if_splits option.splits)
qed

definition closing :: "byte \<Rightarrow> byte" where
  "closing c = (if c = LBracket then RBracket else RBrace)"

lemma json_doc_scan:
  assumes "json_doc d"
  obtains c u where "d = c # u" "c = LBracket \<or> c = LBrace" "\<And>y. find_next (closing c) (u @ y) = Some y"
  using assms by (cases rule: json_doc.cases) (auto simp: closing_def find_next_inside)

lemma find_first_open_hd: "c = LBracket \<or> c = LBrace \<Longrightarrow> find_first_open (c # u) = Some 0"
  by (auto simp: find_first_open_def upt_conv_Cons simp del: upt_Suc)

text \<open>What libjson reads a document as and writes it back as, and what may be there of one when its check is made.\<close>

definition accepted_as :: "bool \<Rightarrow> bytes \<Rightarrow> bytes \<Rightarrow> bool" where
  "accepted_as used d txt \<longleftrightarrow> (\<exists>n u. json_parse d = Inr (n, u) \<and> json_write (used \<or> u) n = Inr txt)"

definition cut_safe :: "bytes \<Rightarrow> bool" where
  "cut_safe w \<longleftrightarrow> (\<exists>valid. partial_check w = Inr valid)"

lemma stream_parse_open:
  assumes "c = LBracket \<or> c = LBrace"
  shows "stream_parse call err_call (c # w) j = (case find_next (closing c) w of
      None \<Rightarrow> (case partial_check (c # w) of Inl e \<Rightarrow> Inl e | Inr valid \<Rightarrow> Inr (c # w, if valid then j else err_call j))
    | Some rest \<Rightarrow>
        (case nothrow (json_parse (take (Suc (length w) - length rest) (c # w))) of
           Inl e \<Rightarrow> Inl e
         | Inr temp \<Rightarrow>
            (case call temp (length rest) j of
               Inl e \<Rightarrow> Inl e
             | Inr (retry, s') \<Rightarrow> if retry then stream_parse call err_call rest s' else Inr (rest, s'))))"
  by (subst stream_parse.simps) (simp add: find_first_open_hd [OF assms] closing_def split: option.split)

lemma stream_parse_doc:
  assumes "json_doc d" "accepted_as used d txt"
  shows "stream_parse (json_callback used) errorCallback (d @ y) j = Inr (y, parsingSucc txt (length y) j)"
proof -
  obtain c u where d: "d = c # u" "c = LBracket \<or> c = LBrace" "\<And>y. find_next (closing c) (u @ y) = Some y"
    using json_doc_scan [OF assms(1)] by metis
  show ?thesis
    using stream_parse_open [OF d(2), of "json_callback used" errorCallback "u @ y"] d(1,3) assms(2)
    by (auto simp: accepted_as_def json_callback_def)
qed

lemma no_end_in_prefix:
  assumes "json_doc d" "d = (c # u) @ v" "v \<noteq> []"
  shows "c = LBracket \<or> c = LBrace" "find_next (closing c) u = None"
proof -
  obtain c' u' where d: "d = c' # u'" "c' = LBracket \<or> c' = LBrace" "\<And>y. find_next (closing c') (u' @ y) = Some y"
    using json_doc_scan [OF assms(1)] by metis
  with assms(2) have c: "c' = c" "u' = u @ v" by simp_all
  then show "c = LBracket \<or> c = LBrace" using d(2) by simp
  show "find_next (closing c) u = None"
  proof (rule ccontr)
    assume "find_next (closing c) u \<noteq> None"
    then obtain t where "find_next (closing c) u = Some t" by blast
    from find_next_append [OF this, of v] d(3) [of "[]"] c assms(3) show False by simp
  qed
qed

lemma stream_parse_prefix:
  assumes "json_doc d" "d = w @ v" "v \<noteq> []" "w \<noteq> []"
  shows "stream_parse (json_callback used) errorCallback w j
    = (case partial_check w of Inl e \<Rightarrow> Inl e | Inr valid \<Rightarrow> Inr (w, j))"
proof -
  obtain c u where w: "w = c # u" using assms(4) by (cases w) auto
  have p: "c = LBracket \<or> c = LBrace" "find_next (closing c) u = None"
    using no_end_in_prefix [OF assms(1) assms(2) [unfolded w] assms(3)] by blast+
  show ?thesis unfolding w
    by (subst stream_parse_open [OF p(1)]) (auto simp: p(2) errorCallback_def split: sum.splits)
qed

section \<open>Reading\<close>

lemma peekPtr_ok [bt_simps]:
  "bt_ok t \<Longrightarrow> bt_peekPtr n t = (bt_currentPtr t, min n (length (bt_rest t)))"
  by (auto simp: bt_peekPtr_def bt_simps min_def)

lemma throwAway_ok [bt_simps]:
  "bt_ok t \<Longrightarrow> n \<le> length (bt_rest t) \<Longrightarrow> bt_throwAway n t = (Inr (), bt_advance n t)"
  by (simp add: bt_throwAway_def bt_simps)

lemma size_bound: "bt_ok t \<Longrightarrow> length (bt_rest t) < 2147483648"
  using bt_okD(4) by (auto simp: bt_rest_def less_imp_diff_less)

text \<open>One round of the loop, in terms of what the stream makes of the block.\<close>

lemma json_read_round:
  assumes "bt_ok (js_readBuffer j)" "bt_rest (js_readBuffer j) \<noteq> []"
    and "stream_push used (take JSON_STREAM_SIZE (bt_rest (js_readBuffer j))) j = (Inr (), j1)"
    and "js_readBuffer j1 = js_readBuffer j" "js_remain j1 \<le> min JSON_STREAM_SIZE (length (bt_rest (js_readBuffer j)))"
  shows "json_read_loop used j =
    (let j2 = j1\<lparr>js_readBuffer := bt_advance
        (min JSON_STREAM_SIZE (length (bt_rest (js_readBuffer j))) - js_remain j1) (js_readBuffer j)\<rparr>
     in if js_readComplete j1 then Some (Inr True, j2) else json_read_loop used j2)"
proof -
  define n where "n = min JSON_STREAM_SIZE (length (bt_rest (js_readBuffer j)))"
  have n: "0 < n" using assms(2) by (simp add: n_def JSON_STREAM_SIZE_def)
  have m: "bt_mem (js_readBuffer j) (bt_currentPtr (js_readBuffer j)) n
      = Inr (take JSON_STREAM_SIZE (bt_rest (js_readBuffer j)))"
    using bt_mem_current [OF assms(1), of n] by (simp add: n_def min_def)
  have p: "bt_peekPtr JSON_STREAM_SIZE (js_readBuffer j) = (bt_currentPtr (js_readBuffer j), n)"
    by (simp add: peekPtr_ok [OF assms(1)] n_def)
  have r: "js_remain j1 \<le> n" using assms(5) by (simp add: n_def)
  have "n < 2147483648" using size_bound [OF assms(1)] by (simp add: n_def)
  then have s: "to_size (int n - int (js_remain j1)) = n - js_remain j1" using r by simp
  have t: "bt_throwAway (n - js_remain j1) (js_readBuffer j) = (Inr (), bt_advance (n - js_remain j1) (js_readBuffer j))"
    by (rule throwAway_ok [OF assms(1)]) (simp add: n_def)
  show ?thesis
    unfolding n_def [symmetric]
    by (subst json_read_loop.simps) (use n in \<open>simp add: p m assms(3,4) s t Let_def\<close>)
qed

lemma json_read_end:
  assumes "bt_ok (js_readBuffer j)" "bt_rest (js_readBuffer j) = []"
  shows "json_read_loop used j = Some (Inr False, j)"
  by (subst json_read_loop.simps) (simp add: peekPtr_ok [OF assms(1)] assms(2))

definition waiting_with :: "bytes \<Rightarrow> json \<Rightarrow> bool" where
  "waiting_with w j \<longleftrightarrow> js_stream j = Some w \<and> \<not> js_readComplete j \<and> js_remain j = 0 \<and> bt_ok (js_readBuffer j)"

lemma stream_push_prefix:
  assumes "json_doc d" "d = (w @ data) @ v" "v \<noteq> []" "data \<noteq> []" "cut_safe (w @ data)" "js_stream j = Some w"
  shows "stream_push used data j = (Inr (), j\<lparr>js_stream := Some (w @ data)\<rparr>)"
  using stream_parse_prefix [OF assms(1-3), of used j] assms(4-6) by (auto simp: stream_push_def cut_safe_def)

lemma stream_push_unsafe:
  assumes "json_doc d" "d = (w @ data) @ v" "v \<noteq> []" "data \<noteq> []" "partial_check (w @ data) = Inl e" "js_stream j = Some w"
  shows "stream_push used data j = (Inl e, j)"
  using stream_parse_prefix [OF assms(1-3), of used j] assms(4-6) by (simp add: stream_push_def)

lemma stream_push_doc:
  assumes "json_doc d" "accepted_as used d txt" "w @ data = d @ y" "js_stream j = Some w"
  shows "stream_push used data j = (Inr (), (parsingSucc txt (length y) j)\<lparr>js_stream := Some y\<rparr>)"
  using stream_parse_doc [OF assms(1,2), of y j] assms(3,4) by (simp add: stream_push_def)

text \<open>The stream is given blocks, and its text is checked behind every one of them.\<close>

function blocks :: "bytes \<Rightarrow> bytes list" where
  "blocks p = (if p = [] then [] else take JSON_STREAM_SIZE p # blocks (drop JSON_STREAM_SIZE p))"
  by pat_completeness auto
termination
  by (relation "measure length") (auto simp: JSON_STREAM_SIZE_def)

declare blocks.simps [simp del]

fun cut_texts :: "bytes \<Rightarrow> bytes list \<Rightarrow> bytes list" where
  "cut_texts w [] = []"
| "cut_texts w (b # bs) = (w @ b) # cut_texts (w @ b) bs"

lemma blocks_simps [simp]: "blocks [] = []"
  "p \<noteq> [] \<Longrightarrow> blocks p = take JSON_STREAM_SIZE p # blocks (drop JSON_STREAM_SIZE p)"
  by (simp_all add: blocks.simps [of p] blocks.simps [of "[]"])

lemma blocks_Nil_iff: "blocks p = [] \<longleftrightarrow> p = []"
  by (cases "p = []") auto

lemma concat_blocks: "concat (blocks p) = p"
proof (induction p rule: blocks.induct)
  case (1 p)
  then show ?case by (cases "p = []") simp_all
qed

lemma cut_texts_Nil_iff [simp]: "cut_texts w bs = [] \<longleftrightarrow> bs = []"
  by (cases bs) auto

lemma cut_texts_append: "cut_texts w (as @ bs) = cut_texts w as @ cut_texts (w @ concat as) bs"
  by (induction as arbitrary: w) auto

definition cuts_safe :: "bytes \<Rightarrow> bytes list \<Rightarrow> bool" where
  "cuts_safe w bs \<longleftrightarrow> list_all cut_safe (butlast (cut_texts w bs))"

lemma cuts_safe_simps [simp]:
  "cuts_safe w []" "cuts_safe w [b]"
  "bs \<noteq> [] \<Longrightarrow> cuts_safe w (b # bs) \<longleftrightarrow> cut_safe (w @ b) \<and> cuts_safe (w @ b) bs"
  by (simp_all add: cuts_safe_def)

lemma cuts_safe_append:
  "bs \<noteq> [] \<Longrightarrow> cuts_safe w (as @ bs) \<longleftrightarrow> list_all cut_safe (cut_texts w as) \<and> cuts_safe (w @ concat as) bs"
  by (simp add: cuts_safe_def cut_texts_append butlast_append)

lemma json_read_prefix:
  assumes "json_doc d" "d = w @ bt_rest (js_readBuffer j) @ z" "z \<noteq> []" "waiting_with w j"
    and "list_all cut_safe (cut_texts w (blocks (bt_rest (js_readBuffer j))))"
  shows "\<exists>j'. json_read_loop used j = Some (Inr False, j') \<and> waiting_with (w @ bt_rest (js_readBuffer j)) j'
    \<and> bt_rest (js_readBuffer j') = [] \<and> bt_buf (js_readBuffer j') = bt_buf (js_readBuffer j)"
  using assms(2-5)
proof (induction "length (bt_rest (js_readBuffer j))" arbitrary: w j rule: less_induct)
  case less
  let ?t = "js_readBuffer j" and ?n = JSON_STREAM_SIZE
  have ok: "bt_ok ?t" "js_stream j = Some w" using less.prems(3) by (auto simp: waiting_with_def)
  show ?case
  proof (cases "bt_rest ?t = []")
    case True
    then show ?thesis using json_read_end [OF ok(1) True] less.prems(3) by simp
  next
    case False
    let ?m = "min ?n (length (bt_rest ?t))"
    let ?j = "j\<lparr>js_stream := Some (w @ take ?n (bt_rest ?t)), js_readBuffer := bt_advance ?m ?t\<rparr>"
    have d: "d = (w @ take ?n (bt_rest ?t)) @ drop ?n (bt_rest ?t) @ z"
      using less.prems(1) by (simp add: append_assoc [symmetric] del: append_assoc) simp
    have ne: "take ?n (bt_rest ?t) \<noteq> []" using False by (simp add: JSON_STREAM_SIZE_def)
    have safe: "cut_safe (w @ take ?n (bt_rest ?t))"
      "list_all cut_safe (cut_texts (w @ take ?n (bt_rest ?t)) (blocks (drop ?n (bt_rest ?t))))"
      using less.prems(4) False by simp_all
    have "stream_push used (take ?n (bt_rest ?t)) j = (Inr (), j\<lparr>js_stream := Some (w @ take ?n (bt_rest ?t))\<rparr>)"
      by (rule stream_push_prefix [OF assms(1) d _ ne safe(1) ok(2)]) (use less.prems(2) in simp)
    from json_read_round [OF ok(1) False this] less.prems(3)
    have loop: "json_read_loop used j = json_read_loop used ?j" by (simp add: waiting_with_def Let_def)
    have m: "?m \<le> length (bt_rest ?t)" "0 < ?m" using False by (simp_all add: JSON_STREAM_SIZE_def)
    have rest: "bt_rest (js_readBuffer ?j) = drop ?n (bt_rest ?t)"
      using bt_advance_ok(2) [OF ok(1), of ?m] by (simp add: min_def)
    have w: "waiting_with (w @ take ?n (bt_rest ?t)) ?j"
      using less.prems(3) bt_advance_ok(1) [OF ok(1) m(1)] by (simp add: waiting_with_def)
    have lt: "length (bt_rest (js_readBuffer ?j)) < length (bt_rest ?t)" using rest m by simp
    show ?thesis
      using less.hyps [OF lt _ less.prems(2) w] d rest safe(2) bt_advance_ok(3) [of ?m ?t] loop by simp
  qed
qed

lemma json_read_whole:
  assumes "json_doc d" "accepted_as used d txt"
    and "d = w @ bt_rest (js_readBuffer j)" "waiting_with w j" "bt_rest (js_readBuffer j) \<noteq> []"
    and "cuts_safe w (blocks (bt_rest (js_readBuffer j)))"
  shows "\<exists>j'. json_read_loop used j = Some (Inr True, j') \<and> js_readComplete j' \<and> js_internal j' = txt
    \<and> js_remain j' = 0 \<and> js_turnOnWrite j' = js_turnOnWrite j"
  using assms(3-6)
proof (induction "length (bt_rest (js_readBuffer j))" arbitrary: w j rule: less_induct)
  case less
  let ?t = "js_readBuffer j" and ?n = JSON_STREAM_SIZE
  have ok: "bt_ok ?t" "js_stream j = Some w" using less.prems(2) by (auto simp: waiting_with_def)
  let ?m = "min ?n (length (bt_rest ?t))"
  have m: "?m \<le> length (bt_rest ?t)" "0 < ?m" using less.prems(3) by (simp_all add: JSON_STREAM_SIZE_def)
  have d: "d = (w @ take ?n (bt_rest ?t)) @ drop ?n (bt_rest ?t)" using less.prems(1) by simp
  show ?case
  proof (cases "drop ?n (bt_rest ?t) = []")
    case True
    then have "w @ take ?n (bt_rest ?t) = d @ []" using d by simp
    from json_read_round [OF ok(1) less.prems(3) stream_push_doc [OF assms(1,2) this ok(2)]]
    show ?thesis by (simp add: parsingSucc_def Let_def)
  next
    case False
    let ?j = "j\<lparr>js_stream := Some (w @ take ?n (bt_rest ?t)), js_readBuffer := bt_advance ?m ?t\<rparr>"
    have b: "take ?n (bt_rest ?t) \<noteq> []" using less.prems(3) by (simp add: JSON_STREAM_SIZE_def)
    have nb: "blocks (drop ?n (bt_rest ?t)) \<noteq> []" using False by (simp only: blocks_Nil_iff not_False_eq_True)
    have safe: "cut_safe (w @ take ?n (bt_rest ?t))" "cuts_safe (w @ take ?n (bt_rest ?t)) (blocks (drop ?n (bt_rest ?t)))"
      using less.prems(4) nb unfolding blocks_simps(2) [OF less.prems(3)] by simp_all
    from json_read_round [OF ok(1) less.prems(3) stream_push_prefix [OF assms(1) d False b safe(1) ok(2)]] less.prems(2)
    have loop: "json_read_loop used j = json_read_loop used ?j" by (simp add: waiting_with_def Let_def)
    have rest: "bt_rest (js_readBuffer ?j) = drop ?n (bt_rest ?t)"
      using bt_advance_ok(2) [OF ok(1), of ?m] by (simp add: min_def)
    have w: "waiting_with (w @ take ?n (bt_rest ?t)) ?j"
      using less.prems(2) bt_advance_ok(1) [OF ok(1) m(1)] by (simp add: waiting_with_def)
    have lt: "length (bt_rest (js_readBuffer ?j)) < length (bt_rest ?t)" using rest m by simp
    have d': "d = (w @ take ?n (bt_rest ?t)) @ bt_rest (js_readBuffer ?j)" using d rest by simp
    have ne: "bt_rest (js_readBuffer ?j) \<noteq> []" using False rest by simp
    from less.hyps [OF lt d' w ne] safe(2) rest loop show ?thesis by simp
  qed
qed

section \<open>Pieces\<close>

text \<open>The pieces of a stream arrive one after the other; the results of the reads and the protocol.\<close>

fun json_arrive :: "bool \<Rightarrow> bytes list \<Rightarrow> json \<Rightarrow> ((exn + bool) list \<times> json) option" where
  "json_arrive used [] j = Some ([], j)"
| "json_arrive used (p # ps) j = (case json_processRead used (json_addToReadingBuffer p j) of
     None \<Rightarrow> None
   | Some (r, j') \<Rightarrow> map_option (\<lambda>(rs, j''). (r # rs, j'')) (json_arrive used ps j'))"

definition fresh_with :: "bytes \<Rightarrow> json \<Rightarrow> bool" where
  "fresh_with w j \<longleftrightarrow> waiting_with w (makeStream j) \<and> bt_rest (js_readBuffer j) = [] \<and> bt_buf (js_readBuffer j) = w"

lemma fresh_new: "fresh_with [] newJSONProtocol"
  by (simp add: fresh_with_def waiting_with_def newJSONProtocol_def makeStream_def)
    (simp add: newBufferedTransport_def)

lemma makeStream_fields [simp]:
  "js_readBuffer (makeStream j) = js_readBuffer j"
  "makeStream (j\<lparr>js_readBuffer := t\<rparr>) = (makeStream j)\<lparr>js_readBuffer := t\<rparr>"
  by (simp_all add: makeStream_def split: option.splits)

lemma makeStream_waiting: "waiting_with w j \<Longrightarrow> makeStream j = j"
  by (simp add: waiting_with_def makeStream_def)

lemma json_add:
  assumes "fresh_with w j" "length w + length p < 2147483648"
  shows "waiting_with w (makeStream (json_addToReadingBuffer p j))"
    "bt_rest (js_readBuffer (json_addToReadingBuffer p j)) = p"
    "bt_buf (js_readBuffer (json_addToReadingBuffer p j)) = w @ p"
proof -
  have ok: "bt_ok (js_readBuffer j)" using assms(1) by (simp add: fresh_with_def waiting_with_def)
  have b: "length (bt_buf (js_readBuffer j)) + length p < 2147483648"
    using assms by (simp add: fresh_with_def)
  show "waiting_with w (makeStream (json_addToReadingBuffer p j))"
    "bt_rest (js_readBuffer (json_addToReadingBuffer p j)) = p"
    "bt_buf (js_readBuffer (json_addToReadingBuffer p j)) = w @ p"
    using assms bt_write_ok [OF ok b] by (auto simp: json_addToReadingBuffer_def fresh_with_def waiting_with_def)
qed

lemma json_arrive_doc:
  assumes "json_doc d" "accepted_as used d txt"
  shows "d = w @ concat ps \<Longrightarrow> ps \<noteq> [] \<Longrightarrow> [] \<notin> set ps \<Longrightarrow> fresh_with w j \<Longrightarrow> length d < 2147483648 \<Longrightarrow>
    cuts_safe w (concat (map blocks ps)) \<Longrightarrow>
    \<exists>j'. json_arrive used ps j = Some (replicate (length ps - 1) (Inr False) @ [Inr True], j')
      \<and> js_readComplete j' \<and> js_internal j' = txt \<and> js_remain j' = 0"
proof (induction ps arbitrary: w j)
  case (Cons p ps)
  let ?j = "makeStream (json_addToReadingBuffer p j)"
  have "length w + length p < 2147483648" using Cons.prems(1,5) by simp
  note a = json_add [OF Cons.prems(4) this]
  have r: "bt_rest (js_readBuffer ?j) = p" using a(2) by simp
  show ?case
  proof (cases "ps = []")
    case True
    then obtain j' where "json_read_loop used ?j = Some (Inr True, j')" "js_readComplete j'" "js_internal j' = txt"
      "js_remain j' = 0"
      using json_read_whole [OF assms _ a(1)] Cons.prems(1,3,6) r by auto
    then show ?thesis using True by (simp add: json_processRead_def json_catch_def)
  next
    case False
    then have z: "concat ps \<noteq> []" using Cons.prems(3) by (cases ps) auto
    have pre: "d = w @ bt_rest (js_readBuffer ?j) @ concat ps" using Cons.prems(1) r by simp
    have "concat (map blocks ps) \<noteq> []" using False Cons.prems(3) blocks_Nil_iff by (cases ps) auto
    then have safe: "list_all cut_safe (cut_texts w (blocks p))" "cuts_safe (w @ p) (concat (map blocks ps))"
      using Cons.prems(6) cuts_safe_append [of "concat (map blocks ps)" w "blocks p"] by (simp_all add: concat_blocks)
    from json_read_prefix [OF assms(1) pre z a(1), of used] r safe(1)
    obtain j1 where j1: "json_read_loop used ?j = Some (Inr False, j1)" "waiting_with (w @ p) j1"
      "bt_rest (js_readBuffer j1) = []" "bt_buf (js_readBuffer j1) = w @ p" using a(3) by auto
    then have "fresh_with (w @ p) j1" by (simp add: fresh_with_def makeStream_waiting)
    with Cons.IH [of "w @ p" j1] Cons.prems safe(2) False obtain j' where
      "json_arrive used ps j1 = Some (replicate (length ps - 1) (Inr False) @ [Inr True], j')"
      "js_readComplete j'" "js_internal j' = txt" "js_remain j' = 0" by auto
    moreover have "replicate (length ps) (Inr False :: exn + bool) = Inr False # replicate (length ps - 1) (Inr False)"
      using False by (cases ps) simp_all
    ultimately show ?thesis using j1(1) by (simp add: json_processRead_def json_catch_def)
  qed
qed simp

lemma json_doc_length: "json_doc d \<Longrightarrow> 2 \<le> length d"
  by (auto elim: json_doc.cases)

lemma writeJSON_bytes:
  assumes "json_doc d" "length d < 2147483648" "wr d t = (Inr (int (length d)), t')"
  shows "writeJSON wr d t = (Inr (), t')"
proof -
  let ?b = "newBufferedTransport\<lparr>bt_buf := d\<rparr>"
  have ok: "bt_ok ?b" "bt_rest ?b = d"
    using assms(2) by (simp_all add: bt_ok_def bt_rest_def newBufferedTransport_def)
  have n: "bt_remainingSize ?b = length d" using ok by (simp add: bt_remainingSize_ok)
  have "0 < length d" using json_doc_length [OF assms(1)] by linarith
  note n = n this
  have m: "bt_mem ?b (bt_currentPtr ?b) (length d) = Inr d" using bt_mem_current [OF ok(1), of "length d"] ok(2) by simp
  have f: "bt_fastforward (length d) ?b = (Inr (), bt_advance (length d) ?b)"
    by (rule bt_fastforward_ok) (simp_all add: ok)
  have c: "bt_clear newBufferedTransport = newBufferedTransport" by (simp add: bt_clear_def newBufferedTransport_def)
  have s: "json_processSerialize (setJSON d newJSONProtocol)
      = (Inr True, (setJSON d newJSONProtocol)\<lparr>js_writebuffer := ?b\<rparr>)"
    using assms(2) by (simp add: json_processSerialize_def vth_writeBinary_def bt_write_def setJSON_def
        newJSONProtocol_def c) (simp add: newBufferedTransport_def)
  have on: "js_turnOnWrite (setJSON d newJSONProtocol)" by (simp add: setJSON_def newJSONProtocol_def)
  have u: "uint (word_of_int (int (length d)) :: 32 word) = int (length d)"
    by (subst uint_word_of_int) (use assms(2) in simp)
  show ?thesis
    using n m f assms(2,3) u by (simp add: writeJSON_def s json_processWrite_def Let_def on)
qed

text \<open>
  C8: A JSON document whose brackets match and whose strings have no quotes in them, of less than
  2 GB, which the controller writes and libjson accepts, is read by the protocol of the other
  side. It may arrive in any non-empty pieces that are safe: the check libjson makes of the
  incomplete text after each block but the last has to stay inside that text, which it does not,
  for one, when a piece ends behind the comma of a member. Then every read before
  the last asks for more, the last one reports the document, as libjson prints it, and nothing
  is left over.
\<close>

theorem json_roundtrip:
  assumes "json_doc d" "length d < 2147483648" "accepted_as used d txt"
    and "writeJSON bt_write d newBufferedTransport = (Inr (), t)"
    and "concat pieces = bt_rest t" "[] \<notin> set pieces" "cuts_safe [] (concat (map blocks pieces))"
  shows "\<exists>j. json_arrive used pieces newJSONProtocol = Some (replicate (length pieces - 1) (Inr False) @ [Inr True], j)
    \<and> js_internal j = txt \<and> json_remainingBufferSize j = 0"
proof -
  have "bt_write d newBufferedTransport = (Inr (int (length d)), newBufferedTransport\<lparr>bt_buf := d\<rparr>)"
    using assms(2) by (simp add: bt_write_def newBufferedTransport_def)
  from writeJSON_bytes [of d bt_write, OF assms(1,2) this] assms(4)
  have "bt_rest t = d" by (auto simp: bt_rest_def newBufferedTransport_def)
  then have d: "d = [] @ concat pieces" using assms(5) by simp
  then have "pieces \<noteq> []" using json_doc_length [OF assms(1)] by auto
  from json_arrive_doc [OF assms(1,3) d this assms(6) fresh_new assms(2,7)] show ?thesis
    by (auto simp: json_remainingBufferSize_def)
qed

text \<open>The documents of the witnesses.\<close>

lemma json_write_unfetched:
  "\<not> jd_fetched (jn_data n) \<Longrightarrow> isContainer n \<Longrightarrow> json_write used n = Inr (unmark used (jd_string (jn_data n)))"
  by (simp add: json_write_def write_node.simps [of used None] WriteComment_def WriteName_def)

lemma newInternal_root_container:
  assumes "hd s = LBrace \<or> hd s = LBracket" "s \<noteq> []"
  shows "isContainer (newInternal_root s)" "\<not> jd_fetched (jn_data (newInternal_root s))"
    "jd_string (jn_data (newInternal_root s)) = s"
  using assms by (cases s; auto simp: newInternal_root_def isContainer_def newInternal_def)+

lemma accepted_examples:
  "accepted_as False [91, 49, 44, 34, 93, 34, 93] [91, 49, 44, 34, 93, 34, 93]"
  "accepted_as False [91, 49, 93] [91, 49, 93]"
proof -
  have "json_parse [91, 49, 44, 34, 93, 34, 93] = Inr (newInternal_root [91, 49, 44, 34, 93, 34, 93], False)"
    "json_parse [91, 49, 93] = Inr (newInternal_root [91, 49, 93], False)"
    by code_simp+
  then show "accepted_as False [91, 49, 44, 34, 93, 34, 93] [91, 49, 44, 34, 93, 34, 93]"
    "accepted_as False [91, 49, 93] [91, 49, 93]"
    unfolding accepted_as_def by (auto simp: json_write_unfetched newInternal_root_container unmark_def)
qed

lemma cut_examples: "cut_safe [91, 49]" "cut_safe [91, 49, 44, 34, 93]"
  unfolding cut_safe_def by (rule exI; code_simp)+

theorem json_roundtrip_witness:
  "\<exists>j. json_arrive False [[91, 49], [44, 34, 93], [34, 93]] newJSONProtocol = Some ([Inr False, Inr False, Inr True], j)
    \<and> js_internal j = [91, 49, 44, 34, 93, 34, 93] \<and> json_remainingBufferSize j = 0"
proof -
  have "json_inside (49 # 44 # Quote # [93] @ Quote # [])"
    by (intro inside_plain inside_string inside_Nil) simp_all
  then have doc: "json_doc [91, 49, 44, 34, 93, 34, 93]" using doc_array by fastforce
  have "writeJSON bt_write [91, 49, 44, 34, 93, 34, 93] newBufferedTransport
      = (Inr (), newBufferedTransport\<lparr>bt_buf := [91, 49, 44, 34, 93, 34, 93]\<rparr>)"
    by (rule writeJSON_bytes [OF doc]) (simp_all add: bt_write_def newBufferedTransport_def)
  note w = this
  have cuts: "cuts_safe [] (concat (map blocks [[91, 49], [44, 34, 93], [34, 93]]))"
    using cut_examples by (simp add: JSON_STREAM_SIZE_def)
  from json_roundtrip [OF doc _ accepted_examples(1) w _ _ cuts] show ?thesis
    by (simp add: bt_rest_def newBufferedTransport_def numeral_2_eq_2 del: json_arrive.simps)
qed

section \<open>A second document\<close>

text \<open>
  C29: When a second document arrives together with the first, in one block of 1024 bytes, the first
  is read and the second is left over, but the pointer to what is left over is as many bytes too
  low as the second document is long: the next protocol is given the end of the first document
  again (all of it, if they are equally long), or memory in front of the buffer, and never the
  second document.
\<close>

theorem json_second_document_lost:
  assumes "json_doc a" "json_doc b" "length (a @ b) \<le> 1024" "accepted_as used a txt"
  shows "\<exists>j. json_arrive used [a @ b] newJSONProtocol = Some ([Inr True], j) \<and> js_internal j = txt
    \<and> json_remainingBufferSize j = length b
    \<and> bt_mem (js_readBuffer j) (json_remainingBufferPtr j) (length b)
        = (if length b \<le> length a then Inr (drop (length a - length b) a) else Inl (Undef ''read outside the buffer''))"
proof -
  let ?j = "makeStream (json_addToReadingBuffer (a @ b) newJSONProtocol)"
  have "length ([]::bytes) + length (a @ b) < 2147483648" using assms(3) by simp
  note add = json_add [OF fresh_new this]
  have ok: "bt_ok (js_readBuffer ?j)" "js_stream ?j = Some []" and r: "bt_rest (js_readBuffer ?j) = a @ b"
    and buf: "bt_buf (js_readBuffer ?j) = a @ b"
    using add by (auto simp: waiting_with_def)
  have pos: "bt_pos (js_readBuffer ?j) = 0"
    by (simp add: json_addToReadingBuffer_def newJSONProtocol_def bt_write_def newBufferedTransport_def)
  have t: "take JSON_STREAM_SIZE (a @ b) = a @ b" using assms(3) by (simp add: JSON_STREAM_SIZE_def)
  have ne: "0 < length a" "0 < length b" using json_doc_length assms(1,2) by fastforce+
  have p: "stream_push used (take JSON_STREAM_SIZE (bt_rest (js_readBuffer ?j))) ?j
      = (Inr (), (parsingSucc txt (length b) ?j)\<lparr>js_stream := Some b\<rparr>)"
    by (rule stream_push_doc [OF assms(1,4) _ ok(2)]) (simp only: r t append_Nil)
  have m: "min JSON_STREAM_SIZE (length (a @ b)) = length (a @ b)" using assms(3) by (simp add: JSON_STREAM_SIZE_def)
  have nil: "bt_rest (js_readBuffer ?j) \<noteq> []" using r ne by auto
  define j2 where "j2 = (parsingSucc txt (length b) ?j)\<lparr>js_stream := Some b,
      js_readBuffer := bt_advance (length a) (js_readBuffer ?j)\<rparr>"
  have l: "json_read_loop used ?j = Some (Inr True, j2)"
    using json_read_round [OF ok(1) nil p] m r
    by (simp add: parsingSucc_def Let_def j2_def del: makeStream_fields)
  have ptr: "json_remainingBufferPtr j2 = int (length a) - int (length b)"
    by (simp add: json_remainingBufferPtr_def j2_def parsingSucc_def bt_currentPtr_def bt_advance_ok pos
        del: makeStream_fields)
  have "bt_mem (js_readBuffer j2) (int (length a) - int (length b)) (length b)
      = (if length b \<le> length a then Inr (drop (length a - length b) a) else Inl (Undef ''read outside the buffer''))"
    using ne buf by (auto simp: j2_def bt_mem_def bt_advance_ok nat_diff_distrib simp del: makeStream_fields)
  then show ?thesis using l ptr
    by (simp add: json_processRead_def json_catch_def json_remainingBufferSize_def)
      (simp add: j2_def parsingSucc_def)
qed

theorem json_second_document_lost_witness:
  "\<exists>j. json_arrive False [[91, 49, 93, 91, 50, 93]] newJSONProtocol = Some ([Inr True], j)
    \<and> bt_mem (js_readBuffer j) (json_remainingBufferPtr j) 3 = Inr [91, 49, 93]"
proof -
  have "json_inside [49]" "json_inside [50]" by (intro inside_plain inside_Nil; simp)+
  then have "json_doc [91, 49, 93]" "json_doc [91, 50, 93]" using doc_array by fastforce+
  from json_second_document_lost [OF this _ accepted_examples(2)] show ?thesis
    by (auto simp: numeral_3_eq_3 simp del: json_arrive.simps)
qed

end
