(* ===== verification/JsonTree.thy ===== *)
theory JsonTree
  imports JsonNode JsonSpec
begin

text \<open>
  Values, the nodes a program builds for them and the text these are written as; what removing
  white space makes of that text, and that a scan passes over the text of a value.
\<close>

section \<open>Values\<close>

datatype jvalue =
    VNull
  | VBool bool
  | VInt int
  | VString bytes
  | VArray "jvalue list"
  | VObject "(bytes \<times> jvalue) list"

text \<open>The values the theorems speak about: names and strings without NUL, numbers a \<open>long\<close> can hold.\<close>

fun value_ok :: "jvalue \<Rightarrow> bool" where
  "value_ok (VInt i) \<longleftrightarrow> \<bar>i\<bar> < 9223372036854775808"
| "value_ok (VString s) \<longleftrightarrow> 0 \<notin> set s"
| "value_ok (VArray vs) \<longleftrightarrow> list_all value_ok vs"
| "value_ok (VObject kvs) \<longleftrightarrow> list_all (\<lambda>kv. 0 \<notin> set (fst kv) \<and> value_ok (snd kv)) kvs"
| "value_ok _ \<longleftrightarrow> True"

fun container_value :: "jvalue \<Rightarrow> bool" where
  "container_value (VArray vs) = True"
| "container_value (VObject kvs) = True"
| "container_value _ = False"

text \<open>How a program builds it: a node for every part, pushed back in order.\<close>

definition push_all :: "jnode list \<Rightarrow> jnode \<Rightarrow> jnode" where
  "push_all cs n = fold json_push_back cs n"

fun build :: "jvalue \<Rightarrow> jnode" where
  "build VNull = Nullify (newInternal JSON_NULL)"
| "build (VBool b) = Set_bool b (newInternal JSON_NULL)"
| "build (VInt i) = projr (Set_int i (newInternal JSON_NULL))"
| "build (VString s) = Set_string s (newInternal JSON_NULL)"
| "build (VArray vs) = push_all (map build vs) (newInternal JSON_ARRAY)"
| "build (VObject kvs) = push_all (map (\<lambda>kv. setname (fst kv) (build (snd kv))) kvs) (newInternal JSON_NODE)"

definition number_text :: "int \<Rightarrow> bytes" where
  "number_text i = (if i < 0 then 45 # digit_loop (nat (- i)) [] else digit_loop (nat i) [])"

text \<open>A fetched tree represents a value.\<close>

fun represents :: "jvalue \<Rightarrow> jnode \<Rightarrow> bool" where
  "represents VNull n \<longleftrightarrow> jn_type n = JSON_NULL"
| "represents (VBool b) n \<longleftrightarrow> jn_type n = JSON_BOOL \<and> jd_bool (jn_data n) = b"
| "represents (VInt i) n \<longleftrightarrow> jn_type n = JSON_NUMBER \<and> jd_number (jn_data n) = Some (number_text i)"
| "represents (VString s) n \<longleftrightarrow> jn_type n = JSON_STRING \<and> jd_string (jn_data n) = s"
| "represents (VArray vs) n \<longleftrightarrow> jn_type n = JSON_ARRAY \<and> list_all2 represents vs (jn_children n)"
| "represents (VObject kvs) n \<longleftrightarrow> jn_type n = JSON_NODE
     \<and> list_all2 (\<lambda>kv c. jd_name (jn_data c) = fst kv \<and> represents (snd kv) c) kvs (jn_children n)"

section \<open>The text of a value\<close>

fun joined :: "bytes list \<Rightarrow> bytes" where
  "joined [] = []"
| "joined [t] = t"
| "joined (t # u # ts) = t @ Comma # joined (u # ts)"

definition quoted :: "(byte \<Rightarrow> bytes) \<Rightarrow> bytes \<Rightarrow> bytes" where
  "quoted esc s = Quote # concat (map esc s) @ [Quote]"

definition member_text :: "(byte \<Rightarrow> bytes) \<Rightarrow> bytes \<Rightarrow> bytes \<Rightarrow> bytes" where
  "member_text esc k t = quoted esc k @ Colon # t"

fun render :: "(byte \<Rightarrow> bytes) \<Rightarrow> jvalue \<Rightarrow> bytes" where
  "render esc VNull = text_of ''null''"
| "render esc (VBool b) = text_of (if b then ''true'' else ''false'')"
| "render esc (VInt i) = number_text i"
| "render esc (VString s) = quoted esc s"
| "render esc (VArray vs) = LBracket # joined (map (render esc) vs) @ [RBracket]"
| "render esc (VObject kvs) = LBrace # joined (map (\<lambda>kv. member_text esc (fst kv) (render esc (snd kv))) kvs) @ [RBrace]"

lemma push_all_children:
  "isContainer n \<Longrightarrow> push_all cs n = JNode (jn_data n) (jn_children n @ cs)"
  by (induction cs arbitrary: n) (auto simp: push_all_def json_push_back_def isContainer_def)

lemma text_of_literals [simp]:
  "text_of ''null'' = [110, 117, 108, 108]" "text_of ''true'' = [116, 114, 117, 101]"
  "text_of ''false'' = [102, 97, 108, 115, 101]"
  by (simp_all add: text_of_def)

section \<open>Numbers\<close>

definition digit :: "nat \<Rightarrow> byte" where
  "digit n = word_of_nat (n mod 10) + 48"

lemma digit_bounds: "48 \<le> digit n" "digit n \<le> 57" "n mod 10 \<noteq> 0 \<Longrightarrow> 49 \<le> digit n"
proof -
  have "n mod 10 < 10" by simp
  then have m: "n mod 10 \<in> {0, 1, 2, 3, 4, 5, 6, 7, 8, 9}" by (simp, presburger)
  show "48 \<le> digit n" "digit n \<le> 57" "n mod 10 \<noteq> 0 \<Longrightarrow> 49 \<le> digit n"
    using m unfolding digit_def by auto
qed

lemma digit_loop_append: "digit_loop n res = digit_loop n [] @ res"
proof (induction n arbitrary: res rule: less_induct)
  case (less n)
  show ?case
  proof (cases "n div 10 = 0")
    case False
    then have "n div 10 < n" by (cases n) auto
    from less [OF this, of "digit n # res"] less [OF this, of "[digit n]"] show ?thesis
      using False by (simp add: digit_loop.simps [of n] Let_def digit_def)
  qed (simp add: digit_loop.simps [of n] Let_def)
qed

lemma digit_loop_digits: "digit_loop n [] \<noteq> [] \<and> list_all is_digit (digit_loop n []) \<and> (n \<noteq> 0 \<longrightarrow> 49 \<le> hd (digit_loop n []))"
proof (induction n rule: less_induct)
  case (less n)
  have d: "is_digit (digit n)" using digit_bounds [of n] by (simp add: is_digit_def)
  show ?case
  proof (cases "n div 10 = 0")
    case True
    then have "n mod 10 = n" by simp
    then show ?thesis using True d digit_bounds(3) [of n]
      by (simp add: digit_loop.simps [of n] Let_def digit_def)
  next
    case False
    then have l: "n div 10 < n" by (cases n) auto
    have "digit_loop n [] = digit_loop (n div 10) [] @ [digit n]"
      using False digit_loop_append [of "n div 10" "[digit n]"]
      by (simp add: digit_loop.simps [of n] Let_def digit_def)
    then show ?thesis using less [OF l] d False by auto
  qed
qed

lemma digit_loop_0: "digit_loop 0 [] = [48]"
  by (simp add: digit_loop.simps [of 0])

lemma num_loop_digits: "list_all is_digit s \<Longrightarrow> num_loop f g s"
  by (induction s) (auto simp: is_digit_def)

definition number_char :: "byte \<Rightarrow> bool" where
  "number_char c \<longleftrightarrow> c = 45 \<or> is_digit c"

lemma number_text_chars: "number_text i \<noteq> []" "list_all number_char (number_text i)"
  using digit_loop_digits [of "nat i"] digit_loop_digits [of "nat (- i)"]
  by (auto simp: number_text_def number_char_def list_all_iff)

lemma number_char_cases:
  "number_char c \<Longrightarrow> 32 < c \<and> c < 126 \<and> c \<notin> {0, Quote, Hash, Slash, Comma, Colon, LBracket, RBracket, LBrace, RBrace}"
  using less_le_trans [of Blank 48 c] le_less_trans [of c 57 126]
  by (auto simp: number_char_def is_digit_def)

lemma number_text_no_nul: "0 \<notin> set (number_text i)"
  using number_text_chars(2) [of i] number_char_cases by (auto simp: list_all_iff)

lemma isNumeric_number_text: "isNumeric (number_text i)"
proof -
  have "isNumeric (45 # s)" if "list_all is_digit s" "0 \<notin> set s" for s
    using that by (simp add: isNumeric_def c_text_id num_loop_digits)
  moreover have "isNumeric s" if "s \<noteq> []" "list_all is_digit s" "49 \<le> hd s" "0 \<notin> set s" for s
    using that by (cases s) (auto simp: isNumeric_def c_text_id num_loop_digits is_digit_def)
  moreover have "isNumeric [48]" by (simp add: isNumeric_def)
  ultimately show ?thesis
    using number_text_no_nul [of i] digit_loop_digits [of "nat i"] digit_loop_digits [of "nat (- i)"]
    by (cases "i = 0") (auto simp: number_text_def digit_loop_0 split: if_splits)
qed

lemma itoa_number_text: "\<bar>i\<bar> < 9223372036854775808 \<Longrightarrow> itoa i = Inr (number_text i)"
  by (auto simp: itoa_def number_text_def)

section \<open>Writing a value\<close>

lemma Fetch_fetched: "jd_fetched (jn_data n) \<Longrightarrow> Fetch n = Inr n"
  by (simp add: Fetch_def)

lemma WriteComment_None [simp]: "WriteComment None c = []"
  by (simp add: WriteComment_def)

lemma write_named:
  assumes "jd_fetched (jn_data n)" "0 \<notin> set k" "write_node used None True n = Inr t"
  shows "write_node used None False (setname k n) = Inr (member_text escape_char k t)"
  using assms
  by (cases "jn_type n"; cases "write_list used None (jn_type n = JSON_ARRAY) (jn_children n)")
    (auto simp: write_node.simps [of used None] setname_def Let_def WriteName_def UnfixString_def c_text_id
      member_text_def quoted_def Fetch_fetched split: sum.splits if_splits)

lemma write_list_joined:
  "list_all2 (\<lambda>c t. write_node used None arr c = Inr t) cs ts \<Longrightarrow> write_list used None arr cs = Inr (joined ts)"
proof (induction rule: list_all2_induct)
  case (Cons c cs t ts)
  then show ?case by (cases ts) auto
qed simp

lemma write_container:
  assumes "jd_fetched (jn_data n)" "isContainer n"
    and "list_all2 (\<lambda>c t. write_node used None (jn_type n = JSON_ARRAY) c = Inr t) (jn_children n) ts"
  shows "write_node used None True n = Inr ((if jn_type n = JSON_ARRAY then LBracket else LBrace) # joined ts
    @ [if jn_type n = JSON_ARRAY then RBracket else RBrace])"
proof (cases "jn_children n = []")
  case True
  then show ?thesis using assms
    by (auto simp: write_node.simps [of used None] Fetch_fetched isContainer_def WriteName_def)
next
  case False
  then show ?thesis using assms write_list_joined [OF assms(3)]
    by (auto simp: write_node.simps [of used None] Fetch_fetched isContainer_def WriteName_def)
qed

lemma newInternal_simps [simp]:
  "jn_type (newInternal ty) = ty" "jd_fetched (jn_data (newInternal ty))" "jn_children (newInternal ty) = []"
  "isContainer (newInternal JSON_ARRAY)" "isContainer (newInternal JSON_NODE)"
  by (simp_all add: newInternal_def isContainer_def)

lemma snd_in_snds: "snd kv \<in> Basic_BNFs.snds kv"
  by (cases kv) (simp add: prod_set_simps)

lemma write_build: "value_ok v \<Longrightarrow> jd_fetched (jn_data (build v))
    \<and> write_node used None True (build v) = Inr (render escape_char v)"
proof (induction v)
  case VNull
  then show ?case by (simp add: write_node.simps [of used None] Nullify_def nullified_def WriteName_def)
next
  case (VBool b)
  then show ?case by (simp add: write_node.simps [of used None] Set_bool_def WriteName_def)
next
  case (VInt i)
  then show ?case by (simp add: write_node.simps [of used None] Set_int_def itoa_number_text WriteName_def)
next
  case (VString s)
  then show ?case
    by (simp add: write_node.simps [of used None] Set_string_def WriteName_def UnfixString_def c_text_id quoted_def)
next
  case (VArray vs)
  have "list_all2 (\<lambda>c t. write_node used None True c = Inr t) (map build vs) (map (render escape_char) vs)"
    using VArray by (auto simp: list_all2_map1 list_all2_map2 list_all2_same list_all_iff)
  then show ?case
    using write_container [of "build (VArray vs)" used] by (simp add: push_all_children isContainer_def)
next
  case (VObject kvs)
  have "list_all2 (\<lambda>c t. write_node used None False c = Inr t)
      (map (\<lambda>kv. setname (fst kv) (build (snd kv))) kvs)
      (map (\<lambda>kv. member_text escape_char (fst kv) (render escape_char (snd kv))) kvs)"
    unfolding list_all2_map1 list_all2_map2 list_all2_same
  proof
    fix kv assume kv: "kv \<in> set kvs"
    then have "jd_fetched (jn_data (build (snd kv)))
        \<and> write_node used None True (build (snd kv)) = Inr (render escape_char (snd kv))"
      using VObject.IH [OF kv snd_in_snds] VObject.prems by (simp add: list_all_iff)
    then show "write_node used None False (setname (fst kv) (build (snd kv)))
        = Inr (member_text escape_char (fst kv) (render escape_char (snd kv)))"
      using write_named kv VObject.prems by (auto simp: list_all_iff)
  qed
  then show ?case
    using write_container [of "build (VObject kvs)" used] by (simp add: push_all_children isContainer_def)
qed

section \<open>Removing white space\<close>

fun has_quote :: "jvalue \<Rightarrow> bool" where
  "has_quote (VString s) \<longleftrightarrow> Quote \<in> set s"
| "has_quote (VArray vs) \<longleftrightarrow> list_ex has_quote vs"
| "has_quote (VObject kvs) \<longleftrightarrow> list_ex (\<lambda>kv. Quote \<in> set (fst kv) \<or> has_quote (snd kv)) kvs"
| "has_quote _ \<longleftrightarrow> False"

fun strings :: "jvalue \<Rightarrow> bytes set" where
  "strings (VString s) = {s}"
| "strings (VArray vs) = (\<Union>v\<in>set vs. strings v)"
| "strings (VObject kvs) = (\<Union>kv\<in>set kvs. insert (fst kv) (strings (snd kv)))"
| "strings _ = {}"

lemma value_ok_strings: "value_ok v \<Longrightarrow> s \<in> strings v \<Longrightarrow> 0 \<notin> set s"
proof (induction v)
  case (VObject kvs)
  then show ?case using VObject.IH [OF _ snd_in_snds] by (auto simp: list_all_iff)
qed (auto simp: list_all_iff)

lemma has_quote_strings: "has_quote v \<longleftrightarrow> (\<exists>s\<in>strings v. Quote \<in> set s)"
proof (induction v)
  case (VObject kvs)
  show ?case using VObject.IH [OF _ snd_in_snds] by (auto simp: list_ex_iff)
qed (auto simp: list_ex_iff)

text \<open>\<open>s\<close> is turned into \<open>t\<close>, whatever follows; \<open>esc\<close> is whether escaped quotes are marked.\<close>

definition strips :: "bool \<Rightarrow> bytes \<Rightarrow> bytes \<Rightarrow> bool \<Rightarrow> bool" where
  "strips esc s t u \<longleftrightarrow> (\<forall>r. ws_loop esc (s @ r) = put_text t u (ws_loop esc r))"

definition copied_char :: "byte \<Rightarrow> bool" where
  "copied_char c \<longleftrightarrow> 32 < c \<and> c \<le> 126 \<and> c \<notin> {Quote, Hash, Slash}"

lemma put_text_Nil [simp]: "put_text [] False r = r"
  by (cases r) auto

lemma strips_append: "strips esc s t u \<Longrightarrow> strips esc s' t' u' \<Longrightarrow> strips esc (s @ s') (t @ t') (u \<or> u')"
  by (simp add: strips_def)

lemma strips_copied: "list_all copied_char s \<Longrightarrow> strips esc s s False"
proof (induction s)
  case (Cons c s)
  then show ?case by (auto simp: strips_def copied_char_def)
qed (simp add: strips_def)

lemma strips_structure [simp]:
  "strips esc [LBracket] [LBracket] False" "strips esc [RBracket] [RBracket] False"
  "strips esc [LBrace] [LBrace] False" "strips esc [RBrace] [RBrace] False"
  "strips esc [Comma] [Comma] False" "strips esc [Colon] [Colon] False"
  by (rule strips_copied; simp add: copied_char_def)+

lemma strips_quoted: "0 \<notin> set s \<Longrightarrow> strips True (quoted escape_char s) (quoted stripped_char s) (Quote \<in> set s)"
  by (simp add: strips_def quoted_def ws_quote_escapes)

lemma ws_quote_raw_escape:
  "c \<noteq> 0 \<Longrightarrow> c \<noteq> Quote \<Longrightarrow> ws_quote False (escape_char c @ t) = put_text (escape_char c) False (ws_quote False t)"
  using hex_upper_plain [OF nibbles(1) [of c]] hex_upper_plain [OF nibbles(2) [of c]]
  by (auto simp: escape_char_def toUTF8_def plain_char_def)

lemma ws_quote_raw:
  "0 \<notin> set s \<Longrightarrow> Quote \<notin> set s \<Longrightarrow> ws_quote False (concat (map escape_char s) @ t)
    = put_text (concat (map escape_char s)) False (ws_quote False t)"
  by (induction s) (auto simp: ws_quote_raw_escape)

lemma strips_quoted_raw:
  "0 \<notin> set s \<Longrightarrow> Quote \<notin> set s \<Longrightarrow> strips False (quoted escape_char s) (quoted escape_char s) False"
  by (simp add: strips_def quoted_def ws_quote_raw)

lemma strips_joined:
  "list_all2 (\<lambda>s t. strips esc s (fst t) (snd t)) ss ts \<Longrightarrow>
    strips esc (joined ss) (joined (map fst ts)) (list_ex snd ts)"
proof (induction rule: list_all2_induct)
  case (Cons s ss t ts)
  show ?case
  proof (cases ts)
    case Nil
    then show ?thesis using Cons by simp
  next
    case (Cons t' ts')
    then obtain s' ss' where "ss = s' # ss'" using \<open>list_all2 _ ss ts\<close> by (cases ss) auto
    then show ?thesis
      using strips_append [OF \<open>strips esc s (fst t) (snd t)\<close> strips_append [OF strips_structure(5) Cons.IH]] Cons by simp
  qed
qed (simp add: strips_def)

lemma strips_member:
  "strips esc (quoted escape_char k) (quoted f k) u \<Longrightarrow> strips esc s t u' \<Longrightarrow>
    strips esc (member_text escape_char k s) (member_text f k t) (u \<or> u')"
  using strips_append [OF _ strips_append [OF strips_structure(6)]] by (fastforce simp: member_text_def)

lemma strips_members:
  assumes "\<And>kv. kv \<in> set kvs \<Longrightarrow> strips esc (quoted escape_char (fst kv)) (quoted f (fst kv)) (Quote \<in> set (fst kv))"
    and "\<And>kv. kv \<in> set kvs \<Longrightarrow> strips esc (render escape_char (snd kv)) (render f (snd kv)) (has_quote (snd kv))"
  shows "strips esc (joined (map (\<lambda>kv. member_text escape_char (fst kv) (render escape_char (snd kv))) kvs))
    (joined (map (\<lambda>kv. member_text f (fst kv) (render f (snd kv))) kvs)) (has_quote (VObject kvs))"
proof -
  have "list_all2 (\<lambda>s t. strips esc s (fst t) (snd t))
      (map (\<lambda>kv. member_text escape_char (fst kv) (render escape_char (snd kv))) kvs)
      (map (\<lambda>kv. (member_text f (fst kv) (render f (snd kv)), Quote \<in> set (fst kv) \<or> has_quote (snd kv))) kvs)"
    unfolding list_all2_map1 list_all2_map2 list_all2_same fst_conv snd_conv
    using assms by (auto intro: strips_member)
  from strips_joined [OF this] show ?thesis by (simp add: list_ex_iff comp_def)
qed

lemma strips_render:
  "(\<And>s. s \<in> strings v \<Longrightarrow> strips esc (quoted escape_char s) (quoted f s) (Quote \<in> set s)) \<Longrightarrow>
    strips esc (render escape_char v) (render f v) (has_quote v)"
proof (induction v)
  case VNull
  show ?case using strips_copied [of "text_of ''null''"] by (simp add: copied_char_def)
next
  case (VBool b)
  show ?case using strips_copied [of "text_of (if b then ''true'' else ''false'')"] by (auto simp: copied_char_def)
next
  case (VInt i)
  have "list_all copied_char (number_text i)"
    using number_text_chars(2) [of i] number_char_cases by (fastforce simp: list_all_iff copied_char_def)
  then show ?case using strips_copied by simp
next
  case (VString s)
  then show ?case by simp
next
  case (VArray vs)
  have "list_all2 (\<lambda>s t. strips esc s (fst t) (snd t)) (map (render escape_char) vs) (map (\<lambda>v. (render f v, has_quote v)) vs)"
    using VArray by (auto simp: list_all2_map1 list_all2_map2 list_all2_same)
  from strips_append [OF strips_structure(1) strips_append [OF strips_joined [OF this] strips_structure(2)]] show ?case
    by (simp add: list_ex_iff comp_def)
next
  case (VObject kvs)
  have "strips esc (joined (map (\<lambda>kv. member_text escape_char (fst kv) (render escape_char (snd kv))) kvs))
      (joined (map (\<lambda>kv. member_text f (fst kv) (render f (snd kv))) kvs)) (has_quote (VObject kvs))"
    using VObject.IH [OF _ snd_in_snds] VObject.prems by (intro strips_members) auto
  from strips_append [OF strips_structure(3) strips_append [OF this strips_structure(4)]] show ?case by simp
qed

lemma strips_value: "value_ok v \<Longrightarrow> strips True (render escape_char v) (render stripped_char v) (has_quote v)"
  by (rule strips_render) (simp add: strips_quoted value_ok_strings)

lemma strips_value_raw:
  assumes "value_ok v" "\<not> has_quote v"
  shows "strips False (render escape_char v) (render escape_char v) False"
proof -
  have "strips False (render escape_char v) (render escape_char v) (has_quote v)"
    using assms by (intro strips_render) (auto simp: strips_quoted_raw value_ok_strings has_quote_strings)
  then show ?thesis using assms(2) by simp
qed

section \<open>Scanning a value\<close>

lemma json_inside_append: "json_inside u \<Longrightarrow> json_inside v \<Longrightarrow> json_inside (u @ v)"
  by (induction rule: json_inside.induct) (auto intro: json_inside.intros)

lemma json_inside_no_nul: "json_inside u \<Longrightarrow> 0 \<notin> set u"
  by (induction rule: json_inside.induct) auto

lemma stripped_char_clean: "Quote \<notin> set (stripped_char c)" "c \<noteq> 0 \<Longrightarrow> 0 \<notin> set (stripped_char c)"
  using hex_upper_plain [OF nibbles(1) [of c]] hex_upper_plain [OF nibbles(2) [of c]]
  by (auto simp: stripped_char_def escape_char_def toUTF8_def plain_char_def)

lemma stripped_text_clean:
  "0 \<notin> set s \<Longrightarrow> 0 \<notin> set (concat (map stripped_char s))" "Quote \<notin> set (concat (map stripped_char s))"
  by (induction s) (auto simp: stripped_char_clean)

lemma json_inside_quoted: "0 \<notin> set s \<Longrightarrow> json_inside (quoted stripped_char s)"
  using inside_string [OF stripped_text_clean(1) stripped_text_clean(2) inside_Nil, of s]
  by (simp add: quoted_def)

lemma json_inside_plain:
  "list_all (\<lambda>c. c \<notin> {0, Quote, LBracket, RBracket, LBrace, RBrace}) u \<Longrightarrow> json_inside u"
  by (induction u) (auto intro: inside_plain inside_Nil)

lemma json_inside_joined: "list_all json_inside ts \<Longrightarrow> json_inside (joined ts)"
proof (induction ts rule: joined.induct)
  case (3 t u ts)
  then show ?case by (auto intro!: json_inside_append intro: inside_plain)
qed (auto intro: inside_Nil)

lemma json_inside_member: "0 \<notin> set k \<Longrightarrow> json_inside t \<Longrightarrow> json_inside (member_text stripped_char k t)"
  unfolding member_text_def by (intro json_inside_append json_inside_quoted inside_plain) auto

lemma json_inside_value: "value_ok v \<Longrightarrow> json_inside (render stripped_char v)"
proof (induction v)
  case (VInt i)
  have "list_all (\<lambda>c. c \<notin> {0, Quote, LBracket, RBracket, LBrace, RBrace}) (number_text i)"
    using number_text_chars(2) [of i] number_char_cases by (fastforce simp: list_all_iff)
  then show ?case using json_inside_plain by simp
next
  case (VArray vs)
  then have "json_inside (joined (map (render stripped_char) vs))"
    by (intro json_inside_joined) (auto simp: list_all_iff)
  from inside_array [OF this inside_Nil] show ?case by simp
next
  case (VObject kvs)
  have "json_inside (joined (map (\<lambda>kv. member_text stripped_char (fst kv) (render stripped_char (snd kv))) kvs))"
    using VObject.IH [OF _ snd_in_snds] VObject.prems
    by (intro json_inside_joined) (auto simp: list_all_iff intro!: json_inside_member)
  from inside_object [OF this inside_Nil] show ?case by simp
qed (auto intro: json_inside_plain json_inside_quoted)

text \<open>A scan for a comma or a colon passes over a value.\<close>

definition skips :: "byte \<Rightarrow> bytes \<Rightarrow> bool" where
  "skips ch t \<longleftrightarrow> (\<forall>y. find_next ch (t @ y) = find_next ch y)"

lemma skips_append: "skips ch s \<Longrightarrow> skips ch t \<Longrightarrow> skips ch (s @ t)"
  by (simp add: skips_def)

lemma skips_plain:
  "list_all (\<lambda>c. c \<notin> {0, ch, Quote, LBracket, RBracket, LBrace, RBrace}) t \<Longrightarrow> skips ch t"
  by (induction t) (auto simp: skips_def)

lemma skips_quoted:
  "0 \<notin> set s \<Longrightarrow> ch \<in> {Comma, Colon} \<Longrightarrow> skips ch (quoted stripped_char s)"
  using quote_scan_string [OF stripped_text_clean(1) stripped_text_clean(2), of s]
  by (auto simp: skips_def quoted_def)

lemma skips_container:
  "json_inside u \<Longrightarrow> ch \<in> {Comma, Colon} \<Longrightarrow> skips ch (LBracket # u @ [RBracket])"
  "json_inside u \<Longrightarrow> ch \<in> {Comma, Colon} \<Longrightarrow> skips ch (LBrace # u @ [RBrace])"
  using bracket_scan_inside [of u LBracket RBracket 0] bracket_scan_inside [of u LBrace RBrace 0]
  by (auto simp: skips_def)

lemma skips_value: "value_ok v \<Longrightarrow> ch \<in> {Comma, Colon} \<Longrightarrow> skips ch (render stripped_char v)"
proof (cases v)
  case VNull
  assume "ch \<in> {Comma, Colon}"
  then show ?thesis using VNull by (auto intro!: skips_plain)
next
  case (VBool b)
  assume "ch \<in> {Comma, Colon}"
  then show ?thesis using VBool by (auto intro!: skips_plain)
next
  case (VInt i)
  assume "ch \<in> {Comma, Colon}"
  then have "list_all (\<lambda>c. c \<notin> {0, ch, Quote, LBracket, RBracket, LBrace, RBrace}) (number_text i)"
    using number_text_chars(2) [of i] number_char_cases by (fastforce simp: list_all_iff)
  then show ?thesis using VInt skips_plain by simp
next
  case (VString s)
  assume "value_ok v" "ch \<in> {Comma, Colon}"
  then show ?thesis using VString skips_quoted by simp
next
  case (VArray vs)
  assume a: "value_ok v" "ch \<in> {Comma, Colon}"
  then have "json_inside (joined (map (render stripped_char) vs))"
    using VArray json_inside_value by (intro json_inside_joined) (auto simp: list_all_iff)
  then show ?thesis using VArray skips_container(1) a(2) by simp
next
  case (VObject kvs)
  assume a: "value_ok v" "ch \<in> {Comma, Colon}"
  then have "json_inside (joined (map (\<lambda>kv. member_text stripped_char (fst kv) (render stripped_char (snd kv))) kvs))"
    using VObject json_inside_value by (intro json_inside_joined) (auto simp: list_all_iff intro!: json_inside_member)
  then show ?thesis using VObject skips_container(2) a(2) by simp
qed

lemma number_text_hd: "number_char (hd (number_text i))"
  using number_text_chars [of i] by (cases "number_text i") auto

lemma render_hd: "render stripped_char v \<noteq> []" "hd (render stripped_char v) \<noteq> Hash"
  using number_text_chars(1) number_char_cases [OF number_text_hd]
  by (cases v; auto simp: quoted_def)+

end
