(* ===== verification/JsonRead.thy ===== *)
theory JsonRead
  imports JsonTree
begin

text \<open>
  What libjson promises: a value that is built with its nodes and written is the value that is
  read back, and a document that is only passed on is passed on as it came; with the protocol
  between, the value arrives at the other side.
\<close>

section \<open>Splitting a value\<close>

definition base_data :: "bytes \<Rightarrow> bool \<Rightarrow> json_data" where
  "base_data name enc =
    (jn_data (newInternal JSON_NULL))\<lparr>jd_name := name, jd_name_encoded := enc, jd_fetched := False\<rparr>"

definition leaf :: "bytes \<Rightarrow> bool \<Rightarrow> bytes \<Rightarrow> jnode" where
  "leaf name enc t = JNode (value_data t (base_data name enc)) []"

lemma value_data_keeps: "jd_comment (value_data t d) = jd_comment d" "jd_name (value_data t d) = jd_name d"
  unfolding value_data_def Let_def
  by (intro if_case [where P = "\<lambda>x. jd_comment x = jd_comment d"]; simp add: nullified_def)
    (intro if_case [where P = "\<lambda>x. jd_name x = jd_name d"]; simp add: nullified_def)

lemma leaf_comment: "on_data (jd_comment_update (\<lambda>_. [])) (leaf name enc t) = leaf name enc t"
  using value_data_keeps(1) [of t "base_data name enc"]
  by (cases "value_data t (base_data name enc)") (simp add: leaf_def on_data_def base_data_def newInternal_def)

definition element_ok :: "bytes \<Rightarrow> bool" where
  "element_ok t \<longleftrightarrow> t \<noteq> [] \<and> hd t \<noteq> Hash \<and> 0 \<notin> set t \<and> skips Comma t \<and> skips Colon t"

lemma strip_no_comment: "s \<noteq> [] \<Longrightarrow> hd s \<noteq> Hash \<Longrightarrow> strip_comment s = Inr ([], s)"
  by (cases s) (auto simp: strip_comment_def)

lemma newInternal_value_leaf:
  "FixString name = Inr (nm, enc) \<Longrightarrow> t \<noteq> [] \<Longrightarrow> newInternal_value name t = Inr (leaf nm enc t)"
  by (simp add: newInternal_value_def leaf_def base_data_def)

lemma NewNode_element:
  "element_ok t \<Longrightarrow> NewNode parent [] t True = Inr (JNode (jn_data parent) (jn_children parent @ [leaf [] False t]))"
  using newInternal_value_leaf [of "[]" "[]" False t]
  by (simp add: NewNode_def element_ok_def c_text_id strip_no_comment FixString_def leaf_comment)

lemma slice_middle: "slice (length pre) (length pre + length t) (pre @ t @ post) = t"
  by (simp add: slice_def)

lemma element_no_colon: "element_ok t \<Longrightarrow> FindNextRelevant Colon t 0 = None"
proof -
  assume "element_ok t"
  then have "find_next Colon (t @ []) = find_next Colon []" unfolding element_ok_def skips_def by blast
  then show ?thesis by (simp add: FindNextRelevant_def)
qed

lemma array_elements:
  "list_all element_ok ts \<Longrightarrow> ts \<noteq> [] \<Longrightarrow>
    array_loop (pre @ joined ts @ [RBracket]) (length pre) parent
      = Inr (JNode (jn_data parent) (jn_children parent @ map (leaf [] False) ts))"
proof (induction ts arbitrary: pre parent rule: joined.induct)
  case (2 t)
  let ?v = "pre @ t @ [RBracket]"
  have "FindNextRelevant Comma ?v (length pre) = None"
    using 2(1) by (simp add: FindNextRelevant_def element_ok_def skips_def)
  moreover have "slice (length pre) (length ?v - 1) ?v = t" using slice_middle by simp
  ultimately show ?case
    using 2(1) by (simp add: array_loop.simps [of ?v] element_no_colon NewNode_element)
next
  case (3 t u ts)
  let ?r = "joined (u # ts) @ [RBracket]"
  let ?v = "pre @ t @ Comma # ?r"
  have t: "element_ok t" using 3(2) by simp
  then have "find_next Comma (t @ Comma # ?r) = Some ?r" by (simp add: element_ok_def skips_def)
  then have f: "FindNextRelevant Comma ?v (length pre) = Some (length pre + length t)"
    by (simp add: FindNextRelevant_def)
  have "slice (length pre) (length pre + length t) ?v = t" by (rule slice_middle)
  then have "array_loop ?v (length pre) parent
      = array_loop ?v (length pre + length t + 1) (JNode (jn_data parent) (jn_children parent @ [leaf [] False t]))"
    using t by (simp add: array_loop.simps [of ?v "length pre"] f element_no_colon NewNode_element)
  also have "\<dots> = Inr (JNode (jn_data parent) (jn_children parent @ map (leaf [] False) (t # u # ts)))"
    using "3.IH" [of "pre @ t @ [Comma]" "JNode (jn_data parent) (jn_children parent @ [leaf [] False t])"] 3(2) by simp
  finally show ?case by simp
qed simp

text \<open>Of a member the name loses its closing quote first and its opening one in \<open>NewNode\<close>.\<close>

definition name_of :: "bytes \<Rightarrow> bytes \<times> bool" where
  "name_of k = projr (FixString (concat (map stripped_char k)))"

lemma name_of: "0 \<notin> set k \<Longrightarrow> FixString (concat (map stripped_char k)) = Inr (name_of k) \<and> fst (name_of k) = k"
  using fix_loop_escapes [of k] stripped_text_clean(1) [of k]
  by (auto simp: name_of_def FixString_def c_text_id)

definition member_leaf :: "bytes \<times> bytes \<Rightarrow> jnode" where
  "member_leaf m = leaf (fst m) (snd (name_of (fst m))) (snd m)"

lemma NewNode_member:
  assumes "0 \<notin> set k" "element_ok t"
  shows "NewNode parent (Quote # concat (map stripped_char k)) t False
    = Inr (JNode (jn_data parent) (jn_children parent @ [member_leaf (k, t)]))"
proof -
  obtain enc where "FixString (concat (map stripped_char k)) = Inr (k, enc)" "snd (name_of k) = enc"
    using name_of [OF assms(1)] by (metis prod.collapse)
  then show ?thesis
    using assms stripped_text_clean(1) [of k]
    by (simp add: NewNode_def c_text_id strip_no_comment element_ok_def newInternal_value_leaf leaf_comment member_leaf_def)
qed

lemma node_step:
  "FindNextRelevant Comma v i = Some j \<Longrightarrow> slice (i + 1) j v = t \<Longrightarrow> NewNode parent name t False = Inr p \<Longrightarrow>
    FindNextRelevant Colon v (j + 1) = Some k \<Longrightarrow> member_name v (j + 1) k = Inr nm \<Longrightarrow>
    node_loop v name i parent = node_loop v nm k p"
  by (simp add: node_loop.simps [of v name i])

abbreviation "mtext m \<equiv> member_text stripped_char (fst m) (snd m)"

lemma object_members:
  "list_all (\<lambda>m. 0 \<notin> set (fst m) \<and> element_ok (snd m)) (m # ms) \<Longrightarrow>
    node_loop (pre @ Colon # snd m @ (if ms = [] then [RBrace] else Comma # joined (map mtext ms) @ [RBrace]))
      (Quote # concat (map stripped_char (fst m))) (length pre) parent
    = Inr (JNode (jn_data parent) (jn_children parent @ map member_leaf (m # ms)))"
proof (induction ms arbitrary: m pre parent)
  case Nil
  let ?v = "pre @ Colon # snd m @ [RBrace]"
  have "FindNextRelevant Comma ?v (length pre) = None"
    using Nil by (simp add: FindNextRelevant_def element_ok_def skips_def)
  moreover have "slice (length pre + 1) (length ?v - 1) ?v = snd m"
    using slice_middle [of "pre @ [Colon]" "snd m" "[RBrace]"] by simp
  ultimately show ?case
    using Nil by (simp add: node_loop.simps [of ?v] NewNode_member)
next
  case (Cons m' ms)
  define tail where "tail = (if ms = [] then [RBrace] else Comma # joined (map mtext ms) @ [RBrace])"
  let ?q = "quoted stripped_char (fst m')"
  let ?r = "?q @ Colon # snd m' @ tail"
  let ?v = "pre @ Colon # snd m @ Comma # ?r"
  let ?p = "JNode (jn_data parent) (jn_children parent @ [member_leaf m])"
  have v: "pre @ Colon # snd m @ (if m' # ms = [] then [RBrace] else Comma # joined (map mtext (m' # ms)) @ [RBrace]) = ?v"
    by (cases ms) (simp_all add: member_text_def tail_def)
  have ok: "0 \<notin> set (fst m)" "element_ok (snd m)" "0 \<notin> set (fst m')" using Cons.prems by auto
  have "find_next Comma (Colon # snd m @ Comma # ?r) = Some ?r" using ok(2) by (simp add: element_ok_def skips_def)
  then have c: "FindNextRelevant Comma ?v (length pre) = Some (length pre + 1 + length (snd m))"
    by (simp add: FindNextRelevant_def)
  have s: "slice (length pre + 1) (length pre + 1 + length (snd m)) ?v = snd m"
    using slice_middle [of "pre @ [Colon]" "snd m"] by simp
  let ?pre = "pre @ Colon # snd m @ [Comma]"
  have v2: "?v = ?pre @ ?r" by simp
  have "find_next Colon ?r = Some (snd m' @ tail)"
    using skips_quoted [OF ok(3), of Colon] by (simp add: skips_def)
  then have n: "FindNextRelevant Colon ?v (length ?pre) = Some (length ?pre + length ?q)"
    unfolding v2 by (simp add: FindNextRelevant_def)
  have nm: "member_name ?v (length ?pre) (length ?pre + length ?q) = Inr (Quote # concat (map stripped_char (fst m')))"
    unfolding v2 member_name_def slice_def by (simp add: quoted_def)
  have N: "NewNode parent (Quote # concat (map stripped_char (fst m))) (snd m) False = Inr ?p"
    using NewNode_member [OF ok(1,2)] by simp
  have lp: "length pre + 1 + length (snd m) + 1 = length ?pre" by simp
  have "node_loop ?v (Quote # concat (map stripped_char (fst m))) (length pre) parent
      = node_loop ?v (Quote # concat (map stripped_char (fst m'))) (length ?pre + length ?q) ?p"
    by (rule node_step [OF c s N]) (unfold lp, rule n, rule nm)
  also have "\<dots> = Inr (JNode (jn_data ?p) (jn_children ?p @ map member_leaf (m' # ms)))"
    using Cons.IH [of m' "?pre @ ?q" ?p, folded tail_def] Cons.prems by (simp add: add.assoc)
  finally show ?case unfolding v by simp
qed

section \<open>Reading a value\<close>

lemma element_value: "value_ok v \<Longrightarrow> element_ok (render stripped_char v)"
  using json_inside_no_nul [OF json_inside_value] by (simp add: element_ok_def render_hd skips_value)

lemma joined_not_empty: "list_all (\<lambda>t. t \<noteq> []) ts \<Longrightarrow> ts \<noteq> [] \<Longrightarrow> 1 \<le> length (joined ts)"
  by (induction ts rule: joined.induct) (auto simp: Suc_le_eq)

lemma DoArray_elements:
  assumes "list_all element_ok ts"
  shows "DoArray parent (LBracket # joined ts @ [RBracket])
    = Inr (JNode (jn_data parent) (jn_children parent @ map (leaf [] False) ts))"
proof (cases "ts = []")
  case True
  then show ?thesis by (cases parent) (simp add: DoArray_def)
next
  case False
  then have "1 \<le> length (joined ts)"
    using assms by (intro joined_not_empty) (auto simp: list_all_iff element_ok_def)
  then have "\<not> length (LBracket # joined ts @ [RBracket]) \<le> 2" by (cases "joined ts") auto
  then show ?thesis
    using array_elements [OF assms False, of "[LBracket]" parent] unfolding DoArray_def by simp
qed

lemma DoNode_step:
  "hd v = LBrace \<Longrightarrow> \<not> length v \<le> 2 \<Longrightarrow> FindNextRelevant Colon v 1 = Some e \<Longrightarrow> member_name v 1 e = Inr nm \<Longrightarrow>
    DoNode parent v = node_loop v nm e parent"
  by (simp add: DoNode_def)

lemma DoNode_members:
  assumes "list_all (\<lambda>m. 0 \<notin> set (fst m) \<and> element_ok (snd m)) ms"
  shows "DoNode parent (LBrace # joined (map mtext ms) @ [RBrace])
    = Inr (JNode (jn_data parent) (jn_children parent @ map member_leaf ms))"
proof (cases ms)
  case Nil
  then show ?thesis by (cases parent) (simp add: DoNode_def)
next
  case (Cons m ns)
  define tail where "tail = (if ns = [] then [RBrace] else Comma # joined (map mtext ns) @ [RBrace])"
  let ?q = "quoted stripped_char (fst m)"
  let ?pre = "LBrace # ?q"
  let ?v = "?pre @ Colon # snd m @ tail"
  have v: "LBrace # joined (map mtext ms) @ [RBrace] = ?v"
    using Cons by (cases ns) (simp_all add: member_text_def tail_def)
  have ok: "0 \<notin> set (fst m)" using assms Cons by simp
  have c: "FindNextRelevant Colon ?v 1 = Some (length ?pre)"
    using skips_quoted [OF ok, of Colon] by (simp add: FindNextRelevant_def skips_def)
  have n: "member_name ?v 1 (length ?pre) = Inr (Quote # concat (map stripped_char (fst m)))"
    by (simp add: member_name_def slice_def quoted_def)
  have "tail \<noteq> []" by (simp add: tail_def)
  then have "\<not> length ?v \<le> 2" by (simp add: quoted_def)
  then have "DoNode parent ?v = node_loop ?v (Quote # concat (map stripped_char (fst m))) (length ?pre) parent"
    by (intro DoNode_step c n) simp_all
  also have "\<dots> = Inr (JNode (jn_data parent) (jn_children parent @ map member_leaf ms))"
    using object_members [of m ns ?pre parent, folded tail_def] assms Cons by simp
  finally show ?thesis by (simp add: v)
qed

lemma leaf_string:
  "leaf nm enc (quoted esc s) = JNode ((base_data nm enc)\<lparr>jd_string := quoted esc s, jd_type := JSON_STRING\<rparr>) []"
  by (simp add: leaf_def value_data_def quoted_def Let_def base_data_def newInternal_def)

lemma leaf_array:
  "leaf nm enc (LBracket # s @ [RBracket])
    = JNode ((base_data nm enc)\<lparr>jd_string := LBracket # s @ [RBracket], jd_type := JSON_ARRAY\<rparr>) []"
  by (simp add: leaf_def value_data_def Let_def base_data_def newInternal_def)

lemma leaf_node:
  "leaf nm enc (LBrace # s @ [RBrace])
    = JNode ((base_data nm enc)\<lparr>jd_string := LBrace # s @ [RBrace], jd_type := JSON_NODE\<rparr>) []"
  by (simp add: leaf_def value_data_def Let_def base_data_def newInternal_def)

lemma number_char_first:
  "number_char c \<Longrightarrow> c \<notin> {Quote, LBrace, LBracket, 116, 84, 102, 70, 110, 78}"
  using le_less_trans [of c 57 70] le_less_trans [of c 57 78] le_less_trans [of c 57 84]
  by (auto simp: number_char_def is_digit_def)

lemma leaf_number:
  "leaf nm enc (number_text i)
    = JNode ((base_data nm enc)\<lparr>jd_string := number_text i, jd_type := JSON_NUMBER\<rparr>) []"
  using number_char_first [OF number_text_hd [of i]] isNumeric_number_text [of i]
  by (simp add: leaf_def value_data_def Let_def base_data_def newInternal_def)

lemma base_data_simps [simp]: "jd_name (base_data nm enc) = nm" "\<not> jd_fetched (base_data nm enc)"
  by (simp_all add: base_data_def)

lemma Fetch_array:
  "list_all element_ok ts \<Longrightarrow> Fetch (leaf nm enc (LBracket # joined ts @ [RBracket]))
    = Inr (JNode ((base_data nm enc)\<lparr>jd_string := [], jd_type := JSON_ARRAY, jd_fetched := True\<rparr>) (map (leaf [] False) ts))"
  using DoArray_elements [of ts]
  by (simp add: leaf_array Fetch_def FetchArray_def clear_text_def on_data_def)

lemma Fetch_node:
  "list_all (\<lambda>m. 0 \<notin> set (fst m) \<and> element_ok (snd m)) ms \<Longrightarrow>
    Fetch (leaf nm enc (LBrace # joined (map mtext ms) @ [RBrace]))
    = Inr (JNode ((base_data nm enc)\<lparr>jd_string := [], jd_type := JSON_NODE, jd_fetched := True\<rparr>) (map member_leaf ms))"
  using DoNode_members [of ms]
  by (simp add: leaf_node Fetch_def FetchNode_def clear_text_def on_data_def)

lemma preparse_list_all2:
  "list_all2 (\<lambda>c m. preparse c = Inr m) cs ms \<Longrightarrow> preparse_list cs = Inr ms"
  by (induction rule: list_all2_induct) auto

lemma preparse_container:
  "Fetch n = Inr m \<Longrightarrow> isContainer m \<Longrightarrow> list_all2 (\<lambda>c m. preparse c = Inr m) (jn_children m) ms \<Longrightarrow>
    preparse n = Inr (JNode (jn_data m) ms)"
  by (simp add: preparse.simps [of n] preparse_list_all2)

lemma preparse_value:
  "Fetch n = Inr m \<Longrightarrow> \<not> isContainer m \<Longrightarrow> preparse n = Inr m"
  by (simp add: preparse.simps [of n])


lemma preparse_leaf:
  "value_ok v \<Longrightarrow> \<exists>m. preparse (leaf nm enc (render stripped_char v)) = Inr m \<and> represents v m \<and> jd_name (jn_data m) = nm"
proof (induction v arbitrary: nm enc)
  case VNull
  show ?case by (simp add: preparse.simps leaf_def value_data_def Fetch_def isContainer_def base_data_def newInternal_def)
next
  case (VBool b)
  show ?case
    by (cases b) (simp_all add: preparse.simps leaf_def value_data_def Fetch_def isContainer_def base_data_def newInternal_def)
next
  case (VInt i)
  show ?case
    using number_text_no_nul [of i]
    by (simp add: leaf_number preparse.simps Fetch_def FetchNumber_def isContainer_def c_text_id)
next
  case (VString s)
  obtain t u where t: "FixString (concat (map stripped_char s)) = Inr (t, u)" "t = s"
    using name_of [of s] VString by (metis prod.collapse value_ok.simps(2))
  have "slice 1 (length (quoted stripped_char s) - 1) (quoted stripped_char s) = concat (map stripped_char s)"
    by (simp add: slice_def quoted_def)
  then have "FetchString (leaf nm enc (quoted stripped_char s))
      = Inr (on_data (\<lambda>d. d\<lparr>jd_string := s, jd_string_encoded := u\<rparr>) (leaf nm enc (quoted stripped_char s)))"
    using t by (simp add: FetchString_def leaf_string) (simp add: quoted_def)
  then show ?case by (simp add: leaf_string preparse.simps Fetch_def isContainer_def)
next
  case (VArray vs)
  have "\<forall>v\<in>set vs. \<exists>m. preparse (leaf [] False (render stripped_char v)) = Inr m \<and> represents v m"
    using VArray by (meson list_all_iff value_ok.simps(3))
  then obtain f where f: "\<forall>v\<in>set vs. preparse (leaf [] False (render stripped_char v)) = Inr (f v) \<and> represents v (f v)"
    by metis
  have "list_all element_ok (map (render stripped_char) vs)"
    using VArray.prems element_value by (auto simp: list_all_iff)
  from preparse_container [OF Fetch_array [OF this, of nm enc], where ms = "map f vs"] f
  show ?case by (fastforce simp: isContainer_def list_all2_map1 list_all2_map2 list_all2_same)
next
  case (VObject kvs)
  let ?text = "\<lambda>kv. (fst kv, render stripped_char (snd kv))"
  have "\<forall>kv\<in>set kvs. \<exists>m. preparse (member_leaf (?text kv)) = Inr m \<and> represents (snd kv) m \<and> jd_name (jn_data m) = fst kv"
    using VObject.IH [OF _ snd_in_snds] VObject.prems by (simp add: list_all_iff member_leaf_def)
  then obtain f where f: "\<forall>kv\<in>set kvs. preparse (member_leaf (?text kv)) = Inr (f kv)
      \<and> represents (snd kv) (f kv) \<and> jd_name (jn_data (f kv)) = fst kv"
    by metis
  have "list_all (\<lambda>m. 0 \<notin> set (fst m) \<and> element_ok (snd m)) (map ?text kvs)"
    using VObject.prems element_value by (auto simp: list_all_iff)
  from preparse_container [OF Fetch_node [OF this, of nm enc], where ms = "map f kvs"] f
  show ?case by (fastforce simp: isContainer_def list_all2_map1 list_all2_map2 list_all2_same comp_def)
qed

section \<open>Passing a document on\<close>

lemma hex_upper_not_one: "d < 16 \<Longrightarrow> hex_upper d \<noteq> AsciiOne"
  by (drule hex_upper_plain) (auto simp: plain_char_def word_le_nat_alt)

lemma unmark_char: "map (\<lambda>c. if c = AsciiOne then Quote else c) (stripped_char c) = escape_char c"
  using hex_upper_not_one [OF nibbles(1) [of c]] hex_upper_not_one [OF nibbles(2) [of c]]
  by (auto simp: stripped_char_def escape_char_def toUTF8_def)

lemma unmark_append: "unmark u (s @ t) = unmark u s @ unmark u t"
  by (simp add: unmark_def)

lemma unmark_Cons: "c \<noteq> AsciiOne \<Longrightarrow> unmark u (c # t) = c # unmark u t"
  by (simp add: unmark_def)

lemma unmark_Nil [simp]: "unmark u [] = []"
  by (simp add: unmark_def)

lemma unmark_string:
  "(Quote \<in> set s \<longrightarrow> u) \<Longrightarrow> unmark u (quoted stripped_char s) = quoted escape_char s"
proof -
  assume u: "Quote \<in> set s \<longrightarrow> u"
  have "unmark u (concat (map stripped_char s)) = concat (map escape_char s)"
  proof (cases u)
    case True
    then show ?thesis by (induction s) (simp_all add: unmark_def unmark_char)
  next
    case False
    then have "concat (map stripped_char s) = concat (map escape_char s)"
      using u by (intro arg_cong [where f = concat] map_cong) (auto simp: stripped_char_def)
    then show ?thesis using False by (simp add: unmark_def)
  qed
  then show ?thesis by (simp add: quoted_def unmark_append unmark_Cons)
qed

lemma unmark_joined:
  "list_all2 (\<lambda>s t. unmark u s = t) ss ts \<Longrightarrow> unmark u (joined ss) = joined ts"
proof (induction rule: list_all2_induct)
  case (Cons s ss t ts)
  then show ?case
  proof (cases ss)
    case (Cons s' ss')
    then obtain t' ts' where "ts = t' # ts'" using \<open>list_all2 _ ss ts\<close> by (cases ts) auto
    then show ?thesis using Cons \<open>unmark u s = t\<close> \<open>unmark u (joined ss) = joined ts\<close>
      by (simp add: unmark_append unmark_Cons)
  qed simp
qed (simp add: unmark_def)

lemma unmark_value: "(has_quote v \<longrightarrow> u) \<Longrightarrow> unmark u (render stripped_char v) = render escape_char v"
proof (induction v)
  case (VInt i)
  have "\<forall>c\<in>set (number_text i). c \<noteq> AsciiOne"
    using number_text_chars(2) [of i] number_char_cases by (fastforce simp: list_all_iff)
  then show ?case by (auto simp: unmark_def intro: map_idI)
next
  case (VString s)
  then show ?case by (simp add: unmark_string)
next
  case (VArray vs)
  then have "list_all2 (\<lambda>s t. unmark u s = t) (map (render stripped_char) vs) (map (render escape_char) vs)"
    by (auto simp: list_all2_map1 list_all2_map2 list_all2_same list_ex_iff)
  from unmark_joined [OF this] show ?case by (simp add: unmark_append unmark_Cons)
next
  case (VObject kvs)
  have "list_all2 (\<lambda>s t. unmark u s = t)
      (map (\<lambda>kv. member_text stripped_char (fst kv) (render stripped_char (snd kv))) kvs)
      (map (\<lambda>kv. member_text escape_char (fst kv) (render escape_char (snd kv))) kvs)"
    unfolding list_all2_map1 list_all2_map2 list_all2_same
  proof
    fix kv assume kv: "kv \<in> set kvs"
    then have "unmark u (render stripped_char (snd kv)) = render escape_char (snd kv)"
      "unmark u (quoted stripped_char (fst kv)) = quoted escape_char (fst kv)"
      using VObject.IH [OF kv snd_in_snds] VObject.prems by (auto simp: list_ex_iff intro: unmark_string)
    then show "unmark u (member_text stripped_char (fst kv) (render stripped_char (snd kv)))
        = member_text escape_char (fst kv) (render escape_char (snd kv))"
      by (simp add: member_text_def unmark_append unmark_Cons)
  qed
  from unmark_joined [OF this] show ?case by (simp add: unmark_append unmark_Cons)
qed (simp_all add: unmark_def)

section \<open>Written and read back\<close>

lemma render_no_nul: "value_ok v \<Longrightarrow> 0 \<notin> set (render escape_char v)"
proof -
  assume v: "value_ok v"
  have "render escape_char v = unmark True (render stripped_char v)" by (rule unmark_value [symmetric]) simp
  then show ?thesis using json_inside_no_nul [OF json_inside_value [OF v]] by (auto simp: unmark_def)
qed

lemma container_render:
  "container_value v \<Longrightarrow> (\<exists>u. render esc v = LBracket # u @ [RBracket]) \<or> (\<exists>u. render esc v = LBrace # u @ [RBrace])"
  by (cases v) auto

lemma json_parse_render:
  assumes "value_ok v" "container_value v"
  shows "json_parse (render escape_char v) = Inr (newInternal_root (render stripped_char v), has_quote v)"
proof -
  let ?r = "render stripped_char v"
  have "ws_loop True (render escape_char v @ []) = put_text ?r (has_quote v) (ws_loop True [])"
    using strips_value [OF assms(1)] unfolding strips_def by blast
  then have w: "RemoveWhiteSpace True (render escape_char v) = Inr (?r, last ?r, has_quote v)"
    by (simp add: RemoveWhiteSpace_def c_text_id render_no_nul [OF assms(1)] render_hd)
  have c: "c_text ?r = ?r" by (rule c_text_id [OF json_inside_no_nul [OF json_inside_value [OF assms(1)]]])
  have "parse_stripped ?r (last ?r) = Inr (newInternal_root ?r)"
    using container_render [OF assms(2), of stripped_char] strip_no_comment [OF render_hd, of v]
    by (auto simp: parse_stripped_def newInternal_root_def on_data_def newInternal_def)
  then show ?thesis by (simp add: json_parse_def w c)
qed

lemma root_is_leaf:
  assumes "container_value v"
  shows "newInternal_root (render stripped_char v) = leaf [] False (render stripped_char v)"
  using container_render [OF assms, of stripped_char]
  by (auto simp: leaf_array leaf_node newInternal_root_def base_data_def newInternal_def)

lemma json_write_root:
  assumes "container_value v" "has_quote v \<longrightarrow> used"
  shows "json_write used (newInternal_root (render stripped_char v)) = Inr (render escape_char v)"
proof -
  have "hd (render stripped_char v) = LBrace \<or> hd (render stripped_char v) = LBracket" "render stripped_char v \<noteq> []"
    using container_render [OF assms(1), of stripped_char] by auto
  note c = newInternal_root_container [OF this]
  show ?thesis using json_write_unfetched [OF c(2,1)] unmark_value [OF assms(2)] c(3) by simp
qed

lemma json_write_build:
  assumes "value_ok v" "container_value v"
  shows "json_write used (build v) = Inr (render escape_char v)"
proof -
  have "isContainer (build v)" using assms(2) by (cases v) (simp_all add: push_all_children isContainer_def)
  then show ?thesis using write_build [OF assms(1)] by (simp add: json_write_def)
qed

text \<open>
  C7: A value that a program builds out of nodes and writes is the value libjson reads back from
  that text, and the document that was read is written again as the same text.
\<close>

theorem json_value_roundtrip:
  assumes "value_ok v" "container_value v" "json_write used (build v) = Inr txt"
  shows "\<exists>n u m. json_parse txt = Inr (n, u) \<and> preparse n = Inr m \<and> represents v m
    \<and> json_write (used' \<or> u) n = Inr txt"
proof -
  have t: "txt = render escape_char v" using json_write_build [OF assms(1,2)] assms(3) by simp
  obtain m where "preparse (newInternal_root (render stripped_char v)) = Inr m" "represents v m"
    using preparse_leaf [OF assms(1)] root_is_leaf [OF assms(2)] by metis
  then show ?thesis
    using json_parse_render [OF assms(1,2)] json_write_root [OF assms(2)] t by auto
qed

definition example_value :: jvalue where
  "example_value = VObject [([97, 34], VArray [VInt (- 12), VString [47, 10, 123], VBool True]), ([], VNull)]"

text \<open>\<open>{"a\"":[-12,"\/\n{",true],"":null}\<close>\<close>

definition example_text :: bytes where
  "example_text = [123, 34, 97, 92, 34, 34, 58, 91, 45, 49, 50, 44, 34, 92, 47, 92, 110, 123, 34, 44, 116, 114, 117,
     101, 93, 44, 34, 34, 58, 110, 117, 108, 108, 125]"

theorem json_value_roundtrip_witness:
  "\<exists>n m. json_parse example_text = Inr (n, True) \<and> preparse n = Inr m \<and> represents example_value m
    \<and> json_write True n = Inr example_text"
proof -
  have "json_write False (build example_value) = Inr example_text" by code_simp
  moreover have "value_ok example_value" "container_value example_value" by (simp_all add: example_value_def)
  moreover have "map_sum id snd (json_parse example_text) = Inr True" by code_simp
  ultimately show ?thesis using json_value_roundtrip [of example_value False example_text True] by auto
qed

section \<open>Through the protocol\<close>

lemma json_doc_render: "value_ok v \<Longrightarrow> container_value v \<Longrightarrow> json_doc (render stripped_char v)"
proof (cases v)
  case (VArray vs)
  assume "value_ok v"
  then have "json_inside (joined (map (render stripped_char) vs))"
    using VArray json_inside_value by (intro json_inside_joined) (auto simp: list_all_iff)
  then show ?thesis using VArray doc_array by simp
next
  case (VObject kvs)
  assume "value_ok v"
  then have "json_inside (joined (map (\<lambda>kv. member_text stripped_char (fst kv) (render stripped_char (snd kv))) kvs))"
    using VObject json_inside_value by (intro json_inside_joined) (auto simp: list_all_iff intro!: json_inside_member)
  then show ?thesis using VObject doc_object by simp
qed auto

lemma render_unquoted: "\<not> has_quote v \<Longrightarrow> render escape_char v = render stripped_char v"
  using unmark_value [of v False] by (simp add: unmark_def)

lemma accepted_render:
  assumes "value_ok v" "container_value v"
  shows "accepted_as used (render escape_char v) (render escape_char v)"
  using json_parse_render [OF assms] json_write_root [OF assms(2), of "used \<or> has_quote v"]
  by (auto simp: accepted_as_def)

text \<open>
  C6: A value without quotes in its strings that one side builds, writes and sends is the value
  the other side reads out of the document its protocol reports, in whatever non-empty pieces the
  text arrives, as long as the check of an incomplete text stays inside it.
\<close>

theorem json_value_crosses:
  assumes "value_ok v" "container_value v" "\<not> has_quote v"
    and "json_write used (build v) = Inr d" "length d < 2147483648"
    and "writeJSON bt_write d newBufferedTransport = (Inr (), t)"
    and "concat pieces = bt_rest t" "[] \<notin> set pieces" "cuts_safe [] (concat (map blocks pieces))"
  shows "\<exists>j n u m. json_arrive used' pieces newJSONProtocol
      = Some (replicate (length pieces - 1) (Inr False) @ [Inr True], j)
    \<and> json_parse (js_internal j) = Inr (n, u) \<and> preparse n = Inr m \<and> represents v m"
proof -
  have d: "d = render escape_char v" using json_write_build [OF assms(1,2)] assms(4) by simp
  have doc: "json_doc d" using json_doc_render [OF assms(1,2)] render_unquoted [OF assms(3)] d by simp
  have "bt_write d newBufferedTransport = (Inr (int (length d)), newBufferedTransport\<lparr>bt_buf := d\<rparr>)"
    using assms(5) by (simp add: bt_write_def newBufferedTransport_def)
  from writeJSON_bytes [of d bt_write, OF doc assms(5) this] assms(6)
  have "bt_rest t = d" by (auto simp: bt_rest_def newBufferedTransport_def)
  then have c: "d = [] @ concat pieces" using assms(7) by simp
  then have "pieces \<noteq> []" using json_doc_length [OF doc] by auto
  from json_arrive_doc [OF doc accepted_render [OF assms(1,2), folded d] c this assms(8) fresh_new assms(5,9)]
  obtain j where "json_arrive used' pieces newJSONProtocol
      = Some (replicate (length pieces - 1) (Inr False) @ [Inr True], j)" "js_internal j = d" by blast
  moreover obtain m where "preparse (newInternal_root (render stripped_char v)) = Inr m" "represents v m"
    using preparse_leaf [OF assms(1)] root_is_leaf [OF assms(2)] by metis
  ultimately show ?thesis using json_parse_render [OF assms(1,2)] d by auto
qed

theorem json_value_crosses_witness:
  "\<exists>j n u m. json_arrive True [[91, 49], [44, 34, 93], [34, 93]] newJSONProtocol
      = Some ([Inr False, Inr False, Inr True], j)
    \<and> json_parse (js_internal j) = Inr (n, u) \<and> preparse n = Inr m \<and> represents (VArray [VInt 1, VString [93]]) m"
proof -
  let ?v = "VArray [VInt 1, VString [93]]" and ?d = "[91, 49, 44, 34, 93, 34, 93] :: bytes"
  have v: "value_ok ?v" "container_value ?v" "\<not> has_quote ?v" by simp_all
  have w: "json_write False (build ?v) = Inr ?d" by code_simp
  then have "render escape_char ?v = ?d" using json_write_build [OF v(1,2), of False] by (metis sum.inject(2))
  then have doc: "json_doc ?d" using json_doc_render [OF v(1,2)] render_unquoted [OF v(3)] by metis
  have t: "writeJSON bt_write ?d newBufferedTransport = (Inr (), newBufferedTransport\<lparr>bt_buf := ?d\<rparr>)"
    by (rule writeJSON_bytes [OF doc]) (simp_all add: bt_write_def newBufferedTransport_def)
  have cuts: "cuts_safe [] (concat (map blocks [[91, 49], [44, 34, 93], [34, 93]]))"
    using cut_examples by (simp add: JSON_STREAM_SIZE_def)
  show ?thesis
    using json_value_crosses [OF v w _ t _ _ cuts, of True]
    by (simp add: bt_rest_def newBufferedTransport_def numeral_2_eq_2 del: json_arrive.simps represents.simps)
qed

end
