(* ===== verification/JsonClean.thy ===== *)
theory JsonClean
  imports JsonRead
begin

text \<open>
  The functions in front of \<^verbatim>\<open>JSONWorker.cpp\<close> and \<^verbatim>\<open>JSONValidator.cpp\<close> for a text that is not to be
  parsed: \<open>libjson::strip_white_space\<close> and \<open>libjson::is_valid\<close>, which clean it first.
\<close>

section \<open>Cleaning a text\<close>

text \<open>
  \<open>RemoveWhiteSpaceAndComments\<close>: what has been read is the result when the text is not one of
  JSON. Without \<open>escapeQuotes\<close> a backslash is copied and nothing else is done about it.
\<close>

abbreviation cleaned :: "bytes \<Rightarrow> exn + bytes \<Rightarrow> exn + bytes" where
  "cleaned out \<equiv> map_sum id ((@) out)"

fun rc_loop :: "bool \<Rightarrow> bytes \<Rightarrow> exn + bytes"
  and rc_line :: "bool \<Rightarrow> bytes \<Rightarrow> exn + bytes"
  and rc_multi :: "bool \<Rightarrow> bytes \<Rightarrow> exn + bytes"
  and rc_quote :: "bool \<Rightarrow> bytes \<Rightarrow> exn + bytes" where
  "rc_loop esc [] = Inr []"
| "rc_loop esc (c # s) =
    (if c = Blank \<or> c = Tab \<or> c = Newline \<or> c = Return then rc_loop esc s
     else if c = Slash then
       (case s of
          [] \<Rightarrow> Inr []
        | d # s' \<Rightarrow>
            if d = Star then rc_multi esc s'
            else if d \<noteq> Slash then Inr []
            else rc_line esc s')
     else if c = Hash then rc_line esc s
     else if c = Quote then cleaned [Quote] (rc_quote esc s)
     else if c < 32 \<or> 126 < c then Inr []
     else cleaned [c] (rc_loop esc s))"
| "rc_line esc [] = Inl (Undef ''read behind the text'')"
| "rc_line esc (c # s) = (if c = Newline then rc_loop esc s else rc_line esc s)"
| "rc_multi esc [] = Inr []"
| "rc_multi esc (c # s) =
    (case s of
       [] \<Rightarrow> rc_multi esc s
     | d # s' \<Rightarrow> if c = Star \<and> d = Slash then rc_loop esc s' else rc_multi esc s)"
| "rc_quote esc [] = Inr []"
| "rc_quote esc (c # s) =
    (if c = Quote then cleaned [Quote] (rc_loop esc s)
     else if c = Backslash then
       (if esc then
          (case s of
             [] \<Rightarrow> Inl (Undef ''read behind the text'')
           | d # s' \<Rightarrow> cleaned [Backslash, if d = Quote then AsciiOne else d] (rc_quote esc s'))
        else cleaned [Backslash] (rc_quote esc s))
     else cleaned [c] (rc_quote esc s))"

definition RemoveWhiteSpaceAndComments :: "bool \<Rightarrow> bytes \<Rightarrow> exn + bytes" where
  "RemoveWhiteSpaceAndComments escapeQuotes value = rc_loop escapeQuotes (c_text value)"

definition strip_white_space :: "bytes \<Rightarrow> exn + bytes" where
  "strip_white_space json = RemoveWhiteSpaceAndComments False json"

definition JSON_SECURITY_MAX_STRING_LENGTH :: nat where "JSON_SECURITY_MAX_STRING_LENGTH = 33554432"

definition json_is_valid :: "bytes \<Rightarrow> exn + bool" where
  "json_is_valid json =
    (if JSON_SECURITY_MAX_STRING_LENGTH < length json then Inr False
     else
       (case RemoveWhiteSpaceAndComments False json of
          Inl e \<Rightarrow> Inl e
        | Inr s \<Rightarrow> isValidRoot s))"


section \<open>Texts without anything to clean\<close>

lemma put_text_Inr: "put_text out u r = Inr (t, v) \<Longrightarrow> \<exists>t' v'. r = Inr (t', v') \<and> t = out @ t'"
  by (cases r) auto

definition at_most :: "nat \<Rightarrow> written_text \<Rightarrow> bool" where
  "at_most n r \<longleftrightarrow> (\<forall>t u. r = Inr (t, u) \<longrightarrow> length t \<le> n)"

lemma at_most_simps [simp]: "at_most n (Inl e)" "at_most n (Inr (t, u)) \<longleftrightarrow> length t \<le> n"
  by (simp_all add: at_most_def)

lemma at_most_put: "at_most k r \<Longrightarrow> length out + k \<le> n \<Longrightarrow> at_most n (put_text out v r)"
  by (cases r) (auto simp: at_most_def)

lemma at_most_mono: "at_most k r \<Longrightarrow> k \<le> n \<Longrightarrow> at_most n r"
  by (auto simp: at_most_def)

lemma ws_length:
  "at_most (length s) (ws_loop esc s)"
  "at_most (length s) (ws_line esc s)"
  "at_most (length s + 1) (ws_multi esc s)"
  "at_most (length s) (ws_quote esc s)"
proof (induction esc s and esc s and esc s and esc s rule: ws_loop_ws_line_ws_multi_ws_quote.induct)
  case (2 esc c s)
  have slash: "at_most (length (c # s)) (case s of [] \<Rightarrow> Inr ([], False)
      | d # s' \<Rightarrow> if d = Star then put_text [CommentMark] False (ws_multi esc s')
          else if d \<noteq> Slash then Inr ([], False) else put_text [CommentMark] False (ws_line esc s'))"
    if "\<not> (c = Blank \<or> c = Tab \<or> c = Newline \<or> c = Return)" "c = Slash"
  proof (cases s)
    case (Cons d s')
    show ?thesis unfolding Cons list.case
      by (intro if_case [where P = "at_most (length (c # d # s'))"] at_most_put [OF 2(2) [OF that Cons]]
          at_most_put [OF 2(3) [OF that Cons]]) auto
  qed simp
  show ?case unfolding ws_loop.simps
    by (intro if_case [where P = "at_most (length (c # s))"] slash at_most_mono [OF 2(1)]
        at_most_put [OF 2(4)] at_most_put [OF 2(5)] at_most_put [OF 2(6)]) auto
next
  case (4 esc c s)
  show ?case unfolding ws_line.simps
    by (intro if_case [where P = "at_most (length (c # s))"] at_most_put [OF 4(1)] at_most_put [OF 4(2)]) auto
next
  case (6 esc c s)
  show ?case
  proof (cases s)
    case Nil
    then show ?thesis by simp
  next
    case (Cons d s')
    have "at_most (length (c # s) + 1) (put_text [c] False (ws_multi esc s))" if "\<not> (c = Star \<and> d = Slash)"
      using at_most_put [OF 6(3) [OF Cons that]] by simp
    moreover have "at_most (length (c # s) + 1) (put_text [CommentMark] False (ws_loop esc s'))" if "c = Star \<and> d = Slash"
      using at_most_put [OF 6(2) [OF Cons that]] Cons by simp
    ultimately show ?thesis unfolding ws_multi.simps Cons by (simp del: ws_multi.simps)
  qed
next
  case (8 esc c s)
  have esc: "at_most (length (c # s)) (case s of [] \<Rightarrow> Inl (Undef ''read behind the text'')
      | d # s' \<Rightarrow> put_text [Backslash, if d = Quote then AsciiOne else d] (d = Quote) (ws_quote esc s'))"
    if "c \<noteq> Quote" "c = Backslash" "esc"
  proof (cases s)
    case (Cons d s')
    show ?thesis unfolding Cons list.case by (rule at_most_put [OF 8(2) [OF that Cons]]) simp
  qed simp
  show ?case unfolding ws_quote.simps
    by (intro if_case [where P = "at_most (length (c # s))"] esc at_most_put [OF 8(1)] at_most_put [OF 8(3)]
        at_most_put [OF 8(4)]) auto
qed simp_all

lemma ws_line_changes: "ws_line esc s = Inr (t, u) \<Longrightarrow> t \<noteq> s"
  by (induction s arbitrary: t u) (auto dest!: put_text_Inr split: if_splits)

lemma rc_of_ws:
  "ws_loop esc s = Inr (s, u) \<Longrightarrow> \<not> esc \<Longrightarrow> rc_loop esc s = Inr s"
  "True" "True"
  "ws_quote esc s = Inr (s, u) \<Longrightarrow> \<not> esc \<Longrightarrow> rc_quote esc s = Inr s"
proof (induction esc s and esc s and esc s and esc s arbitrary: u and u and u and u
      rule: ws_loop_ws_line_ws_multi_ws_quote.induct)
  case (2 esc c s)
  show ?case
  proof (cases "c = Blank \<or> c = Tab \<or> c = Newline \<or> c = Return")
    case True
    then have "ws_loop esc s = Inr (c # s, u)" using 2 by simp
    then show ?thesis using ws_length(1) [of s esc] by simp
  next
    case False
    then show ?thesis using 2
      by (auto dest!: put_text_Inr dest: ws_line_changes split: if_splits list.splits)
  qed
qed (auto dest!: put_text_Inr split: if_splits)

lemma strip_unquoted:
  assumes "value_ok v" "\<not> has_quote v"
  shows "strip_white_space (render escape_char v) = Inr (render escape_char v)"
proof -
  let ?r = "render escape_char v"
  have "strips False ?r ?r (has_quote v)" using strips_value_raw [OF assms(1)] assms(2) by auto
  then have "ws_loop False (?r @ []) = put_text ?r (has_quote v) (ws_loop False [])" unfolding strips_def by blast
  then have "ws_loop False ?r = Inr (?r, has_quote v)" by simp
  from rc_of_ws(1) [OF this] show ?thesis
    by (simp add: strip_white_space_def RemoveWhiteSpaceAndComments_def c_text_id render_no_nul [OF assms(1)])
qed

section \<open>Texts with an escaped quote\<close>

lemma rc_quote_plain:
  "Quote \<notin> set s \<Longrightarrow> rc_quote False (s @ t) = cleaned s (rc_quote False t)"
proof (induction s)
  case (Cons c s)
  then show ?case by (cases "rc_quote False t") auto
qed (cases "rc_quote False t"; simp)

lemma rc_line_no_newline: "Newline \<notin> set s \<Longrightarrow> rc_line esc s = Inl (Undef ''read behind the text'')"
  by (induction s) auto

lemma hex_upper_chars: "d < 16 \<Longrightarrow> hex_upper d \<notin> {Newline, Quote}"
  by (drule hex_upper_plain) (auto simp: plain_char_def word_le_nat_alt word_less_nat_alt)

lemma escape_char_quote: "c \<noteq> Quote \<Longrightarrow> Quote \<notin> set (escape_char c)"
  using hex_upper_chars [OF nibbles(1) [of c]] hex_upper_chars [OF nibbles(2) [of c]]
  by (auto simp: escape_char_def toUTF8_def)

lemma escape_char_newline: "Newline \<notin> set (escape_char c)"
  using hex_upper_chars [OF nibbles(1) [of c]] hex_upper_chars [OF nibbles(2) [of c]]
  by (auto simp: escape_char_def toUTF8_def)

text \<open>
  The text libjson itself writes for a string with a quote in front of a hash is read behind
  its end when it is cleaned, and so when it is checked: behind the escaped quote the string is
  taken to be over, and what follows to be a comment, which the text ends in.
\<close>

theorem json_strip_reads_behind:
  assumes "value_ok (VString (s @ [Quote, Hash] @ t))" "Quote \<notin> set s"
    and "json_write used (build (VArray [VString (s @ [Quote, Hash] @ t)])) = Inr txt"
  shows "strip_white_space txt = Inl (Undef ''read behind the text'')
    \<and> (length txt \<le> 33554432 \<longrightarrow> json_is_valid txt = Inl (Undef ''read behind the text''))"
proof -
  let ?v = "VArray [VString (s @ [Quote, Hash] @ t)]"
  let ?e = "\<lambda>s. concat (map escape_char s)"
  have v: "value_ok ?v" using assms(1) by simp
  have d: "txt = render escape_char ?v" using json_write_build [OF v] assms(3) by simp
  have r: "render escape_char ?v = LBracket # Quote # ?e s @ Backslash # Quote # Hash # (?e t @ [Quote, RBracket])"
    by (simp add: quoted_def escape_char_def)
  have "Quote \<notin> set (escape_char c)" if "c \<in> set s" for c using escape_char_quote assms(2) that by metis
  then have "Quote \<notin> set (?e s @ [Backslash])" by auto
  note q = rc_quote_plain [OF this, of "Quote # Hash # (?e t @ [Quote, RBracket])", simplified]
  have "Newline \<notin> set (?e t @ [Quote, RBracket])" using escape_char_newline by auto
  note l = rc_line_no_newline [OF this]
  have "rc_loop False txt = Inl (Undef ''read behind the text'')"
    unfolding d r by (simp add: q l)
  moreover have "c_text txt = txt" unfolding d by (rule c_text_id [OF render_no_nul [OF v]])
  ultimately show ?thesis
    by (simp add: strip_white_space_def json_is_valid_def RemoveWhiteSpaceAndComments_def JSON_SECURITY_MAX_STRING_LENGTH_def)
qed

text \<open>\<open>["\"#"]\<close>\<close>

theorem json_strip_reads_behind_witness:
  "strip_white_space [91, 34, 92, 34, 35, 34, 93] = Inl (Undef ''read behind the text'')
    \<and> json_is_valid [91, 34, 92, 34, 35, 34, 93] = Inl (Undef ''read behind the text'')"
proof -
  have "json_write False (build (VArray [VString ([] @ [Quote, Hash] @ [])])) = Inr [91, 34, 92, 34, 35, 34, 93]"
    by code_simp
  from json_strip_reads_behind [OF _ _ this] show ?thesis by simp
qed

end
