(* ===== verification/JsonValid.thy ===== *)
theory JsonValid
  imports JsonClean
begin

text \<open>
  libjson's check of a document: what its writer makes is valid, up to the depth the check allows;
  and what it does with a document that has not come to its end.
\<close>

section \<open>Strings and numbers\<close>

lemma isValidString_simps [simp]:
  "isValidString [] = (False, [])"
  "isValidString (c # s) =
    (if c = Backslash then
       (case s of
          [] \<Rightarrow> (False, [])
        | d # _ \<Rightarrow>
            (case escape_case d of
               None \<Rightarrow> (False, s)
             | Some ps \<Rightarrow> (case expects ps s of (False, r) \<Rightarrow> (False, r) | (True, r) \<Rightarrow> isValidString (tl r))))
     else if c = Quote then (True, s)
     else isValidString s)"
  by (simp_all add: isValidString.simps [of "[]"] isValidString.simps [of "c # s"])

lemma isHex_upper: "d < 16 \<Longrightarrow> isHex (hex_upper d)"
  by (drule less_16_cases) (auto simp: isHex_def hex_upper_def Let_def)

lemma isHex_0: "isHex 48"
  by (simp add: isHex_def)

lemma isValidString_escape: "c \<noteq> 0 \<Longrightarrow> isValidString (escape_char c @ t) = isValidString t"
  using isHex_upper [OF nibbles(1) [of c]] isHex_upper [OF nibbles(2) [of c]] isHex_0
  by (auto simp: escape_char_def toUTF8_def escape_case_def)

lemma isValidString_quoted: "0 \<notin> set s \<Longrightarrow> isValidString (concat (map escape_char s) @ Quote # r) = (True, r)"
  by (induction s) (auto simp: isValidString_escape)

text \<open>What may follow a value.\<close>

definition ends_value :: "bytes \<Rightarrow> bool" where
  "ends_value r \<longleftrightarrow> r = [] \<or> hd r \<in> {Comma, RBracket, RBrace}"

lemma ends_value_simps [simp]: "ends_value []" "ends_value (c # r) \<longleftrightarrow> c \<in> {Comma, RBracket, RBrace}"
  by (simp_all add: ends_value_def)

lemma end_no_number:
  "c \<in> {Comma, RBracket, RBrace} \<Longrightarrow> c \<noteq> 46 \<and> \<not> is_exp c \<and> \<not> is_digit c \<and> c \<noteq> 120"
  by (auto simp: is_exp_def is_digit_def)

lemma number_digits_end: "ends_value r \<Longrightarrow> number_digits dec sci r = (True, r)"
  using end_no_number by (cases r) auto

lemma digit_is_plain: "is_digit c \<Longrightarrow> c \<noteq> 46 \<and> \<not> is_exp c"
  by (auto simp: is_digit_def is_exp_def)

lemma number_digits_digits:
  "list_all is_digit s \<Longrightarrow> ends_value r \<Longrightarrow> number_digits dec sci (s @ r) = (True, r)"
  using digit_is_plain by (induction s) (auto simp: number_digits_end)

lemma isValidNumber_text: "ends_value r \<Longrightarrow> isValidNumber (number_text i @ r) = (True, r)"
proof -
  assume r: "ends_value r"
  have "zero_case r = (True, r)" using r end_no_number by (cases r) (auto simp: zero_case_def)
  moreover have "isValidNumber (45 # s @ r) = (True, r)" if "list_all is_digit s" for s
    using that number_digits_digits [OF that r] by (simp add: isValidNumber_def is_sign_def)
  moreover have "isValidNumber (s @ r) = (True, r)" if "list_all is_digit s" "s \<noteq> []" "49 \<le> hd s" for s
    using that number_digits_digits [of "tl s", OF _ r] digit_is_plain [of "hd s"]
    by (cases s) (auto simp: isValidNumber_def)
  ultimately show ?thesis
    using digit_loop_digits [of "nat i"] digit_loop_digits [of "nat (- i)"]
    by (cases "i = 0") (auto simp: number_text_def digit_loop_0 isValidNumber_def)
qed


section \<open>Values\<close>

fun vdepth :: "jvalue \<Rightarrow> nat" where
  "vdepth (VArray vs) = Suc (foldr max (map vdepth vs) 0)"
| "vdepth (VObject kvs) = Suc (foldr max (map (\<lambda>kv. vdepth (snd kv)) kvs) 0)"
| "vdepth _ = 0"

lemma foldr_max_ge: "n \<in> set ns \<Longrightarrow> n \<le> foldr max ns (0 :: nat)"
  by (induction ns) (auto simp: max_def)

lemma vdepth_child:
  "v \<in> set vs \<Longrightarrow> Suc (vdepth v) \<le> vdepth (VArray vs)"
  "kv \<in> set kvs \<Longrightarrow> Suc (vdepth (snd kv)) \<le> vdepth (VObject kvs)"
  by (auto intro: foldr_max_ge)

text \<open>A text that is read as a member, whatever may follow it.\<close>

definition member_text_ok :: "nat \<Rightarrow> bytes \<Rightarrow> bool" where
  "member_text_ok d t \<longleftrightarrow> t \<noteq> [] \<and> hd t \<noteq> RBracket \<and> (\<forall>r. ends_value r \<longrightarrow> isValidMember (t @ r) d = Inr (True, Some r))"

lemma member_text_okD: "member_text_ok d t \<Longrightarrow> ends_value r \<Longrightarrow> isValidMember (t @ r) d = Inr (True, Some r)"
  by (simp add: member_text_ok_def)

lemma isValidArray_members:
  "list_all (member_text_ok d) ts \<Longrightarrow> isValidArray (joined ts @ RBracket # r) d = Inr (True, Some r)"
proof (induction ts rule: joined.induct)
  case 1
  then show ?case by (simp add: isValidArray.simps)
next
  case (2 t)
  then obtain c t' where t: "t = c # t'" "c \<noteq> RBracket" by (cases t) (auto simp: member_text_ok_def)
  show ?case using member_text_okD [of d t "RBracket # r"] 2 t by (simp add: isValidArray.simps)
next
  case (3 t u ts)
  then obtain c t' where t: "t = c # t'" "c \<noteq> RBracket" by (cases t) (auto simp: member_text_ok_def)
  have "joined (u # ts) @ RBracket # r \<noteq> []" by simp
  then show ?case using member_text_okD [of d t "Comma # joined (u # ts) @ RBracket # r"] 3 t
    by (simp add: isValidArray.simps [of "c # _"])
qed

abbreviation "written_member m \<equiv> member_text escape_char (fst m) (snd m)"

lemma named_member:
  assumes "0 \<notin> set k" "member_text_ok d t" "ends_value (c # r)"
  shows "isValidNamedObject (member_text escape_char k t @ c # r) d
    = (if c = Comma then isValidNamedObject r d
       else if c = RBrace then Inr (True, Some r) else Inr (False, Some (c # r)))"
  using isValidString_quoted [OF assms(1)] member_text_okD [OF assms(2,3)]
  by (subst isValidNamedObject.simps) (simp add: member_text_def quoted_def)

lemma isValidNamedObject_members:
  "list_all (\<lambda>m. 0 \<notin> set (fst m) \<and> member_text_ok d (snd m)) (m # ms) \<Longrightarrow>
    isValidNamedObject (joined (map written_member (m # ms)) @ RBrace # r) d = Inr (True, Some r)"
  by (induction ms arbitrary: m) (auto simp: named_member)

lemma isValidObject_members:
  "list_all (\<lambda>m. 0 \<notin> set (fst m) \<and> member_text_ok d (snd m)) ms \<Longrightarrow>
    isValidObject (joined (map written_member ms) @ RBrace # r) d = Inr (True, Some r)"
proof (cases ms)
  case (Cons m ns)
  assume "list_all (\<lambda>m. 0 \<notin> set (fst m) \<and> member_text_ok d (snd m)) ms"
  then have "isValidNamedObject (joined (map written_member ms) @ RBrace # r) d = Inr (True, Some r)"
    unfolding Cons by (rule isValidNamedObject_members)
  moreover obtain s where "joined (map written_member ms) = Quote # s"
    using Cons by (cases ns) (simp_all add: member_text_def quoted_def)
  ultimately show ?thesis by (simp add: isValidObject.simps)
qed (simp add: isValidObject.simps)

lemma literal_ok:
  "member_text_ok d [110, 117, 108, 108]" "member_text_ok d [116, 114, 117, 101]" "member_text_ok d [102, 97, 108, 115, 101]"
  by (simp_all add: member_text_ok_def isValidMember.simps word_case_def either_def)

lemma string_ok: "0 \<notin> set s \<Longrightarrow> member_text_ok d (quoted escape_char s)"
  using isValidString_quoted [of s] by (simp add: member_text_ok_def isValidMember.simps quoted_def)

lemma number_ok: "member_text_ok d (number_text i)"
proof -
  obtain c s where n: "number_text i = c # s" using number_text_chars(1) [of i] by (cases "number_text i") auto
  have "number_char c" using number_text_hd [of i] n by simp
  note c = number_char_first [OF this] number_char_cases [OF this]
  show ?thesis
    using c isValidNumber_text [of _ i] unfolding member_text_ok_def n
    by (simp add: isValidMember.simps [of "c # _"] either_def)
qed

lemma value_text_ok: "value_ok v \<Longrightarrow> d + vdepth v \<le> JSON_SECURITY_MAX_NEST_LEVEL \<Longrightarrow> member_text_ok d (render escape_char v)"
proof (induction v arbitrary: d)
  case (VArray vs)
  have "list_all (member_text_ok (d + 1)) (map (render escape_char) vs)"
    unfolding list_all_iff using VArray vdepth_child(1) [of _ vs] by (fastforce simp: list_all_iff)
  moreover have "d + 1 \<le> JSON_SECURITY_MAX_NEST_LEVEL" using VArray.prems by simp
  ultimately show ?case using isValidArray_members
    by (simp add: member_text_ok_def isValidMember.simps [of "LBracket # _"] either_def)
next
  case (VObject kvs)
  have "list_all (\<lambda>m. 0 \<notin> set (fst m) \<and> member_text_ok (d + 1) (snd m)) (map (\<lambda>kv. (fst kv, render escape_char (snd kv))) kvs)"
    unfolding list_all_iff using VObject.IH [OF _ snd_in_snds] VObject.prems vdepth_child(2) [of _ kvs]
    by (fastforce simp: list_all_iff)
  moreover have "d + 1 \<le> JSON_SECURITY_MAX_NEST_LEVEL" using VObject.prems by simp
  ultimately show ?case using isValidObject_members [of "d + 1" "map (\<lambda>kv. (fst kv, render escape_char (snd kv))) kvs"]
    by (simp add: member_text_ok_def isValidMember.simps [of "LBrace # _"] comp_def)
qed (auto simp: literal_ok string_ok number_ok)

lemma child_text_ok:
  "value_ok (VArray vs) \<Longrightarrow> vdepth (VArray vs) \<le> JSON_SECURITY_MAX_NEST_LEVEL \<Longrightarrow>
    list_all (member_text_ok 1) (map (render escape_char) vs)"
  "value_ok (VObject kvs) \<Longrightarrow> vdepth (VObject kvs) \<le> JSON_SECURITY_MAX_NEST_LEVEL \<Longrightarrow>
    list_all (\<lambda>m. 0 \<notin> set (fst m) \<and> member_text_ok 1 (snd m)) (map (\<lambda>kv. (fst kv, render escape_char (snd kv))) kvs)"
  unfolding list_all_iff using vdepth_child(1) [of _ vs] vdepth_child(2) [of _ kvs]
  by (fastforce simp: list_all_iff intro!: value_text_ok)+

text \<open>
  C11: What libjson writes for a value nested no deeper than the limit, its own check calls valid;
  so does \<open>is_valid\<close>, which cleans the text first, if it is not too long and no string has a quote.
\<close>

theorem json_writer_valid:
  assumes "value_ok v" "container_value v" "vdepth v \<le> 128" "json_write used (build v) = Inr txt"
  shows "isValidRoot txt = Inr True \<and> (\<not> has_quote v \<longrightarrow> length txt \<le> 33554432 \<longrightarrow> json_is_valid txt = Inr True)"
proof -
  have t: "txt = render escape_char v" using json_write_build [OF assms(1,2)] assms(4) by simp
  have n: "vdepth v \<le> JSON_SECURITY_MAX_NEST_LEVEL" using assms(3) by (simp add: JSON_SECURITY_MAX_NEST_LEVEL_def)
  have "isValidRoot txt = Inr True"
  proof (cases v)
    case (VArray vs)
    from isValidArray_members [OF child_text_ok(1), of vs "[]"] assms(1) n show ?thesis
      unfolding VArray by (simp add: t VArray isValidRoot_def)
  next
    case (VObject kvs)
    from isValidObject_members [OF child_text_ok(2), of kvs "[]"] assms(1) n show ?thesis
      unfolding VObject by (simp add: t VObject isValidRoot_def comp_def)
  qed (use assms(2) in auto)
  moreover have "RemoveWhiteSpaceAndComments False txt = Inr txt" if "\<not> has_quote v"
    using strip_unquoted [OF assms(1) that] by (simp add: t strip_white_space_def)
  ultimately show ?thesis by (simp add: json_is_valid_def JSON_SECURITY_MAX_STRING_LENGTH_def)
qed

theorem json_writer_valid_witness:
  "isValidRoot example_text = Inr True \<and> json_is_valid [123, 34, 97, 34, 58, 91, 49, 93, 125] = Inr True"
proof -
  have "json_write False (build example_value) = Inr example_text" by code_simp
  moreover have "value_ok example_value" "container_value example_value" "vdepth example_value \<le> 128"
    by (simp_all add: example_value_def)
  ultimately have "isValidRoot example_text = Inr True" using json_writer_valid by blast
  moreover have "json_write False (build (VObject [([97], VArray [VInt 1])])) = Inr [123, 34, 97, 34, 58, 91, 49, 93, 125]"
    by code_simp
  from json_writer_valid [OF _ _ _ this] have "json_is_valid [123, 34, 97, 34, 58, 91, 49, 93, 125] = Inr True" by simp
  ultimately show ?thesis by simp
qed

section \<open>An object cut behind a comma\<close>

lemma isValidNamedObject_cut:
  "list_all (\<lambda>m. 0 \<notin> set (fst m) \<and> member_text_ok d (snd m)) (m # ms) \<Longrightarrow>
    isValidNamedObject (joined (map written_member (m # ms)) @ [Comma]) d = Inl (Undef ''read behind the text'')"
  by (induction ms arbitrary: m) (auto simp: named_member isValidNamedObject.simps [of "[]"])

lemma joined_snoc: "ts \<noteq> [] \<Longrightarrow> joined (ts @ [t]) = joined ts @ Comma # t"
  by (induction ts rule: joined.induct) auto

lemma strips_cut:
  assumes "value_ok (VObject kvs)" "\<not> has_quote (VObject kvs)" "render escape_char (VObject kvs) = s @ [RBrace]"
  shows "strips False (s @ [Comma]) (s @ [Comma]) False"
proof -
  have s: "s = [LBrace] @ joined (map (\<lambda>kv. member_text escape_char (fst kv) (render escape_char (snd kv))) kvs)"
    using assms(3) by simp
  have kv: "\<not> has_quote (snd kv)" "Quote \<notin> set (fst kv)" "value_ok (snd kv)" "0 \<notin> set (fst kv)" if "kv \<in> set kvs" for kv
    using assms(1,2) that by (auto simp: list_ex_iff list_all_iff)
  have "strips False (joined (map (\<lambda>kv. member_text escape_char (fst kv) (render escape_char (snd kv))) kvs))
      (joined (map (\<lambda>kv. member_text escape_char (fst kv) (render escape_char (snd kv))) kvs)) (has_quote (VObject kvs))"
    using kv strips_quoted_raw strips_value_raw by (intro strips_members) auto
  from strips_append [OF strips_append [OF strips_structure(3) this] strips_structure(5)] assms(2) show ?thesis
    unfolding s by simp
qed

lemma partial_check_cut:
  assumes "value_ok (VObject kvs)" "\<not> has_quote (VObject kvs)" "render escape_char (VObject kvs) = s @ [RBrace]"
    and "vdepth (VObject kvs) \<le> JSON_SECURITY_MAX_NEST_LEVEL" "kvs \<noteq> []"
  shows "partial_check (s @ [Comma]) = Inl (Undef ''read behind the text'')"
proof -
  let ?ms = "map (\<lambda>kv. (fst kv, render escape_char (snd kv))) kvs"
  have s: "s = LBrace # joined (map written_member ?ms)" using assms(3) by (simp add: comp_def)
  have "0 \<notin> set (s @ [Comma])" using render_no_nul [OF assms(1)] assms(3) by auto
  then have "RemoveWhiteSpace False (s @ [Comma]) = Inr (s @ [Comma], Comma, False)"
    using strips_cut [OF assms(1-3)] by (auto simp: RemoveWhiteSpace_def c_text_id strips_def dest: spec [where x = "[]"])
  moreover obtain k t ms where ms: "?ms = (k, t) # ms" using assms(5) by (cases kvs) auto
  have "isValidNamedObject (joined (map written_member ?ms) @ [Comma]) 1 = Inl (Undef ''read behind the text'')"
    using isValidNamedObject_cut [of 1 "(k, t)" ms] child_text_ok(2) [OF assms(1,4)] ms by simp
  moreover obtain u where "joined (map written_member ?ms) = Quote # u"
    using ms by (cases ms) (simp_all add: member_text_def quoted_def)
  ultimately show ?thesis by (simp add: partial_check_def isValidPartialRoot_def s isValidObject.simps)
qed

lemma json_read_error:
  assumes "bt_ok (js_readBuffer j)" "bt_rest (js_readBuffer j) \<noteq> []"
    and "stream_push used (take JSON_STREAM_SIZE (bt_rest (js_readBuffer j))) j = (Inl e, j1)"
  shows "json_read_loop used j = Some (Inl e, j1)"
proof -
  define n where "n = min JSON_STREAM_SIZE (length (bt_rest (js_readBuffer j)))"
  have n: "0 < n" using assms(2) by (simp add: n_def JSON_STREAM_SIZE_def)
  have m: "bt_mem (js_readBuffer j) (bt_currentPtr (js_readBuffer j)) n
      = Inr (take JSON_STREAM_SIZE (bt_rest (js_readBuffer j)))"
    using bt_mem_current [OF assms(1), of n] by (simp add: n_def min_def)
  have p: "bt_peekPtr JSON_STREAM_SIZE (js_readBuffer j) = (bt_currentPtr (js_readBuffer j), n)"
    by (simp add: peekPtr_ok [OF assms(1)] n_def)
  show ?thesis by (subst json_read_loop.simps) (use n in \<open>simp add: p m assms(3)\<close>)
qed

text \<open>
  C37: When the first piece of an object that arrives, of at most 1024 bytes, ends behind the comma
  that follows a member, and the members in it are as the writer prints them, with no quotes in
  their strings and nested at most 128 deep, the check of the incomplete text reads behind its
  end: what the protocol of a remote peer is fed decides on an access outside of the memory.
  (Deeper members make the check give up before it gets there.)
\<close>

theorem json_object_cut_reads_behind:
  assumes "value_ok (VObject kvs)" "\<not> has_quote (VObject kvs)" "vdepth (VObject kvs) \<le> 128" "kvs \<noteq> []"
    and "json_write used (build (VObject kvs)) = Inr (s @ [RBrace])" "length s < 1024"
  shows "\<exists>j. json_arrive used' [s @ [Comma]] newJSONProtocol = Some ([Inl (Undef ''read behind the text'')], j)"
proof -
  have r: "render escape_char (VObject kvs) = s @ [RBrace]"
    using json_write_build [OF assms(1)] assms(5) by simp
  have n: "vdepth (VObject kvs) \<le> JSON_SECURITY_MAX_NEST_LEVEL" using assms(3) by (simp add: JSON_SECURITY_MAX_NEST_LEVEL_def)
  note cut = partial_check_cut [OF assms(1,2) r n assms(4)]
  let ?more = "VObject (kvs @ [([], VNull)])"
  have "value_ok ?more" "\<not> has_quote ?more" using assms(1,2) by simp_all
  from json_doc_render [OF this(1)] render_unquoted [OF this(2)]
  have "json_doc (render escape_char ?more)" by simp
  moreover have "render escape_char ?more = (s @ [Comma]) @ member_text escape_char [] (render escape_char VNull) @ [RBrace]"
    using r assms(4) by (simp add: joined_snoc)
  ultimately have doc: "json_doc (([] @ s @ [Comma]) @ member_text escape_char [] (render escape_char VNull) @ [RBrace])"
    by (simp only: append_Nil)
  let ?j = "makeStream (json_addToReadingBuffer (s @ [Comma]) newJSONProtocol)"
  have "length ([]::bytes) + length (s @ [Comma]) < 2147483648" using assms(6) by simp
  note add = json_add [OF fresh_new this]
  have ok: "bt_ok (js_readBuffer ?j)" "js_stream ?j = Some []" and rest: "bt_rest (js_readBuffer ?j) = s @ [Comma]"
    using add by (auto simp: waiting_with_def)
  have t: "take JSON_STREAM_SIZE (s @ [Comma]) = s @ [Comma]" using assms(6) by (simp add: JSON_STREAM_SIZE_def)
  have "stream_push used' (s @ [Comma]) ?j = (Inl (Undef ''read behind the text''), ?j)"
    by (rule stream_push_unsafe [OF doc refl _ _ _ ok(2)]) (simp_all add: cut)
  then have "json_read_loop used' ?j = Some (Inl (Undef ''read behind the text''), ?j)"
    using json_read_error [OF ok(1)] rest t by simp
  then show ?thesis by (simp add: json_processRead_def json_catch_def)
qed

text \<open>\<open>{"a":1,\<close>\<close>

theorem json_object_cut_reads_behind_witness:
  "\<exists>j. json_arrive False [[123, 34, 97, 34, 58, 49, 44]] newJSONProtocol = Some ([Inl (Undef ''read behind the text'')], j)"
proof -
  have "json_write False (build (VObject [([97], VInt 1)])) = Inr ([123, 34, 97, 34, 58, 49] @ [RBrace])" by code_simp
  from json_object_cut_reads_behind [OF _ _ _ _ this, of False] show ?thesis by (simp del: json_arrive.simps)
qed

end
