(* ===== verification/JsonShape.thy ===== *)
theory JsonShape
  imports JsonNode
begin

text \<open>
  What a tree that libjson has read looks like, whatever the text was: a shape for nodes as they
  come from text, and one for trees that are fetched.
\<close>

text \<open>The text of a number is one, and that of a truth value is its.\<close>

definition well_read :: "json_data \<Rightarrow> bool" where
  "well_read d \<longleftrightarrow> (jd_type d = JSON_NUMBER \<longrightarrow> isNumeric (jd_string d))
     \<and> (jd_type d = JSON_BOOL \<longrightarrow> jd_string d = text_of (if jd_bool d then ''true'' else ''false''))"

text \<open>A node from text has no children yet; it is fetched when there is nothing to fetch.\<close>

definition raw :: "jnode \<Rightarrow> bool" where
  "raw n \<longleftrightarrow> jn_children n = [] \<and> (jd_fetched (jn_data n) \<longleftrightarrow> jn_type n \<in> {JSON_BOOL, JSON_NULL}) \<and> well_read (jn_data n)"

definition unnamed :: "jnode \<Rightarrow> bool" where
  "unnamed n \<longleftrightarrow> jd_name (jn_data n) = []"

lemma raw_on_data: "raw (on_data (jd_comment_update f) n) \<longleftrightarrow> raw n"
  by (simp add: raw_def well_read_def)

lemma unnamed_on_data: "unnamed (on_data (jd_comment_update f) n) \<longleftrightarrow> unnamed n"
  by (simp add: unnamed_def)

lemma value_data_raw: "raw (JNode (value_data v d) [])"
proof -
  have "(jd_fetched (value_data v d) \<longleftrightarrow> jd_type (value_data v d) \<in> {JSON_BOOL, JSON_NULL}) \<and> well_read (value_data v d)"
    unfolding value_data_def Let_def
    by (intro if_case [where P = "\<lambda>x. (jd_fetched x \<longleftrightarrow> jd_type x \<in> {JSON_BOOL, JSON_NULL}) \<and> well_read x"])
      (simp_all add: nullified_def well_read_def)
  then show ?thesis by (simp add: raw_def)
qed

lemma value_data_name: "jd_name (value_data v d) = jd_name d"
  unfolding value_data_def Let_def
  by (intro if_case [where P = "\<lambda>x. jd_name x = jd_name d"]) (simp_all add: nullified_def)

lemma newInternal_value_raw: "newInternal_value name v = Inr n \<Longrightarrow> raw n \<and> (name = [] \<longrightarrow> unnamed n)"
  using value_data_raw value_data_name
  by (auto simp: newInternal_value_def Let_def FixString_def unnamed_def raw_def well_read_def split: sum.splits prod.splits if_splits)

lemma NewNode_raw:
  assumes "NewNode parent name v array = Inr p"
  obtains c where "p = JNode (jn_data parent) (jn_children parent @ [c])" "raw c" "array \<Longrightarrow> name = [] \<Longrightarrow> unnamed c"
proof -
  obtain k r child where c: "newInternal_value (if array then name else tl r) (if array then r else v) = Inr child"
    "p = JNode (jn_data parent) (jn_children parent @ [on_data (jd_comment_update (\<lambda>_. k)) child])"
    using assms by (auto simp: NewNode_def split: sum.splits prod.splits if_splits)
  show thesis
    using that [OF c(2)] newInternal_value_raw [OF c(1)] by (auto simp: raw_on_data unnamed_on_data)
qed

text \<open>Splitting leaves the node as it was, with its children, or nullifies it.\<close>

definition split_into :: "(jnode \<Rightarrow> bool) \<Rightarrow> jnode \<Rightarrow> jnode \<Rightarrow> bool" where
  "split_into P n m \<longleftrightarrow> m = JNode (jn_data n) (jn_children m) \<and> list_all P (jn_children m)
     \<or> jn_type m = JSON_NULL"

lemma split_Nullify [simp]: "split_into P n (Nullify m)"
  by (simp add: split_into_def Nullify_def nullified_def)

lemma split_self: "list_all P (jn_children n) \<Longrightarrow> split_into P n n"
  by (simp add: split_into_def)

lemma split_snoc:
  "list_all P (jn_children n) \<Longrightarrow> P c \<Longrightarrow> split_into P n (JNode (jn_data n) (jn_children n @ [c]))"
  by (simp add: split_into_def)

abbreviation "element c \<equiv> raw c \<and> unnamed c"

lemma array_loop_split:
  "array_loop v i n = Inr m \<Longrightarrow> list_all element (jn_children n) \<Longrightarrow> split_into element n m"
proof (induction v i n arbitrary: m rule: array_loop.induct)
  case (1 v i n)
  show ?case
  proof (cases "FindNextRelevant Comma v i")
    case None
    then show ?thesis
      using 1(2,3) by (auto simp: array_loop.simps [of v i n] Let_def split_snoc elim!: NewNode_raw split: if_splits)
  next
    case (Some e)
    show ?thesis
    proof (cases "m = Nullify n")
      case False
      then obtain p where p: "NewNode n [] (slice i e v) True = Inr p" "array_loop v (e + 1) p = Inr m"
        "FindNextRelevant Colon (slice i e v) 0 = None"
        using 1(2) Some by (auto simp: array_loop.simps [of v i n] Let_def split: if_splits sum.splits)
      obtain c where c: "p = JNode (jn_data n) (jn_children n @ [c])" "element c"
        using p(1) by (auto elim: NewNode_raw)
      have "split_into element p m"
        using 1(1) [OF Some refl _ p(1) p(2)] p(3) 1(3) c by simp
      then show ?thesis by (simp add: split_into_def c(1))
    qed simp
  qed
qed

lemma node_loop_split:
  "node_loop v name i n = Inr m \<Longrightarrow> list_all raw (jn_children n) \<Longrightarrow> split_into raw n m"
proof (induction v name i n arbitrary: m rule: node_loop.induct)
  case (1 v name i n)
  show ?case
  proof (cases "FindNextRelevant Comma v i")
    case None
    then show ?thesis
      using 1(2,3) by (auto simp: node_loop.simps [of v name i n] split_snoc elim!: NewNode_raw)
  next
    case (Some e)
    then obtain p where p: "NewNode n name (slice (i + 1) e v) False = Inr p"
      using 1(2) by (auto simp: node_loop.simps [of v name i n] split: sum.splits)
    obtain c where c: "p = JNode (jn_data n) (jn_children n @ [c])" "raw c"
      using p by (auto elim: NewNode_raw)
    show ?thesis
    proof (cases "FindNextRelevant Colon v (e + 1)")
      case None
      then have "m = Nullify p" using 1(2) Some p by (simp add: node_loop.simps [of v name i n])
      then show ?thesis by simp
    next
      case (Some k)
      then obtain nm where nm: "member_name v (e + 1) k = Inr nm" "node_loop v nm k p = Inr m"
        using 1(2) \<open>FindNextRelevant Comma v i = Some e\<close> p by (auto simp: node_loop.simps [of v name i n] split: sum.splits)
      have "split_into raw p m"
        using 1(1) [OF \<open>FindNextRelevant Comma v i = Some e\<close> p Some nm(1) nm(2)] 1(3) c by simp
      then show ?thesis by (simp add: split_into_def c(1))
    qed
  qed
qed


lemma DoArray_split: "DoArray n v = Inr m \<Longrightarrow> jn_children n = [] \<Longrightarrow> split_into element n m"
  using array_loop_split [of v 1 n m] by (auto simp: DoArray_def split_self split: if_splits)

lemma DoNode_split: "DoNode n v = Inr m \<Longrightarrow> jn_children n = [] \<Longrightarrow> split_into raw n m"
  using node_loop_split [of v _ _ n m]
  by (auto simp: DoNode_def split_self split: if_splits option.splits sum.splits)

section \<open>Fetched trees\<close>

text \<open>The shape of a tree in which everything has been fetched.\<close>

fun typed :: "jnode \<Rightarrow> bool" where
  "typed (JNode d cs) \<longleftrightarrow> jd_fetched d \<and> well_read d \<and>
    (case jd_type d of
       JSON_NODE \<Rightarrow> jd_string d = [] \<and> list_all typed cs
     | JSON_ARRAY \<Rightarrow> jd_string d = [] \<and> list_all typed cs \<and> list_all unnamed cs
     | JSON_NUMBER \<Rightarrow> cs = [] \<and> jd_number d = Some (c_text (jd_string d))
     | JSON_STRING \<Rightarrow> cs = []
     | JSON_BOOL \<Rightarrow> cs = []
     | JSON_NULL \<Rightarrow> True)"

text \<open>What one \<open>Fetch\<close> makes of a node from text.\<close>

definition fetched_shape :: "jnode \<Rightarrow> bool" where
  "fetched_shape m \<longleftrightarrow> jd_fetched (jn_data m) \<and> well_read (jn_data m) \<and>
    (case jn_type m of
       JSON_NODE \<Rightarrow> jd_string (jn_data m) = [] \<and> list_all raw (jn_children m)
     | JSON_ARRAY \<Rightarrow> jd_string (jn_data m) = [] \<and> list_all element (jn_children m)
     | JSON_NUMBER \<Rightarrow> jn_children m = [] \<and> jd_number (jn_data m) = Some (c_text (jd_string (jn_data m)))
     | JSON_STRING \<Rightarrow> jn_children m = []
     | JSON_BOOL \<Rightarrow> jn_children m = []
     | JSON_NULL \<Rightarrow> True)"

lemma well_read_other: "jd_type d \<notin> {JSON_NUMBER, JSON_BOOL} \<Longrightarrow> well_read d"
  by (auto simp: well_read_def)

abbreviation "mark_fetched n \<equiv> on_data (\<lambda>d. d\<lparr>jd_fetched := True\<rparr>) n"

lemma fetched_Nullify: "fetched_shape (mark_fetched (Nullify n))"
  by (simp add: fetched_shape_def Nullify_def nullified_def well_read_def)

lemma Fetch_split:
  assumes "clear_text r = Inr k" "\<And>m. r = Inr m \<Longrightarrow> split_into P n m" "jn_type n = ty"
    and "ty = JSON_NODE \<and> P = raw \<or> ty = JSON_ARRAY \<and> P = (\<lambda>c. element c)"
  shows "fetched_shape (mark_fetched k)"
proof -
  obtain m where m: "r = Inr m" "k = on_data (\<lambda>d. d\<lparr>jd_string := []\<rparr>) m"
    using assms(1) by (cases r) (auto simp: clear_text_def)
  from assms(2) [OF m(1)] show ?thesis
    unfolding split_into_def
  proof
    assume "m = JNode (jn_data n) (jn_children m) \<and> list_all P (jn_children m)"
    moreover from this have "jn_data m = jn_data n" by (metis jnode.sel(1))
    ultimately show ?thesis using assms(3,4) by (auto simp: m(2) fetched_shape_def well_read_other)
  qed (simp add: m(2) fetched_shape_def well_read_other)
qed

lemma Fetch_raw:
  assumes "Fetch n = Inr m" "raw n"
  shows "fetched_shape m"
proof (cases "jd_fetched (jn_data n)")
  case True
  then show ?thesis using assms by (auto simp: Fetch_def fetched_shape_def raw_def)
next
  case False
  then have ch: "jn_children n = []" "well_read (jn_data n)" "jn_type n \<notin> {JSON_BOOL, JSON_NULL}"
    using assms(2) by (auto simp: raw_def)
  obtain k where k: "m = mark_fetched k"
    "(case jn_type n of JSON_STRING \<Rightarrow> FetchString n | JSON_NODE \<Rightarrow> FetchNode n | JSON_ARRAY \<Rightarrow> FetchArray n
        | JSON_NUMBER \<Rightarrow> Inr (FetchNumber n) | _ \<Rightarrow> Inr (Nullify n)) = Inr k"
    using assms(1) False by (auto simp: Fetch_def map_sum_def split: sum.splits)
  show ?thesis
  proof (cases "jn_type n")
    case JSON_STRING
    then show ?thesis using k ch
      by (auto simp: FetchString_def Let_def fetched_Nullify split: if_splits sum.splits)
        (auto simp: fetched_shape_def well_read_other)
  next
    case JSON_NODE
    then show ?thesis using k ch(1) Fetch_split [of "DoNode n (jd_string (jn_data n))" k raw n JSON_NODE] DoNode_split
      by (auto simp: FetchNode_def Let_def fetched_Nullify split: if_splits)
  next
    case JSON_ARRAY
    then show ?thesis
      using k ch(1) Fetch_split [of "DoArray n (jd_string (jn_data n))" k "\<lambda>c. element c" n JSON_ARRAY] DoArray_split
      by (auto simp: FetchArray_def Let_def fetched_Nullify split: if_splits)
  next
    case JSON_NUMBER
    then show ?thesis using k ch by (auto simp: FetchNumber_def fetched_shape_def well_read_def)
  qed (use ch in auto)
qed


lemma array_loop_name: "array_loop v i n = Inr m \<Longrightarrow> jd_name (jn_data m) = jd_name (jn_data n)"
proof (induction v i n arbitrary: m rule: array_loop.induct)
  case (1 v i n)
  from 1(2) show ?case unfolding array_loop.simps [of v i n] Let_def
    using 1(1) by (fastforce simp: Nullify_def nullified_def elim: NewNode_raw split: if_splits sum.splits option.splits)
qed

lemma node_loop_name: "node_loop v name i n = Inr m \<Longrightarrow> jd_name (jn_data m) = jd_name (jn_data n)"
proof (induction v name i n arbitrary: m rule: node_loop.induct)
  case (1 v name i n)
  from 1(2) show ?case unfolding node_loop.simps [of v name i n]
    using 1(1) by (fastforce simp: Nullify_def nullified_def elim: NewNode_raw split: sum.splits option.splits)
qed

lemma Fetch_name: "Fetch n = Inr m \<Longrightarrow> jd_name (jn_data m) = jd_name (jn_data n)"
  by (auto simp: Fetch_def FetchString_def FetchNode_def FetchArray_def FetchNumber_def DoArray_def DoNode_def
      clear_text_def Let_def Nullify_def nullified_def map_sum_def
      dest!: array_loop_name node_loop_name split: if_splits sum.splits json_type.splits option.splits)

lemma preparse_name: "preparse n = Inr m \<Longrightarrow> jd_name (jn_data m) = jd_name (jn_data n)"
  by (auto simp: preparse.simps [of n] map_sum_def dest: Fetch_name split: sum.splits if_splits)

lemma preparse_list_names:
  "preparse_list cs = Inr ms \<Longrightarrow> list_all unnamed cs \<Longrightarrow> list_all unnamed ms"
  by (induction cs arbitrary: ms) (auto simp: map_sum_def unnamed_def dest: preparse_name split: sum.splits)

lemma preparse_typed:
  "preparse n = Inr m \<Longrightarrow> raw n \<Longrightarrow> typed m"
  "preparse_list cs = Inr ms \<Longrightarrow> list_all raw cs \<Longrightarrow> list_all typed ms"
proof (induction n and cs arbitrary: m and ms rule: preparse_preparse_list.induct)
  case (1 n)
  then obtain k where k: "Fetch n = Inr k" by (auto simp: preparse.simps [of n] split: sum.splits)
  note shape = Fetch_raw [OF k 1(3)]
  show ?case
  proof (cases "isContainer k")
    case True
    then obtain ms where ms: "preparse_list (jn_children k) = Inr ms" "m = JNode (jn_data k) ms"
      using 1(2) k by (auto simp: preparse.simps [of n] map_sum_def split: sum.splits)
    have "list_all raw (jn_children k)" "jn_type k = JSON_ARRAY \<longrightarrow> list_all unnamed (jn_children k)"
      using shape True by (auto simp: fetched_shape_def isContainer_def list_all_iff)
    then have "list_all typed ms" "jn_type k = JSON_ARRAY \<longrightarrow> list_all unnamed ms"
      using 1(1) [OF k True ms(1)] preparse_list_names [OF ms(1)] by blast+
    then show ?thesis using shape True by (auto simp: ms(2) fetched_shape_def isContainer_def)
  next
    case False
    then have m: "m = JNode (jn_data k) (jn_children k)" using 1(2) k by (simp add: preparse.simps [of n])
    show ?thesis unfolding m using shape False
      by (cases k) (auto simp: fetched_shape_def isContainer_def split: json_type.splits)
  qed
next
  case (3 c cs)
  then show ?case by (auto simp: map_sum_def split: sum.splits)
qed simp

lemma newInternal_root_raw: "raw (newInternal_root s)"
proof (cases s)
  case (Cons c s')
  show ?thesis
    unfolding newInternal_root_def Let_def Cons list.case
    by (intro if_case [where P = raw]) (simp_all add: raw_def well_read_def newInternal_def nullified_def)
qed (simp add: newInternal_root_def raw_def well_read_def newInternal_def nullified_def)

text \<open>
  C9: Whatever text libjson accepts, the tree it is read into is well-formed: everything is
  fetched, only containers (and nodes given up as null) have children, elements of arrays have no
  names, a number was given by the text of one, and a truth value by its word.
\<close>

theorem json_tree_typed:
  assumes "json_parse txt = Inr (n, u)" "preparse n = Inr m"
  shows "typed m"
proof -
  obtain k s where "n = on_data (jd_comment_update k) (newInternal_root s)"
    using assms(1) by (auto simp: json_parse_def parse_stripped_def map_sum_def split: sum.splits prod.splits if_splits)
  then have "raw n" by (simp add: raw_on_data newInternal_root_raw)
  then show ?thesis by (rule preparse_typed(1) [OF assms(2)])
qed

text \<open>What a text is read into, as far as the kinds of its root's grandchildren show it.\<close>

definition kinds_read :: "bytes \<Rightarrow> json_type list list option" where
  "kinds_read txt = (case json_parse txt of Inl e \<Rightarrow> None
     | Inr (n, u) \<Rightarrow> (case preparse n of Inl e \<Rightarrow> None
         | Inr m \<Rightarrow> Some (map (\<lambda>c. map jn_type (jn_children c)) (jn_children m))))"

lemma kinds_read_Some:
  assumes "kinds_read txt = Some ks"
  obtains n u m where "json_parse txt = Inr (n, u)" "preparse n = Inr m"
    "map (\<lambda>c. map jn_type (jn_children c)) (jn_children m) = ks"
  using assms by (auto simp: kinds_read_def split: sum.splits prod.splits)

text \<open>\<open>{"a":[1, tru],"b":{}}\<close>: the word that is none becomes null.\<close>

lemma kinds_read_example:
  "kinds_read [123, 34, 97, 34, 58, 91, 49, 44, 32, 116, 114, 117, 93, 44, 34, 98, 34, 58, 123, 125, 125]
     = Some [[JSON_NUMBER, JSON_NULL], []]"
  by code_simp

theorem json_tree_typed_witness:
  "\<exists>n u m. json_parse [123, 34, 97, 34, 58, 91, 49, 44, 32, 116, 114, 117, 93, 44, 34, 98, 34, 58, 123, 125, 125]
      = Inr (n, u) \<and> preparse n = Inr m \<and> typed m
    \<and> map (\<lambda>c. map jn_type (jn_children c)) (jn_children m) = [[JSON_NUMBER, JSON_NULL], []]"
proof (rule kinds_read_Some [OF kinds_read_example])
  fix n u m
  assume r: "json_parse [123, 34, 97, 34, 58, 91, 49, 44, 32, 116, 114, 117, 93, 44, 34, 98, 34, 58, 123, 125, 125] = Inr (n, u)"
    and p: "preparse n = Inr m"
    and k: "map (\<lambda>c. map jn_type (jn_children c)) (jn_children m) = [[JSON_NUMBER, JSON_NULL], []]"
  note t = json_tree_typed [OF r p]
  show ?thesis by (rule exI [where x = n], rule exI [where x = u], rule exI [where x = m], rule conjI [OF r conjI [OF p conjI [OF t k]]])
qed

end
