(* ===== verification/JsonOps.thy ===== *)
theory JsonOps
  imports JsonRead
begin

text \<open>
  The operations of libjson's nodes around those of \<open>JsonNode\<close>: copies, casts, equality, and names
  compared without case.
\<close>

section \<open>Copies and casts\<close>

text \<open>
  A copy has the children of a container only. The number of a node without one is the zero it is
  initialised to; the value of a union member that is not the active one is undefined.
\<close>

fun duplicate :: "jnode \<Rightarrow> jnode" where
  "duplicate (JNode d cs) =
    JNode d (if jd_type d = JSON_NODE \<or> jd_type d = JSON_ARRAY then map duplicate cs else [])"

definition as_node :: "jnode \<Rightarrow> jnode" where
  "as_node n =
    (if jn_type n = JSON_NODE then n
     else if jn_type n = JSON_ARRAY then on_data (\<lambda>d. d\<lparr>jd_type := JSON_NODE\<rparr>) (duplicate n)
     else newInternal JSON_NODE)"

definition clear_name :: "jnode \<Rightarrow> jnode" where
  "clear_name = on_data (\<lambda>d. d\<lparr>jd_name := []\<rparr>)"

definition as_array :: "jnode \<Rightarrow> jnode" where
  "as_array n =
    (if jn_type n = JSON_ARRAY then n
     else if jn_type n = JSON_NODE then
       (let res = on_data (\<lambda>d. d\<lparr>jd_type := JSON_ARRAY\<rparr>) (duplicate n) in
        JNode (jn_data res) (map clear_name (jn_children res)))
     else newInternal JSON_ARRAY)"

definition number_of :: "json_data \<Rightarrow> bytes" where
  "number_of d = (case jd_number d of None \<Rightarrow> [48] | Some t \<Rightarrow> t)"

text \<open>\<open>as_float\<close> and \<open>as_bool\<close>; a number is the text it is read from, and \<open>is_zero\<close> tells that it is 0.\<close>

definition json_as_float :: "jnode \<Rightarrow> exn + bytes \<times> jnode" where
  "json_as_float n =
    (case Fetch n of
       Inl e \<Rightarrow> Inl e
     | Inr m \<Rightarrow>
         (case jn_type m of
            JSON_NULL \<Rightarrow> Inr ([48], m)
          | JSON_BOOL \<Rightarrow> Inr (if jd_bool (jn_data m) then [49] else [48], m)
          | JSON_STRING \<Rightarrow> (let k = FetchNumber m in Inr (number_of (jn_data k), k))
          | JSON_NUMBER \<Rightarrow> Inr (number_of (jn_data m), m)
          | _ \<Rightarrow> Inl (Undef ''inactive member of a union'')))"

definition json_as_bool :: "(bytes \<Rightarrow> bool) \<Rightarrow> jnode \<Rightarrow> exn + bool \<times> jnode" where
  "json_as_bool is_zero n =
    (case Fetch n of
       Inl e \<Rightarrow> Inl e
     | Inr m \<Rightarrow>
         (case jn_type m of
            JSON_NUMBER \<Rightarrow> Inr (\<not> is_zero (number_of (jn_data m)), m)
          | JSON_NULL \<Rightarrow> Inr (False, m)
          | JSON_BOOL \<Rightarrow> Inr (jd_bool (jn_data m), m)
          | _ \<Rightarrow> Inl (Undef ''inactive member of a union'')))"

text \<open>\<open>Set(double)\<close> keeps the number and the text \<open>_ftoa\<close> makes of it.\<close>

definition Set_float :: "(bytes \<Rightarrow> bytes) \<Rightarrow> bytes \<Rightarrow> jnode \<Rightarrow> jnode" where
  "Set_float ftoa val = on_data (\<lambda>d. d\<lparr>jd_type := JSON_NUMBER, jd_number := Some val, jd_string := ftoa val,
     jd_fetched := True\<rparr>)"

definition json_cast :: "(bytes \<Rightarrow> bytes) \<Rightarrow> (bytes \<Rightarrow> bool) \<Rightarrow> json_type \<Rightarrow> jnode \<Rightarrow> exn + jnode" where
  "json_cast ftoa is_zero newtype n =
    (if newtype = jn_type n then Inr n
     else
       (case newtype of
          JSON_NULL \<Rightarrow> Inr (Nullify n)
        | JSON_STRING \<Rightarrow> map_sum id (\<lambda>(s, m). Set_string s m) (json_as_string n)
        | JSON_NUMBER \<Rightarrow> map_sum id (\<lambda>(v, m). Set_float ftoa v m) (json_as_float n)
        | JSON_BOOL \<Rightarrow> map_sum id (\<lambda>(b, m). Set_bool b m) (json_as_bool is_zero n)
        | JSON_ARRAY \<Rightarrow> Inr (as_array n)
        | JSON_NODE \<Rightarrow> Inr (as_node n)))"

section \<open>Equality\<close>

text \<open>
  Both nodes are fetched; \<open>feq\<close> compares the floating point numbers of two texts. When fetching
  has made a node null that had no children, the code follows their null pointer. A node compared
  with itself is equal without all this, which does not show in values.
\<close>

function (sequential) IsEqualTo :: "(bytes \<Rightarrow> bytes \<Rightarrow> bool) \<Rightarrow> jnode \<Rightarrow> jnode \<Rightarrow> exn + bool"
  and IsEqualTo_list :: "(bytes \<Rightarrow> bytes \<Rightarrow> bool) \<Rightarrow> jnode list \<Rightarrow> jnode list \<Rightarrow> exn + bool" where
  "IsEqualTo feq n val =
    (if jn_type n \<noteq> jn_type val then Inr False
     else if jd_name (jn_data n) \<noteq> jd_name (jn_data val) then Inr False
     else if jn_type n = JSON_NULL then Inr True
     else
       (case Fetch n of
          Inl e \<Rightarrow> Inl e
        | Inr n' \<Rightarrow>
            (case Fetch val of
               Inl e \<Rightarrow> Inl e
             | Inr v' \<Rightarrow>
                 (case jn_type n' of
                    JSON_STRING \<Rightarrow> Inr (jd_string (jn_data v') = jd_string (jn_data n'))
                  | JSON_NUMBER \<Rightarrow> Inr (feq (number_of (jn_data v')) (number_of (jn_data n')))
                  | JSON_BOOL \<Rightarrow> Inr (jd_bool (jn_data v') = jd_bool (jn_data n'))
                  | _ \<Rightarrow>
                      if \<not> isContainer n then Inl (Undef ''null pointer to the children'')
                      else if length (jn_children n') \<noteq> length (jn_children v') then Inr False
                      else IsEqualTo_list feq (jn_children n') (jn_children v')))))"
| "IsEqualTo_list feq (c # cs) (v # vs) =
    (case IsEqualTo feq c v of
       Inl e \<Rightarrow> Inl e
     | Inr b \<Rightarrow> if b then IsEqualTo_list feq cs vs else Inr False)"
| "IsEqualTo_list feq _ _ = Inr True"
  by pat_completeness auto
termination
  by (relation "measure (case_sum (\<lambda>(feq, n, v). 2 * weight n) (\<lambda>(feq, cs, vs). 2 * weights cs + 1))")
    (auto dest: Fetch_weight simp: weight_pos)

declare IsEqualTo.simps [simp del]

definition IsEqualTo_string :: "bytes \<Rightarrow> jnode \<Rightarrow> exn + bool \<times> jnode" where
  "IsEqualTo_string val n = (if jn_type n \<noteq> JSON_STRING then Inr (False, n)
     else map_sum id (\<lambda>m. (val = jd_string (jn_data m), m)) (Fetch n))"

definition IsEqualTo_bool :: "bool \<Rightarrow> jnode \<Rightarrow> exn + bool \<times> jnode" where
  "IsEqualTo_bool val n = (if jn_type n \<noteq> JSON_BOOL then Inr (False, n)
     else map_sum id (\<lambda>m. (val = jd_bool (jn_data m), m)) (Fetch n))"

section \<open>Names without case\<close>

text \<open>Texts without their final NUL: behind the end of the second there is the NUL.\<close>

fun AreEqualNoCase :: "bytes \<Rightarrow> bytes \<Rightarrow> bool" where
  "AreEqualNoCase [] two \<longleftrightarrow> two = []"
| "AreEqualNoCase (c_one # one) two =
    (let c_two = (case two of [] \<Rightarrow> 0 | c # _ \<Rightarrow> c) in
     if c_one \<noteq> c_two then
       (if 64 < c_two \<and> c_two < 91 then (if c_one \<noteq> c_two + 32 then False else AreEqualNoCase one (tl two))
        else if 96 < c_two \<and> c_two < 123 then (if c_one \<noteq> c_two - 32 then False else AreEqualNoCase one (tl two))
        else False)
     else AreEqualNoCase one (tl two))"

definition child_of_name_nocase :: "bytes \<Rightarrow> jnode \<Rightarrow> nat option" where
  "child_of_name_nocase name m =
    List.find (\<lambda>i. AreEqualNoCase (c_text (jd_name (jn_data (jn_children m ! i)))) (c_text name))
      [0..<length (jn_children m)]"

definition json_at_nocase :: "bytes \<Rightarrow> jnode \<Rightarrow> exn + jnode \<times> jnode" where
  "json_at_nocase name n =
    (if \<not> isContainer n then Inl StdOutOfRange
     else
       (case Fetch n of
          Inl e \<Rightarrow> Inl e
        | Inr m \<Rightarrow>
            (case child_of_name_nocase name m of
               None \<Rightarrow> Inl StdOutOfRange
             | Some i \<Rightarrow> Inr (jn_children m ! i, m))))"

definition json_pop_back_nocase :: "bytes \<Rightarrow> jnode \<Rightarrow> exn + jnode \<times> jnode" where
  "json_pop_back_nocase name n =
    (if \<not> isContainer n then Inl StdOutOfRange
     else
       (case Fetch n of
          Inl e \<Rightarrow> Inl e
        | Inr m \<Rightarrow>
            (case child_of_name_nocase name m of
               None \<Rightarrow> Inl StdOutOfRange
             | Some i \<Rightarrow>
                 Inr (jn_children m ! i, JNode (jn_data m) (take i (jn_children m) @ drop (i + 1) (jn_children m))))))"

section \<open>Equality of values\<close>

text \<open>A node that is fetched to a value, down to its last child; the names inside it are those of the value.\<close>

fun denotes :: "jvalue \<Rightarrow> jnode \<Rightarrow> bool" where
  "denotes VNull n \<longleftrightarrow> jn_type n = JSON_NULL"
| "denotes (VBool b) n \<longleftrightarrow> jn_type n = JSON_BOOL
     \<and> (\<exists>m. Fetch n = Inr m \<and> jn_type m = JSON_BOOL \<and> jd_bool (jn_data m) = b)"
| "denotes (VInt i) n \<longleftrightarrow> jn_type n = JSON_NUMBER
     \<and> (\<exists>m. Fetch n = Inr m \<and> jn_type m = JSON_NUMBER \<and> number_of (jn_data m) = number_text i)"
| "denotes (VString s) n \<longleftrightarrow> jn_type n = JSON_STRING
     \<and> (\<exists>m. Fetch n = Inr m \<and> jn_type m = JSON_STRING \<and> jd_string (jn_data m) = s)"
| "denotes (VArray vs) n \<longleftrightarrow> jn_type n = JSON_ARRAY
     \<and> (\<exists>m. Fetch n = Inr m \<and> jn_type m = JSON_ARRAY
          \<and> list_all2 (\<lambda>v c. jd_name (jn_data c) = [] \<and> denotes v c) vs (jn_children m))"
| "denotes (VObject kvs) n \<longleftrightarrow> jn_type n = JSON_NODE
     \<and> (\<exists>m. Fetch n = Inr m \<and> jn_type m = JSON_NODE
          \<and> list_all2 (\<lambda>kv c. jd_name (jn_data c) = fst kv \<and> denotes (snd kv) c) kvs (jn_children m))"

lemma build_root: "jd_fetched (jn_data (build v)) \<and> jd_name (jn_data (build v)) = []" if "value_ok v"
  using that
  by (cases v) (auto simp: Set_bool_def Set_int_def Set_string_def Nullify_def nullified_def newInternal_def
      push_all_children isContainer_def itoa_number_text)

lemma denotes_setname: "jd_fetched (jn_data n) \<Longrightarrow> denotes v (setname k n) = denotes v n"
  by (cases v) (auto simp: setname_def Fetch_def number_of_def)

lemma denotes_build: "value_ok v \<Longrightarrow> denotes v (build v)"
proof (induction v)
  case (VInt i)
  then show ?case by (simp add: Set_int_def itoa_number_text Fetch_def number_of_def)
next
  case (VArray vs)
  then have "list_all2 (\<lambda>v c. jd_name (jn_data c) = [] \<and> denotes v c) vs (map build vs)"
    using build_root by (auto simp: list_all2_map2 list_all2_same list_all_iff)
  then show ?case by (simp add: push_all_children isContainer_def newInternal_def Fetch_def)
next
  case (VObject kvs)
  have "denotes (snd kv) (build (snd kv)) \<and> value_ok (snd kv)" if "kv \<in> set kvs" for kv
    using VObject.IH [OF that snd_in_snds] VObject.prems that by (auto simp: list_all_iff)
  then have "list_all2 (\<lambda>kv c. jd_name (jn_data c) = fst kv \<and> denotes (snd kv) c) kvs
      (map (\<lambda>kv. setname (fst kv) (build (snd kv))) kvs)"
    using build_root by (auto simp: list_all2_map2 list_all2_same denotes_setname) (simp add: setname_def)
  then show ?case by (simp add: push_all_children isContainer_def newInternal_def Fetch_def)
qed (auto simp: Set_bool_def Set_string_def Nullify_def nullified_def Fetch_def)

lemma denotes_leaf: "value_ok v \<Longrightarrow> denotes v (leaf nm enc (render stripped_char v))"
proof (induction v arbitrary: nm enc)
  case VNull
  show ?case by (simp add: leaf_def value_data_def base_data_def newInternal_def)
next
  case (VBool b)
  show ?case by (cases b) (simp_all add: leaf_def value_data_def Fetch_def base_data_def newInternal_def)
next
  case (VInt i)
  show ?case
    using number_text_no_nul [of i]
    by (simp add: leaf_number Fetch_def FetchNumber_def c_text_id number_of_def)
next
  case (VString s)
  obtain t u where t: "FixString (concat (map stripped_char s)) = Inr (t, u)" "t = s"
    using name_of [of s] VString by (metis prod.collapse value_ok.simps(2))
  have "slice 1 (length (quoted stripped_char s) - 1) (quoted stripped_char s) = concat (map stripped_char s)"
    by (simp add: slice_def quoted_def)
  then have "FetchString (leaf nm enc (quoted stripped_char s))
      = Inr (on_data (\<lambda>d. d\<lparr>jd_string := s, jd_string_encoded := u\<rparr>) (leaf nm enc (quoted stripped_char s)))"
    using t by (simp add: FetchString_def leaf_string) (simp add: quoted_def)
  then show ?case by (simp add: leaf_string Fetch_def)
next
  case (VArray vs)
  have "list_all element_ok (map (render stripped_char) vs)"
    using VArray.prems element_value by (auto simp: list_all_iff)
  note f = Fetch_array [OF this, of nm enc]
  have "jd_name (jn_data (leaf [] False t)) = []" for t
    by (simp add: leaf_def value_data_keeps base_data_def newInternal_def)
  then have "list_all2 (\<lambda>v c. jd_name (jn_data c) = [] \<and> denotes v c) vs (map (leaf [] False) (map (render stripped_char) vs))"
    using VArray by (auto simp: list_all2_map2 list_all2_same list_all_iff)
  then show ?case using f by (simp add: leaf_array)
next
  case (VObject kvs)
  let ?text = "\<lambda>kv. (fst kv, render stripped_char (snd kv))"
  have "list_all (\<lambda>m. 0 \<notin> set (fst m) \<and> element_ok (snd m)) (map ?text kvs)"
    using VObject.prems element_value by (auto simp: list_all_iff)
  note f = Fetch_node [OF this, of nm enc]
  have "jd_name (jn_data (member_leaf (?text kv))) = fst kv \<and> denotes (snd kv) (member_leaf (?text kv))" if "kv \<in> set kvs" for kv
    using VObject.IH [OF that snd_in_snds] VObject.prems that name_of [of "fst kv"]
    by (auto simp: member_leaf_def list_all_iff leaf_def value_data_keeps base_data_def newInternal_def)
  then have "list_all2 (\<lambda>kv c. jd_name (jn_data c) = fst kv \<and> denotes (snd kv) c) kvs (map member_leaf (map ?text kvs))"
    by (auto simp: list_all2_map2 list_all2_same)
  then show ?case using f by (simp add: leaf_node comp_def)
qed

text \<open>Integers a floating point number holds, and a comparison that is exact on them.\<close>

definition exact_int :: "int \<Rightarrow> bool" where
  "exact_int i \<longleftrightarrow> \<bar>i\<bar> \<le> 9007199254740992"

fun exact_ints :: "jvalue \<Rightarrow> bool" where
  "exact_ints (VInt i) \<longleftrightarrow> exact_int i"
| "exact_ints (VArray vs) \<longleftrightarrow> list_all exact_ints vs"
| "exact_ints (VObject kvs) \<longleftrightarrow> list_all (\<lambda>kv. exact_ints (snd kv)) kvs"
| "exact_ints _ \<longleftrightarrow> True"

definition float_exact :: "(bytes \<Rightarrow> bytes \<Rightarrow> bool) \<Rightarrow> bool" where
  "float_exact feq \<longleftrightarrow> (\<forall>i j. exact_int i \<longrightarrow> exact_int j \<longrightarrow> feq (number_text i) (number_text j) = (i = j))"

lemma IsEqualTo_names:
  "jd_name (jn_data n) \<noteq> jd_name (jn_data m) \<Longrightarrow> IsEqualTo feq n m = Inr False"
  "jn_type n \<noteq> jn_type m \<Longrightarrow> IsEqualTo feq n m = Inr False"
  by (simp_all add: IsEqualTo.simps)

lemma IsEqualTo_members:
  "list_all2 P vs cs \<Longrightarrow> list_all2 P ws ds \<Longrightarrow> length cs = length ds \<Longrightarrow>
    (\<And>v w c d. v \<in> set vs \<Longrightarrow> w \<in> set ws \<Longrightarrow> P v c \<Longrightarrow> P w d \<Longrightarrow> IsEqualTo feq c d = Inr (v = w)) \<Longrightarrow>
    IsEqualTo_list feq cs ds = Inr (vs = ws)"
proof (induction arbitrary: ws ds rule: list_all2_induct)
  case (Cons v vs c cs)
  from Cons.prems(2) obtain d ds' where ds: "ds = d # ds'" by (cases ds) auto
  then obtain w ws' where ws: "ws = w # ws'" "P w d" "list_all2 P ws' ds'" using Cons.prems(1) by (auto simp: list_all2_Cons2)
  have "IsEqualTo feq c d = Inr (v = w)" using Cons.prems(3) Cons.hyps(1) ws by simp
  moreover have "IsEqualTo_list feq cs ds' = Inr (vs = ws')"
    using Cons.IH [OF ws(3)] Cons.prems(2,3) ds ws(1) by simp
  ultimately show ?case by (simp add: ds ws(1))
qed simp

lemma denotes_type:
  "denotes v n \<Longrightarrow> jn_type n = (case v of VNull \<Rightarrow> JSON_NULL | VBool b \<Rightarrow> JSON_BOOL | VInt i \<Rightarrow> JSON_NUMBER
     | VString s \<Rightarrow> JSON_STRING | VArray vs \<Rightarrow> JSON_ARRAY | VObject kvs \<Rightarrow> JSON_NODE)"
  by (cases v) auto

lemma IsEqualTo_denotes:
  assumes feq: "float_exact feq"
  shows "denotes v n \<Longrightarrow> denotes w m \<Longrightarrow> jd_name (jn_data n) = jd_name (jn_data m) \<Longrightarrow>
    exact_ints v \<Longrightarrow> exact_ints w \<Longrightarrow> IsEqualTo feq n m = Inr (v = w)"
proof (induction v arbitrary: w n m)
  case VNull
  then show ?case by (cases w) (auto simp: IsEqualTo.simps)
next
  case (VBool b)
  then show ?case by (cases w) (auto simp: IsEqualTo.simps)
next
  case (VInt i)
  then show ?case using feq by (cases w) (auto simp: IsEqualTo.simps float_exact_def)
next
  case (VString s)
  then show ?case by (cases w) (auto simp: IsEqualTo.simps)
next
  case (VArray vs)
  show ?case
  proof (cases "\<exists>ws. w = VArray ws")
    case True
    then obtain ws where w: "w = VArray ws" by blast
    let ?P = "\<lambda>v c. jd_name (jn_data c) = [] \<and> denotes v c"
    obtain n' m' where f: "Fetch n = Inr n'" "jn_type n' = JSON_ARRAY" "list_all2 ?P vs (jn_children n')"
      "Fetch m = Inr m'" "list_all2 ?P ws (jn_children m')" "jn_type n = JSON_ARRAY" "jn_type m = JSON_ARRAY"
      using VArray.prems(1,2) w by auto
    note l = list_all2_lengthD [OF f(3)] list_all2_lengthD [OF f(5)]
    have "IsEqualTo_list feq (jn_children n') (jn_children m') = Inr (vs = ws)" if "length (jn_children n') = length (jn_children m')"
    proof (rule IsEqualTo_members [OF f(3,5) that])
      fix v u c d
      assume "v \<in> set vs" "u \<in> set ws" "?P v c" "?P u d"
      then show "IsEqualTo feq c d = Inr (v = u)"
        using VArray.IH [of v c u d] VArray.prems(4,5) w by (simp add: list_all_iff)
    qed
    then show ?thesis using f l VArray.prems(3) by (auto simp: IsEqualTo.simps [of feq n] w isContainer_def)
  next
    case False
    then have "jn_type n \<noteq> jn_type m"
      using denotes_type [OF VArray.prems(1)] denotes_type [OF VArray.prems(2)] by (cases w) auto
    then show ?thesis using False IsEqualTo_names(2) by auto
  qed
next
  case (VObject kvs)
  show ?case
  proof (cases "\<exists>ws. w = VObject ws")
    case True
    then obtain ws where w: "w = VObject ws" by blast
    let ?P = "\<lambda>kv c. jd_name (jn_data c) = fst kv \<and> denotes (snd kv) c"
    obtain n' m' where f: "Fetch n = Inr n'" "jn_type n' = JSON_NODE" "list_all2 ?P kvs (jn_children n')"
      "Fetch m = Inr m'" "list_all2 ?P ws (jn_children m')" "jn_type n = JSON_NODE" "jn_type m = JSON_NODE"
      using VObject.prems(1,2) w by auto
    note l = list_all2_lengthD [OF f(3)] list_all2_lengthD [OF f(5)]
    have "IsEqualTo_list feq (jn_children n') (jn_children m') = Inr (kvs = ws)" if "length (jn_children n') = length (jn_children m')"
    proof (rule IsEqualTo_members [OF f(3,5) that])
      fix v u c d
      assume m: "v \<in> set kvs" "u \<in> set ws" "?P v c" "?P u d"
      show "IsEqualTo feq c d = Inr (v = u)"
      proof (cases "fst v = fst u")
        case True
        then show ?thesis
          using VObject.IH [OF m(1) snd_in_snds, of c "snd u" d] VObject.prems(4,5) w m
          by (simp add: list_all_iff prod_eq_iff)
      next
        case False
        then show ?thesis using m IsEqualTo_names(1) [of c d] by auto
      qed
    qed
    then show ?thesis using f l VObject.prems(3) by (auto simp: IsEqualTo.simps [of feq n] w isContainer_def)
  next
    case False
    then have "jn_type n \<noteq> jn_type m"
      using denotes_type [OF VObject.prems(1)] denotes_type [OF VObject.prems(2)] by (cases w) auto
    then show ?thesis using False IsEqualTo_names(2) by auto
  qed
qed

text \<open>
  C10: libjson's own comparison decides, of a document read from the text of a value and the nodes
  built for another value, whether the two values are the same, if the comparison of floating
  point numbers is exact on the integers in them.
\<close>

theorem json_equality_decides:
  assumes "value_ok v" "container_value v" "value_ok w" "exact_ints v" "exact_ints w" "float_exact feq"
    and "json_write used (build v) = Inr txt"
  shows "\<exists>n u. json_parse txt = Inr (n, u) \<and> IsEqualTo feq n (build w) = Inr (v = w)"
proof -
  have t: "txt = render escape_char v" using json_write_build [OF assms(1,2)] assms(7) by simp
  have "denotes v (newInternal_root (render stripped_char v))"
    using denotes_leaf [OF assms(1)] root_is_leaf [OF assms(2)] by simp
  moreover have "jd_name (jn_data (newInternal_root (render stripped_char v))) = []"
    unfolding root_is_leaf [OF assms(2)] by (simp add: leaf_def value_data_keeps base_data_def newInternal_def)
  ultimately have "IsEqualTo feq (newInternal_root (render stripped_char v)) (build w) = Inr (v = w)"
    using IsEqualTo_denotes [OF assms(6)] denotes_build [OF assms(3)] build_root [OF assms(3)] assms(4,5) by simp
  then show ?thesis using json_parse_render [OF assms(1,2)] t by auto
qed


text \<open>A comparison that is exact: by the integers the texts are.\<close>

definition digits_value :: "bytes \<Rightarrow> nat" where
  "digits_value ds = foldl (\<lambda>a c. 10 * a + unat (c - 48)) 0 ds"

definition text_int :: "bytes \<Rightarrow> int" where
  "text_int t = (if t \<noteq> [] \<and> hd t = 45 then - int (digits_value (tl t)) else int (digits_value t))"

lemma digit_value: "unat (digit n - 48) = n mod 10"
proof -
  have "n mod 10 < 10" by simp
  then show ?thesis by (simp add: digit_def unat_of_nat)
qed

lemma digits_value_loop: "digits_value (digit_loop n []) = n"
proof (induction n rule: less_induct)
  case (less n)
  show ?case
  proof (cases "n div 10 = 0")
    case True
    then have "n mod 10 = n" by simp
    then show ?thesis using True digit_value [of n] by (simp add: digit_loop.simps [of n] Let_def digits_value_def digit_def)
  next
    case False
    then have "n div 10 < n" by (cases n) auto
    then have v: "digits_value (digit_loop (n div 10) []) = n div 10" by (rule less)
    have "digit_loop n [] = digit_loop (n div 10) [] @ [digit n]"
      using False digit_loop_append [of "n div 10" "[digit n]"] by (simp add: digit_loop.simps [of n] Let_def digit_def)
    then show ?thesis using v digit_value [of n] by (simp add: digits_value_def)
  qed
qed

lemma text_int_number: "text_int (number_text i) = i"
proof (cases "i < 0")
  case True
  then show ?thesis by (simp add: text_int_def number_text_def digits_value_loop)
next
  case False
  have "list_all is_digit (digit_loop (nat i) [])" "digit_loop (nat i) [] \<noteq> []" using digit_loop_digits by auto
  then have "hd (digit_loop (nat i) []) \<noteq> 45" by (cases "digit_loop (nat i) []") (auto simp: is_digit_def)
  then show ?thesis using False by (simp add: text_int_def number_text_def digits_value_loop)
qed

theorem json_equality_decides_witness:
  "(\<exists>n u. json_parse example_text = Inr (n, u)
      \<and> IsEqualTo (\<lambda>t u. text_int t = text_int u) n (build example_value) = Inr True)
   \<and> (\<exists>n u. json_parse example_text = Inr (n, u)
      \<and> IsEqualTo (\<lambda>t u. text_int t = text_int u) n (build (VObject [([97, 34], VArray [VInt 12])])) = Inr False)"
proof -
  have f: "float_exact (\<lambda>t u. text_int t = text_int u)" by (simp add: float_exact_def text_int_number)
  have w: "json_write False (build example_value) = Inr example_text" by code_simp
  have v: "value_ok example_value" "container_value example_value" "exact_ints example_value"
    by (simp_all add: example_value_def exact_int_def)
  have "\<exists>n u. json_parse example_text = Inr (n, u)
      \<and> IsEqualTo (\<lambda>t u. text_int t = text_int u) n (build example_value) = Inr True"
    using json_equality_decides [OF v(1,2,1,3,3) f w] by simp
  moreover have "\<exists>n u. json_parse example_text = Inr (n, u)
      \<and> IsEqualTo (\<lambda>t u. text_int t = text_int u) n (build (VObject [([97, 34], VArray [VInt 12])])) = Inr False"
    using json_equality_decides [OF v(1,2) _ v(3) _ f w, of "VObject [([97, 34], VArray [VInt 12])]"]
    by (simp add: exact_int_def example_value_def)
  ultimately show ?thesis by blast
qed

section \<open>Comparing without case\<close>

definition lower :: "byte \<Rightarrow> byte" where
  "lower c = (if 64 < c \<and> c < 91 then c + 32 else c)"

lemma find_index_filter:
  "(case List.find (\<lambda>i. P (cs ! i)) [0..<length cs] of None \<Rightarrow> e | Some i \<Rightarrow> f (cs ! i))
    = (case filter P cs of [] \<Rightarrow> e | c # _ \<Rightarrow> f c)"
proof (cases "List.find (\<lambda>i. P (cs ! i)) [0..<length cs]")
  case None
  then have "filter P cs = []" by (auto simp: find_None_iff filter_empty_conv in_set_conv_nth)
  then show ?thesis using None by simp
next
  case (Some i)
  then have i: "i < length cs" "P (cs ! i)" "\<forall>j<i. \<not> P (cs ! j)" by (auto simp: find_Some_iff)
  have "filter P cs = filter P (take i cs) @ filter P (drop i cs)" by (metis append_take_drop_id filter_append)
  moreover have "filter P (take i cs) = []" using i by (auto simp: filter_empty_conv in_set_conv_nth)
  ultimately show ?thesis using Some i by (simp add: Cons_nth_drop_Suc [symmetric])
qed

lemma c_text_no_nul: "0 \<notin> set (c_text s)"
  by (induction s) auto

lemma nat_lower: "unat (lower c) = (if 64 < unat c \<and> unat c < 91 then unat c + 32 else unat c)"
  by (simp add: lower_def word_less_nat_alt unat_word_ariths)

lemma lower_eq:
  "lower c = lower d \<longleftrightarrow> c = d \<or> (64 < d \<and> d < 91 \<and> c = d + 32) \<or> (96 < d \<and> d < 123 \<and> c = d - 32)"
proof -
  have m: "unat (d + 32) = unat d + 32" if "d < 91" using that by (simp add: word_less_nat_alt unat_word_ariths)
  have s: "unat (d - 32) = unat d - 32" if "96 < d" 
  proof -
    have "(32 :: byte) \<le> d" using that by (simp add: word_le_nat_alt word_less_nat_alt)
    then show ?thesis by (simp add: unat_sub)
  qed
  show ?thesis
    unfolding word_unat_eq_iff [of "lower c"] word_unat_eq_iff [of c] nat_lower
    using m s by (auto simp: word_less_nat_alt)
qed

lemma AreEqualNoCase_lower: "0 \<notin> set one \<Longrightarrow> AreEqualNoCase one two \<longleftrightarrow> map lower one = map lower two"
proof (induction one arbitrary: two)
  case (Cons c one)
  show ?case
  proof (cases two)
    case Nil
    then show ?thesis using Cons.prems by auto
  next
    case (Cons d two')
    have "AreEqualNoCase (c # one) two \<longleftrightarrow>
        (c = d \<or> (64 < d \<and> d < 91 \<and> c = d + 32) \<or> (96 < d \<and> d < 123 \<and> c = d - 32)) \<and> AreEqualNoCase one two'"
      unfolding Cons AreEqualNoCase.simps Let_def list.case list.sel by (auto dest: order.strict_trans)
    then show ?thesis using lower_eq [of c d] Cons.IH [of two'] Cons.prems by (auto simp: Cons)
  qed
qed simp

text \<open>
  The loop that compares two names letter by letter, deciding by the second one which case to
  try, finds them equal exactly if they are the same in lower case; so a look-up without case
  finds the first child whose name is the same in lower case.
\<close>

theorem json_nocase_lower:
  assumes "isContainer n" "Fetch n = Inr m"
  shows "json_at_nocase name n =
    (case filter (\<lambda>c. map lower (c_text (jd_name (jn_data c))) = map lower (c_text name)) (jn_children m) of
       [] \<Rightarrow> Inl StdOutOfRange | c # _ \<Rightarrow> Inr (c, m))"
proof -
  let ?same = "\<lambda>c. map lower (c_text (jd_name (jn_data c))) = map lower (c_text name)"
  have eq: "AreEqualNoCase (c_text (jd_name (jn_data c))) (c_text name) \<longleftrightarrow> ?same c" for c
    by (rule AreEqualNoCase_lower) (rule c_text_no_nul)
  have "(case List.find (\<lambda>i. ?same (cs ! i)) [0..<length cs] of None \<Rightarrow> Inl StdOutOfRange | Some i \<Rightarrow> Inr (cs ! i, m))
      = (case filter ?same cs of [] \<Rightarrow> Inl StdOutOfRange | c # _ \<Rightarrow> Inr (c, m))" for cs
    by (rule find_index_filter)
  then show ?thesis by (simp add: json_at_nocase_def child_of_name_nocase_def eq assms)
qed

theorem json_nocase_lower_witness:
  "json_at_nocase [65, 98] (build (VObject [([97], VNull), ([97, 66], VBool True)]))
    = Inr (setname [97, 66] (build (VBool True)), build (VObject [([97], VNull), ([97, 66], VBool True)]))"
proof -
  let ?n = "build (VObject [([97], VNull), ([97, 66], VBool True)])"
  have c: "isContainer ?n" "Fetch ?n = Inr ?n"
    using Fetch_fetched build_root [of "VObject [([97], VNull), ([97, 66], VBool True)]"]
    by (simp_all add: push_all_children isContainer_def newInternal_def)
  show ?thesis unfolding json_nocase_lower [OF c]
    by (simp add: push_all_children isContainer_def newInternal_def setname_def lower_def Set_bool_def Nullify_def nullified_def)
qed

section \<open>Casts of a document that has just been read\<close>

lemma Fetch_is_fetched: "Fetch n = Inr m \<Longrightarrow> jd_fetched (jn_data m)"
  by (auto simp: Fetch_def map_sum_def split: if_splits sum.splits)

lemma preparse_is_fetched: "preparse n = Inr m \<Longrightarrow> jd_fetched (jn_data m)"
  by (auto simp: preparse.simps [of n] map_sum_def dest: Fetch_is_fetched split: sum.splits if_splits)

text \<open>
  An object that has just been read has no elements when it is asked for as an array: the cast
  takes over the text of an object, which an array is not fetched from. Fetched before, it has all
  of them.
\<close>

theorem json_as_array_loses_members:
  assumes "value_ok (VObject kvs)" "json_write used (build (VObject kvs)) = Inr txt"
  shows "\<exists>n u m. json_parse txt = Inr (n, u) \<and> preparse n = Inr m
    \<and> map_sum id fst (json_size (as_array n)) = Inr 0
    \<and> map_sum id fst (json_size (as_array m)) = Inr (length kvs)"
proof -
  let ?v = "VObject kvs"
  let ?n = "newInternal_root (render stripped_char ?v)"
  have c: "container_value ?v" by simp
  have t: "txt = render escape_char ?v" using json_write_build [OF assms(1) c] assms(2) by simp
  obtain m where m: "preparse ?n = Inr m" "represents ?v m"
    using preparse_leaf [OF assms(1)] root_is_leaf [OF c] by metis
  have "map_sum id fst (json_size (as_array ?n)) = Inr 0"
    by (simp add: newInternal_root_def as_array_def json_size_def isContainer_def Fetch_def FetchArray_def
        Nullify_def on_data_def newInternal_def nullified_def)
  moreover have "map_sum id fst (json_size (as_array m)) = Inr (length kvs)"
    using m preparse_is_fetched [OF m(1)]
    by (cases m) (auto simp: as_array_def json_size_def isContainer_def Fetch_def Let_def dest: list_all2_lengthD)
  ultimately show ?thesis using json_parse_render [OF assms(1) c] m(1) t by auto
qed

theorem json_as_array_loses_members_witness:
  "\<exists>n u m. json_parse [123, 34, 97, 34, 58, 49, 125] = Inr (n, u) \<and> preparse n = Inr m
    \<and> map_sum id fst (json_size (as_array n)) = Inr 0
    \<and> map_sum id fst (json_size (as_array m)) = Inr 1"
proof -
  have "json_write False (build (VObject [([97], VInt 1)])) = Inr [123, 34, 97, 34, 58, 49, 125]" by code_simp
  from json_as_array_loses_members [OF _ this] show ?thesis by simp
qed

end
