(* ===== verification/JsonChildren.thy ===== *)
theory JsonChildren
  imports JsonNode
begin

text \<open>
  \<^verbatim>\<open>JSONChildren.h\<close> and \<^verbatim>\<open>JSONChildren.cpp\<close>: the growing array in which a node keeps its children.
  A position is an offset from the start of the array. Memory that is allocated has a value in a
  cell once it has been written; running out of memory is left out. Elsewhere the children are a
  list, which is what this array is shown to be.
\<close>

record 'a children =
  ch_array :: "'a option list option"
  ch_size :: "32 word"
  ch_capacity :: "32 word"

definition newChildren :: "'a children" where
  "newChildren = \<lparr>ch_array = None, ch_size = 0, ch_capacity = 0\<rparr>"

definition ch_malloc :: "nat \<Rightarrow> 'a option list option" where
  "ch_malloc n = Some (replicate n None)"

definition ch_realloc :: "nat \<Rightarrow> 'a option list option \<Rightarrow> 'a option list option" where
  "ch_realloc n array =
    (case array of None \<Rightarrow> ch_malloc n | Some cells \<Rightarrow> Some (take n cells @ replicate (n - length cells) None))"

section \<open>Memory\<close>

definition ch_store :: "nat \<Rightarrow> 'a \<Rightarrow> 'a children \<Rightarrow> exn + 'a children" where
  "ch_store i x c =
    (case ch_array c of
       None \<Rightarrow> Inl (Undef ''null pointer'')
     | Some cells \<Rightarrow>
         if i < length cells then Inr (c\<lparr>ch_array := Some (cells[i := Some x])\<rparr>)
         else Inl (Undef ''write behind the array''))"

text \<open>\<open>memmove\<close> of \<open>n\<close> cells; the count is computed in a signed type and a negative one is huge.\<close>

definition ch_memmove :: "nat \<Rightarrow> nat \<Rightarrow> int \<Rightarrow> 'a children \<Rightarrow> exn + 'a children" where
  "ch_memmove dst src n c =
    (if n = 0 then Inr c
     else if n < 0 then Inl (Undef ''negative count'')
     else
       (case ch_array c of
          None \<Rightarrow> Inl (Undef ''null pointer'')
        | Some cells \<Rightarrow>
            if length cells < src + nat n \<or> length cells < dst + nat n then Inl (Undef ''move behind the array'')
            else Inr (c\<lparr>ch_array := Some (take dst cells @ take (nat n) (drop src cells) @ drop (dst + nat n) cells)\<rparr>)))"

fun ch_memcpy :: "nat \<Rightarrow> 'a list \<Rightarrow> 'a children \<Rightarrow> exn + 'a children" where
  "ch_memcpy i [] c = Inr c"
| "ch_memcpy i (x # xs) c = (case ch_store i x c of Inl e \<Rightarrow> Inl e | Inr c' \<Rightarrow> ch_memcpy (Suc i) xs c')"

definition ch_at :: "nat \<Rightarrow> 'a children \<Rightarrow> exn + 'a" where
  "ch_at i c =
    (case ch_array c of
       None \<Rightarrow> Inl (Undef ''null pointer'')
     | Some cells \<Rightarrow>
         if i < length cells then (case cells ! i of None \<Rightarrow> Inl (Undef ''uninitialised'') | Some x \<Rightarrow> Inr x)
         else Inl (Undef ''read behind the array''))"

section \<open>Growing and shrinking\<close>

definition ch_inc :: "'a children \<Rightarrow> 'a children" where
  "ch_inc c =
    (if ch_size c = ch_capacity c then
       (if ch_capacity c = 0 then c\<lparr>ch_array := ch_malloc 8, ch_capacity := 8\<rparr>
        else
          (let cap = push_bit 1 (ch_capacity c) in
           c\<lparr>ch_capacity := cap, ch_array := ch_realloc (unat cap) (ch_array c)\<rparr>))
     else c)"

text \<open>The loop does not return when the capacity overflows to 0.\<close>

partial_function (option) grow_loop :: "32 word \<Rightarrow> 32 word \<Rightarrow> 32 word option" where
  "grow_loop need cap = (if cap < need then grow_loop need (push_bit 1 cap) else Some cap)"

definition ch_inc_amount :: "32 word \<Rightarrow> 'a children \<Rightarrow> 'a children option" where
  "ch_inc_amount amount c =
    (if amount = 0 then Some c
     else if ch_capacity c \<le> ch_size c + amount then
       (if ch_capacity c = 0 then
          (let cap = (if 8 < amount then amount else 8) in
           Some (c\<lparr>ch_array := ch_malloc (unat cap), ch_capacity := cap\<rparr>))
        else
          (case grow_loop (ch_size c + amount) (ch_capacity c) of
             None \<Rightarrow> None
           | Some cap \<Rightarrow> Some (c\<lparr>ch_capacity := cap, ch_array := ch_realloc (unat cap) (ch_array c)\<rparr>)))
     else Some c)"

definition ch_reserve :: "32 word \<Rightarrow> 'a children \<Rightarrow> 'a children" where
  "ch_reserve amount c = c\<lparr>ch_array := ch_malloc (unat amount), ch_capacity := amount\<rparr>"

definition ch_reserve2 :: "32 word \<Rightarrow> 'a children \<Rightarrow> 'a children option" where
  "ch_reserve2 amount c =
    (if ch_array c \<noteq> None then
       (if ch_capacity c < amount then ch_inc_amount (amount - ch_capacity c) c else Some c)
     else Some (ch_reserve amount c))"

definition ch_shrink :: "'a children \<Rightarrow> 'a children" where
  "ch_shrink c =
    (let c = (if ch_size c = 0 then c\<lparr>ch_array := None\<rparr> else c) in c\<lparr>ch_capacity := ch_size c\<rparr>)"

section \<open>Operations\<close>

definition ch_push_back :: "'a \<Rightarrow> 'a children \<Rightarrow> exn + 'a children" where
  "ch_push_back item c =
    (let c = ch_inc c in
     case ch_store (unat (ch_size c)) item c of
       Inl e \<Rightarrow> Inl e
     | Inr c \<Rightarrow> Inr (c\<lparr>ch_size := ch_size c + 1\<rparr>))"

definition ch_push_front :: "'a \<Rightarrow> 'a children \<Rightarrow> exn + 'a children" where
  "ch_push_front item c =
    (let c = ch_inc c in
     case ch_memmove 1 0 (uint (ch_size c)) c of
       Inl e \<Rightarrow> Inl e
     | Inr c \<Rightarrow> ch_store 0 item (c\<lparr>ch_size := ch_size c + 1\<rparr>))"

definition ch_clear :: "'a children \<Rightarrow> 'a children" where
  "ch_clear c = (if ch_array c \<noteq> None then c\<lparr>ch_size := 0\<rparr> else c)"

definition ch_erase :: "nat \<Rightarrow> 'a children \<Rightarrow> exn + 'a children" where
  "ch_erase position c =
    (case ch_memmove position (position + 1) (uint (ch_size c) - int position - 1) c of
       Inl e \<Rightarrow> Inl e
     | Inr c \<Rightarrow> Inr (ch_shrink (c\<lparr>ch_size := ch_size c - 1\<rparr>)))"

definition ch_doerase :: "nat \<Rightarrow> 32 word \<Rightarrow> 'a children \<Rightarrow> exn + 'a children" where
  "ch_doerase position number c =
    (if unat (ch_size c) \<le> position + unat number then Inr (c\<lparr>ch_size := word_of_nat position\<rparr>)
     else
       (case ch_memmove position (position + unat number) (uint (ch_size c) - int position - uint number) c of
          Inl e \<Rightarrow> Inl e
        | Inr c \<Rightarrow> Inr (c\<lparr>ch_size := ch_size c - number\<rparr>)))"

definition ch_erase_range :: "nat \<Rightarrow> 32 word \<Rightarrow> 'a children \<Rightarrow> exn + 'a children" where
  "ch_erase_range position number c = map_sum id ch_shrink (ch_doerase position number c)"

text \<open>
  The \<open>iteratorKeeper\<close> remembers a position from the front, or from the end, and puts it back once
  the array has grown; the size does not change in between.
\<close>

definition ch_insert :: "bool \<Rightarrow> nat \<Rightarrow> 'a \<Rightarrow> 'a children \<Rightarrow> exn + nat \<times> 'a children" where
  "ch_insert reverse position item c =
    (let offset = (if reverse then ch_size c - word_of_nat position else word_of_nat position);
         c = ch_inc c;
         position = (if reverse then unat (ch_size c) - unat offset else unat offset)
     in
     case ch_memmove (position + 1) position (uint (ch_size c) - int position) c of
       Inl e \<Rightarrow> Inl e
     | Inr c \<Rightarrow> map_sum id (Pair position) (ch_store position item (c\<lparr>ch_size := ch_size c + 1\<rparr>)))"

definition ch_insert_all :: "nat \<Rightarrow> 'a list \<Rightarrow> 'a children \<Rightarrow> (exn + 'a children) option" where
  "ch_insert_all position items c =
    (let num = word_of_nat (length items) in
     case ch_inc_amount num c of
       None \<Rightarrow> None
     | Some c \<Rightarrow>
         Some
           (case ch_memmove (position + unat num) position (uint (ch_size c) - int position) c of
              Inl e \<Rightarrow> Inl e
            | Inr c \<Rightarrow>
                (case ch_memcpy position items c of
                   Inl e \<Rightarrow> Inl e
                 | Inr c \<Rightarrow> Inr (c\<lparr>ch_size := ch_size c + num\<rparr>))))"


section \<open>The array as a list\<close>

text \<open>A list is in the array, with room for \<open>k\<close> more; an empty one need not have an array.\<close>

definition room :: "nat \<Rightarrow> 'a children \<Rightarrow> 'a list \<Rightarrow> bool" where
  "room k c xs \<longleftrightarrow> unat (ch_size c) = length xs \<and> length xs + k \<le> unat (ch_capacity c)
     \<and> (\<exists>rest. ch_array c = Some (map Some xs @ rest) \<and> unat (ch_capacity c) \<le> length xs + length rest)"

definition holds :: "'a children \<Rightarrow> 'a list \<Rightarrow> bool" where
  "holds c xs \<longleftrightarrow> room 0 c xs \<or> xs = [] \<and> ch_size c = 0 \<and> ch_capacity c = 0 \<and> ch_array c = None"

lemma holds_new: "holds newChildren []"
  by (simp add: holds_def newChildren_def)

lemma holds_size: "holds c xs \<Longrightarrow> unat (ch_size c) = length xs"
  by (auto simp: holds_def room_def)

lemma room_holds: "room k c xs \<Longrightarrow> holds c xs"
  by (auto simp: holds_def room_def)

lemma double: "unat (cap :: 32 word) < 2147483648 \<Longrightarrow> unat (cap * 2) = 2 * unat cap"
  by (simp add: unat_word_ariths)

lemma ch_inc_room:
  assumes "holds c xs" "length xs < 2147483648"
  shows "room 1 (ch_inc c) xs"
proof (cases "ch_array c")
  case None
  then show ?thesis using assms by (auto simp: holds_def room_def ch_inc_def ch_malloc_def)
next
  case (Some cells)
  then obtain rest where r: "unat (ch_size c) = length xs" "length xs \<le> unat (ch_capacity c)"
      "cells = map Some xs @ rest" "unat (ch_capacity c) \<le> length xs + length rest"
    using assms(1) by (auto simp: holds_def room_def)
  show ?thesis
  proof (cases "ch_size c = ch_capacity c")
    case True
    show ?thesis
    proof (cases "ch_capacity c = 0")
      case True
      then have "xs = []" using r by simp
      then show ?thesis using True \<open>ch_size c = ch_capacity c\<close> by (simp add: room_def ch_inc_def ch_malloc_def)
    next
      case False
      then have pos: "0 < length xs" using r True by (metis gr0I unat_eq_zero)
      have d: "unat (ch_capacity c * 2) = 2 * length xs" using double [of "ch_capacity c"] True r(1) assms(2) by simp
      have "take (2 * length xs) (map Some xs @ rest) @ replicate (2 * length xs - length (map Some xs @ rest)) None
          = map Some xs @ (take (length xs) rest @ replicate (length xs - length rest) None)"
        by simp
      then show ?thesis
        using True False r d pos Some by (auto simp: room_def ch_inc_def Let_def ch_realloc_def Suc_le_eq)
    qed
  next
    case False
    then have "unat (ch_size c) \<noteq> unat (ch_capacity c)" by (simp add: word_unat_eq_iff)
    then have "unat (ch_size c) < unat (ch_capacity c)" using r(1,2) by linarith
    then show ?thesis using False r Some by (auto simp: room_def ch_inc_def)
  qed
qed

lemma grow_loop_returns:
  "unat need < 2147483648 \<Longrightarrow> cap \<noteq> 0 \<Longrightarrow> \<exists>cap'. grow_loop need cap = Some cap' \<and> need \<le> cap' \<and> unat cap \<le> unat cap'"
proof (induction "unat need - unat cap" arbitrary: cap rule: less_induct)
  case less
  show ?case
  proof (cases "cap < need")
    case True
    then have l: "unat cap < unat need" by (simp add: word_less_nat_alt)
    have p: "0 < unat cap" using less.prems(2) by (simp add: unat_gt_0)
    have d: "unat (cap * 2) = 2 * unat cap" using double [of cap] l less.prems(1) by simp
    have "cap * 2 \<noteq> 0" using d p by (metis mult_eq_0_iff neq0_conv unat_0 zero_neq_numeral)
    moreover have "unat need - unat (cap * 2) < unat need - unat cap" using d l p by simp
    ultimately obtain cap' where "grow_loop need (cap * 2) = Some cap'" "need \<le> cap'" "unat (cap * 2) \<le> unat cap'"
      using less.hyps [of "cap * 2"] less.prems(1) by blast
    then show ?thesis using True d by (auto simp: grow_loop.simps [of need cap])
  qed (simp add: grow_loop.simps [of need cap])
qed

lemma realloc_room:
  assumes "unat cap' \<ge> length xs"
  shows "\<exists>rest. take (unat cap') (map Some xs @ r) @ replicate (unat cap' - length (map Some xs @ r)) None = map Some xs @ rest
    \<and> unat cap' \<le> length xs + length rest"
  using assms by (intro exI [where x = "take (unat cap' - length xs) r @ replicate (unat cap' - length xs - length r) None"]) (auto simp: min_def)

lemma ch_inc_amount_room:
  assumes "holds c xs" "length xs + unat amount < 2147483648" "amount \<noteq> 0"
  shows "\<exists>c'. ch_inc_amount amount c = Some c' \<and> room (unat amount) c' xs"
proof -
  have a: "unat (ch_size c + amount) = length xs + unat amount"
    using holds_size [OF assms(1)] assms(2) by (simp add: unat_word_ariths)
  show ?thesis
  proof (cases "ch_capacity c \<le> ch_size c + amount")
    case True
    show ?thesis
    proof (cases "ch_capacity c = 0")
      case True
      then have x: "xs = []" "ch_size c = 0" using assms(1) by (auto simp: holds_def room_def unat_eq_zero)
      have "unat amount \<le> unat (if 8 < amount then amount else 8)" by (auto simp: word_less_nat_alt)
      then show ?thesis using assms(3) True x by (auto simp: ch_inc_amount_def room_def Let_def ch_malloc_def)
    next
      case False
      obtain cap' where g: "grow_loop (ch_size c + amount) (ch_capacity c) = Some cap'"
          "unat (ch_size c + amount) \<le> unat cap'" "unat (ch_capacity c) \<le> unat cap'"
        using grow_loop_returns [of "ch_size c + amount" "ch_capacity c"] False a assms(2) by (auto simp: word_le_nat_alt)
      obtain rest where r: "ch_array c = Some (map Some xs @ rest)" "unat (ch_size c) = length xs"
        using assms(1) False by (auto simp: holds_def room_def)
      have "length xs \<le> unat cap'" using g(2) a by simp
      from realloc_room [OF this, of rest] show ?thesis
        using True False g r a assms(3) by (auto simp: ch_inc_amount_def room_def ch_realloc_def)
    qed
  next
    case False
    then have "length xs + unat amount < unat (ch_capacity c)" using a by (simp add: word_le_nat_alt)
    then show ?thesis using False assms(1,3) by (auto simp: ch_inc_amount_def holds_def room_def)
  qed
qed

lemma ch_memmove_gap:
  assumes "ch_array c = Some (map Some xs @ rest)" "p \<le> length xs" "k \<le> length rest"
  shows "\<exists>gap. length gap = k \<and> ch_memmove (p + k) p (int (length xs) - int p) c
    = Inr (c\<lparr>ch_array := Some (map Some (take p xs) @ gap @ map Some (drop p xs) @ drop k rest)\<rparr>)"
proof (cases "p = length xs")
  case True
  then show ?thesis using assms
    by (intro exI [where x = "take k rest"]) (simp add: ch_memmove_def)
next
  case False
  let ?cells = "map Some xs @ rest"
  have n: "int (length xs) - int p > 0" "nat (int (length xs) - int p) = length xs - p" using False assms(2) by auto
  have "take (p + k) ?cells = map Some (take p xs) @ take k (drop p ?cells)"
    using assms(2) by (subst take_add) (simp add: take_map)
  moreover have "take (length xs - p) (drop p ?cells) = map Some (drop p xs)"
    using assms(2) by (simp add: drop_map)
  moreover have "drop (p + k + (length xs - p)) ?cells = drop k rest" using assms(2) by simp
  moreover have "length (take k (drop p ?cells)) = k" using assms by simp
  ultimately show ?thesis
    using assms n unfolding ch_memmove_def
    by (intro exI [where x = "take k (drop p ?cells)"]) simp
qed

lemma ch_memcpy_gap:
  "ch_array c = Some (pre @ gap @ post) \<Longrightarrow> length pre = i \<Longrightarrow> length gap = length items \<Longrightarrow>
    ch_memcpy i items c = Inr (c\<lparr>ch_array := Some (pre @ map Some items @ post)\<rparr>)"
proof (induction items arbitrary: i c pre gap)
  case (Cons x items)
  then obtain g gap' where gap: "gap = g # gap'" by (cases gap) auto
  have s: "ch_store i x c = Inr (c\<lparr>ch_array := Some ((pre @ [Some x]) @ gap' @ post)\<rparr>)"
    using Cons.prems gap by (simp add: ch_store_def list_update_append)
  have "ch_memcpy (Suc i) items (c\<lparr>ch_array := Some ((pre @ [Some x]) @ gap' @ post)\<rparr>)
      = Inr (c\<lparr>ch_array := Some ((pre @ [Some x]) @ map Some items @ post)\<rparr>)"
    using Cons.IH [of "c\<lparr>ch_array := Some ((pre @ [Some x]) @ gap' @ post)\<rparr>" "pre @ [Some x]" gap' "Suc i"] Cons.prems gap
    by simp
  then show ?case by (simp add: s)
qed simp

lemma ch_memmove_remove:
  assumes "ch_array c = Some (map Some xs @ rest)" "p + k \<le> length xs"
  shows "\<exists>rest'. length rest' = k + length rest \<and> ch_memmove p (p + k) (int (length xs) - int p - int k) c
    = Inr (c\<lparr>ch_array := Some (map Some (take p xs @ drop (p + k) xs) @ rest')\<rparr>)"
proof (cases "p + k = length xs")
  case True
  then have "map Some xs @ rest = map Some (take p xs @ drop (p + k) xs) @ map Some (drop p xs) @ rest"
    by (simp flip: map_append)
  then show ?thesis using assms True
    by (intro exI [where x = "map Some (drop p xs) @ rest"]) (auto simp: ch_memmove_def)
next
  case False
  let ?cells = "map Some xs @ rest" and ?n = "length xs - (p + k)"
  have n: "int (length xs) - int p - int k > 0" "nat (int (length xs) - int p - int k) = ?n" using False assms(2) by auto
  have "take p ?cells = map Some (take p xs)" using assms(2) by (simp add: take_map)
  moreover have "take ?n (drop (p + k) ?cells) = map Some (drop (p + k) xs)" using assms(2) by (simp add: drop_map)
  moreover have "length (drop (p + ?n) ?cells) = k + length rest" using assms(2) by simp
  ultimately show ?thesis
    using assms n unfolding ch_memmove_def
    by (intro exI [where x = "drop (p + ?n) ?cells"]) (simp del: drop_append)
qed

lemma ch_shrink_holds:
  assumes "room 0 c xs"
  shows "holds (ch_shrink c) xs"
  using assms by (auto simp: room_def holds_def ch_shrink_def Let_def)


section \<open>Every operation\<close>

lemma unat_size_add: "unat n + k < 4294967296 \<Longrightarrow> unat (n + word_of_nat k :: 32 word) = unat n + k"
  by (simp add: unat_word_ariths unat_of_nat)

lemma uint_size: "unat n = k \<Longrightarrow> uint (n :: 32 word) = int k"
  by (simp add: uint_nat)

lemma insert_cells:
  assumes "room (length items) c xs" "p \<le> length xs" "length xs + length items < 2147483648"
  shows "\<exists>c1 c2. ch_memmove (p + length items) p (uint (ch_size c) - int p) c = Inr c1
    \<and> ch_size c1 = ch_size c \<and> ch_capacity c1 = ch_capacity c
    \<and> (\<forall>n. ch_memcpy p items (c1\<lparr>ch_size := n\<rparr>) = Inr (c2\<lparr>ch_size := n\<rparr>))
    \<and> (unat n = length xs + length items \<longrightarrow> room 0 (c2\<lparr>ch_size := n\<rparr>) (take p xs @ items @ drop p xs))"
proof -
  obtain rest where r: "unat (ch_size c) = length xs" "ch_array c = Some (map Some xs @ rest)"
      "length xs + length items \<le> unat (ch_capacity c)" "unat (ch_capacity c) \<le> length xs + length rest"
    using assms(1) by (auto simp: room_def)
  then have l: "length items \<le> length rest" by simp
  obtain gap where g: "length gap = length items"
    "ch_memmove (p + length items) p (int (length xs) - int p) c
      = Inr (c\<lparr>ch_array := Some (map Some (take p xs) @ gap @ map Some (drop p xs) @ drop (length items) rest)\<rparr>)"
    using ch_memmove_gap [OF r(2) assms(2) l] by blast
  let ?a = "map Some (take p xs) @ map Some items @ map Some (drop p xs) @ drop (length items) rest"
  have "ch_memcpy p items (c\<lparr>ch_array := Some (map Some (take p xs) @ gap @ map Some (drop p xs) @ drop (length items) rest), ch_size := n\<rparr>)
      = Inr (c\<lparr>ch_array := Some ?a, ch_size := n\<rparr>)" for n
    using ch_memcpy_gap [of _ "map Some (take p xs)" gap "map Some (drop p xs) @ drop (length items) rest" p items] g(1) assms(2)
    by simp
  moreover have "room 0 (c\<lparr>ch_array := Some ?a, ch_size := n\<rparr>) (take p xs @ items @ drop p xs)"
    if "unat n = length xs + length items"
    using that r l assms(2) by (auto simp: room_def)
  ultimately show ?thesis using g(2) uint_size [OF r(1)]
    by (intro exI [where x = "c\<lparr>ch_array := Some (map Some (take p xs) @ gap @ map Some (drop p xs) @ drop (length items) rest)\<rparr>"]
        exI [where x = "c\<lparr>ch_array := Some ?a\<rparr>"]) simp
qed

lemma ch_store_memcpy: "ch_store i x c = ch_memcpy i [x] c"
  by (simp split: sum.splits)

datatype 'a ch_op =
    PushBack 'a
  | PushFront 'a
  | EraseAt nat
  | EraseRange nat nat
  | InsertAt bool nat 'a
  | InsertAll nat "'a list"
  | ClearAll
  | ReserveFor nat

fun ch_apply :: "'a ch_op \<Rightarrow> 'a children \<Rightarrow> (exn + 'a children) option" where
  "ch_apply (PushBack x) c = Some (ch_push_back x c)"
| "ch_apply (PushFront x) c = Some (ch_push_front x c)"
| "ch_apply (EraseAt p) c = Some (ch_erase p c)"
| "ch_apply (EraseRange p k) c = Some (ch_erase_range p (word_of_nat k) c)"
| "ch_apply (InsertAt r p x) c = Some (map_sum id snd (ch_insert r p x c))"
| "ch_apply (InsertAll p xs) c = ch_insert_all p xs c"
| "ch_apply ClearAll c = Some (Inr (ch_clear c))"
| "ch_apply (ReserveFor n) c = map_option Inr (ch_reserve2 (word_of_nat n) c)"

fun list_apply :: "'a ch_op \<Rightarrow> 'a list \<Rightarrow> 'a list" where
  "list_apply (PushBack x) ys = ys @ [x]"
| "list_apply (PushFront x) ys = x # ys"
| "list_apply (EraseAt p) ys = take p ys @ drop (p + 1) ys"
| "list_apply (EraseRange p k) ys = take p ys @ drop (p + k) ys"
| "list_apply (InsertAt r p x) ys = take p ys @ [x] @ drop p ys"
| "list_apply (InsertAll p xs) ys = take p ys @ xs @ drop p ys"
| "list_apply ClearAll ys = []"
| "list_apply (ReserveFor n) ys = ys"

text \<open>The positions are in the array, and there are fewer than \<open>2 ^ 31\<close> children.\<close>

fun op_fits :: "'a ch_op \<Rightarrow> 'a list \<Rightarrow> bool" where
  "op_fits (EraseAt p) ys \<longleftrightarrow> p < length ys"
| "op_fits (EraseRange p k) ys \<longleftrightarrow> p \<le> length ys \<and> k < 2147483648"
| "op_fits (InsertAt r p x) ys \<longleftrightarrow> p \<le> length ys"
| "op_fits (InsertAll p xs) ys \<longleftrightarrow> p \<le> length ys"
| "op_fits (ReserveFor n) ys \<longleftrightarrow> n < 2147483648"
| "op_fits _ ys \<longleftrightarrow> True"

lemma insert_one:
  assumes "holds c xs" "p \<le> length xs" "length xs + 1 < 2147483648"
  shows "\<exists>c'. (case ch_memmove (p + 1) p (uint (ch_size (ch_inc c)) - int p) (ch_inc c) of
       Inl e \<Rightarrow> Inl e | Inr c1 \<Rightarrow> ch_store p x (c1\<lparr>ch_size := ch_size c1 + 1\<rparr>)) = Inr c'
    \<and> holds c' (take p xs @ [x] @ drop p xs)"
proof -
  have r: "room (length [x]) (ch_inc c) xs" using ch_inc_room [OF assms(1)] assms(3) by simp
  have u: "unat (ch_size (ch_inc c) + 1) = length xs + length [x]"
    using r assms(3) by (simp add: room_def unat_word_ariths)
  show ?thesis
    using insert_cells [OF r assms(2), of "ch_size (ch_inc c) + 1"] assms(3) u room_holds
    by (fastforce simp: ch_store_memcpy simp del: ch_memcpy.simps)
qed


lemma ch_size_same: "ch_size c = n \<Longrightarrow> (c :: 'a children)\<lparr>ch_size := n\<rparr> = c"
  by (cases c) simp

lemma holds_cases:
  assumes "holds c xs"
  obtains "xs = []" "ch_size c = 0" "ch_capacity c = 0" "ch_array c = None" | "room 0 c xs"
  using assms by (auto simp: holds_def)

lemma push_back_holds:
  assumes "holds c xs" "length xs + 1 < 2147483648"
  shows "\<exists>c'. ch_push_back x c = Inr c' \<and> holds c' (xs @ [x])"
proof -
  let ?c = "ch_inc c"
  have r: "room 1 ?c xs" using ch_inc_room [OF assms(1)] assms(2) by simp
  then obtain rest where a: "unat (ch_size ?c) = length xs" "ch_array ?c = Some (map Some xs @ rest)"
      "unat (ch_capacity ?c) \<le> length xs + length rest" "length xs + 1 \<le> unat (ch_capacity ?c)"
    by (auto simp: room_def)
  then obtain g rest' where rest: "rest = g # rest'" by (cases rest) auto
  have "ch_store (length xs) x ?c = Inr (?c\<lparr>ch_array := Some (map Some (xs @ [x]) @ rest')\<rparr>)"
    using ch_memcpy_gap [of ?c "map Some xs" "[g]" rest' "length xs" "[x]"] a(2) rest by (simp add: ch_store_memcpy del: ch_memcpy.simps)
  moreover have "unat (ch_size ?c + 1) = length xs + 1" using a(1) assms(2) by (simp add: unat_word_ariths)
  ultimately show ?thesis
    using a rest by (auto simp: ch_push_back_def Let_def holds_def room_def)
qed

lemma shrink_after:
  assumes "room 0 c xs" "ch_array c' = Some (map Some ys @ rest')" "unat n = length ys" "length ys \<le> length xs"
    "length xs + length rest \<le> length ys + length rest'" "ch_array c = Some (map Some xs @ rest)" "ch_capacity c' = ch_capacity c"
  shows "holds (ch_shrink (c'\<lparr>ch_size := n\<rparr>)) ys"
  using assms by (intro ch_shrink_holds) (auto simp: room_def)

lemma erase_holds:
  assumes "holds c xs" "p + k \<le> length xs" "0 < k" "length xs < 2147483648"
  shows "\<exists>c1. ch_memmove p (p + k) (uint (ch_size c) - int p - int k) c = Inr c1
    \<and> ch_size c1 = ch_size c \<and> holds (ch_shrink (c1\<lparr>ch_size := ch_size c - word_of_nat k\<rparr>)) (take p xs @ drop (p + k) xs)"
proof -
  have r: "room 0 c xs" using assms by (auto simp: holds_def)
  then obtain rest where a: "unat (ch_size c) = length xs" "ch_array c = Some (map Some xs @ rest)"
    by (auto simp: room_def)
  obtain rest' where m: "length rest' = k + length rest"
    "ch_memmove p (p + k) (int (length xs) - int p - int k) c
      = Inr (c\<lparr>ch_array := Some (map Some (take p xs @ drop (p + k) xs) @ rest')\<rparr>)"
    using ch_memmove_remove [OF a(2) assms(2)] by blast
  have "(word_of_nat k :: 32 word) \<le> ch_size c" "unat (word_of_nat k :: 32 word) = k"
    using a(1) assms(2,4) by (auto simp: word_le_nat_alt unat_of_nat)
  then have u: "unat (ch_size c - word_of_nat k) = length (take p xs @ drop (p + k) xs)"
    using a(1) assms(2) by (simp add: unat_sub)
  have "holds (ch_shrink ((c\<lparr>ch_array := Some (map Some (take p xs @ drop (p + k) xs) @ rest')\<rparr>)
      \<lparr>ch_size := ch_size c - word_of_nat k\<rparr>)) (take p xs @ drop (p + k) xs)"
    using m(1) assms(2) a(2) by (intro shrink_after [OF r _ u]) auto
  then show ?thesis using m(2) uint_size [OF a(1)] by simp
qed

lemma insert_all_holds:
  assumes "holds c xs" "p \<le> length xs" "length xs + length items < 2147483648"
  shows "\<exists>c'. ch_insert_all p items c = Some (Inr c') \<and> holds c' (take p xs @ items @ drop p xs)"
proof (cases "items = []")
  case True
  have "ch_memmove p p (uint (ch_size c) - int p) c = Inr c"
    using assms(1)
  proof (cases rule: holds_cases)
    case 1
    then show ?thesis using assms(2) by (simp add: ch_memmove_def)
  next
    case 2
    then obtain rest where a: "unat (ch_size c) = length xs" "ch_array c = Some (map Some xs @ rest)" by (auto simp: room_def)
    have "take p ys @ take n (drop p ys) @ drop (p + n) ys = ys" for n and ys :: "'a option list"
      by (metis append_assoc append_take_drop_id take_add)
    then show ?thesis using a uint_size [OF a(1)] assms(2) by (auto simp: ch_memmove_def)
  qed
  then show ?thesis using True assms(1) by (simp add: ch_insert_all_def ch_inc_amount_def)
next
  case False
  let ?num = "word_of_nat (length items) :: 32 word"
  have u: "unat ?num = length items" using assms(3) by (simp add: unat_of_nat)
  then have "?num \<noteq> 0" using False by (metis length_0_conv unat_0)
  then obtain c1 where c1: "ch_inc_amount ?num c = Some c1" "room (length items) c1 xs"
    using ch_inc_amount_room [OF assms(1), of ?num] assms(3) u by auto
  have s: "unat (ch_size c1 + ?num) = length xs + length items"
    using c1(2) assms(3) u by (simp add: room_def unat_word_ariths)
  obtain c2 c3 where m: "ch_memmove (p + length items) p (uint (ch_size c1) - int p) c1 = Inr c2" "ch_size c2 = ch_size c1"
    "\<And>n. ch_memcpy p items (c2\<lparr>ch_size := n\<rparr>) = Inr (c3\<lparr>ch_size := n\<rparr>)"
    "room 0 (c3\<lparr>ch_size := ch_size c1 + ?num\<rparr>) (take p xs @ items @ drop p xs)"
    using insert_cells [OF c1(2) assms(2,3), of "ch_size c1 + ?num"] s by blast
  have "ch_memcpy p items c2 = Inr (c3\<lparr>ch_size := ch_size c1\<rparr>)"
    using m(3) [of "ch_size c1"] unfolding ch_size_same [OF m(2)] .
  then have "ch_insert_all p items c = Some (Inr (c3\<lparr>ch_size := ch_size c1 + ?num\<rparr>))"
    using c1(1) m(1) u by (simp add: ch_insert_all_def)
  then show ?thesis using room_holds [OF m(4)] by blast
qed

lemma reserve_holds:
  assumes "holds c xs" "n < 2147483648" "length xs < 2147483648"
  shows "\<exists>c'. ch_reserve2 (word_of_nat n) c = Some c' \<and> holds c' xs"
proof -
  have u: "unat (word_of_nat n :: 32 word) = n" using assms(2) by (simp add: unat_of_nat)
  show ?thesis
    using assms(1)
  proof (cases rule: holds_cases)
    case 1
    then show ?thesis using u by (auto simp: ch_reserve2_def ch_reserve_def ch_malloc_def holds_def room_def)
  next
    case 2
    show ?thesis
    proof (cases "ch_capacity c < word_of_nat n")
      case True
      let ?a = "word_of_nat n - ch_capacity c"
      have "unat ?a = n - unat (ch_capacity c)" using True u by (simp add: unat_sub)
      moreover have "unat (ch_capacity c) < n" using True u by (simp add: word_less_nat_alt)
      moreover have "length xs \<le> unat (ch_capacity c)" using 2 by (simp add: room_def)
      ultimately have "length xs + unat ?a < 2147483648" "?a \<noteq> 0" using assms(2) by auto
      from ch_inc_amount_room [OF assms(1) this] obtain c' where "ch_inc_amount ?a c = Some c'" "room (unat ?a) c' xs" by blast
      moreover have "ch_array c \<noteq> None" using 2 by (auto simp: room_def)
      ultimately show ?thesis using True room_holds by (auto simp: ch_reserve2_def)
    next
      case False
      then show ?thesis using 2 assms(1) by (auto simp: ch_reserve2_def room_def)
    qed
  qed
qed


lemma ch_apply_holds:
  assumes "holds c xs" "op_fits a xs" "length xs < 2147483647" "length (list_apply a xs) < 2147483648"
  shows "\<exists>c'. ch_apply a c = Some (Inr c') \<and> holds c' (list_apply a xs)"
proof (cases a)
  case (PushBack x)
  then show ?thesis using push_back_holds [OF assms(1)] assms(3) by simp
next
  case (PushFront x)
  then show ?thesis using insert_one [OF assms(1), of 0 x] assms(3) by (auto simp: ch_push_front_def Let_def)
next
  case (EraseAt p)
  then have "p + 1 \<le> length xs" using assms(2) by simp
  from erase_holds [OF assms(1) this] assms(3) obtain c1 where c1:
    "ch_memmove p (p + 1) (uint (ch_size c) - int p - 1) c = Inr c1" "ch_size c1 = ch_size c"
    "holds (ch_shrink (c1\<lparr>ch_size := ch_size c - 1\<rparr>)) (take p xs @ drop (p + 1) xs)"
    by auto
  then show ?thesis using EraseAt by (simp add: ch_erase_def)
next
  case (EraseRange p k)
  then have p: "p \<le> length xs" "k < 2147483648" using assms(2) by simp_all
  have k: "unat (word_of_nat k :: 32 word) = k" "uint (word_of_nat k :: 32 word) = int k"
    using p(2) by (simp_all add: unat_of_nat uint_nat)
  have s: "unat (ch_size c) = length xs" by (rule holds_size [OF assms(1)])
  show ?thesis
  proof (cases "length xs \<le> p + k")
    case True
    have "holds (ch_shrink (c\<lparr>ch_size := word_of_nat p\<rparr>)) (take p xs)"
      using assms(1)
    proof (cases rule: holds_cases)
      case 1
      then show ?thesis using p by (simp add: holds_def ch_shrink_def)
    next
      case 2
      then obtain rest where r: "ch_array c = Some (map Some xs @ rest)" "unat (ch_capacity c) \<le> length xs + length rest"
        by (auto simp: room_def)
      then have "ch_array c = Some (map Some (take p xs) @ map Some (drop p xs) @ rest)"
        by (metis append.assoc append_take_drop_id map_append)
      moreover have "unat (word_of_nat p :: 32 word) = p" using p assms(3) by (simp add: unat_of_nat)
      ultimately show ?thesis using 2 p r(2) by (intro ch_shrink_holds) (auto simp: room_def)
    qed
    then show ?thesis using EraseRange True s k by (simp add: ch_erase_range_def ch_doerase_def)
  next
    case False
    show ?thesis
    proof (cases "k = 0")
      case True
      have "p < length xs" using False True by simp
      then have r: "room 0 c xs" using assms(1) by (auto simp: holds_def)
      then obtain rest where a: "ch_array c = Some (map Some xs @ rest)" by (auto simp: room_def)
      have "take p ys @ take n (drop p ys) @ drop (p + n) ys = ys" for n and ys :: "'a option list"
        by (metis append_assoc append_take_drop_id take_add)
      then have "ch_memmove p p (uint (ch_size c) - int p) c = Inr c"
        using a uint_size [OF s] p(1) by (auto simp: ch_memmove_def)
      then show ?thesis using EraseRange True False s ch_shrink_holds [OF r]
        by (simp add: ch_erase_range_def ch_doerase_def)
    next
      case nz: False
      have "p + k \<le> length xs" "0 < k" using False nz by simp_all
      from erase_holds [OF assms(1) this] assms(3) obtain c1 where c1:
        "ch_memmove p (p + k) (uint (ch_size c) - int p - int k) c = Inr c1" "ch_size c1 = ch_size c"
        "holds (ch_shrink (c1\<lparr>ch_size := ch_size c - word_of_nat k\<rparr>)) (take p xs @ drop (p + k) xs)"
        by auto
      then show ?thesis using EraseRange False s k
        by (simp add: ch_erase_range_def ch_doerase_def)
    qed
  qed
next
  case (InsertAt r p x)
  have p: "p \<le> length xs" using assms(2) InsertAt by simp
  have i: "unat (ch_size (ch_inc c)) = length xs"
    using ch_inc_room [OF assms(1)] assms(3) by (simp add: room_def)
  have u: "unat (word_of_nat p :: 32 word) = p" using p assms(3) by (simp add: unat_of_nat)
  then have "unat (ch_size c - word_of_nat p) = length xs - p"
    using holds_size [OF assms(1)] p by (simp add: unat_sub word_le_nat_alt)
  then have "(if r then unat (ch_size (ch_inc c)) - unat (if r then ch_size c - word_of_nat p else word_of_nat p)
      else unat (if r then ch_size c - word_of_nat p else (word_of_nat p :: 32 word))) = p"
    using i u p by simp
  then show ?thesis using insert_one [OF assms(1) p, of x] assms(3) InsertAt
    by (auto simp: ch_insert_def Let_def split: sum.splits)
next
  case (InsertAll p items)
  then have "length xs + length items < 2147483648" "p \<le> length xs" using assms(2,4) by auto
  then show ?thesis using insert_all_holds [OF assms(1)] InsertAll by simp
next
  case ClearAll
  then show ?thesis using assms(1) by (auto simp: ch_clear_def holds_def room_def)
next
  case (ReserveFor n)
  then show ?thesis using reserve_holds [OF assms(1)] assms(2,3) by auto
qed

fun ch_run :: "'a ch_op list \<Rightarrow> 'a children \<Rightarrow> (exn + 'a children) option" where
  "ch_run [] c = Some (Inr c)"
| "ch_run (a # as) c =
    (case ch_apply a c of
       None \<Rightarrow> None
     | Some (Inl e) \<Rightarrow> Some (Inl e)
     | Some (Inr c') \<Rightarrow> ch_run as c')"

fun list_run :: "'a ch_op list \<Rightarrow> 'a list \<Rightarrow> 'a list" where
  "list_run [] xs = xs"
| "list_run (a # as) xs = list_run as (list_apply a xs)"

fun ops_fit :: "'a ch_op list \<Rightarrow> 'a list \<Rightarrow> bool" where
  "ops_fit [] xs \<longleftrightarrow> True"
| "ops_fit (a # as) xs \<longleftrightarrow> op_fits a xs \<and> length (list_apply a xs) < 2147483647 \<and> ops_fit as (list_apply a xs)"

lemma ch_run_holds:
  "holds c xs \<Longrightarrow> length xs < 2147483647 \<Longrightarrow> ops_fit as xs \<Longrightarrow> \<exists>c'. ch_run as c = Some (Inr c') \<and> holds c' (list_run as xs)"
proof (induction as arbitrary: c xs)
  case (Cons a as)
  obtain c' where c': "ch_apply a c = Some (Inr c')" "holds c' (list_apply a xs)"
    using ch_apply_holds [OF Cons.prems(1), of a] Cons.prems(2,3) by auto
  show ?case using Cons.IH [OF c'(2)] Cons.prems(3) c'(1) by simp
qed simp

text \<open>
  C13: The array a node keeps its children in is a list: whatever is pushed, inserted, erased,
  cleared and reserved, at positions in the array and as long as it has fewer than \<open>2 ^ 31\<close> children,
  no operation touches memory outside of what is allocated or a cell that was never written, the
  loop that doubles the capacity returns, and the children are those of the list, in order.
\<close>

theorem json_children_refine_list:
  assumes "ops_fit as []"
  shows "\<exists>c. ch_run as newChildren = Some (Inr c) \<and> unat (ch_size c) = length (list_run as [])
    \<and> (\<forall>i < length (list_run as []). ch_at i c = Inr (list_run as [] ! i))"
proof -
  obtain c where c: "ch_run as newChildren = Some (Inr c)" "holds c (list_run as [])"
    using ch_run_holds [OF holds_new _ assms] by auto
  have "ch_at i c = Inr (list_run as [] ! i)" if i: "i < length (list_run as [])" for i
    using c(2)
  proof (cases rule: holds_cases)
    case 1
    then show ?thesis using i by simp
  next
    case 2
    then obtain rest where "ch_array c = Some (map Some (list_run as []) @ rest)" by (auto simp: room_def)
    then show ?thesis using i by (simp add: ch_at_def nth_append)
  qed
  then show ?thesis using c holds_size by blast
qed

theorem json_children_refine_list_witness:
  "\<exists>c. ch_run [PushBack (1 :: nat), InsertAll 0 [2, 3], EraseAt 1, InsertAt True 2 4] newChildren = Some (Inr c)
    \<and> ch_at 0 c = Inr 2 \<and> ch_at 1 c = Inr 1 \<and> ch_at 2 c = Inr 4"
proof -
  let ?ops = "[PushBack (1 :: nat), InsertAll 0 [2, 3], EraseAt 1, InsertAt True 2 4]"
  have "ops_fit ?ops []" and l: "list_run ?ops [] = [2, 1, 4]" by simp_all
  from json_children_refine_list [OF this(1)] show ?thesis
    unfolding l by (auto simp: less_Suc_eq numeral_3_eq_3 numeral_2_eq_2 simp del: ch_run.simps)
qed

end
