(* ===== verification/JsonIter.thy ===== *)
theory JsonIter
  imports JsonOps JsonChildren
begin

text \<open>
  \<^verbatim>\<open>JSONIterators.cpp\<close>: inserting and erasing at an iterator. An iterator is a pointer into the
  array of children: here its offset from the start of the array, so that \<open>rend()\<close> is -1, and a
  reverse iterator goes on to the offset below. The array is used as the list it holds. A range to
  be inserted is the list of nodes that going through it yields.
\<close>

section \<open>Iterators\<close>

definition json_begin :: "jnode \<Rightarrow> exn + int \<times> jnode" where
  "json_begin n = (if \<not> isContainer n then Inr (0, n) else map_sum id (Pair 0) (Fetch n))"

definition json_end :: "jnode \<Rightarrow> exn + int \<times> jnode" where
  "json_end n =
    (if \<not> isContainer n then Inr (0, n) else map_sum id (\<lambda>m. (int (length (jn_children m)), m)) (Fetch n))"

definition json_rbegin :: "jnode \<Rightarrow> exn + int \<times> jnode" where
  "json_rbegin n = map_sum id (apfst (\<lambda>i. i - 1)) (json_end n)"

definition json_rend :: "jnode \<Rightarrow> exn + int \<times> jnode" where
  "json_rend n = map_sum id (apfst (\<lambda>i. i - 1)) (json_begin n)"

text \<open>A step of \<open>i\<close> elements from a reverse iterator.\<close>

definition rit_add :: "int \<Rightarrow> int \<Rightarrow> int" where "rit_add it i = it - i"

definition rit_sub :: "int \<Rightarrow> int \<Rightarrow> int" where "rit_sub it i = it + i"

definition json_find :: "bytes \<Rightarrow> jnode \<Rightarrow> exn + int \<times> jnode" where
  "json_find name n =
    (if \<not> isContainer n then json_end n
     else
       (case Fetch n of
          Inl e \<Rightarrow> Inl e
        | Inr m \<Rightarrow> (case child_of_name name m of Some i \<Rightarrow> Inr (int i, m) | None \<Rightarrow> json_end m)))"

definition json_find_nocase :: "bytes \<Rightarrow> jnode \<Rightarrow> exn + int \<times> jnode" where
  "json_find_nocase name n =
    (if \<not> isContainer n then json_end n
     else
       (case Fetch n of
          Inl e \<Rightarrow> Inl e
        | Inr m \<Rightarrow> (case child_of_name_nocase name m of Some i \<Rightarrow> Inr (int i, m) | None \<Rightarrow> json_end m)))"

section \<open>Erasing\<close>

definition children_apply :: "jnode ch_op \<Rightarrow> jnode \<Rightarrow> jnode" where
  "children_apply a n = JNode (jn_data n) (list_apply a (jn_children n))"

definition json_erase :: "int \<Rightarrow> jnode \<Rightarrow> exn + int \<times> jnode" where
  "json_erase pos n =
    (case json_end n of
       Inl e \<Rightarrow> Inl e
     | Inr (fin, n) \<Rightarrow>
         if \<not> pos < fin then Inr (fin, n)
         else if \<not> 0 \<le> pos then json_begin n
         else
           (let m = children_apply (EraseAt (nat pos)) n in
            if jn_children m = [] then json_end m else Inr (pos, m)))"

text \<open>The number of elements is cast to an unsigned 32 bit integer.\<close>

definition index_of :: "int \<Rightarrow> nat" where "index_of i = nat (i mod 4294967296)"

definition json_erase_range :: "int \<Rightarrow> int \<Rightarrow> jnode \<Rightarrow> exn + int \<times> jnode" where
  "json_erase_range first stop n =
    (if first = stop then Inr (first, n)
     else
       (case json_end n of
          Inl e \<Rightarrow> Inl e
        | Inr (fin, n) \<Rightarrow>
            if \<not> first \<le> fin \<or> \<not> stop \<le> fin then Inr (fin, n)
            else if \<not> 0 \<le> first \<or> \<not> 0 \<le> stop then json_begin n
            else
              (let m = children_apply (EraseRange (nat first) (index_of (stop - first))) n in
               if jn_children m = [] then json_end m else Inr (first, m))))"

definition json_erase_r :: "int \<Rightarrow> jnode \<Rightarrow> exn + int \<times> jnode" where
  "json_erase_r pos n =
    (case json_end n of
       Inl e \<Rightarrow> Inl e
     | Inr (fin, n) \<Rightarrow>
         if \<not> -1 < pos then json_rend n
         else if \<not> pos \<le> fin - 1 then json_rbegin n
         else
           (let m = children_apply (EraseAt (nat pos)) n in
            if jn_children m = [] then json_rend m else Inr (rit_add pos 1, m)))"

definition json_erase_r_range :: "int \<Rightarrow> int \<Rightarrow> jnode \<Rightarrow> exn + int \<times> jnode" where
  "json_erase_r_range first stop n =
    (if first = stop then Inr (first, n)
     else
       (case json_end n of
          Inl e \<Rightarrow> Inl e
        | Inr (fin, n) \<Rightarrow>
            if \<not> -1 \<le> first \<or> \<not> -1 \<le> stop then json_rend n
            else if \<not> first \<le> fin - 1 \<or> \<not> stop \<le> fin - 1 then json_rbegin n
            else
              (let num = index_of (first - stop);
                   m = children_apply (EraseRange (nat (stop + 1)) num) n
               in if jn_children m = [] then json_rend m else Inr (rit_add first (int num), m))))"

section \<open>Inserting\<close>

text \<open>
  A single node: behind the end it is pushed back, and in front of the start pushed to the front.
  Where the array ends is asked without fetching the node, and a node that is no container has none.
\<close>

definition json_insert :: "int \<Rightarrow> jnode \<Rightarrow> jnode \<Rightarrow> exn + int \<times> jnode" where
  "json_insert pos x n =
    (if \<not> isContainer n then Inl (Undef ''null pointer to the children'')
     else if int (length (jn_children n)) \<le> pos then map_sum id (apfst (\<lambda>i. i - 1)) (json_end (json_push_back x n))
     else
       (case json_begin n of
          Inl e \<Rightarrow> Inl e
        | Inr (first, n) \<Rightarrow>
            if \<not> first \<le> pos then Inr (first, n)
            else Inr (pos, children_apply (InsertAt False (nat pos) x) n)))"

definition json_insert_r :: "int \<Rightarrow> jnode \<Rightarrow> jnode \<Rightarrow> exn + int \<times> jnode" where
  "json_insert_r pos x n =
    (if \<not> isContainer n then Inl (Undef ''null pointer to the children'')
     else if pos < 0 then map_sum id (apfst (\<lambda>i. rit_sub i 1)) (json_rend (json_push_front x n))
     else
       (case json_rbegin n of
          Inl e \<Rightarrow> Inl e
        | Inr (fin, n) \<Rightarrow>
            if \<not> pos \<le> fin then Inr (fin, n)
            else Inr (pos + 1, children_apply (InsertAt True (nat (pos + 1)) x) n)))"

text \<open>
  The four insertions of a range, by the direction of the iterator and that of the range, with the
  buffer each of them fills.
\<close>

definition insert_at_front :: "int \<Rightarrow> jnode list \<Rightarrow> jnode \<Rightarrow> exn + int \<times> jnode" where
  "insert_at_front pos mem n =
    (case json_end n of
       Inl e \<Rightarrow> Inl e
     | Inr (fin, n) \<Rightarrow>
         if \<not> pos \<le> fin then Inr (fin, n)
         else if \<not> 0 \<le> pos then json_begin n
         else if \<not> isContainer n then Inl (Undef ''null pointer to the children'')
         else Inr (pos, children_apply (InsertAll (nat pos) mem) n))"

definition insert_at_reverse :: "int \<Rightarrow> jnode list \<Rightarrow> jnode \<Rightarrow> exn + int \<times> jnode" where
  "insert_at_reverse pos mem n =
    (case json_end n of
       Inl e \<Rightarrow> Inl e
     | Inr (fin, n) \<Rightarrow>
         if \<not> -1 \<le> pos then json_rend n
         else if \<not> pos \<le> fin - 1 then json_rbegin n
         else if \<not> isContainer n then Inl (Undef ''null pointer to the children'')
         else Inr (rit_add (rit_sub (pos + 1) (int (length mem))) 1, children_apply (InsertAll (nat (pos + 1)) mem) n))"

definition insertFFF :: "int \<Rightarrow> jnode list \<Rightarrow> jnode \<Rightarrow> exn + int \<times> jnode" where
  "insertFFF pos rng n = insert_at_front pos rng n"

definition insertFRR :: "int \<Rightarrow> jnode list \<Rightarrow> jnode \<Rightarrow> exn + int \<times> jnode" where
  "insertFRR pos rng n = insert_at_front pos rng n"

definition insertRFF :: "int \<Rightarrow> jnode list \<Rightarrow> jnode \<Rightarrow> exn + int \<times> jnode" where
  "insertRFF pos rng n = insert_at_reverse pos (rev rng) n"

definition insertRRR :: "int \<Rightarrow> jnode list \<Rightarrow> jnode \<Rightarrow> exn + int \<times> jnode" where
  "insertRRR pos rng n = insert_at_reverse pos rng n"

section \<open>What going on from an iterator yields\<close>

definition from_it :: "nat \<Rightarrow> int \<Rightarrow> jnode \<Rightarrow> jnode list" where
  "from_it k it n = map (\<lambda>i. jn_children n ! nat (it + int i)) [0..<k]"

definition from_rit :: "nat \<Rightarrow> int \<Rightarrow> jnode \<Rightarrow> jnode list" where
  "from_rit k it n = map (\<lambda>i. jn_children n ! nat (rit_add it (int i))) [0..<k]"

lemma fetched_end:
  "isContainer n \<Longrightarrow> jd_fetched (jn_data n) \<Longrightarrow> json_end n = Inr (int (length (jn_children n)), n)"
  by (simp add: json_end_def Fetch_fetched)

lemma from_it_middle: "from_it (length ys) (int (length xs)) (JNode d (xs @ ys @ zs)) = ys"
proof (rule nth_equalityI)
  fix i
  assume "i < length (from_it (length ys) (int (length xs)) (JNode d (xs @ ys @ zs)))"
  then have i: "i < length ys" by (simp add: from_it_def)
  have "nat (int (length xs) + int i) = length xs + i" by simp
  then show "from_it (length ys) (int (length xs)) (JNode d (xs @ ys @ zs)) ! i = ys ! i"
    using i by (simp only: from_it_def) (simp add: nth_append)
qed (simp add: from_it_def)

lemma from_rit_middle:
  "from_rit (length ys) (int (length xs) + int (length ys) - 1) (JNode d (xs @ ys @ zs)) = rev ys"
proof (rule nth_equalityI)
  fix i
  assume "i < length (from_rit (length ys) (int (length xs) + int (length ys) - 1) (JNode d (xs @ ys @ zs)))"
  then have i: "i < length ys" by (simp add: from_rit_def)
  then obtain j where j: "length ys - 1 - i = j" "j < length ys" by simp
  have "nat (rit_add (int (length xs) + int (length ys) - 1) (int i)) = length xs + j"
    using i j by (simp add: rit_add_def nat_eq_iff)
  then show "from_rit (length ys) (int (length xs) + int (length ys) - 1) (JNode d (xs @ ys @ zs)) ! i = rev ys ! i"
    using i j by (simp only: from_rit_def) (simp add: nth_append rev_nth)
qed (simp add: from_rit_def)

section \<open>Ranges\<close>

text \<open>A position in front of the child \<open>p\<close>: an iterator at it, or a reverse iterator at the one before.\<close>

definition with_children :: "jnode \<Rightarrow> jnode list \<Rightarrow> jnode" where
  "with_children n cs = JNode (jn_data n) cs"

lemma with_children_simps [simp]:
  "jn_data (with_children n cs) = jn_data n" "jn_children (with_children n cs) = cs"
  "isContainer (with_children n cs) = isContainer n" "with_children n (jn_children n) = n"
  "with_children (with_children n cs) ds = with_children n ds"
  by (simp_all add: with_children_def isContainer_def)

lemma children_apply_with: "children_apply a n = with_children n (list_apply a (jn_children n))"
  by (simp add: children_apply_def with_children_def)

lemma insert_at_front_ok:
  assumes "isContainer n" "jd_fetched (jn_data n)" "p \<le> length (jn_children n)"
  shows "insert_at_front (int p) mem n
    = Inr (int p, with_children n (take p (jn_children n) @ mem @ drop p (jn_children n)))"
  using assms by (simp add: insert_at_front_def fetched_end children_apply_with)

lemma insert_at_reverse_ok:
  assumes "isContainer n" "jd_fetched (jn_data n)" "p \<le> length (jn_children n)"
  shows "insert_at_reverse (int p - 1) mem n
    = Inr (int p + int (length mem) - 1, with_children n (take p (jn_children n) @ mem @ drop p (jn_children n)))"
  using assms by (simp add: insert_at_reverse_def fetched_end children_apply_with rit_add_def rit_sub_def)

lemma inserted_yields:
  assumes "p \<le> length cs"
  shows "from_it (length mem) (int p) (with_children n (take p cs @ mem @ drop p cs)) = mem"
    and "from_rit (length mem) (int p + int (length mem) - 1) (with_children n (take p cs @ mem @ drop p cs)) = rev mem"
  using from_it_middle [of mem "take p cs" "jn_data n" "drop p cs"] assms
    from_rit_middle [of mem "take p cs" "jn_data n" "drop p cs"]
  by (simp_all add: with_children_def)

lemma end_same:
  assumes "isContainer n" "jd_fetched (jn_data n)"
  shows "map_sum id snd (json_end n) = Inr n" "map_sum id snd (json_rend n) = Inr n"
  using assms by (simp_all add: fetched_end json_rend_def json_begin_def Fetch_fetched)

lemma index_of_small: "k < 4294967296 \<Longrightarrow> index_of (int k) = k"
  by (simp add: index_of_def)

lemma erase_range_inserted:
  assumes "isContainer n" "jd_fetched (jn_data n)" "p \<le> length (jn_children n)" "length mem < 4294967296"
  shows "map_sum id snd (json_erase_range (int p) (int p + int (length mem))
      (with_children n (take p (jn_children n) @ mem @ drop p (jn_children n)))) = Inr n"
proof (cases "mem = []")
  case True
  then show ?thesis by (simp add: json_erase_range_def)
next
  case False
  let ?m = "with_children n (take p (jn_children n) @ mem @ drop p (jn_children n))"
  have e: "json_end ?m = Inr (int (length (jn_children n) + length mem), ?m)"
    using fetched_end [of ?m] assms by simp
  have "children_apply (EraseRange p (length mem)) ?m = n"
    using assms(3) by (simp add: children_apply_with)
  then show ?thesis
    using False assms(3) end_same(1) [OF assms(1,2)]
    by (simp add: json_erase_range_def e index_of_small [OF assms(4)])
qed

lemma erase_r_range_inserted:
  assumes "isContainer n" "jd_fetched (jn_data n)" "p \<le> length (jn_children n)" "length mem < 4294967296"
  shows "map_sum id snd (json_erase_r_range (int p + int (length mem) - 1) (int p - 1)
      (with_children n (take p (jn_children n) @ mem @ drop p (jn_children n)))) = Inr n"
proof (cases "mem = []")
  case True
  then show ?thesis by (simp add: json_erase_r_range_def)
next
  case False
  let ?m = "with_children n (take p (jn_children n) @ mem @ drop p (jn_children n))"
  have e: "json_end ?m = Inr (int (length (jn_children n) + length mem), ?m)"
    using fetched_end [of ?m] assms by simp
  have "children_apply (EraseRange p (length mem)) ?m = n"
    using assms(3) by (simp add: children_apply_with)
  moreover have "int p + int (length mem) - 1 - (int p - 1) = int (length mem)" by simp
  moreover have "children_apply (EraseRange p (length mem)) (with_children n mem) = n" if "jn_children n = []"
    using calculation(1) that by simp
  ultimately show ?thesis
    using False assms(3) end_same(2) [OF assms(1,2)]
    by (simp add: json_erase_r_range_def e index_of_small [OF assms(4)] Let_def)
qed

text \<open>
  C32: In a container whose children have been fetched, a range of less than \<open>2 ^ 32\<close> nodes is inserted
  at an iterator. If the range is forward or reverse and the iterator forward, or the range forward
  and the iterator reverse, going on from the iterator that is handed back, in its direction, meets
  the range in its order. A reverse range at a reverse iterator is met from its end. In all four
  cases erasing it from there gives the node back.
\<close>

theorem json_insert_in_order:
  assumes "isContainer n" "jd_fetched (jn_data n)" "p \<le> length (jn_children n)" "length rng < 4294967296"
  shows "(\<exists>it m. insertFFF (int p) rng n = Inr (it, m) \<and> from_it (length rng) it m = rng
      \<and> map_sum id snd (json_erase_range it (it + int (length rng)) m) = Inr n)
    \<and> (\<exists>it m. insertFRR (int p) rng n = Inr (it, m) \<and> from_it (length rng) it m = rng
      \<and> map_sum id snd (json_erase_range it (it + int (length rng)) m) = Inr n)
    \<and> (\<exists>it m. insertRFF (int p - 1) rng n = Inr (it, m) \<and> from_rit (length rng) it m = rng
      \<and> map_sum id snd (json_erase_r_range it (rit_add it (int (length rng))) m) = Inr n)
    \<and> (\<exists>it m. insertRRR (int p - 1) rng n = Inr (it, m) \<and> from_rit (length rng) it m = rev rng
      \<and> map_sum id snd (json_erase_r_range it (rit_add it (int (length rng))) m) = Inr n)"
proof -
  note ins = insert_at_front_ok [OF assms(1-3), of rng] insert_at_reverse_ok [OF assms(1-3), of "rev rng"]
    insert_at_reverse_ok [OF assms(1-3), of rng]
  note er = erase_range_inserted [OF assms] erase_r_range_inserted [OF assms(1-3), of "rev rng"]
    erase_r_range_inserted [OF assms(1-3), of "rng"]
  note y = inserted_yields(1) [OF assms(3), of rng n] inserted_yields(2) [OF assms(3), of "rev rng" n]
    inserted_yields(2) [OF assms(3), of rng n]
  have "rit_add (int p + int (length rng) - 1) (int (length rng)) = int p - 1" by (simp add: rit_add_def)
  then show ?thesis
    unfolding insertFFF_def insertFRR_def insertRFF_def insertRRR_def ins using er y assms(4) by simp
qed

text \<open>
  A reverse range at a reverse iterator is inserted the wrong way round: going on from the
  iterator that is handed back yields it from its end.
\<close>

theorem json_insert_reverse_reversed:
  assumes "isContainer n" "jd_fetched (jn_data n)" "p \<le> length (jn_children n)"
  shows "\<exists>it m. insertRRR (int p - 1) rng n = Inr (it, m) \<and> from_rit (length rng) it m = rev rng"
  unfolding insertRRR_def insert_at_reverse_ok [OF assms] using inserted_yields(2) [OF assms(3), of rng n] by simp

definition example_list :: jnode where
  "example_list = build (VArray [VInt 1, VInt 2])"

lemma example_list_ok: "isContainer example_list" "jd_fetched (jn_data example_list)" "length (jn_children example_list) = 2"
  by (simp_all add: example_list_def push_all_children isContainer_def newInternal_def)

theorem json_insert_in_order_witness:
  "\<exists>it m. insertRFF 0 [build VNull, build (VBool True)] example_list = Inr (it, m)
    \<and> from_rit 2 it m = [build VNull, build (VBool True)]"
  using json_insert_in_order [OF example_list_ok(1,2), of 1 "[build VNull, build (VBool True)]"] example_list_ok(3)
  by (auto simp: numeral_2_eq_2)

theorem json_insert_reverse_reversed_witness:
  "\<exists>it m. insertRRR 0 [build VNull, build (VBool True)] example_list = Inr (it, m)
    \<and> from_rit 2 it m = [build (VBool True), build VNull]"
  using json_insert_reverse_reversed [OF example_list_ok(1,2), of 1 "[build VNull, build (VBool True)]"] example_list_ok(3)
  by (auto simp: numeral_2_eq_2)

end
