(* ===== verification/JsonBase64.thy ===== *)
theory JsonBase64
  imports JsonNode
begin

text \<open>
  \<^verbatim>\<open>JSON_Base64.cpp\<close>: the text in which a JSON string carries bytes, and the operations of a
  node that use it.
\<close>

section \<open>Encoding\<close>

definition chars64 :: bytes where
  "chars64 = text_of ''ABCDEFGHIJKLMNOPQRSTUVWXYZabcdefghijklmnopqrstuvwxyz0123456789+/''"

abbreviation Pad :: byte where "Pad \<equiv> 61"

definition char64 :: "byte \<Rightarrow> byte" where
  "char64 i = chars64 ! unat i"

text \<open>Three bytes at a time; the last group is filled up with zeros and padded.\<close>

fun json_encode64 :: "bytes \<Rightarrow> bytes" where
  "json_encode64 (a # b # c # binary) =
    [char64 (drop_bit 2 (and a 0xFC)),
     char64 (push_bit 4 (and a 0x03) + drop_bit 4 (and b 0xF0)),
     char64 (push_bit 2 (and b 0x0F) + drop_bit 6 (and c 0xC0)),
     char64 (and c 0x3F)] @ json_encode64 binary"
| "json_encode64 [a, b] =
    [char64 (drop_bit 2 (and a 0xFC)),
     char64 (push_bit 4 (and a 0x03) + drop_bit 4 (and b 0xF0)),
     char64 (push_bit 2 (and b 0x0F) + drop_bit 6 (and 0 0xC0)), Pad]"
| "json_encode64 [a] =
    [char64 (drop_bit 2 (and a 0xFC)), char64 (push_bit 4 (and a 0x03) + drop_bit 4 (and 0 0xF0)), Pad, Pad]"
| "json_encode64 [] = []"

section \<open>Decoding\<close>

definition binaryConvert :: bytes where
  "binaryConvert = [62, 48, 49, 50, 63, 52, 53, 54, 55, 56, 57, 58, 59, 60, 61, 249, 250, 251, 252, 253, 254, 255,
     0, 1, 2, 3, 4, 5, 6, 7, 8, 9, 10, 11, 12, 13, 14, 15, 16, 17, 18, 19, 20, 21, 22, 23, 24, 25,
     20, 21, 22, 23, 24, 25, 26, 27, 28, 29, 30, 31, 32, 33, 34, 35, 36, 37, 38, 39, 40, 41, 42, 43, 44, 45,
     46, 47, 48, 49, 50, 51]"

definition toBinary :: "byte \<Rightarrow> byte" where
  "toBinary c = (if c < 43 \<or> 122 < c then 48 else binaryConvert ! unat (c - 43))"

definition find_first_not_of :: "bytes \<Rightarrow> bytes \<Rightarrow> nat option" where
  "find_first_not_of chars s = List.find (\<lambda>i. s ! i \<notin> set chars) [0..<length s]"

text \<open>
  The check of \<open>JSON_SAFE\<close>: only one or two padding characters at the end are allowed that are not
  of the alphabet.
\<close>

definition is_base64 :: "bytes \<Rightarrow> bool" where
  "is_base64 encoded =
    (case find_first_not_of chars64 encoded of
       None \<Rightarrow> True
     | Some pos \<Rightarrow>
         encoded ! pos = Pad \<and>
         (pos = length encoded - 1 \<or> pos = length encoded - 2 \<and> encoded ! (pos + 1) = Pad))"

text \<open>All groups but the last, and the last, which may be padded; \<open>runner\<close> is the pointer.\<close>

definition decode_last :: "bytes \<Rightarrow> bytes" where
  "decode_last runner =
    (let second = toBinary (runner ! 1) in
     [push_bit 2 (toBinary (runner ! 0)) + drop_bit 4 (and second 0x30)] @
     (if runner ! 2 \<noteq> Pad then
        (let third = toBinary (runner ! 2) in
         [push_bit 4 (and second 0xF) + drop_bit 2 (and third 0x3C)] @
         (if runner ! 3 \<noteq> Pad then [push_bit 6 (and third 0x3) + toBinary (runner ! 3)] else []))
      else []))"

fun decode_loop :: "nat \<Rightarrow> bytes \<Rightarrow> bytes" where
  "decode_loop 0 runner = decode_last runner"
| "decode_loop (Suc n) runner =
    (let second = toBinary (runner ! 1); third = toBinary (runner ! 2) in
     [push_bit 2 (toBinary (runner ! 0)) + drop_bit 4 (and second 0x30),
      push_bit 4 (and second 0xF) + drop_bit 2 (and third 0x3C),
      push_bit 6 (and third 0x3) + toBinary (runner ! 3)] @ decode_loop n (drop 4 runner))"

definition json_decode64 :: "bytes \<Rightarrow> bytes" where
  "json_decode64 encoded =
    (if \<not> is_base64 encoded then []
     else if length encoded div 4 = 0 then []
     else decode_loop (length encoded div 4 - 1) encoded)"

section \<open>Nodes\<close>

definition set_binary :: "bytes \<Rightarrow> jnode \<Rightarrow> jnode" where
  "set_binary bin n = Set_string (json_encode64 bin) n"

definition as_binary :: "jnode \<Rightarrow> exn + bytes \<times> jnode" where
  "as_binary n =
    (if jn_type n \<noteq> JSON_STRING then Inr ([], n)
     else map_sum id (apfst json_decode64) (json_as_string n))"

section \<open>The round trip\<close>

text \<open>What the masks and shifts compute, as numbers.\<close>

lemma chars64_codes:
  "chars64 = [65, 66, 67, 68, 69, 70, 71, 72, 73, 74, 75, 76, 77, 78, 79, 80, 81, 82, 83, 84, 85, 86, 87, 88,
     89, 90, 97, 98, 99, 100, 101, 102, 103, 104, 105, 106, 107, 108, 109, 110, 111, 112, 113, 114,
     115, 116, 117, 118, 119, 120, 121, 122, 48, 49, 50, 51, 52, 53, 54, 55, 56, 57, 43, 47]"
  by (simp add: chars64_def text_of_def)

lemma toBinary_chars64: "map toBinary chars64 = map word_of_nat [0..<64]"
  by (simp add: chars64_codes toBinary_def binaryConvert_def upt_conv_Cons)

lemma char64_inverse:
  assumes "unat i < 64"
  shows "toBinary (char64 i) = i" "char64 i \<in> set chars64" "char64 i \<noteq> Pad"
proof -
  have l: "length chars64 = 64" by (simp add: chars64_codes)
  have "toBinary (chars64 ! unat i) = map toBinary chars64 ! unat i" using assms l by simp
  also have "\<dots> = i" unfolding toBinary_chars64 using assms by simp
  finally show "toBinary (char64 i) = i" by (simp add: char64_def)
  show "char64 i \<in> set chars64" using assms l by (simp add: char64_def)
  then show "char64 i \<noteq> Pad" by (auto simp: chars64_codes)
qed

lemma byte_less: "unat (a :: byte) < 256"
  using unsigned_less [of a] by simp

lemma and_mask_nat: "and (n::nat) 3 = n mod 4" "and n 15 = n mod 16" "and n 63 = n mod 64" 
  using take_bit_eq_mask [of 2 n] take_bit_eq_mask [of 4 n] take_bit_eq_mask [of 6 n]
  by (simp_all add: take_bit_eq_mod mask_eq_exp_minus_1)

lemma mod_div_nat: "(n::nat) mod 64 div 16 = n div 16 mod 4"
  using mod_mult2_eq [of n 16 4] by simp

lemma mod_div_nat': "(n::nat) mod 64 div 4 = n div 4 mod 16"
  using mod_mult2_eq [of n 4 16] by simp

lemma unat_bits:
  fixes a :: byte
  shows "unat (and a 3) = unat a mod 4" "unat (and a 0xF) = unat a mod 16" "unat (and a 0x3F) = unat a mod 64"
    "unat (drop_bit 2 (and a 0xFC)) = unat a div 4"
    "unat (drop_bit 4 (and a 0xF0)) = unat a div 16"
    "unat (drop_bit 6 (and a 0xC0)) = unat a div 64"
    "unat (drop_bit 4 (and a 0x30)) = unat a mod 64 div 16"
    "unat (drop_bit 2 (and a 0x3C)) = unat a mod 64 div 4"
proof -
  note [simp] = unsigned_and_eq and_mask_nat unat_drop_bit_eq drop_bit_and
  have "unat a < 256" by (rule byte_less)
  then have m: "unat a div 4 < 64" "unat a div 16 < 16" "unat a div 64 < 4" by auto
  show "unat (and a 3) = unat a mod 4" "unat (and a 0xF) = unat a mod 16" "unat (and a 0x3F) = unat a mod 64" by simp_all
  have 1: "drop_bit 2 (252::nat) = 63" "drop_bit 4 (240::nat) = 15" "drop_bit 6 (192::nat) = 3" "drop_bit 4 (48::nat) = 3"
     "drop_bit 2 (60::nat) = 15" by (simp_all add: drop_bit_eq_div)
  show "unat (drop_bit 2 (and a 0xFC)) = unat a div 4"
    "unat (drop_bit 4 (and a 0xF0)) = unat a div 16"
    "unat (drop_bit 6 (and a 0xC0)) = unat a div 64"
    using m by (simp_all add: 1) (simp_all add: drop_bit_eq_div)
  show "unat (drop_bit 4 (and a 0x30)) = unat a mod 64 div 16"
    "unat (drop_bit 2 (and a 0x3C)) = unat a mod 64 div 4"
    by (simp_all add: 1) (simp_all add: drop_bit_eq_div mod_div_nat mod_div_nat')
qed
lemma unat_byte_add: "unat (x + y :: byte) = (unat x + unat y) mod 256"
  by (simp add: unat_word_ariths)
lemma unat_byte_push: "unat (push_bit n x :: byte) = (unat x * 2 ^ n) mod 256"
  unfolding unsigned_push_bit_eq by (simp add: take_bit_eq_mod push_bit_eq_mult)
lemmas byte_bits = unat_bits unat_byte_add unat_byte_push

lemma code_bits:
  fixes a b c :: byte
  shows "unat (push_bit 4 (and a 3) + drop_bit 4 (and b 0xF0)) = unat a mod 4 * 16 + unat b div 16"
    "unat (push_bit 2 (and b 0xF) + drop_bit 6 (and c 0xC0)) = unat b mod 16 * 4 + unat c div 64"
proof -
  have "unat a < 256" "unat b < 256" "unat c < 256" by (rule byte_less)+
  then have "unat b div 16 < 16" "unat c div 64 < 4" "unat a mod 4 < 4" "unat b mod 16 < 16" by auto
  then show "unat (push_bit 4 (and a 3) + drop_bit 4 (and b 0xF0)) = unat a mod 4 * 16 + unat b div 16"
    "unat (push_bit 2 (and b 0xF) + drop_bit 6 (and c 0xC0)) = unat b mod 16 * 4 + unat c div 64"
    by (simp_all only: byte_bits) simp_all
qed

lemma group_bits:
  fixes x y :: byte
  assumes "unat x < 64" "unat y < 64"
  shows "unat (push_bit 2 x + drop_bit 4 (and y 0x30)) = unat x * 4 + unat y div 16"
    "unat (push_bit 4 (and x 0xF) + drop_bit 2 (and y 0x3C)) = unat x mod 16 * 16 + unat y div 4"
    "unat (push_bit 6 (and x 0x3) + y) = unat x mod 4 * 64 + unat y"
proof -
  have "unat y div 16 < 4" "unat y div 4 < 16" "unat x mod 16 < 16" "unat x mod 4 < 4" using assms by auto
  then show "unat (push_bit 2 x + drop_bit 4 (and y 0x30)) = unat x * 4 + unat y div 16"
    "unat (push_bit 4 (and x 0xF) + drop_bit 2 (and y 0x3C)) = unat x mod 16 * 16 + unat y div 4"
    "unat (push_bit 6 (and x 0x3) + y) = unat x mod 4 * 64 + unat y"
    using assms by (simp_all only: byte_bits) simp_all
qed

text \<open>The four codes of three bytes, and the three bytes of four codes.\<close>

abbreviation "code1 a \<equiv> drop_bit 2 (and a (0xFC :: byte))"
abbreviation "code2 a b \<equiv> push_bit 4 (and a (0x03 :: byte)) + drop_bit 4 (and b 0xF0)"
abbreviation "code3 b c \<equiv> push_bit 2 (and b (0x0F :: byte)) + drop_bit 6 (and c 0xC0)"
abbreviation "code4 c \<equiv> and c (0x3F :: byte)"

lemma code_less: "unat (code1 a) < 64" "unat (code2 a b) < 64" "unat (code3 b c) < 64" "unat (code4 c) < 64"
proof -
  have "unat a div 4 < 64" "unat b div 16 < 16" "unat c div 64 < 4" "unat a mod 4 < 4" "unat b mod 16 < 16"
    using byte_less [of a] byte_less [of b] byte_less [of c] by auto
  then show "unat (code1 a) < 64" "unat (code2 a b) < 64" "unat (code3 b c) < 64" "unat (code4 c) < 64"
    by (simp_all only: code_bits unat_bits)
qed

lemma group_inverse:
  "push_bit 2 (code1 a) + drop_bit 4 (and (code2 a b) 0x30) = a"
  "push_bit 4 (and (code2 a b) 0xF) + drop_bit 2 (and (code3 b c) 0x3C) = b"
  "push_bit 6 (and (code3 b c) 0x3) + code4 c = c"
proof -
  have "unat b div 16 < 16" "unat c div 64 < 4" using byte_less [of b] byte_less [of c] by auto
  then show "push_bit 2 (code1 a) + drop_bit 4 (and (code2 a b) 0x30) = a"
    "push_bit 4 (and (code2 a b) 0xF) + drop_bit 2 (and (code3 b c) 0x3C) = b"
    "push_bit 6 (and (code3 b c) 0x3) + code4 c = c"
    by (simp_all only: word_unat_eq_iff group_bits [OF code_less(1,2)] group_bits [OF code_less(2,3)]
        group_bits [OF code_less(3,4)] code_bits unat_bits) simp_all
qed

section \<open>Encoding and decoding\<close>

lemma encode_shape:
  "\<exists>xs k. json_encode64 bs = xs @ replicate k Pad \<and> set xs \<subseteq> set chars64 \<and> k \<le> 2"
proof (induction bs rule: json_encode64.induct)
  case (1 a b c bs)
  then obtain xs k where "json_encode64 bs = xs @ replicate k Pad" "set xs \<subseteq> set chars64" "k \<le> 2" by blast
  then show ?case
    using char64_inverse(2) [OF code_less(1)] char64_inverse(2) [OF code_less(2)]
      char64_inverse(2) [OF code_less(3)] char64_inverse(2) [OF code_less(4)]
    by (intro exI [where x = "[char64 (code1 a), char64 (code2 a b), char64 (code3 b c), char64 (code4 c)] @ xs"]
        exI [where x = k]) simp
next
  case (2 a b)
  then show ?case
    using char64_inverse(2) [OF code_less(1)] char64_inverse(2) [OF code_less(2)] char64_inverse(2) [OF code_less(3) [of b 0]]
    by (intro exI [where x = "[char64 (code1 a), char64 (code2 a b), char64 (code3 b 0)]"] exI [where x = 1]) simp
next
  case (3 a)
  then show ?case
    using char64_inverse(2) [OF code_less(1)] char64_inverse(2) [OF code_less(2) [of a 0]]
    by (intro exI [where x = "[char64 (code1 a), char64 (code2 a 0)]"] exI [where x = 2]) (simp add: numeral_2_eq_2)
next
  case 4
  show ?case by (intro exI [where x = "[]"] exI [where x = 0]) simp
qed

lemma is_base64_padded:
  assumes "set xs \<subseteq> set chars64" "k \<le> 2"
  shows "is_base64 (xs @ replicate k Pad)"
proof (cases "k = 0")
  case True
  then have "find_first_not_of chars64 xs = None"
    using assms(1) by (auto simp: find_first_not_of_def find_None_iff)
  then show ?thesis using True by (simp add: is_base64_def)
next
  case False
  have "Pad \<notin> set chars64" by (simp add: chars64_codes)
  then have "find_first_not_of chars64 (xs @ replicate k Pad) = Some (length xs)"
    using assms(1) False unfolding find_first_not_of_def find_Some_iff
    by (intro exI [where x = "length xs"]) (auto simp: nth_append)
  moreover have "k = 1 \<or> k = 2" using False assms(2) by auto
  ultimately show ?thesis by (auto simp: is_base64_def nth_append numeral_2_eq_2)
qed

lemma is_base64_encode: "is_base64 (json_encode64 bs)"
  using encode_shape [of bs] is_base64_padded by metis

lemma length_encode: "length (json_encode64 bs) = 4 * ((length bs + 2) div 3)"
proof (induction bs rule: json_encode64.induct)
  case (1 a b c bs)
  have "length (a # b # c # bs) + 2 = 3 + (length bs + 2)" by simp
  then have "(length (a # b # c # bs) + 2) div 3 = 1 + (length bs + 2) div 3" by (metis div_add_self1 zero_neq_numeral add.commute)
  then show ?case using 1 by simp
qed simp_all

lemma decode_groups:
  assumes "unat w < 64" "unat x < 64" "unat y < 64" "unat z < 64"
  shows "decode_loop (Suc n) (char64 w # char64 x # char64 y # char64 z # r) =
      [push_bit 2 w + drop_bit 4 (and x 0x30), push_bit 4 (and x 0xF) + drop_bit 2 (and y 0x3C),
       push_bit 6 (and y 0x3) + z] @ decode_loop n r"
    and "decode_last (char64 w # char64 x # char64 y # char64 z # r) =
      [push_bit 2 w + drop_bit 4 (and x 0x30), push_bit 4 (and x 0xF) + drop_bit 2 (and y 0x3C),
       push_bit 6 (and y 0x3) + z]"
    and "decode_last (char64 w # char64 x # char64 y # Pad # r) =
      [push_bit 2 w + drop_bit 4 (and x 0x30), push_bit 4 (and x 0xF) + drop_bit 2 (and y 0x3C)]"
    and "decode_last (char64 w # char64 x # Pad # r) = [push_bit 2 w + drop_bit 4 (and x 0x30)]"
  by (simp_all add: decode_last_def char64_inverse [OF assms(1)] char64_inverse [OF assms(2)]
      char64_inverse [OF assms(3)] char64_inverse [OF assms(4)])

lemmas decode_coded = decode_groups [OF code_less(1,2,3,4)]

lemma decode_encode:
  "bs \<noteq> [] \<Longrightarrow> decode_loop ((length bs + 2) div 3 - 1) (json_encode64 bs) = bs"
proof (induction bs rule: json_encode64.induct)
  case (1 a b c bs)
  show ?case
  proof (cases bs)
    case Nil
    have "(length (a # b # c # bs) + 2) div 3 - 1 = 0" using Nil by simp
    then show ?thesis unfolding Nil
      by (simp only: json_encode64.simps decode_loop.simps append_Cons append_Nil decode_coded group_inverse)
  next
    case (Cons d ds)
    then have "(length (a # b # c # bs) + 2) div 3 - 1 = Suc ((length bs + 2) div 3 - 1)" by simp
    moreover have "decode_loop ((length bs + 2) div 3 - 1) (json_encode64 bs) = bs" using 1 Cons by simp
    ultimately show ?thesis
      by (simp only: json_encode64.simps append_Cons append_Nil decode_coded group_inverse)
  qed
next
  case (2 a b)
  have "(length [a, b] + 2) div 3 - 1 = 0" by simp
  then show ?case
    by (simp only: json_encode64.simps decode_loop.simps decode_coded(3) group_inverse)
next
  case (3 a)
  have "(length [a] + 2) div 3 - 1 = 0" by simp
  then show ?case
    by (simp only: json_encode64.simps decode_loop.simps decode_coded(4) group_inverse)
qed simp

text \<open>
  C31: Bytes that are put into a node as a string of base 64 are read back from it, whatever they
  are and however many.
\<close>

theorem json_base64_roundtrip: "map_sum id fst (as_binary (set_binary bs n)) = Inr bs"
proof -
  have "json_decode64 (json_encode64 bs) = bs"
  proof (cases bs)
    case (Cons b bs')
    then have "(length bs + 2) div 3 \<noteq> 0" by simp
    then show ?thesis using decode_encode [of bs] Cons
      by (simp only: json_decode64_def is_base64_encode length_encode) simp
  qed (simp add: json_decode64_def)
  then show ?thesis by (simp add: as_binary_def set_binary_def Set_string_def json_as_string_def Fetch_def)
qed

end
