(* ===== verification/UdpSpec.thy ===== *)
theory UdpSpec
  imports Udp
begin

text \<open>
  The contexts of datagrams that wait for the address of their host: which of them are
  allocated in a state the socket can be in, and that none is used or freed twice.
\<close>

section \<open>What the callback does\<close>

definition answer_ok :: "int \<Rightarrow> addrinfo list \<Rightarrow> bool" where
  "answer_ok errcode addr \<longleftrightarrow> errcode \<noteq> 0 \<or> addr \<noteq> []"

lemma ud_emit_fields [simp]:
  "ud_ev (ud_emit e u) = ud_ev u" "ud_dns (ud_emit e u) = ud_dns u" "ud_heap (ud_emit e u) = ud_heap u"
  "ud_next (ud_emit e u) = ud_next u"
  by (simp_all add: ud_emit_def)

lemma on_dns_fields [simp]:
  "ud_ev (on_dns f u) = ud_ev u" "ud_dns (on_dns f u) = map_option f (ud_dns u)" "ud_heap (on_dns f u) = ud_heap u"
  "ud_next (on_dns f u) = ud_next u"
  by (simp_all add: on_dns_def)

lemma onDnsResolveResult_frees:
  assumes "ud_ev u \<noteq> None" "ud_heap u a = Some w" "answer_ok errcode addr"
  shows "\<exists>u'. udp_onDnsResolveResult errcode addr rand a u = (Inr (), u') \<and> ud_ev u' = ud_ev u
    \<and> ud_dns u' = ud_dns u \<and> ud_heap u' = (ud_heap u)(a := None) \<and> ud_next u' = ud_next u"
  using assms
  by (cases "errcode = 0"; cases "addr ! (rand mod length addr)")
    (auto simp: udp_onDnsResolveResult_def answer_ok_def udp_writeTo_def free_write_context_def)

lemma dns_callback_frees:
  assumes "ud_ev u \<noteq> None" "ud_dns u = Some d" "dn_heap d k = Some c" "ud_heap u (dc_ptr c) = Some w"
    and "answer_ok errcode addr"
  shows "\<exists>u' d'. dns_callback errcode addr rand k u = (Inr (), u') \<and> ud_ev u' = ud_ev u \<and> ud_dns u' = Some d'
    \<and> dn_mapcontext d' = (dn_mapcontext d)(dc_host c := None) \<and> dn_heap d' = (dn_heap d)(k := None)
    \<and> dn_next d' = dn_next d \<and> ud_heap u' = (ud_heap u)(dc_ptr c := None) \<and> ud_next u' = ud_next u"
proof -
  let ?u = "on_dns (\<lambda>d. d\<lparr>dn_gotResult := True\<rparr>) u"
  obtain u1 where u1: "udp_onDnsResolveResult errcode addr rand (dc_ptr c) ?u = (Inr (), u1)" "ud_ev u1 = ud_ev u"
    "ud_dns u1 = Some (d\<lparr>dn_gotResult := True\<rparr>)" "ud_heap u1 = (ud_heap u)(dc_ptr c := None)" "ud_next u1 = ud_next u"
    using onDnsResolveResult_frees [of ?u "dc_ptr c" w errcode addr rand] assms by auto
  then show ?thesis using assms(2,3) by (auto simp: dns_callback_def freeContext_def)
qed

section \<open>The invariant\<close>

text \<open>
  Every host that is being resolved has a context of its own, which points to a context of a
  datagram of its own, and there are no others.
\<close>

definition contexts_ok ::
  "(string \<rightharpoonup> nat) \<Rightarrow> (nat \<rightharpoonup> dns_context) \<Rightarrow> nat \<Rightarrow> (nat \<rightharpoonup> write_context) \<Rightarrow> nat \<Rightarrow> bool" where
  "contexts_ok m h n wh wn \<longleftrightarrow>
     (\<forall>host k. m host = Some k \<longrightarrow> (\<exists>c. h k = Some c \<and> dc_host c = host))
   \<and> (\<forall>k c. h k = Some c \<longrightarrow> m (dc_host c) = Some k \<and> k < n \<and> (\<exists>w. wh (dc_ptr c) = Some w))
   \<and> (\<forall>a w. wh a = Some w \<longrightarrow> a < wn \<and> (\<exists>k c. h k = Some c \<and> dc_ptr c = a))
   \<and> (\<forall>k k' c c'. h k = Some c \<longrightarrow> h k' = Some c' \<longrightarrow> dc_ptr c = dc_ptr c' \<longrightarrow> k = k')"

definition udp_ok :: "udp \<Rightarrow> bool" where
  "udp_ok u \<longleftrightarrow> ud_ev u \<noteq> None \<and> (case ud_dns u of
     None \<Rightarrow> ud_heap u = Map.empty
   | Some d \<Rightarrow> contexts_ok (dn_mapcontext d) (dn_heap d) (dn_next d) (ud_heap u) (ud_next u))"

lemma contexts_ok_empty: "contexts_ok Map.empty Map.empty n Map.empty wn"
  by (simp add: contexts_ok_def)

lemma contexts_ok_next: "contexts_ok m h n wh wn \<Longrightarrow> n \<le> n' \<Longrightarrow> wn \<le> wn' \<Longrightarrow> contexts_ok m h n' wh wn'"
  by (fastforce simp: contexts_ok_def)

lemma contexts_ok_fresh:
  assumes "contexts_ok m h n wh wn"
  shows "h n = None" "wh wn = None"
  using assms by (fastforce simp: contexts_ok_def)+

lemma contexts_ok_remove:
  assumes "contexts_ok m h n wh wn" "h k = Some c"
  shows "contexts_ok (m(dc_host c := None)) (h(k := None)) n (wh(dc_ptr c := None)) wn"
proof -
  have 1: "\<exists>c'. (h(k := None)) k' = Some c' \<and> dc_host c' = host" if "(m(dc_host c := None)) host = Some k'" for host k'
    using that assms unfolding contexts_ok_def by (metis fun_upd_apply option.distinct(1) option.inject)
  have 2: "(m(dc_host c := None)) (dc_host c') = Some k' \<and> k' < n \<and> (\<exists>w. (wh(dc_ptr c := None)) (dc_ptr c') = Some w)"
    if "(h(k := None)) k' = Some c'" for k' c'
  proof -
    from that have k: "k' \<noteq> k" "h k' = Some c'" by (auto split: if_splits)
    then have "dc_ptr c' \<noteq> dc_ptr c" "m (dc_host c') = Some k'" "k' < n" "\<exists>w. wh (dc_ptr c') = Some w"
      "m (dc_host c) = Some k"
      using assms unfolding contexts_ok_def by blast+
    then show ?thesis using k by auto
  qed
  have 3: "a < wn \<and> (\<exists>k' c'. (h(k := None)) k' = Some c' \<and> dc_ptr c' = a)" if "(wh(dc_ptr c := None)) a = Some w" for a w
  proof -
    from that have a: "a \<noteq> dc_ptr c" "wh a = Some w" by (auto split: if_splits)
    then obtain k' c' where "h k' = Some c'" "dc_ptr c' = a" "a < wn" using assms(1) unfolding contexts_ok_def by blast
    then show ?thesis using a(1) assms(2) by (metis fun_upd_apply option.inject)
  qed
  have 4: "k1 = k2" if "(h(k := None)) k1 = Some c1" "(h(k := None)) k2 = Some c2" "dc_ptr c1 = dc_ptr c2" for k1 k2 c1 c2
    using that assms(1) unfolding contexts_ok_def by (auto split: if_splits)
  show ?thesis unfolding contexts_ok_def using 1 2 3 4 by blast
qed

lemma contexts_ok_add:
  assumes "contexts_ok m h n wh wn" "m host = None"
  shows "contexts_ok (m(host \<mapsto> n)) (h(n \<mapsto> \<lparr>dc_host = host, dc_ptr = wn\<rparr>)) (Suc n) (wh(wn \<mapsto> w)) (Suc wn)"
proof -
  note f = contexts_ok_fresh [OF assms(1)]
  have lt: "dc_ptr c \<noteq> wn" "dc_host c \<noteq> host" "k < n" if "h k = Some c" for k c
    using that assms f unfolding contexts_ok_def by (metis option.distinct(1))+
  show ?thesis
    unfolding contexts_ok_def
  proof (intro conjI allI impI, goal_cases)
    case (1 host' k)
    then show ?case using assms f unfolding contexts_ok_def by (cases "host' = host") fastforce+
  next
    case (2 k c)
    then show ?case using assms lt unfolding contexts_ok_def by (cases "k = n") fastforce+
  next
    case (3 k c)
    then show ?case using lt by (cases "k = n") fastforce+
  next
    case (4 k c)
    then show ?case using assms lt unfolding contexts_ok_def by (cases "k = n") fastforce+
  next
    case (5 a w')
    then show ?case using assms unfolding contexts_ok_def by (cases "a = wn") fastforce+
  next
    case (6 a w')
    show ?case
    proof (cases "a = wn")
      case True
      then show ?thesis by (intro exI [of _ n] exI [of _ "\<lparr>dc_host = host, dc_ptr = wn\<rparr>"]) simp
    next
      case False
      then have "wh a = Some w'" using 6 by simp
      then obtain k c where k: "h k = Some c" "dc_ptr c = a" using assms(1) unfolding contexts_ok_def by blast
      then have "k \<noteq> n" using lt(3) [of k c] by simp
      then show ?thesis using k by (intro exI [of _ k] exI [of _ c]) simp
    qed
  next
    case (7 k k' c c')
    then show ?case using assms lt unfolding contexts_ok_def by (cases "k = n"; cases "k' = n") fastforce+
  qed
qed

section \<open>Runs\<close>

lemma callback_ok:
  assumes "ud_ev u \<noteq> None" "ud_dns u = Some d" "contexts_ok (dn_mapcontext d) (dn_heap d) (dn_next d) (ud_heap u) (ud_next u)"
    and "dn_mapcontext d host = Some k" "answer_ok errcode addr"
  shows "\<exists>u'. dns_callback errcode addr rand k u = (Inr (), u') \<and> udp_ok u'"
proof -
  obtain c where c: "dn_heap d k = Some c" "dc_host c = host" using assms(3,4) unfolding contexts_ok_def by blast
  then obtain w where w: "ud_heap u (dc_ptr c) = Some w" using assms(3) unfolding contexts_ok_def by blast
  from dns_callback_frees [OF assms(1,2) c(1) w assms(5), of rand] contexts_ok_remove [OF assms(3) c(1)]
  show ?thesis using assms(1) by (fastforce simp: udp_ok_def)
qed

lemma writeToHost_ok:
  assumes "udp_ok u" "ga \<noteq> Ga_failed" "\<forall>e addr. ga = Ga_called e addr \<longrightarrow> answer_ok e addr"
  shows "\<exists>n u'. udp_writeToHost pton data host port ga rand u = (Inr n, u') \<and> udp_ok u'"
proof -
  have ev: "ud_ev u \<noteq> None" using assms(1) by (simp add: udp_ok_def)
  show ?thesis
  proof (cases "pton host")
    case (Some ip)
    then show ?thesis using assms(1) ev
      by (auto simp: udp_writeToHost_def udp_writeTo_def udp_ok_def split: option.splits)
  next
    case None
    define d where "d = (case ud_dns u of None \<Rightarrow> newDns | Some d \<Rightarrow> d)"
    have ok: "contexts_ok (dn_mapcontext d) (dn_heap d) (dn_next d) (ud_heap u) (ud_next u)"
      using assms(1) by (auto simp: d_def udp_ok_def newDns_def contexts_ok_empty split: option.splits)
    note fresh = contexts_ok_fresh [OF ok]
    let ?w = "\<lparr>wc_data = data, wc_port = port\<rparr>"
    let ?c = "\<lparr>dc_host = host, dc_ptr = ud_next u\<rparr>"
    let ?u = "u\<lparr>ud_dns := Some d, ud_heap := (ud_heap u)(ud_next u \<mapsto> ?w), ud_next := Suc (ud_next u)\<rparr>"
    have call: "udp_writeToHost pton data host port ga rand u =
        bindR (dns_resolve host (ud_next u) ga rand ?u) (\<lambda>b u'.
          if b = False then bindR (free_write_context (ud_next u) u') (\<lambda>_ u'. (Inr (-1), u')) else (Inr 0, u'))"
    proof -
      have u0: "(if ud_dns u = None then u\<lparr>ud_dns := Some newDns\<rparr> else u) = u\<lparr>ud_dns := Some d\<rparr>"
        by (cases u) (simp add: d_def split: option.splits)
      show ?thesis
        unfolding udp_writeToHost_def Let_def u0 using None ev by (auto cong: if_cong)
    qed
    let ?d = "d\<lparr>dn_base := True, dn_heap := (dn_heap d)(dn_next d \<mapsto> ?c), dn_next := Suc (dn_next d), dn_gotResult := False\<rparr>"
    show ?thesis
    proof (cases "dn_mapcontext d host")
      case (Some k)
      have "(ud_heap u)(ud_next u := None) = ud_heap u" using fresh(2) by (simp add: fun_upd_idem)
      then show ?thesis using Some ok ev contexts_ok_next [OF ok, of "dn_next d" "Suc (ud_next u)"]
        by (simp add: call dns_resolve_def Let_def free_write_context_def udp_ok_def)
    next
      case no: None
      note add = contexts_ok_add [OF ok no, of ?w]
      show ?thesis
      proof (cases ga)
        case Ga_pending
        show ?thesis unfolding call using Ga_pending no ev add
          by (simp add: dns_resolve_def Let_def udp_ok_def)
      next
        case (Ga_called e addr)
        have e: "answer_ok e addr" using assms(3) Ga_called by simp
        let ?u1 = "?u\<lparr>ud_dns := Some ?d\<rparr>"
        have d: "ud_dns ?u1 = Some ?d" "ud_ev ?u1 \<noteq> None" "dn_heap ?d (dn_next d) = Some ?c"
          "ud_heap ?u1 (dc_ptr ?c) = Some ?w" using ev by simp_all
        obtain u' d' where u': "dns_callback e addr rand (dn_next d) ?u1 = (Inr (), u')" "ud_ev u' = ud_ev u"
          "ud_dns u' = Some d'" "dn_mapcontext d' = (dn_mapcontext d)(host := None)"
          "dn_heap d' = (dn_heap d)(dn_next d := None)" "dn_next d' = Suc (dn_next d)"
          "ud_heap u' = (ud_heap u)(ud_next u := None)" "ud_next u' = Suc (ud_next u)"
          using dns_callback_frees [OF d(2,1,3,4) e, of rand] by auto
        have same: "dn_mapcontext d' = dn_mapcontext d" "dn_heap d' = dn_heap d" "ud_heap u' = ud_heap u"
          using u' no fresh by (simp_all add: fun_upd_idem)
        have "udp_ok u'" using contexts_ok_next [OF ok, of "Suc (dn_next d)" "Suc (ud_next u)"] u' same ev
          by (simp add: udp_ok_def)
        moreover have "dns_resolve host (ud_next u) ga rand ?u = (Inr True, u')"
          using no u'(1) Ga_called by (simp add: dns_resolve_def Let_def on_dns_def)
        ultimately show ?thesis by (simp add: call)
      qed (use assms(2) in simp)
    qed
  qed
qed

text \<open>
  The states of a socket that has been bound and is not closed. The resolver answers each
  request once, with an error or with at least one address, at once or later.
\<close>

definition documented :: "getaddrinfo \<Rightarrow> bool" where
  "documented ga \<longleftrightarrow> (case ga of Ga_pending \<Rightarrow> True | Ga_called e addr \<Rightarrow> answer_ok e addr | Ga_failed \<Rightarrow> False)"

inductive udp_reachable :: "udp \<Rightarrow> bool" where
  bound: "udp_bind sock opt_ret bind_ret (newUdp port) = (Inr (), u) \<Longrightarrow> udp_reachable u"
| to_host: "udp_reachable u \<Longrightarrow> documented ga \<Longrightarrow>
    udp_writeToHost pton data host port ga rand u = (Inr n, u') \<Longrightarrow> udp_reachable u'"
| answer: "udp_reachable u \<Longrightarrow> ud_dns u = Some d \<Longrightarrow> dn_mapcontext d host = Some k \<Longrightarrow> answer_ok errcode addr \<Longrightarrow>
    dns_callback errcode addr rand k u = (Inr (), u') \<Longrightarrow> udp_reachable u'"
| to_addr: "udp_reachable u \<Longrightarrow> udp_writeTo data sin u = (Inr (), u') \<Longrightarrow> udp_reachable u'"
| reply: "udp_reachable u \<Longrightarrow> udp_write data u = (Inr (), u') \<Longrightarrow> udp_reachable u'"
| received: "udp_reachable u \<Longrightarrow> udp_reachable (udp_event_cb stopped readable buf len sin u)"

lemma udp_ok_updates [simp]:
  "udp_ok (ud_emit e u) = udp_ok u" "udp_ok (u\<lparr>ud_lastclient := sin\<rparr>) = udp_ok u"
  by (simp_all add: udp_ok_def ud_emit_def cong: option.case_cong)

lemma udp_reachable_ok: "udp_reachable u \<Longrightarrow> udp_ok u"
proof (induction rule: udp_reachable.induct)
  case (bound sock opt_ret bind_ret port u)
  then show ?case by (auto simp: udp_bind_def newUdp_def udp_ok_def Let_def ud_emit_def split: if_splits)
next
  case (to_host u ga pton data host port rand n u')
  then show ?case using writeToHost_ok [of u ga pton data host port rand]
    by (fastforce simp: documented_def split: getaddrinfo.splits)
next
  case (answer u d host k errcode addr rand u')
  then show ?case using callback_ok [of u d host k errcode addr rand] by (auto simp: udp_ok_def)
next
  case (to_addr u data sin u')
  then show ?case by (auto simp: udp_writeTo_def split: if_splits)
next
  case (reply u data u')
  then show ?case by (auto simp: udp_write_def split: if_splits option.splits)
next
  case (received u stopped readable buf len sin)
  then show ?case by (simp add: udp_event_cb_def)
qed

definition waiting_hosts :: "udp \<Rightarrow> string set" where
  "waiting_hosts u = (case ud_dns u of None \<Rightarrow> {} | Some d \<Rightarrow> dom (dn_mapcontext d))"

definition host_context :: "udp \<Rightarrow> string \<Rightarrow> nat" where
  "host_context u host = the (dn_mapcontext (the (ud_dns u)) host)"

definition datagram_of :: "udp \<Rightarrow> string \<Rightarrow> nat" where
  "datagram_of u host = dc_ptr (the (dn_heap (the (ud_dns u)) (host_context u host)))"

lemma contexts_bij:
  assumes "contexts_ok m h n wh wn"
  shows "bij_betw (\<lambda>host. dc_ptr (the (h (the (m host))))) (dom m) (dom wh)"
proof (rule bij_betw_imageI)
  have c: "\<exists>k c. m host = Some k \<and> h k = Some c \<and> dc_host c = host \<and> wh (dc_ptr c) \<noteq> None" if "host \<in> dom m" for host
  proof -
    from that obtain k where k: "m host = Some k" by blast
    then obtain c where c: "h k = Some c" "dc_host c = host" using assms unfolding contexts_ok_def by blast
    then have "wh (dc_ptr c) \<noteq> None" using assms unfolding contexts_ok_def by blast
    then show ?thesis using k c by blast
  qed
  show "inj_on (\<lambda>host. dc_ptr (the (h (the (m host))))) (dom m)"
  proof (rule inj_onI)
    fix x y
    assume xy: "x \<in> dom m" "y \<in> dom m" "dc_ptr (the (h (the (m x)))) = dc_ptr (the (h (the (m y))))"
    obtain k c where k: "m x = Some k" "h k = Some c" "dc_host c = x" using c [OF xy(1)] by blast
    obtain k' c' where k': "m y = Some k'" "h k' = Some c'" "dc_host c' = y" using c [OF xy(2)] by blast
    have "k = k'" using xy(3) k k' assms unfolding contexts_ok_def by simp
    then show "x = y" using k k' by simp
  qed
  show "(\<lambda>host. dc_ptr (the (h (the (m host))))) ` dom m = dom wh"
  proof (intro equalityI subsetI)
    fix a assume "a \<in> (\<lambda>host. dc_ptr (the (h (the (m host))))) ` dom m"
    then obtain host where "host \<in> dom m" "a = dc_ptr (the (h (the (m host))))" by blast
    then show "a \<in> dom wh" using c by fastforce
  next
    fix a assume "a \<in> dom wh"
    then obtain k c' where k: "h k = Some c'" "dc_ptr c' = a" using assms unfolding contexts_ok_def by blast
    then have "m (dc_host c') = Some k" using assms unfolding contexts_ok_def by blast
    then show "a \<in> (\<lambda>host. dc_ptr (the (h (the (m host))))) ` dom m" using k by force
  qed
qed

lemma udp_ok_bij:
  assumes "udp_ok u"
  shows "bij_betw (datagram_of u) (waiting_hosts u) (dom (ud_heap u))"
proof (cases "ud_dns u")
  case None
  then show ?thesis using assms by (simp add: udp_ok_def waiting_hosts_def bij_betw_def)
next
  case (Some d)
  then have "contexts_ok (dn_mapcontext d) (dn_heap d) (dn_next d) (ud_heap u) (ud_next u)"
    using assms by (simp add: udp_ok_def)
  from contexts_bij [OF this] Some show ?thesis
    by (simp add: waiting_hosts_def datagram_of_def [abs_def] host_context_def)
qed

lemma udp_ok_answer:
  assumes "udp_ok u" "host \<in> waiting_hosts u" "answer_ok errcode addr"
  shows "\<exists>u'. dns_callback errcode addr rand (host_context u host) u = (Inr (), u')
    \<and> waiting_hosts u' = waiting_hosts u - {host} \<and> dom (ud_heap u') = dom (ud_heap u) - {datagram_of u host}"
proof -
  obtain d k where d: "ud_dns u = Some d" "dn_mapcontext d host = Some k"
    using assms(2) by (auto simp: waiting_hosts_def split: option.splits)
  have ok: "ud_ev u \<noteq> None" "contexts_ok (dn_mapcontext d) (dn_heap d) (dn_next d) (ud_heap u) (ud_next u)"
    using assms(1) d by (auto simp: udp_ok_def)
  obtain c where c: "dn_heap d k = Some c" "dc_host c = host" using ok(2) d(2) unfolding contexts_ok_def by blast
  obtain w where w: "ud_heap u (dc_ptr c) = Some w" using ok(2) c(1) unfolding contexts_ok_def by blast
  from dns_callback_frees [OF ok(1) d(1) c(1) w assms(3), of rand] c d show ?thesis
    by (auto simp: host_context_def datagram_of_def waiting_hosts_def)
qed

text \<open>
  C30: In every state of a bound socket each host that is being resolved has exactly one waiting
  datagram and every allocated context of a datagram belongs to such a host. The answer of the
  resolver uses and frees exactly the contexts of its host, none of which has been freed; but
  destroying the socket frees no context of a waiting datagram.
\<close>

theorem udp_contexts_freed_once:
  assumes "udp_reachable u"
  shows "bij_betw (datagram_of u) (waiting_hosts u) (dom (ud_heap u))
    \<and> (\<forall>host\<in>waiting_hosts u. answer_ok errcode addr \<longrightarrow>
        (\<exists>u'. dns_callback errcode addr rand (host_context u host) u = (Inr (), u')
          \<and> waiting_hosts u' = waiting_hosts u - {host} \<and> dom (ud_heap u') = dom (ud_heap u) - {datagram_of u host}))
    \<and> ud_heap (udp_destroy u) = ud_heap u"
proof -
  have "ud_heap (udp_destroy u) = ud_heap u"
    by (simp add: udp_destroy_def udp_close_def Let_def split: option.splits)
  then show ?thesis using udp_ok_bij [OF udp_reachable_ok [OF assms]]
      udp_ok_answer [OF udp_reachable_ok [OF assms], of _ errcode addr rand] by blast
qed

theorem udp_contexts_freed_once_witness:
  "\<exists>u. waiting_hosts u = {''db''} \<and> dom (ud_heap u) = {datagram_of u ''db''}
    \<and> (\<exists>u'. dns_callback 0 [Ai_inet 1] 7 (host_context u ''db'') u = (Inr (), u') \<and> dom (ud_heap u') = {})"
proof -
  define u0 where "u0 = snd (udp_bind 5 0 0 (newUdp 99))"
  have b: "udp_bind 5 0 0 (newUdp 99) = (Inr (), u0)"
    by (simp add: u0_def udp_bind_def newUdp_def Let_def)
  have f: "ud_ev u0 = Some 5" "ud_dns u0 = None" "ud_heap u0 = Map.empty"
    by (simp_all add: u0_def udp_bind_def newUdp_def Let_def ud_emit_def)
  define u1 where "u1 = snd (udp_writeToHost (\<lambda>_. None) [1] ''db'' 53 Ga_pending 0 u0)"
  have w: "udp_writeToHost (\<lambda>_. None) [1] ''db'' 53 Ga_pending 0 u0 = (Inr 0, u1)"
    and h: "waiting_hosts u1 = {''db''}"
    using f by (simp_all add: u1_def udp_writeToHost_def dns_resolve_def newDns_def on_dns_def waiting_hosts_def Let_def)
  have "udp_reachable u1" by (rule to_host [OF bound [OF b] _ w]) (simp add: documented_def)
  note t = udp_contexts_freed_once [OF this, of 0 "[Ai_inet 1]" 7]
  then have dom: "dom (ud_heap u1) = {datagram_of u1 ''db''}" using h by (simp add: bij_betw_def)
  have "answer_ok 0 [Ai_inet 1]" "''db'' \<in> waiting_hosts u1" using h by (simp_all add: answer_ok_def)
  with t obtain u' where "dns_callback 0 [Ai_inet 1] 7 (host_context u1 ''db'') u1 = (Inr (), u')"
    "dom (ud_heap u') = dom (ud_heap u1) - {datagram_of u1 ''db''}" by blast
  then show ?thesis using h dom by (intro exI [of _ u1]) simp
qed

end
