(* ===== verification/Logger.thy ===== *)
theory Logger
  imports Strings
begin

text \<open>
  The logger, \<^verbatim>\<open>Logger.h\<close>, \<^verbatim>\<open>InternalLogger.h\<close> and \<^verbatim>\<open>Logger.cpp\<close>. Its static variables
  are the record \<open>logger\<close>; the callbacks the user installs are function pointers, of which only
  the identity matters, and what is printed and which callback is called is kept in \<open>lg_out\<close>.
  The result of \<open>vsprintf\<close> is an argument, as are the fields of the clock and the thread. The
  stack trace (\<open>backtrace\<close>) only prints what the C library finds and is left out.
\<close>

section \<open>Levels and state\<close>

datatype LogLevel =
    LEVEL_TRACE | LEVEL_DEBUG | LEVEL_INFO | LEVEL_WARNING | LEVEL_ERROR | LEVEL_FATAL | LEVEL_NONE

fun level_num :: "LogLevel \<Rightarrow> nat" where
  "level_num LEVEL_TRACE = 1"
| "level_num LEVEL_DEBUG = 2"
| "level_num LEVEL_INFO = 3"
| "level_num LEVEL_WARNING = 4"
| "level_num LEVEL_ERROR = 5"
| "level_num LEVEL_FATAL = 6"
| "level_num LEVEL_NONE = 7"

lemma level_num_inject: "level_num a = level_num b \<longleftrightarrow> a = b"
  by (cases a; cases b) simp_all

instantiation LogLevel :: linorder
begin

definition less_eq_LogLevel :: "LogLevel \<Rightarrow> LogLevel \<Rightarrow> bool" where
  "less_eq_LogLevel a b \<longleftrightarrow> level_num a \<le> level_num b"

definition less_LogLevel :: "LogLevel \<Rightarrow> LogLevel \<Rightarrow> bool" where
  "less_LogLevel a b \<longleftrightarrow> level_num a < level_num b"

instance
  by standard (auto simp: less_eq_LogLevel_def less_LogLevel_def simp flip: level_num_inject)

end

type_synonym callback = "nat option"

record log_hooks =
  hook_trace :: callback
  hook_debug :: callback
  hook_info :: callback
  hook_warning :: callback
  hook_error :: callback
  hook_fatal :: callback

datatype log_output =
    CallHook nat LogLevel string int string string bool
  | Print string

record logger =
  lg_level :: LogLevel
  lg_hooks :: log_hooks
  lg_engineLogEnable :: bool
  lg_enableDebugMode :: bool
  lg_out :: "log_output list"

definition initLogger :: logger where
  "initLogger = \<lparr>lg_level = LEVEL_INFO,
     lg_hooks = \<lparr>hook_trace = None, hook_debug = None, hook_info = None, hook_warning = None,
                 hook_error = None, hook_fatal = None\<rparr>,
     lg_engineLogEnable = True, lg_enableDebugMode = False, lg_out = []\<rparr>"

definition setEngineLogEnable :: "bool \<Rightarrow> logger \<Rightarrow> logger" where
  "setEngineLogEnable enable g = g\<lparr>lg_engineLogEnable := enable\<rparr>"

definition setLogLevel :: "LogLevel \<Rightarrow> logger \<Rightarrow> logger" where
  "setLogLevel level g = g\<lparr>lg_level := level\<rparr>"

definition setLogHookFunctionCallback :: "log_hooks \<Rightarrow> logger \<Rightarrow> logger" where
  "setLogHookFunctionCallback callback g = g\<lparr>lg_hooks := callback\<rparr>"

definition currentLogLevel :: "logger \<Rightarrow> LogLevel" where
  "currentLogLevel g = lg_level g"

definition setEnableDebugMode :: "logger \<Rightarrow> logger" where
  "setEnableDebugMode g = g\<lparr>lg_enableDebugMode := True\<rparr>"

section \<open>Printing a message\<close>

text \<open>Where a message comes from: file, function and line, with the clock and the thread.\<close>

record log_site =
  ls_file :: string
  ls_function :: string
  ls_line :: int

record log_clock =
  lc_thread :: string
  lc_year :: nat
  lc_mon :: nat
  lc_mday :: nat
  lc_hour :: nat
  lc_min :: nat
  lc_sec :: nat
  lc_usec :: nat

text \<open>\<^verbatim>\<open>%0wd\<close> of a number that is not negative.\<close>

definition fmt_0d :: "nat \<Rightarrow> nat \<Rightarrow> string" where
  "fmt_0d w n = replicate (w - length (dec n)) CHR ''0'' @ dec n"

definition log_prefix :: "LogLevel \<Rightarrow> log_clock \<Rightarrow> string" where
  "log_prefix level k = ''['' @ dec (level_num level) @ '':'' @ lc_thread k @ '']>''
     @ fmt_0d 2 (lc_year k - 100) @ fmt_0d 2 (lc_mon k + 1) @ fmt_0d 2 (lc_mday k)
     @ fmt_0d 2 (lc_hour k) @ fmt_0d 2 (lc_min k) @ fmt_0d 2 (lc_sec k)
     @ '':'' @ fmt_0d 4 (lc_usec k) @ '' ''"

text \<open>
  \<open>fprintf(fp, log)\<close>: the message is the format. \<^verbatim>\<open>%%\<close> prints one percent sign; any other
  directive asks for an argument there is none of.
\<close>

fun printf_format :: "string \<Rightarrow> exn + string" where
  "printf_format [] = Inr []"
| "printf_format (c # cs) =
     (if c \<noteq> CHR ''%'' then map_sum id (Cons c) (printf_format cs)
      else case cs of
        [] \<Rightarrow> Inl (Undef ''incomplete format'')
      | d # ds \<Rightarrow>
          if d = CHR ''%'' then map_sum id (Cons d) (printf_format ds)
          else Inl (Undef ''format without argument''))"

definition hook_of :: "LogLevel \<Rightarrow> log_hooks \<Rightarrow> callback" where
  "hook_of level h =
     (case level of
        LEVEL_TRACE \<Rightarrow> hook_trace h | LEVEL_DEBUG \<Rightarrow> hook_debug h | LEVEL_INFO \<Rightarrow> hook_info h
      | LEVEL_WARNING \<Rightarrow> hook_warning h | LEVEL_ERROR \<Rightarrow> hook_error h | LEVEL_FATAL \<Rightarrow> hook_fatal h
      | LEVEL_NONE \<Rightarrow> None)"

definition lg_emit :: "log_output list \<Rightarrow> logger \<Rightarrow> logger" where
  "lg_emit os g = g\<lparr>lg_out := lg_out g @ os\<rparr>"

text \<open>
  \<open>logprintf\<close>, from the point where the message is formatted into the array \<open>log\<close> of 4096
  characters. The character in front of an empty message is outside of the array.
\<close>

definition logprintf ::
  "bool \<Rightarrow> log_site \<Rightarrow> LogLevel \<Rightarrow> string \<Rightarrow> log_clock \<Rightarrow> logger \<Rightarrow> (unit, logger) res" where
  "logprintf internalLog site level msg k g =
     (if 4096 \<le> length msg then (Inl (Undef ''vsprintf past the end of log''), g)
      else
        let log = c_str msg in
        if log = [] then (Inl (Undef ''log[-1]''), g)
        else
          let log = (if last log = CHR 0x0A then butlast log else log) in
          if level = LEVEL_NONE then (Inr (), g)
          else (case hook_of level (lg_hooks g) of
                  Some hook \<Rightarrow>
                    (Inr (), lg_emit [CallHook hook level (ls_file site) (ls_line site) (ls_function site)
                                        log internalLog] g)
                | None \<Rightarrow>
                    (let g = lg_emit [Print (log_prefix level k)] g in
                     case printf_format log of
                       Inl e \<Rightarrow> (Inl e, g)
                     | Inr s \<Rightarrow> (Inr (), lg_emit [Print s, Print [CHR 0x0A]] g))))"

section \<open>The macros\<close>

text \<open>
  \<open>LOG_TRACE\<close> and its kin: the level the message must reach, and the level it is logged with.
  The internal macros ask for \<open>gEngineLogEnable_\<close> first.
\<close>

definition log_if ::
  "LogLevel \<Rightarrow> LogLevel \<Rightarrow> bool \<Rightarrow> log_site \<Rightarrow> string \<Rightarrow> log_clock \<Rightarrow> logger \<Rightarrow> (unit, logger) res" where
  "log_if threshold level internal site msg k g =
     (if currentLogLevel g \<le> threshold \<or> lg_enableDebugMode g
      then logprintf internal site level msg k g else (Inr (), g))"

definition LOG_TRACE :: "log_site \<Rightarrow> string \<Rightarrow> log_clock \<Rightarrow> logger \<Rightarrow> (unit, logger) res" where
  "LOG_TRACE = log_if LEVEL_TRACE LEVEL_TRACE False"

definition LOG_DEBUG :: "log_site \<Rightarrow> string \<Rightarrow> log_clock \<Rightarrow> logger \<Rightarrow> (unit, logger) res" where
  "LOG_DEBUG = log_if LEVEL_DEBUG LEVEL_DEBUG False"

definition LOG_INFO :: "log_site \<Rightarrow> string \<Rightarrow> log_clock \<Rightarrow> logger \<Rightarrow> (unit, logger) res" where
  "LOG_INFO = log_if LEVEL_ERROR LEVEL_ERROR False"

definition LOG_WARN :: "log_site \<Rightarrow> string \<Rightarrow> log_clock \<Rightarrow> logger \<Rightarrow> (unit, logger) res" where
  "LOG_WARN = log_if LEVEL_WARNING LEVEL_WARNING False"

definition LOG_ERROR :: "log_site \<Rightarrow> string \<Rightarrow> log_clock \<Rightarrow> logger \<Rightarrow> (unit, logger) res" where
  "LOG_ERROR = log_if LEVEL_ERROR LEVEL_ERROR False"

definition LOG_FATAL :: "log_site \<Rightarrow> string \<Rightarrow> log_clock \<Rightarrow> logger \<Rightarrow> (unit, logger) res" where
  "LOG_FATAL = log_if LEVEL_FATAL LEVEL_FATAL False"

definition engine_log_if ::
  "LogLevel \<Rightarrow> LogLevel \<Rightarrow> log_site \<Rightarrow> string \<Rightarrow> log_clock \<Rightarrow> logger \<Rightarrow> (unit, logger) res" where
  "engine_log_if threshold level site msg k g =
     (if lg_engineLogEnable g then log_if threshold level True site msg k g else (Inr (), g))"

definition engine_LOG_TRACE :: "log_site \<Rightarrow> string \<Rightarrow> log_clock \<Rightarrow> logger \<Rightarrow> (unit, logger) res" where
  "engine_LOG_TRACE = engine_log_if LEVEL_TRACE LEVEL_TRACE"

definition engine_LOG_DEBUG :: "log_site \<Rightarrow> string \<Rightarrow> log_clock \<Rightarrow> logger \<Rightarrow> (unit, logger) res" where
  "engine_LOG_DEBUG = engine_log_if LEVEL_DEBUG LEVEL_DEBUG"

definition engine_LOG_INFO :: "log_site \<Rightarrow> string \<Rightarrow> log_clock \<Rightarrow> logger \<Rightarrow> (unit, logger) res" where
  "engine_LOG_INFO = engine_log_if LEVEL_ERROR LEVEL_ERROR"

definition engine_LOG_WARN :: "log_site \<Rightarrow> string \<Rightarrow> log_clock \<Rightarrow> logger \<Rightarrow> (unit, logger) res" where
  "engine_LOG_WARN = engine_log_if LEVEL_WARNING LEVEL_WARNING"

definition engine_LOG_ERROR :: "log_site \<Rightarrow> string \<Rightarrow> log_clock \<Rightarrow> logger \<Rightarrow> (unit, logger) res" where
  "engine_LOG_ERROR = engine_log_if LEVEL_ERROR LEVEL_ERROR"

definition engine_LOG_FATAL :: "log_site \<Rightarrow> string \<Rightarrow> log_clock \<Rightarrow> logger \<Rightarrow> (unit, logger) res" where
  "engine_LOG_FATAL = engine_log_if LEVEL_FATAL LEVEL_FATAL"

section \<open>The hex dump\<close>

text \<open>Lower-case hexadecimal digits, and \<^verbatim>\<open>%0wx\<close>.\<close>

definition hex_digit :: "nat \<Rightarrow> char" where
  "hex_digit d = ''0123456789abcdef'' ! d"

fun hex :: "nat \<Rightarrow> string" where
  "hex n = (if n div 16 = 0 then [] else hex (n div 16)) @ [hex_digit (n mod 16)]"

declare hex.simps [simp del]

definition fmt_0x :: "nat \<Rightarrow> nat \<Rightarrow> string" where
  "fmt_0x w n = replicate (w - length (hex n)) CHR ''0'' @ hex n"

text \<open>\<open>isprint\<close> in the C locale.\<close>

definition isprint :: "byte \<Rightarrow> bool" where
  "isprint b \<longleftrightarrow> 32 \<le> unat b \<and> unat b \<le> 126"

text \<open>A byte of \<open>data\<close>; a position behind its end is not a byte.\<close>

definition byte_at :: "bytes \<Rightarrow> nat \<Rightarrow> exn + byte" where
  "byte_at data p = (if p < length data then Inr (data ! p) else Inl (Undef ''read behind data''))"

text \<open>\<open>while (k--)\<close> over \<open>p\<close>: the state is the position, the result the characters printed.\<close>

fun ascii_loop :: "bytes \<Rightarrow> nat \<Rightarrow> nat \<Rightarrow> (string, nat) res" where
  "ascii_loop data 0 p = (Inr [], p)"
| "ascii_loop data (Suc k) p =
     (case byte_at data p of
        Inl e \<Rightarrow> (Inl e, p)
      | Inr b \<Rightarrow>
          bindR (ascii_loop data k (p + 1)) (\<lambda>s p.
          (Inr ((if isprint b then char_of (unat b) else CHR ''.'') # s), p)))"

text \<open>The \<open>for\<close> loop: \<open>i\<close> counts the bytes, \<open>k\<close> those of the line, \<open>p\<close> is where the line starts.\<close>

function hexdump_loop :: "bytes \<Rightarrow> nat \<Rightarrow> nat \<Rightarrow> nat \<Rightarrow> (string \<times> nat, nat) res" where
  "hexdump_loop data i k p =
     (if length data \<le> i then (Inr ([], k), p)
      else
        bindR (if i \<noteq> 0 \<and> i mod 16 = 0
               then bindR (ascii_loop data k p) (\<lambda>s p.
                      (Inr (''   '' @ s @ [CHR 0x0A] @ fmt_0x 5 i @ ''     '', 0), p))
               else (Inr ('''', k), p)) (\<lambda>(s, k) p.
        case byte_at data (p + k) of
          Inl e \<Rightarrow> (Inl e, p)
        | Inr b \<Rightarrow>
            bindR (hexdump_loop data (i + 1) (k + 1) p) (\<lambda>(s', k) p.
            (Inr (s @ fmt_0x 2 (unat b) @ (if i mod 2 = 1 then '' '' else '''') @ s', k), p))))"
  by pat_completeness auto
termination by (relation "measure (\<lambda>(data, i, k, p). length data - i)") auto

declare hexdump_loop.simps [simp del]

definition hexdump :: "bytes \<Rightarrow> exn + string" where
  "hexdump data =
     (if data = [] then Inr []
      else fst (bindR (hexdump_loop data 0 0 0) (\<lambda>(s, k) p.
           bindR (ascii_loop data k p) (\<lambda>t p.
           (Inr (fmt_0x 5 0 @ ''     '' @ s @ concat (replicate (16 - k) ''   '') @ ''   '' @ t @ [CHR 0x0A]), p)))))"

section \<open>What a dump looks like\<close>

definition ascii :: "byte \<Rightarrow> char" where
  "ascii b = (if isprint b then char_of (unat b) else CHR ''.'')"

definition hex_cell :: "bytes \<Rightarrow> nat \<Rightarrow> string" where
  "hex_cell line j = fmt_0x 2 (unat (line ! j)) @ (if odd j then '' '' else '''')"

definition line_end :: "bytes \<Rightarrow> string" where
  "line_end line = concat (replicate (16 - length line) ''   '') @ ''   '' @ map ascii line @ [CHR 0x0A]"

definition dump_line :: "nat \<Rightarrow> bytes \<Rightarrow> string" where
  "dump_line off line = fmt_0x 5 off @ ''     '' @ concat (map (hex_cell line) [0..<length line]) @ line_end line"

text \<open>The dump, line by line: 16 bytes each, the last one with what is left.\<close>

function dump_lines :: "nat \<Rightarrow> bytes \<Rightarrow> string" where
  "dump_lines off data =
     (if data = [] then [] else dump_line off (take 16 data) @ dump_lines (off + 16) (drop 16 data))"
  by pat_completeness auto
termination by (relation "measure (\<lambda>(off, data). length data)") auto

declare dump_lines.simps [simp del]

lemma dump_lines_Nil [simp]: "dump_lines off [] = []"
  by (simp add: dump_lines.simps)

lemma ascii_loop_ok:
  "p + k \<le> length data \<Longrightarrow> ascii_loop data k p = (Inr (map ascii (take k (drop p data))), p + k)"
proof (induction k arbitrary: p)
  case (Suc k)
  then have "drop p data = data ! p # drop (Suc p) data" by (simp add: Cons_nth_drop_Suc)
  then show ?case using Suc by (simp add: byte_at_def ascii_def)
qed simp

text \<open>What is still to be printed when \<open>k\<close> bytes of the line that starts at \<open>p\<close> have been.\<close>

definition rest_of_dump :: "bytes \<Rightarrow> nat \<Rightarrow> nat \<Rightarrow> string" where
  "rest_of_dump data k p =
     (let line = take 16 (drop p data) in
      concat (map (hex_cell line) [k..<length line]) @ line_end line
      @ dump_lines (p + 16) (drop (p + 16) data))"

definition last_line :: "bytes \<Rightarrow> (string \<times> nat, nat) res \<Rightarrow> exn + string" where
  "last_line data m =
     fst (bindR m (\<lambda>(s, k) p. bindR (ascii_loop data k p) (\<lambda>t p.
            (Inr (s @ concat (replicate (16 - k) ''   '') @ ''   '' @ t @ [CHR 0x0A]), p))))"

lemma last_line_more:
  "last_line data (bindR m (\<lambda>(s', k) p. (Inr (s @ s', k), p))) = map_sum id ((@) s) (last_line data m)"
proof -
  obtain r p where m: "m = (r, p)" by (cases m)
  show ?thesis
  proof (cases r)
    case (Inr sk)
    obtain s' k where sk: "sk = (s', k)" by (cases sk)
    obtain t q where "ascii_loop data k p = (t, q)" by fastforce
    then show ?thesis by (cases t) (auto simp: m Inr sk last_line_def)
  qed (simp add: m last_line_def)
qed

text \<open>What one round of the loop prints for its byte, and the two kinds of rounds.\<close>

definition cell_at :: "bytes \<Rightarrow> nat \<Rightarrow> string" where
  "cell_at data i = fmt_0x 2 (unat (data ! i)) @ (if i mod 2 = 1 then '' '' else '''')"

lemma hexdump_loop_cell:
  assumes "i < length data" "i = p + k" "\<not> (i \<noteq> 0 \<and> i mod 16 = 0)"
  shows "hexdump_loop data i k p
       = bindR (hexdump_loop data (i + 1) (k + 1) p) (\<lambda>(s', k) p. (Inr (cell_at data i @ s', k), p))"
  using assms
  by (subst hexdump_loop.simps)
    (simp only: if_False not_le [THEN iffD2] bindR.simps prod.case byte_at_def cell_at_def if_True
      sum.case append_Nil append_assoc)

definition line_break :: "bytes \<Rightarrow> nat \<Rightarrow> nat \<Rightarrow> string" where
  "line_break data k p = ''   '' @ map ascii (take k (drop p data)) @ [CHR 0x0A] @ fmt_0x 5 (p + k) @ ''     ''"

lemma hexdump_loop_break:
  assumes "i < length data" "i = p + k" "i \<noteq> 0 \<and> i mod 16 = 0"
  shows "hexdump_loop data i k p
       = bindR (hexdump_loop data (i + 1) 1 i) (\<lambda>(s', j) q.
           (Inr ((line_break data k p @ cell_at data i) @ s', j), q))"
  using assms ascii_loop_ok [of p k data]
  by (subst hexdump_loop.simps)
    (simp add: byte_at_def cell_at_def line_break_def del: One_nat_def)

lemma rest_of_dump_cell:
  assumes "k < 16" "p + k < length data" "even p"
  shows "rest_of_dump data k p = cell_at data (p + k) @ rest_of_dump data (k + 1) p"
proof -
  have "[k..<length (take 16 (drop p data))] = k # [Suc k..<length (take 16 (drop p data))]"
    using assms by (intro upt_conv_Cons) simp
  moreover have "hex_cell (take 16 (drop p data)) k = cell_at data (p + k)"
  proof -
    have "(p + k) mod 2 = 1 \<longleftrightarrow> odd k" using assms(3) by presburger
    then show ?thesis using assms by (simp add: hex_cell_def cell_at_def)
  qed
  ultimately show ?thesis by (simp add: rest_of_dump_def Let_def del: upt_Suc)
qed

lemma rest_of_dump_next:
  assumes "p + 16 < length data"
  shows "rest_of_dump data 16 p = line_break data 16 p @ rest_of_dump data 0 (p + 16)"
  using assms
  by (simp add: line_break_def rest_of_dump_def Let_def line_end_def dump_line_def dump_lines.simps [of "p + 16" "drop (p + 16) data"]
      add.commute)

lemma hexdump_loop_ok:
  assumes "k \<le> 16" "16 dvd p" "k = 0 \<longrightarrow> p = 0" "p + k \<le> length data" "data \<noteq> []"
  shows "last_line data (hexdump_loop data (p + k) k p) = Inr (rest_of_dump data k p)"
  using assms
proof (induction "length data - (p + k)" arbitrary: k p)
  case 0
  then have at_end: "length data = p + k" by simp
  then have "take 16 (drop p data) = drop p data" "take k (drop p data) = drop p data" using 0 by auto
  moreover have "hexdump_loop data (p + k) k p = (Inr ([], k), p)"
    using at_end by (subst hexdump_loop.simps) simp
  ultimately show ?case
    using ascii_loop_ok [of p k data] at_end
    by (simp add: last_line_def rest_of_dump_def line_end_def Let_def)
next
  case (Suc n)
  have less: "p + k < length data" using Suc.hyps(2) by simp
  have evn: "even p" using Suc.prems(2) by (meson dvd_trans even_numeral)
  show ?case
  proof (cases "k = 16")
    case False
    have brk: "\<not> (p + k \<noteq> 0 \<and> (p + k) mod 16 = 0)"
    proof -
      obtain m where "p = 16 * m" using Suc.prems(2) by blast
      then have "(p + k) mod 16 = k" using False Suc.prems(1) by (simp add: mod_mult_self4)
      then show ?thesis using Suc.prems(3) by auto
    qed
    have "last_line data (hexdump_loop data (p + (k + 1)) (k + 1) p) = Inr (rest_of_dump data (k + 1) p)"
      using Suc.hyps(2) Suc.prems False less by (intro Suc.hyps(1)) auto
    then show ?thesis
      using hexdump_loop_cell [OF less refl brk] rest_of_dump_cell [OF _ less evn] False Suc.prems(1)
      by (simp add: last_line_more)
  next
    case True
    let ?p = "p + 16"
    have brk: "p + k \<noteq> 0 \<and> (p + k) mod 16 = 0" using True Suc.prems(2) by auto
    have less': "?p + 0 < length data" using less True by simp
    have "last_line data (hexdump_loop data (?p + 1) 1 ?p) = Inr (rest_of_dump data 1 ?p)"
      using Suc.hyps(2) Suc.prems True less' by (intro Suc.hyps(1)) auto
    moreover have "rest_of_dump data 0 ?p = cell_at data ?p @ rest_of_dump data 1 ?p"
      using rest_of_dump_cell [OF _ less'] evn by simp
    ultimately show ?thesis
      using hexdump_loop_break [OF less refl brk] True rest_of_dump_next [of p data] less'
      by (simp add: last_line_more del: append_assoc)
  qed
qed

section \<open>Properties\<close>

text \<open>
  C35: The hex dump never reads outside of its data and prints it line by line, 16 bytes each:
  the offset in at least five digits, the bytes in pairs, and their characters, a dot for
  one that cannot be printed.
\<close>

theorem hexdump_by_lines: "hexdump data = Inr (dump_lines 0 data)"
proof (cases "data = []")
  case False
  let ?m = "hexdump_loop data 0 0 0"
  have "last_line data (bindR ?m (\<lambda>(s', k) p. (Inr ((fmt_0x 5 0 @ ''     '') @ s', k), p)))
      = Inr ((fmt_0x 5 0 @ ''     '') @ rest_of_dump data 0 0)"
    using hexdump_loop_ok [of 0 0 data] False by (subst last_line_more) simp
  moreover have "hexdump data
      = last_line data (bindR ?m (\<lambda>(s', k) p. (Inr ((fmt_0x 5 0 @ ''     '') @ s', k), p)))"
    using False by (cases ?m; cases "fst ?m") (auto simp: hexdump_def last_line_def)
  ultimately show ?thesis
    using False by (simp add: rest_of_dump_def Let_def dump_line_def dump_lines.simps [of 0 data])
qed (simp add: hexdump_def)

text \<open>
  A message is logged once or not at all: it goes to the callback for its level, or to the
  standard output where there is none, without its final newline, when the current level
  lets it pass or debugging is on.
\<close>

theorem logged_once:
  assumes "(macro, level) \<in> {(LOG_TRACE, LEVEL_TRACE), (LOG_DEBUG, LEVEL_DEBUG), (LOG_INFO, LEVEL_ERROR),
      (LOG_WARN, LEVEL_WARNING), (LOG_ERROR, LEVEL_ERROR), (LOG_FATAL, LEVEL_FATAL)}"
    and "msg \<noteq> []" "length msg < 4096" "CHR 0x00 \<notin> set msg" "CHR ''%'' \<notin> set msg"
  defines "text \<equiv> if last msg = CHR 0x0A then butlast msg else msg"
  shows "macro site msg k g =
    (Inr (), lg_emit
       (if \<not> (lg_level g \<le> level \<or> lg_enableDebugMode g) then []
        else case hook_of level (lg_hooks g) of
          Some h \<Rightarrow> [CallHook h level (ls_file site) (ls_line site) (ls_function site) text False]
        | None \<Rightarrow> [Print (log_prefix level k), Print text, Print [CHR 0x0A]]) g)"
proof -
  have plain: "printf_format s = Inr s" if "CHR ''%'' \<notin> set s" for s
    using that by (induction s) auto
  have no_pc: "CHR ''%'' \<notin> set text" using assms(5) by (auto simp: text_def dest: in_set_butlastD)
  have "level \<noteq> LEVEL_NONE" using assms(1) by auto
  then have "logprintf False site level msg k g =
    (Inr (), lg_emit (case hook_of level (lg_hooks g) of
          Some h \<Rightarrow> [CallHook h level (ls_file site) (ls_line site) (ls_function site) text False]
        | None \<Rightarrow> [Print (log_prefix level k), Print text, Print [CHR 0x0A]]) g)"
    using assms(2-4) plain [OF no_pc]
    by (simp add: logprintf_def Let_def lg_emit_def flip: text_def split: option.split)
  moreover have "macro = log_if level level False"
    using assms(1) by (auto simp: LOG_TRACE_def LOG_DEBUG_def LOG_INFO_def LOG_WARN_def LOG_ERROR_def LOG_FATAL_def)
  ultimately show ?thesis by (simp add: log_if_def currentLogLevel_def lg_emit_def)
qed

theorem logged_once_witness:
  "LOG_WARN \<lparr>ls_file = ''a.cpp'', ls_function = ''f'', ls_line = 7\<rparr> ''low'' k
     (setLogHookFunctionCallback \<lparr>hook_trace = None, hook_debug = None, hook_info = None,
        hook_warning = Some 3, hook_error = None, hook_fatal = None\<rparr> initLogger)
   = (Inr (), (setLogHookFunctionCallback \<lparr>hook_trace = None, hook_debug = None, hook_info = None,
        hook_warning = Some 3, hook_error = None, hook_fatal = None\<rparr> initLogger)
       \<lparr>lg_out := [CallHook 3 LEVEL_WARNING ''a.cpp'' 7 ''f'' ''low'' False]\<rparr>)"
  by (subst logged_once [of LOG_WARN LEVEL_WARNING])
    (simp_all add: initLogger_def setLogHookFunctionCallback_def hook_of_def lg_emit_def less_eq_LogLevel_def)

text \<open>
  With no callback installed a message is used as a format: one with a percent sign that is
  not doubled has no defined behaviour.
\<close>

theorem message_used_as_format:
  assumes "hook_of level (lg_hooks g) = None" "level \<noteq> LEVEL_NONE" "length (u @ CHR ''%'' # d # w) < 4096"
    and "CHR ''%'' \<notin> set u" "CHR 0x00 \<notin> set (u @ d # w)" "d \<noteq> CHR ''%''" "d \<noteq> CHR 0x0A"
  shows "\<exists>e g'. logprintf internal site level (u @ CHR ''%'' # d # w) k g = (Inl (Undef e), g')"
proof -
  let ?m = "u @ CHR ''%'' # d # w"
  have bad: "\<exists>e. printf_format (u @ CHR ''%'' # d # x) = Inl (Undef e)" for x
    using assms(4,6) by (induction u) auto
  have "c_str ?m = ?m" using assms(5) by (intro c_str_id) auto
  moreover have "\<exists>x. (if last ?m = CHR 0x0A then butlast ?m else ?m) = u @ CHR ''%'' # d # x"
    using assms(7) by (cases w rule: rev_cases) (auto simp: butlast_append)
  then obtain x where "(if last ?m = CHR 0x0A then butlast ?m else ?m) = u @ CHR ''%'' # d # x" by blast
  ultimately show ?thesis
    using assms(1-3) bad [of x] by (auto simp: logprintf_def Let_def simp del: last.simps butlast.simps)
qed

theorem message_used_as_format_witness:
  "\<exists>e g'. logprintf False \<lparr>ls_file = ''a.cpp'', ls_function = ''f'', ls_line = 7\<rparr> LEVEL_ERROR ''100%s'' k initLogger
     = (Inl (Undef e), g')"
  using message_used_as_format [of LEVEL_ERROR initLogger "''100''" "CHR ''s''" "[]"]
  by (simp add: initLogger_def hook_of_def)

end
