(* ===== verification/Address.thy ===== *)
theory Address
  imports Strings
begin

text \<open>
  The exception objects of \<^verbatim>\<open>Exception.h\<close>, whose message is a fixed array, and the
  addresses, \<^verbatim>\<open>BaseAddress.h\<close> and \<^verbatim>\<open>IPv4Address.h\<close>, with the accessors of the sockets
  that fill them in. A cell of an array nobody has written to is \<open>None\<close>; reading it, or
  reading past the array, is undefined.
\<close>

section \<open>Exceptions\<close>







text \<open>A C string in an array of cells: the characters in front of the first NUL.\<close>

fun read_cstr :: "char option list \<Rightarrow> exn + string" where
  "read_cstr [] = Inl (Undef ''read past the array'')"
| "read_cstr (None # cs) = Inl (Undef ''read of an uninitialised cell'')"
| "read_cstr (Some c # cs) = (if c = CHR 0x00 then Inr [] else map_sum id (Cons c) (read_cstr cs))"





section \<open>Addresses\<close>

text \<open>
  A \<open>sockaddr_in\<close> as it lies in memory: port and address in network byte order. A
  \<open>sockaddr_un\<close> has its path in an array.
\<close>

record sockaddr_in =
  sin_port :: "byte \<times> byte"
  sin_addr :: "byte \<times> byte \<times> byte \<times> byte"

record sockaddr_un =
  sun_path :: "char option list"

record ipv4_address =
  ipv4_ip :: string
  ipv4_port :: int

definition newIPv4Address :: ipv4_address where
  "newIPv4Address = \<lparr>ipv4_ip = '''', ipv4_port = 0\<rparr>"

text \<open>\<open>inet_ntoa\<close>: four decimal numbers with dots between them.\<close>

fun inet_ntoa :: "byte \<times> byte \<times> byte \<times> byte \<Rightarrow> string" where
  "inet_ntoa (a, b, c, d) =
     dec (unat a) @ ''.'' @ dec (unat b) @ ''.'' @ dec (unat c) @ ''.'' @ dec (unat d)"

fun ntohs_port :: "byte \<times> byte \<Rightarrow> int" where
  "ntohs_port (hi, lo) = 256 * uint hi + uint lo"

definition setSocketAddress_in :: "sockaddr_in \<Rightarrow> ipv4_address \<Rightarrow> ipv4_address" where
  "setSocketAddress_in sin a = a\<lparr>ipv4_ip := inet_ntoa (sin_addr sin), ipv4_port := ntohs_port (sin_port sin)\<rparr>"

definition setSocketAddress_un :: "sockaddr_un \<Rightarrow> ipv4_address \<Rightarrow> (unit, ipv4_address) res" where
  "setSocketAddress_un sun a =
     (case read_cstr (sun_path sun) of
        Inl e \<Rightarrow> (Inl e, a)
      | Inr path \<Rightarrow> (Inr (), a\<lparr>ipv4_ip := path, ipv4_port := 0\<rparr>))"

definition setSocketAddress :: "string \<Rightarrow> int \<Rightarrow> ipv4_address \<Rightarrow> ipv4_address" where
  "setSocketAddress ip port a = a\<lparr>ipv4_ip := c_str ip, ipv4_port := port\<rparr>"

definition ip :: "ipv4_address \<Rightarrow> string" where
  "ip a = c_str (ipv4_ip a)"

definition port :: "ipv4_address \<Rightarrow> int" where
  "port a = ipv4_port a"

definition address_eq :: "ipv4_address \<Rightarrow> ipv4_address \<Rightarrow> bool" where
  "address_eq a b = (if ip a = ip b \<and> port a = port b then True else False)"

definition address_neq :: "ipv4_address \<Rightarrow> ipv4_address \<Rightarrow> bool" where
  "address_neq a b = (\<not> address_eq a b)"

text \<open>
  The accessors. \<open>getpeername\<close> and \<open>getsockname\<close> fill in an address of the internet family or
  fail; their results are not looked at. A UDP socket has its last sender, which is
  uninitialised before the first datagram, and the address it is bound to.
\<close>

definition address_of_name :: "sockaddr_in option \<Rightarrow> ipv4_address \<Rightarrow> (unit, ipv4_address) res" where
  "address_of_name name a =
     (case name of
        None \<Rightarrow> (Inl (Undef ''uninitialised sockaddr_in''), a)
      | Some sin \<Rightarrow> (Inr (), setSocketAddress_in sin a))"

definition tcp_peerAddress :: "sockaddr_in option \<Rightarrow> ipv4_address \<Rightarrow> (unit, ipv4_address) res" where
  "tcp_peerAddress getpeername peerAddress = address_of_name getpeername peerAddress"

definition tcp_sockAddress :: "sockaddr_in option \<Rightarrow> ipv4_address \<Rightarrow> (unit, ipv4_address) res" where
  "tcp_sockAddress getsockname sockAddress = address_of_name getsockname sockAddress"

definition udp_peerAddress :: "sockaddr_in option \<Rightarrow> ipv4_address \<Rightarrow> (unit, ipv4_address) res" where
  "udp_peerAddress lastclient peerAddress = address_of_name lastclient peerAddress"

definition udp_sockAddress :: "sockaddr_in \<Rightarrow> ipv4_address \<Rightarrow> ipv4_address" where
  "udp_sockAddress sin sockAddress = setSocketAddress_in sin sockAddress"

section \<open>What an exception says\<close>






section \<open>When two addresses are the same\<close>

lemma dec_no_dot: "CHR ''.'' \<notin> set (dec n)"
proof (induction n rule: dec.induct)
  case (1 n)
  have "char_of (48 + n mod 10) \<noteq> CHR ''.''"
  proof
    assume "char_of (48 + n mod 10) = CHR ''.''"
    then have "of_char (char_of (48 + n mod 10) :: char) = (of_char CHR ''.'' :: nat)" by simp
    then show False by (simp add: of_char_of)
  qed
  then show ?case using 1 by (subst dec.simps) auto
qed

lemma split_at_dot:
  assumes "CHR ''.'' \<notin> set xs" "CHR ''.'' \<notin> set ys" "xs @ CHR ''.'' # us = ys @ CHR ''.'' # vs"
  shows "xs = ys \<and> us = vs"
  using assms
proof (induction xs arbitrary: ys)
  case Nil
  then show ?case by (cases ys) auto
next
  case (Cons x xs)
  then show ?case by (cases ys) auto
qed

lemma inet_ntoa_inject: "inet_ntoa a = inet_ntoa b \<longleftrightarrow> a = b"
proof
  obtain a1 a2 a3 a4 b1 b2 b3 b4 where ab: "a = (a1, a2, a3, a4)" "b = (b1, b2, b3, b4)"
    by (cases a; cases b) auto
  assume "inet_ntoa a = inet_ntoa b"
  then have "dec (unat a1) = dec (unat b1) \<and> dec (unat a2) = dec (unat b2)
      \<and> dec (unat a3) = dec (unat b3) \<and> dec (unat a4) = dec (unat b4)"
    using dec_no_dot by (auto simp: ab dest!: split_at_dot [rotated 2])
  then show "a = b" by (simp add: ab word_unat_eq_iff)
qed simp

lemma ntohs_port_inject: "ntohs_port p = ntohs_port q \<longleftrightarrow> p = q"
proof
  obtain a b c d where pq: "p = (a, b)" "q = (c, d)" by (cases p; cases q) auto
  assume "ntohs_port p = ntohs_port q"
  then have *: "256 * uint a + uint b = 256 * uint c + uint d" by (simp add: pq)
  have quot: "(256 * uint x + uint y) div 256 = uint x" for x y :: byte
    using uint_lt2p [of y] by (simp add: div_pos_pos_trivial)
  have "uint a = uint c" using arg_cong [OF *, of "\<lambda>n. n div 256"] by (simp only: quot)
  with * have "uint a = uint c \<and> uint b = uint d" by simp
  then show "p = q" by (simp add: pq word_uint_eq_iff)
qed simp

lemma inet_ntoa_no_nul: "CHR 0x00 \<notin> set (inet_ntoa a)"
proof -
  have "CHR 0x00 \<notin> set (dec n)" for n
  proof (induction n rule: dec.induct)
    case (1 n)
    have "char_of (48 + n mod 10) \<noteq> CHR 0x00"
    proof
      assume "char_of (48 + n mod 10) = CHR 0x00"
      then have "of_char (char_of (48 + n mod 10) :: char) = (of_char CHR 0x00 :: nat)" by simp
      then show False by (simp add: of_char_of)
    qed
    then show ?case using 1 by (subst dec.simps) auto
  qed
  then show ?thesis by (cases a) auto
qed

text \<open>
  Two addresses of peers compare equal exactly when host and port are the same: the text
  that is compared loses nothing of the network address, nor does the conversion of the port.
\<close>

theorem address_eq_iff_same_endpoint:
  "address_eq (setSocketAddress_in s a) (setSocketAddress_in t b) \<longleftrightarrow> s = t"
proof -
  have "address_eq (setSocketAddress_in s a) (setSocketAddress_in t b)
      \<longleftrightarrow> sin_addr s = sin_addr t \<and> sin_port s = sin_port t"
    by (simp add: address_eq_def setSocketAddress_in_def ip_def port_def inet_ntoa_no_nul
        inet_ntoa_inject ntohs_port_inject)
  then show ?thesis by (cases s; cases t) auto
qed

end
