(* ===== verification/Spec2Isabelle.thy ===== *)
theory Spec2Isabelle
  imports Controllers TcpSpec HttpSpec HttpServer Front RedisSpec JsonValid JsonShape JsonIter JsonBase64 UdpSpec Logger Address
begin

text \<open>
  A verification library for coconut, a C++ library of event-driven network components on top
  of libevent. All paths below are under \<^verbatim>\<open>src/src/\<close>, those of libjson under
  \<^verbatim>\<open>src/3rdParty/src/libjson/Source/\<close>.

  \<^bold>\<open>The program.\<close> An \<open>IOServiceContainer\<close> owns services, each an event loop with a thread. A
  server's listener hands new connections to a \<open>ServerController\<close>, which deals them out to
  the services and keeps a client controller for each; a client controller owns a socket and a
  protocol, feeds what the socket reads to the protocol, hands complete messages to the user and
  to observers, and reconnects on a timer. Calls between threads go through deferred callers.
  Beside these there are an HTTP client and server request, with a multipart form parser, and
  a Redis client.

  \<^bold>\<open>Conventions\<close> (\<open>Prelude\<close>). A class is a record with the members of the class; a method is a
  definition from the object to the object, with its result where it has one. An exception is
  a value of \<open>exn\<close>, and a result that can throw, \<open>('a, 's) res\<close>, keeps the state the code has
  changed before it throws. Undefined behaviour is the value \<open>Undef\<close>, which no handler catches.
  Machine integers are words, or integers with the conversion written out. Third-party code
  (libevent, hiredis, the resolver, system calls) and the user's handlers are arguments; the calls to them are recorded in a log in the order in which they are made.
  Mutexes leave no trace: an operation that holds one is a single step.

  \<^bold>\<open>Bytes and protocols.\<close>
  \<^item> \<open>Endian\<close>, \<open>Transport\<close>, \<open>TransportHelper\<close>, \<open>BufferCodec\<close>: \<^verbatim>\<open>BufferedTransport\<close> and the codec
    of \<^verbatim>\<open>VirtualTransportHelper.h\<close>, over the locales \<open>byte_source\<close> and \<open>byte_sink\<close>, which the
    buffers interpret. A string that is written is read back, and what is too long is not.
  \<^item> \<open>Store\<close>, \<open>Protocol\<close>, \<open>ProtocolWrite\<close>: \<^verbatim>\<open>BaseProtocol\<close>, \<^verbatim>\<open>FrameProtocol\<close>,
    \<^verbatim>\<open>LineProtocol\<close>, \<^verbatim>\<open>StringListProtocol\<close> and \<^verbatim>\<open>FileDescriptorProtocol\<close>, one datatype
    with their buffers in a store. \<open>FrameProofs\<close>, \<open>FrameSpec\<close> and \<open>DecoratorSpec\<close>: round trips,
    reading in pieces, replies, and the inputs on which a parser loses data.
  \<^item> \<open>Json\<close>, \<open>JsonSpec\<close>: \<^verbatim>\<open>JSONProtocol.cpp\<close>, \<^verbatim>\<open>JSONController.cpp\<close> and libjson's stream.
    The round trip is for documents with balanced brackets and strings without quotes, in pieces
    on which the check of an incomplete text does not read behind its end.
  \<^item> \<open>JsonScan\<close>, \<open>JsonText\<close>, \<open>JsonNode\<close>, \<open>JsonValidator\<close>: libjson, which is bundled with coconut:
    \<^verbatim>\<open>JSONWorker.cpp\<close>, \<^verbatim>\<open>internalJSONNode.cpp\<close>, \<^verbatim>\<open>JSONWriter.cpp\<close>, \<^verbatim>\<open>JSONValidator.cpp\<close>, in
    the configuration of \<^verbatim>\<open>JSONOptions.h\<close>. Numbers are the texts they are read from.
    \<open>JsonTree\<close>, \<open>JsonRead\<close>: a value that is built, written and sent is the value that is read.
    \<open>JsonShape\<close>: the shape of every tree that is read, whatever the text was. \<open>JsonClean\<close>,
    \<open>JsonValid\<close>: what is written passes libjson's own checks, up to its limit of nesting, and texts
    that make a check read behind their end.
  \<^item> \<open>JsonOps\<close>, \<open>JsonBase64\<close>: copies, casts, equality and look-ups without case of libjson's nodes,
    and \<^verbatim>\<open>JSON_Base64.cpp\<close>. \<open>JsonChildren\<close>: \<^verbatim>\<open>JSONChildren.cpp\<close>, the array of a node's children
    with its memory, and its refinement of a list; \<open>JsonIter\<close>: \<^verbatim>\<open>JSONIterators.cpp\<close> over that list.
  \<^item> \<open>Kbuffer\<close>, \<open>KbufferProofs\<close>: \<^verbatim>\<open>dep/kbuffer.c\<close>, the write buffer with an explicit heap of
    doubly linked chunks, and its refinement of a queue of bytes.

  \<^bold>\<open>Sockets and controllers.\<close>
  \<^item> \<open>TcpSocket\<close>, \<open>TcpSpec\<close>: \<^verbatim>\<open>LibeventTcpSocketImpl.h\<close>, the reachable states and what is
    sent; the sockets use the write buffer through its queue refinement.
  \<^item> \<open>Udp\<close>, \<open>UdpSpec\<close>: \<^verbatim>\<open>LibeventUdpSocketImpl.h\<close> with the resolver,
    \<^verbatim>\<open>LibeventDNSResolverImpl.h\<close>, and the listener: the life of the contexts they allocate.
  \<^item> \<open>ClientController\<close>, \<open>ClientSpec\<close>, \<open>Controllers\<close>: \<^verbatim>\<open>ClientController.cpp\<close> and the frame,
    line and descriptor controllers: delivery of a stream of frames, and reconnecting.
  \<^item> \<open>Timers\<close>: \<^verbatim>\<open>LibeventTimerImpl.h\<close>, used by the controllers and the Redis client.
  \<^item> \<open>Events\<close>: the observers of \<^verbatim>\<open>BaseControllerEvent\<close>, over the locale \<open>registry\<close>, which
    both kinds of registry interpret.
  \<^item> \<open>Server\<close>: \<^verbatim>\<open>ServerController.cpp\<close>, with an invariant over its reachable states.
  \<^item> \<open>Deferred\<close>: \<^verbatim>\<open>DeferredCallerImpl.h\<close>, \<^verbatim>\<open>IOServiceImpl.h\<close> and their libevent parts.
    \<open>Container\<close>: \<^verbatim>\<open>IOServiceContainer.cpp\<close> and the key maker of \<^verbatim>\<open>IOService.cpp\<close>.

  \<^bold>\<open>Nodes put together.\<close>
  \<^item> \<open>EndToEnd\<close>: two controllers and their sockets with the network between them; what the one
    writes the other delivers.
  \<^item> \<open>Wiring\<close>: \<^verbatim>\<open>NetworkHelper.cpp\<close> and the dispatch of \<^verbatim>\<open>BaseSocket.cpp\<close>: a client
    controller with its socket and its reconnect timer as one transition system.
  \<^item> \<open>Front\<close>: a server with its container of services, its listener and the sockets of its
    clients, and a controller bound to a datagram socket.

  \<^bold>\<open>HTTP and Redis.\<close>
  \<^item> \<open>Strings\<close>: the C++ string functions they use.
  \<^item> \<open>Mpfd\<close>, \<open>MpfdSpec\<close>: the form parser, \<^verbatim>\<open>dep/MPFDParser\<close>. \<open>HttpClient\<close>, \<open>HttpRequest\<close>,
    \<open>HttpSpec\<close>: \<^verbatim>\<open>LibeventHttpClientImpl.h\<close>, \<^verbatim>\<open>LibeventHttpRequestImpl.h\<close> and the classes
    in front of them, and the round trip of a form between them.
  \<^item> \<open>HttpServer\<close>: \<^verbatim>\<open>HttpServer.cpp\<close>, \<^verbatim>\<open>LibeventHttpServerImpl.h\<close> and the life of its requests, with
    and without the patched libevent that tells when it frees one.
  \<^item> \<open>Redis\<close>, \<open>RedisSpec\<close>: \<^verbatim>\<open>RedisRequest.cpp\<close> and \<^verbatim>\<open>RedisResponse.cpp\<close>: every command is
    answered at most once, time limits, and the words of a command line.

  \<^bold>\<open>Helpers.\<close> \<open>Logger\<close>: \<^verbatim>\<open>Logger.cpp\<close> and its macros, and what a hex dump looks like.
  \<open>Address\<close>: \<^verbatim>\<open>Exception.h\<close> and \<^verbatim>\<open>IPv4Address.h\<close>, with uninitialised memory as a value.

  \<^bold>\<open>Loops.\<close> A loop that need not end is a partial function with an option as its value:
  \<open>read_loop\<close> of the client controller, \<open>drain_loop\<close> and \<open>free_loop\<close> of the write buffer,
  \<open>fire_loop\<close> of the deferred caller, \<open>json_read_loop\<close>, and \<open>grow_loop\<close> of a node's children. None
  means that it does not return, and the theorems about them say that they return, or when they
  do not. The other loops are functions proved total. No fuel is used.

  \<^bold>\<open>Bounds.\<close> The hypotheses on sizes keep buffers below 2 GB, where the code stores sizes in
  \<open>int\<close>, and the ticket and round robin counters below their wrap-around; what happens beyond
  is a theorem or a finding where it matters.

  \<^bold>\<open>Not modelled.\<close> The stack trace; the factories and allocators; the Windows branches; data races,
  since an operation under a lock is one step (the findings name the places where a lock is
  missing); of libjson floating point and the reference counts, which make a node a
  value, and the parts its options leave out of the build (the C interface \<^verbatim>\<open>libjson.cpp\<close>,
  \<^verbatim>\<open>JSONPreparse.cpp\<close>, the memory pool); the other third-party code; examples and tests.
\<close>

end
